(* ===== verification/Prelude.thy ===== *)
theory Prelude
  imports Main "HOL-Library.Word" "HOL-Library.Multiset"
begin

text \<open>
  Shared vocabulary of the development: the exceptions the Python code raises, programs that
  thread a state and may raise, the string and list operations of the Python standard library
  the sources call, and the generic lemmas the components share.

  A Python \<^verbatim>\<open>str\<close> is a \<open>string\<close>, one \<open>char\<close> per code point below 256; Python's unbounded
  integers are \<open>int\<close>; \<^verbatim>\<open>bytes\<close> is a list of \<open>8 word\<close>.  Messages of exceptions are Russian in
  the sources, so the model carries a short ASCII tag instead of the message, except for the
  English details of \<^verbatim>\<open>HTTPException\<close>, which are kept.
\<close>

section \<open>Exceptions and effectful programs\<close>

datatype exn =
    RuntimeError string
  | ValueError string
  | KeyError string
  | TypeError string
  | IndexError
  | AttributeError string
  | SystemExit string
  | HTTPException int string
  | PostgresError string
  | RedisError string
  | AmqpError string
  | ConnectionError string
  | FileNotFoundError string
  | CsvError string
  | OverflowError string

type_synonym 'a res = "exn + 'a"

text \<open>A program runs on a state and either raises or returns.  The state survives an exception,
  because effects that happened before a raise stay: a written row stays written.\<close>

type_synonym ('s, 'a) prog = "'s \<Rightarrow> 'a res \<times> 's"

named_theorems prog_simps \<open>unfolding rules of the program combinators\<close>

definition returnP :: "'a \<Rightarrow> ('s, 'a) prog" where
  "returnP x s = (Inr x, s)"

definition raiseP :: "exn \<Rightarrow> ('s, 'a) prog" where
  "raiseP e s = (Inl e, s)"

definition bindP :: "('s, 'a) prog \<Rightarrow> ('a \<Rightarrow> ('s, 'b) prog) \<Rightarrow> ('s, 'b) prog" where
  "bindP m f s = (case m s of (Inl e, s') \<Rightarrow> (Inl e, s') | (Inr x, s') \<Rightarrow> f x s')"

text \<open>\<^verbatim>\<open>for x in xs: await f(x)\<close>, stopping at the first exception.\<close>

fun forP :: "'a list \<Rightarrow> ('a \<Rightarrow> ('s, unit) prog) \<Rightarrow> ('s, unit) prog" where
  "forP [] f s = (Inr (), s)"
| "forP (x # xs) f s = (case f x s of (Inl e, s') \<Rightarrow> (Inl e, s') | (Inr _, s') \<Rightarrow> forP xs f s')"

text \<open>\<^verbatim>\<open>try: m finally: fin\<close>: \<open>fin\<close> runs in both cases, and its own exception wins.\<close>

definition finallyP :: "('s, 'a) prog \<Rightarrow> ('s, unit) prog \<Rightarrow> ('s, 'a) prog" where
  "finallyP m fin s =
     (case m s of (r, s') \<Rightarrow>
        (case fin s' of (Inl e, s'') \<Rightarrow> (Inl e, s'') | (Inr _, s'') \<Rightarrow> (r, s'')))"

text \<open>\<^verbatim>\<open>try: m except Exception as exc: h(exc)\<close>.\<close>

definition exceptP :: "('s, 'a) prog \<Rightarrow> (exn \<Rightarrow> ('s, 'a) prog) \<Rightarrow> ('s, 'a) prog" where
  "exceptP m h s = (case m s of (Inl e, s') \<Rightarrow> h e s' | (Inr x, s') \<Rightarrow> (Inr x, s'))"

declare returnP_def [prog_simps] raiseP_def [prog_simps] bindP_def [prog_simps]
  finallyP_def [prog_simps] exceptP_def [prog_simps]

lemma bindP_Inr [simp]: "m s = (Inr x, s') \<Longrightarrow> bindP m f s = f x s'"
  by (simp add: bindP_def)

lemma bindP_Inl [simp]: "m s = (Inl e, s') \<Longrightarrow> bindP m f s = (Inl e, s')"
  by (simp add: bindP_def)

lemma bindP_InrE:
  assumes "bindP m f s = (Inr y, t)"
  obtains x s' where "m s = (Inr x, s')" and "f x s' = (Inr y, t)"
  using assms by (auto simp: bindP_def split: prod.splits sum.splits)

lemma returnP_apply [simp]: "returnP x s = (Inr x, s)"
  by (simp add: returnP_def)

lemma raiseP_apply [simp]: "raiseP e s = (Inl e, s)"
  by (simp add: raiseP_def)

lemma forP_append: "forP (xs @ ys) f s = bindP (forP xs f) (\<lambda>_. forP ys f) s"
  by (induction xs arbitrary: s) (auto simp: bindP_def split: prod.splits sum.splits)

text \<open>A loop whose body always returns is a fold over the states.\<close>

lemma forP_total:
  assumes "\<And>x s. x \<in> set xs \<Longrightarrow> f x s = (Inr (), g x s)"
  shows "forP xs f s = (Inr (), fold g xs s)"
  using assms by (induction xs arbitrary: s) auto

lemma fold_invariant:
  assumes "P s" and "\<And>x s. x \<in> set xs \<Longrightarrow> P s \<Longrightarrow> P (f x s)"
  shows "P (fold f xs s)"
  using assms by (induction xs arbitrary: s) auto

section \<open>Python strings and lists\<close>

text \<open>\<^verbatim>\<open>str.isspace\<close> on code points below 256.\<close>

definition py_space :: "char \<Rightarrow> bool" where
  "py_space c \<longleftrightarrow> (let n = of_char c :: nat in
     n \<in> set [32, 9, 10, 11, 12, 13, 28, 29, 30, 31, 133, 160])"

definition py_lstrip :: "string \<Rightarrow> string" where
  "py_lstrip = dropWhile py_space"

definition py_strip :: "string \<Rightarrow> string" where
  "py_strip s = rev (py_lstrip (rev (py_lstrip s)))"

text \<open>\<^verbatim>\<open>s.split(sep)\<close> for a one-character separator: never empty.\<close>

fun py_split :: "char \<Rightarrow> string \<Rightarrow> string list" where
  "py_split c [] = [[]]"
| "py_split c (x # xs) =
     (if x = c then [] # py_split c xs
      else (case py_split c xs of [] \<Rightarrow> [[x]] | y # ys \<Rightarrow> (x # y) # ys))"

text \<open>\<^verbatim>\<open>xs[a:b]\<close> for \<open>0 \<le> a \<le> b\<close>.\<close>

definition py_slice :: "nat \<Rightarrow> nat \<Rightarrow> 'a list \<Rightarrow> 'a list" where
  "py_slice a b xs = take (b - a) (drop a xs)"

lemma py_split_nonempty [simp]: "py_split c s \<noteq> []"
  by (induction s) (auto split: list.splits)

lemma py_split_no_sep: "c \<notin> set s \<Longrightarrow> py_split c s = [s]"
  by (induction s) auto

lemma py_split_append:
  "c \<notin> set s \<Longrightarrow> py_split c (s @ c # t) = s # py_split c t"
  by (induction s) auto

lemma py_split_parts_no_sep: "p \<in> set (py_split c s) \<Longrightarrow> c \<notin> set p"
  by (induction s arbitrary: p) (fastforce split: if_splits list.splits)+

text \<open>\<^verbatim>\<open>str(n)\<close> of a natural number.\<close>

fun nat_str :: "nat \<Rightarrow> string" where
  "nat_str n = (if n < 10 then [char_of (48 + n)] else nat_str (n div 10) @ [char_of (48 + n mod 10)])"

declare nat_str.simps [simp del]

definition int_str :: "int \<Rightarrow> string" where
  "int_str n = (if n < 0 then CHR ''-'' # nat_str (nat (- n)) else nat_str (nat n))"

text \<open>\<^verbatim>\<open>s.lower()\<close> on ASCII letters.\<close>

definition py_lower :: "string \<Rightarrow> string" where
  "py_lower = map (\<lambda>c. let n = of_char c :: nat in if 65 \<le> n \<and> n \<le> 90 then char_of (n + 32) else c)"

section \<open>Big-endian digits\<close>

text \<open>The \<open>k\<close> base-\<open>b\<close> digits of \<open>n\<close>, most significant first, and the number a digit list
  stands for: \<^verbatim>\<open>int.to_bytes(k, "big")\<close>, \<^verbatim>\<open>int.from_bytes(bs, "big")\<close> and hexadecimal numerals
  are instances.\<close>

definition be_digits :: "int \<Rightarrow> nat \<Rightarrow> int \<Rightarrow> int list" where
  "be_digits b k n = map (\<lambda>i. n div b ^ i mod b) (rev [0..<k])"

definition be_value :: "int \<Rightarrow> int list \<Rightarrow> int" where
  "be_value b ds = foldl (\<lambda>a d. a * b + d) 0 ds"

lemma length_be_digits [simp]: "length (be_digits b k n) = k"
  by (simp add: be_digits_def)

lemma be_digits_Suc: "be_digits b (Suc k) n = (n div b ^ k mod b) # be_digits b k n"
  by (simp add: be_digits_def)

lemma be_digits_range: "0 < b \<Longrightarrow> d \<in> set (be_digits b k n) \<Longrightarrow> 0 \<le> d \<and> d < b"
  by (auto simp: be_digits_def)

lemma foldl_be: "foldl (\<lambda>a d. a * b + d) c ds = c * b ^ length ds + be_value b ds"
  for b c :: int
proof (induction ds arbitrary: c)
  case Nil
  then show ?case by (simp add: be_value_def)
next
  case (Cons d ds)
  have "be_value b (d # ds) = d * b ^ length ds + be_value b ds"
    using Cons.IH [of d] by (simp add: be_value_def)
  then show ?case
    using Cons.IH [of "c * b + d"] by (simp add: algebra_simps)
qed

lemma be_value_Cons: "be_value b (d # ds) = d * b ^ length ds + be_value b ds"
  using foldl_be [of b d ds] by (simp add: be_value_def)

lemma be_value_Nil [simp]: "be_value b [] = 0"
  by (simp add: be_value_def)

lemma be_value_digits: "0 < b \<Longrightarrow> be_value b (be_digits b k n) = n mod b ^ k"
proof (induction k)
  case 0
  then show ?case by (simp add: be_digits_def)
next
  case (Suc k)
  have "n mod (b ^ k * b) = b ^ k * (n div b ^ k mod b) + n mod b ^ k"
    using Suc.prems by (intro zmod_zmult2_eq) simp
  then show ?case
    using Suc by (simp add: be_digits_Suc be_value_Cons mult.commute)
qed

lemma be_value_range:
  "\<forall>d \<in> set ds. 0 \<le> d \<and> d < b \<Longrightarrow> 0 \<le> be_value b ds \<and> be_value b ds < b ^ length ds"
proof (induction ds)
  case Nil
  then show ?case by simp
next
  case (Cons d ds)
  then have IH: "0 \<le> be_value b ds" "be_value b ds < b ^ length ds"
    and d: "0 \<le> d" "d + 1 \<le> b" by auto
  have "(d + 1) * b ^ length ds \<le> b * b ^ length ds"
    using d by (intro mult_right_mono) auto
  moreover have "0 \<le> d * b ^ length ds" using d by simp
  ultimately show ?case using IH by (simp add: be_value_Cons algebra_simps)
qed

section \<open>Generic list lemmas\<close>

lemma filter_map_fst_unique:
  assumes "distinct (map f xs)" and "x \<in> set xs" and "y \<in> set xs" and "f x = f y"
  shows "x = y"
  using assms by (auto simp: distinct_map inj_on_def)

lemma distinct_map_filter: "distinct (map f xs) \<Longrightarrow> distinct (map f (filter P xs))"
  by (auto simp: distinct_map inj_on_def)

lemma sort_key_map: "sort_key f (map h xs) = map h (sort_key (f \<circ> h) xs)"
proof -
  have "insort_key f (h x) (map h zs) = map h (insort_key (f \<circ> h) x zs)" for x zs
    by (induction zs) auto
  then show ?thesis by (induction xs) auto
qed

section \<open>Results\<close>

text \<open>A result as a program, and the composition of results.\<close>

definition liftP :: "'a res \<Rightarrow> ('s, 'a) prog" where
  "liftP x s = (x, s)"

definition bindR :: "'a res \<Rightarrow> ('a \<Rightarrow> 'b res) \<Rightarrow> 'b res" where
  "bindR x f = (case x of Inl e \<Rightarrow> Inl e | Inr v \<Rightarrow> f v)"

text \<open>A comprehension whose element expression may raise, and \<^verbatim>\<open>zip(.., strict=True)\<close>.\<close>

fun map_res :: "('a \<Rightarrow> 'b res) \<Rightarrow> 'a list \<Rightarrow> 'b list res" where
  "map_res f [] = Inr []"
| "map_res f (x # xs) =
     (case f x of Inl e \<Rightarrow> Inl e | Inr y \<Rightarrow> (case map_res f xs of Inl e \<Rightarrow> Inl e | Inr ys \<Rightarrow> Inr (y # ys)))"

definition zip_strict :: "'a list \<Rightarrow> 'b list \<Rightarrow> ('a \<times> 'b) list res" where
  "zip_strict xs ys =
     (if length xs = length ys then Inr (zip xs ys) else Inl (ValueError ''zip arguments of different length''))"

lemma map_res_Inr: "(\<And>x. x \<in> set xs \<Longrightarrow> f x = Inr (g x)) \<Longrightarrow> map_res f xs = Inr (map g xs)"
  by (induction xs) auto

lemma map_res_map_Inr: "(\<And>x. x \<in> set xs \<Longrightarrow> f (g x) = Inr (h x)) \<Longrightarrow> map_res f (map g xs) = Inr (map h xs)"
  by (induction xs) auto

lemma liftP_apply [simp]: "liftP x s = (x, s)"
  by (simp add: liftP_def)

end
