(* ===== verification/Uuid.thy ===== *)
theory Uuid
  imports Prelude
begin

text \<open>
  The parts of Python's \<^verbatim>\<open>uuid.UUID\<close> the sources use: a UUID is a 128-bit value; \<^verbatim>\<open>.int\<close> and
  \<^verbatim>\<open>.bytes\<close> read it, \<^verbatim>\<open>str(u)\<close> prints it as 8-4-4-4-12 lower-case hexadecimal digits, and
  \<^verbatim>\<open>UUID(s)\<close> parses a string or raises \<^verbatim>\<open>ValueError\<close>.  Parsing follows the standard library:
  \<^verbatim>\<open>urn:\<close> and \<^verbatim>\<open>uuid:\<close> are removed, braces are stripped at both ends, dashes are removed, exactly
  32 characters must remain, and \<^verbatim>\<open>int(hex, 16)\<close> reads them (which tolerates surrounding
  whitespace, a sign, a \<^verbatim>\<open>0x\<close> prefix and single underscores).
\<close>

type_synonym uuid = "128 word"
type_synonym byte = "8 word"

definition uuid_int :: "uuid \<Rightarrow> int" where
  "uuid_int u = uint u"

definition uuid_bytes :: "uuid \<Rightarrow> byte list" where
  "uuid_bytes u = map of_int (be_digits 256 16 (uuid_int u))"

definition hex_char :: "int \<Rightarrow> char" where
  "hex_char d = ''0123456789abcdef'' ! nat d"

definition hex_value :: "char \<Rightarrow> int option" where
  "hex_value c = (let n = of_char c :: int in
     if 48 \<le> n \<and> n \<le> 57 then Some (n - 48)
     else if 97 \<le> n \<and> n \<le> 102 then Some (n - 87)
     else if 65 \<le> n \<and> n \<le> 70 then Some (n - 55)
     else None)"

definition uuid_hex :: "uuid \<Rightarrow> string" where
  "uuid_hex u = map hex_char (be_digits 16 32 (uuid_int u))"

definition uuid_str :: "uuid \<Rightarrow> string" where
  "uuid_str u = (let h = uuid_hex u in
     take 8 h @ ''-'' @ take 4 (drop 8 h) @ ''-'' @ take 4 (drop 12 h) @ ''-''
       @ take 4 (drop 16 h) @ ''-'' @ drop 20 h)"

text \<open>\<^verbatim>\<open>s.replace(pat, "")\<close> for a non-empty pattern: non-overlapping occurrences, left to right.
  The first argument counts the characters of a found occurrence still to be dropped.\<close>

fun py_remove_from :: "nat \<Rightarrow> string \<Rightarrow> string \<Rightarrow> string" where
  "py_remove_from k pat [] = []"
| "py_remove_from (Suc k) pat (c # s) = py_remove_from k pat s"
| "py_remove_from 0 pat (c # s) =
     (if take (length pat) (c # s) = pat then py_remove_from (length pat - 1) pat s
      else c # py_remove_from 0 pat s)"

definition py_remove :: "string \<Rightarrow> string \<Rightarrow> string" where
  "py_remove pat s = py_remove_from 0 pat s"

text \<open>\<^verbatim>\<open>s.strip("{}")\<close>.\<close>

definition strip_braces :: "string \<Rightarrow> string" where
  "strip_braces s =
     rev (dropWhile (\<lambda>c. c \<in> set ''{}'') (rev (dropWhile (\<lambda>c. c \<in> set ''{}'') s)))"

text \<open>The digits of \<^verbatim>\<open>int(s, 16)\<close>: single underscores may separate digits, but neither start
  nor end the numeral nor repeat.  The flag says whether the previous character was a digit.\<close>

fun hex_digits_us :: "bool \<Rightarrow> string \<Rightarrow> int list option" where
  "hex_digits_us prev_digit [] = (if prev_digit then Some [] else None)"
| "hex_digits_us prev_digit (c # s) =
     (if c = CHR ''_'' then (if prev_digit then hex_digits_us False s else None)
      else (case hex_value c of None \<Rightarrow> None
        | Some d \<Rightarrow> (case hex_digits_us True s of None \<Rightarrow> None | Some ds \<Rightarrow> Some (d # ds))))"

definition strip_0x :: "string \<Rightarrow> string" where
  "strip_0x s =
     (if take 2 s = ''0x'' \<or> take 2 s = ''0X''
      then (let r = drop 2 s in if take 1 r = ''_'' then drop 1 r else r) else s)"

definition py_int16 :: "string \<Rightarrow> int option" where
  "py_int16 s0 =
     (let s = py_strip s0;
          neg = (take 1 s = ''-'');
          s1 = (if take 1 s = ''-'' \<or> take 1 s = ''+'' then drop 1 s else s)
      in case hex_digits_us False (strip_0x s1) of None \<Rightarrow> None
         | Some ds \<Rightarrow> Some (if neg then - be_value 16 ds else be_value 16 ds))"

definition UUID :: "string \<Rightarrow> uuid res" where
  "UUID s =
     (let h = py_remove ''-'' (strip_braces (py_remove ''uuid:'' (py_remove ''urn:'' s)))
      in if length h \<noteq> 32 then Inl (ValueError ''badly formed hexadecimal UUID string'')
         else (case py_int16 h of
             None \<Rightarrow> Inl (ValueError ''invalid literal for int() with base 16'')
           | Some n \<Rightarrow> if 0 \<le> n \<and> n < 2 ^ 128 then Inr (of_int n)
                      else Inl (ValueError ''int is out of range (need a 128-bit value)'')))"

section \<open>Printing\<close>

lemma length_uuid_bytes [simp]: "length (uuid_bytes u) = 16"
  by (simp add: uuid_bytes_def)

lemma length_uuid_hex [simp]: "length (uuid_hex u) = 32"
  by (simp add: uuid_hex_def)

lemma be_digits_inj:
  assumes "be_digits b k m = be_digits b k n" and "0 < b"
    and "0 \<le> m" "m < b ^ k" and "0 \<le> n" "n < b ^ k"
  shows "m = n"
  by (metis assms be_value_digits mod_pos_pos_trivial)

lemma uuid_int_range: "0 \<le> uuid_int u" "uuid_int u < 2 ^ 128"
  using unsigned_greater_eq [of u] unsigned_less [of u] by (simp_all add: uuid_int_def)

lemma uuid_int_inj: "uuid_int u = uuid_int v \<longleftrightarrow> u = v"
  by (simp add: uuid_int_def word_uint_eq_iff)

lemma of_int_uuid_int: "of_int (uuid_int u) = u"
  by (simp add: uuid_int_def)

lemma map_of_int_byte_inj:
  fixes xs ys :: "int list"
  assumes "map (of_int :: int \<Rightarrow> byte) xs = map of_int ys"
    and "\<forall>x \<in> set xs. 0 \<le> x \<and> x < 256" and "\<forall>y \<in> set ys. 0 \<le> y \<and> y < 256"
  shows "xs = ys"
proof -
  have "map uint (map (of_int :: int \<Rightarrow> byte) xs) = xs"
    if "\<forall>x \<in> set xs. 0 \<le> x \<and> x < 256" for xs
    using that by (induction xs) (auto simp: uint_word_of_int)
  then show ?thesis using assms by metis
qed

lemma uuid_bytes_inj: "uuid_bytes u = uuid_bytes v \<Longrightarrow> u = v"
proof -
  assume "uuid_bytes u = uuid_bytes v"
  then have "be_digits 256 16 (uuid_int u) = be_digits 256 16 (uuid_int v)"
    unfolding uuid_bytes_def
    by (rule map_of_int_byte_inj) (use be_digits_range [of 256] in auto)
  then have "uuid_int u = uuid_int v"
    by (rule be_digits_inj) (use uuid_int_range in auto)
  then show "u = v" by (simp add: uuid_int_inj)
qed

definition plain_hex :: "char \<Rightarrow> bool" where
  "plain_hex c \<longleftrightarrow> c \<in> set ''0123456789abcdef''"

lemma hex_char_cases:
  assumes "0 \<le> d \<and> d < 16"
  shows "hex_value (hex_char d) = Some d \<and> plain_hex (hex_char d)"
proof -
  from assms have "d \<in> set [0..15]" by simp
  moreover have "list_all (\<lambda>d. hex_value (hex_char d) = Some d \<and> plain_hex (hex_char d)) [0..15]"
    by code_simp
  ultimately show ?thesis by (auto simp: list_all_iff)
qed

lemma plain_hex_uuid_hex: "c \<in> set (uuid_hex u) \<Longrightarrow> plain_hex c"
  using be_digits_range [of 16] hex_char_cases by (auto simp: uuid_hex_def)

section \<open>Parsing what was printed\<close>

lemma py_remove_absent: "pat \<noteq> [] \<Longrightarrow> hd pat \<notin> set s \<Longrightarrow> py_remove pat s = s"
proof (induction s)
  case Nil
  then show ?case by (simp add: py_remove_def)
next
  case (Cons c s)
  then have "take (length pat) (c # s) \<noteq> pat"
    by (cases pat) auto
  with Cons show ?case by (simp add: py_remove_def)
qed

lemma py_remove_char: "py_remove [c] s = filter (\<lambda>x. x \<noteq> c) s"
  by (induction s) (auto simp: py_remove_def)

lemma dropWhile_none: "\<forall>x \<in> set xs. \<not> P x \<Longrightarrow> dropWhile P xs = xs"
  by (cases xs) auto

lemma strip_braces_absent: "\<forall>c \<in> set s. c \<notin> set ''{}'' \<Longrightarrow> strip_braces s = s"
  by (simp add: strip_braces_def dropWhile_none)

lemma plain_hex_props:
  assumes "plain_hex c"
  shows "\<not> py_space c" and "c \<noteq> CHR ''-''" and "c \<noteq> CHR ''+''" and "c \<noteq> CHR ''x''"
    and "c \<noteq> CHR ''X''" and "c \<noteq> CHR ''_''" and "c \<noteq> CHR ''u''" and "c \<noteq> CHR ''.''"
    and "c \<noteq> CHR ''{''" and "c \<noteq> CHR ''}''" and "c \<noteq> CHR '':''"
  using assms by (auto simp: plain_hex_def py_space_def)

lemma hex_digits_us_plain:
  assumes "\<forall>d \<in> set ds. 0 \<le> d \<and> d < 16" and "b \<or> ds \<noteq> []"
  shows "hex_digits_us b (map hex_char ds) = Some ds"
  using assms
proof (induction ds arbitrary: b)
  case (Cons d ds)
  then have "hex_value (hex_char d) = Some d" and "hex_char d \<noteq> CHR ''_''"
    using hex_char_cases [of d] plain_hex_props by auto
  with Cons show ?case by simp
qed simp

lemma py_int16_uuid_hex: "py_int16 (uuid_hex u) = Some (uuid_int u)"
proof -
  let ?h = "uuid_hex u"
  have plain: "\<forall>c \<in> set ?h. plain_hex c" using plain_hex_uuid_hex by blast
  then have strip: "py_strip ?h = ?h"
    by (simp add: py_strip_def py_lstrip_def dropWhile_none plain_hex_props(1))
  obtain a b t where h: "?h = a # b # t"
    using length_uuid_hex [of u] by (cases "uuid_hex u"; cases "tl (uuid_hex u)") auto
  from plain h have ab: "plain_hex a" "plain_hex b" by auto
  have "hex_digits_us False ?h = Some (be_digits 16 32 (uuid_int u))"
    unfolding uuid_hex_def
  proof (rule hex_digits_us_plain)
    show "\<forall>d \<in> set (be_digits 16 32 (uuid_int u)). 0 \<le> d \<and> d < 16"
      using be_digits_range [of 16 _ 32 "uuid_int u"] by simp
    show "False \<or> be_digits 16 32 (uuid_int u) \<noteq> []"
      using length_be_digits [of 16 32 "uuid_int u"] by (metis length_0_conv zero_neq_numeral)
  qed
  moreover have "be_value 16 (be_digits 16 32 (uuid_int u)) = uuid_int u"
    using uuid_int_range [of u] by (simp add: be_value_digits)
  moreover have "strip_0x ?h = ?h" and "take 1 ?h \<noteq> ''-''" and "take 1 ?h \<noteq> ''+''"
    using ab h plain_hex_props by (auto simp: strip_0x_def)
  ultimately show ?thesis
    by (simp add: py_int16_def strip)
qed

lemma uuid_str_chars: "c \<in> set (uuid_str u) \<Longrightarrow> plain_hex c \<or> c = CHR ''-''"
  using plain_hex_uuid_hex [of _ u]
  by (auto simp: uuid_str_def Let_def dest: in_set_takeD in_set_dropD)

lemma filter_dash_uuid_str: "filter (\<lambda>x. x \<noteq> CHR ''-'') (uuid_str u) = uuid_hex u"
proof -
  let ?h = "uuid_hex u"
  have keep: "filter (\<lambda>x. x \<noteq> CHR ''-'') xs = xs" if "set xs \<subseteq> set ?h" for xs
    using that plain_hex_uuid_hex plain_hex_props(2) by (auto intro!: filter_True)
  have parts: "set (take 8 ?h) \<subseteq> set ?h" "set (take 4 (drop 8 ?h)) \<subseteq> set ?h"
    "set (take 4 (drop 12 ?h)) \<subseteq> set ?h" "set (take 4 (drop 16 ?h)) \<subseteq> set ?h"
    "set (drop 20 ?h) \<subseteq> set ?h"
    by (auto dest: in_set_takeD in_set_dropD)
  have step: "take m (drop n ?h) @ drop (n + m) ?h = drop n ?h" for m n
    by (metis add.commute append_take_drop_id drop_drop)
  have join: "take 8 ?h @ take 4 (drop 8 ?h) @ take 4 (drop 12 ?h) @ take 4 (drop 16 ?h)
      @ drop 20 ?h = ?h"
    using step [of 4 16] step [of 4 12] step [of 4 8] by simp
  show ?thesis
    using join by (simp add: uuid_str_def Let_def keep parts)
qed

lemma UUID_str: "UUID (uuid_str u) = Inr u"
proof -
  have chars: "\<forall>c \<in> set (uuid_str u). plain_hex c \<or> c = CHR ''-''"
    using uuid_str_chars by blast
  have "py_remove ''urn:'' (uuid_str u) = uuid_str u"
    using chars plain_hex_props(7) by (intro py_remove_absent) auto
  moreover have "py_remove ''uuid:'' (uuid_str u) = uuid_str u"
    using chars plain_hex_props(7) by (intro py_remove_absent) auto
  moreover have "strip_braces (uuid_str u) = uuid_str u"
  proof (rule strip_braces_absent, rule ballI)
    fix c assume "c \<in> set (uuid_str u)"
    then have "plain_hex c \<or> c = CHR ''-''" by (rule uuid_str_chars)
    then show "c \<notin> set ''{}''" by (auto simp: plain_hex_def)
  qed
  ultimately show ?thesis
    using uuid_int_range [of u]
    by (simp add: UUID_def py_remove_char filter_dash_uuid_str py_int16_uuid_hex
        of_int_uuid_int)
qed

lemma uuid_str_inj: "uuid_str u = uuid_str v \<longleftrightarrow> u = v"
  by (metis UUID_str sum.inject(2))

lemma uuid_str_no_special:
  "CHR ''.'' \<notin> set (uuid_str u)" "CHR '':'' \<notin> set (uuid_str u)"
  using uuid_str_chars plain_hex_props(8,11) by fastforce+

lemma length_uuid_str: "length (uuid_str u) = 36"
  by (simp add: uuid_str_def uuid_hex_def py_slice_def Let_def)

end
