(* ===== verification/Sha256.thy ===== *)
theory Sha256
  imports Uuid
begin

text \<open>
  \<^verbatim>\<open>hashlib.sha256(payload).digest()\<close>: the SHA-256 function of FIPS 180-4 on byte strings, with
  32-bit words whose addition wraps around.
\<close>

unbundle bit_operations_syntax

type_synonym u32 = "32 word"

definition rotr :: "nat \<Rightarrow> u32 \<Rightarrow> u32" where
  "rotr n x = drop_bit n x OR push_bit (32 - n) x"

definition sha_ch :: "u32 \<Rightarrow> u32 \<Rightarrow> u32 \<Rightarrow> u32" where
  "sha_ch x y z = (x AND y) XOR (NOT x AND z)"

definition sha_maj :: "u32 \<Rightarrow> u32 \<Rightarrow> u32 \<Rightarrow> u32" where
  "sha_maj x y z = (x AND y) XOR (x AND z) XOR (y AND z)"

definition big_sigma0 :: "u32 \<Rightarrow> u32" where
  "big_sigma0 x = rotr 2 x XOR rotr 13 x XOR rotr 22 x"

definition big_sigma1 :: "u32 \<Rightarrow> u32" where
  "big_sigma1 x = rotr 6 x XOR rotr 11 x XOR rotr 25 x"

definition small_sigma0 :: "u32 \<Rightarrow> u32" where
  "small_sigma0 x = rotr 7 x XOR rotr 18 x XOR drop_bit 3 x"

definition small_sigma1 :: "u32 \<Rightarrow> u32" where
  "small_sigma1 x = rotr 17 x XOR rotr 19 x XOR drop_bit 10 x"

definition sha_k :: "u32 list" where
  "sha_k =
  [1116352408, 1899447441, 3049323471, 3921009573, 961987163, 1508970993, 2453635748, 2870763221,
   3624381080, 310598401, 607225278, 1426881987, 1925078388, 2162078206, 2614888103, 3248222580,
   3835390401, 4022224774, 264347078, 604807628, 770255983, 1249150122, 1555081692, 1996064986,
   2554220882, 2821834349, 2952996808, 3210313671, 3336571891, 3584528711, 113926993, 338241895,
   666307205, 773529912, 1294757372, 1396182291, 1695183700, 1986661051, 2177026350, 2456956037,
   2730485921, 2820302411, 3259730800, 3345764771, 3516065817, 3600352804, 4094571909, 275423344,
   430227734, 506948616, 659060556, 883997877, 958139571, 1322822218, 1537002063, 1747873779,
   1955562222, 2024104815, 2227730452, 2361852424, 2428436474, 2756734187, 3204031479, 3329325298]"

type_synonym sha_state = "u32 \<times> u32 \<times> u32 \<times> u32 \<times> u32 \<times> u32 \<times> u32 \<times> u32"

definition sha_init :: sha_state where
  "sha_init =
  (0x6a09e667, 0xbb67ae85, 0x3c6ef372, 0xa54ff53a, 0x510e527f, 0x9b05688c, 0x1f83d9ab, 0x5be0cd19)"

text \<open>The message schedule: a window of sixteen words, oldest first, that emits its head and
  appends the next word.\<close>

fun sha_expand :: "nat \<Rightarrow> u32 list \<Rightarrow> u32 list" where
  "sha_expand 0 w = []"
| "sha_expand (Suc n) w =
     hd w # sha_expand n (tl w @ [small_sigma1 (w ! 14) + w ! 9 + small_sigma0 (w ! 1) + w ! 0])"

definition sha_round :: "sha_state \<Rightarrow> u32 \<times> u32 \<Rightarrow> sha_state" where
  "sha_round st kw =
     (case st of (a, b, c, d, e, f, g, h) \<Rightarrow>
        let t1 = h + big_sigma1 e + sha_ch e f g + fst kw + snd kw;
            t2 = big_sigma0 a + sha_maj a b c
        in (t1 + t2, a, b, c, d + t1, e, f, g))"

definition sha_add :: "sha_state \<Rightarrow> sha_state \<Rightarrow> sha_state" where
  "sha_add s t =
     (case s of (a, b, c, d, e, f, g, h) \<Rightarrow> case t of (a', b', c', d', e', f', g', h') \<Rightarrow>
        (a + a', b + b', c + c', d + d', e + e', f + f', g + g', h + h'))"

definition sha_compress :: "u32 list \<Rightarrow> sha_state \<Rightarrow> sha_state" where
  "sha_compress block st = sha_add st (foldl sha_round st (zip sha_k (sha_expand 64 block)))"

definition word_of_bytes :: "byte list \<Rightarrow> u32" where
  "word_of_bytes bs = of_int (be_value 256 (map uint bs))"

definition bytes_of_word :: "u32 \<Rightarrow> byte list" where
  "bytes_of_word w = map of_int (be_digits 256 4 (uint w))"

fun chunks :: "nat \<Rightarrow> nat \<Rightarrow> 'a list \<Rightarrow> 'a list list" where
  "chunks 0 k xs = []"
| "chunks (Suc n) k xs = take k xs # chunks n k (drop k xs)"

definition sha_pad :: "byte list \<Rightarrow> byte list" where
  "sha_pad m = m @ [128] @ replicate ((119 - length m mod 64) mod 64) 0
     @ map of_int (be_digits 256 8 (8 * int (length m)))"

definition sha_blocks :: "byte list \<Rightarrow> u32 list list" where
  "sha_blocks m = map (\<lambda>b. map word_of_bytes (chunks 16 4 b)) (chunks (length m div 64) 64 m)"

definition sha_digest :: "sha_state \<Rightarrow> byte list" where
  "sha_digest st =
     (case st of (a, b, c, d, e, f, g, h) \<Rightarrow> concat (map bytes_of_word [a, b, c, d, e, f, g, h]))"

definition sha256 :: "byte list \<Rightarrow> byte list" where
  "sha256 m = sha_digest (fold sha_compress (sha_blocks (sha_pad m)) sha_init)"

lemma length_sha256 [simp]: "length (sha256 m) = 32"
  by (simp add: sha256_def sha_digest_def bytes_of_word_def split: prod.split)

text \<open>The padded message is a whole number of 64-byte blocks, so no byte is dropped.\<close>

lemma length_sha_pad: "length (sha_pad m) mod 64 = 0"
proof -
  have "(r + 9 + (119 - r) mod 64) mod 64 = 0" if "r < 64" for r :: nat
    using that by (cases "r \<le> 55") (auto simp: mod_if)
  then have "(length m mod 64 + 9 + (119 - length m mod 64) mod 64) mod 64 = 0"
    by simp
  then have "(length m + (9 + (119 - length m mod 64) mod 64)) mod 64 = 0"
    by (metis add.assoc mod_add_left_eq)
  then show ?thesis by (simp add: sha_pad_def add.assoc add.left_commute)
qed

end
