(* ===== verification/Sharding.thy ===== *)
theory Sharding
  imports Sha256
begin

text \<open>
  \<^verbatim>\<open>app/dialogs/sharding.py\<close>: the routing functions of the dialogs subsystem.  A dialog of two
  users has a symmetric 32-byte identifier, the SHA-256 of the ordered pair of user ids, and the
  first eight bytes of the identifier, read as a big-endian integer, select the shard.
\<close>

definition CHAT_ID_HASH_VERSION :: "byte list" where
  "CHAT_ID_HASH_VERSION = [0x76, 0x31]"  \<comment> \<open>\<^verbatim>\<open>b"v1"\<close>\<close>

definition SEPARATOR :: "byte list" where
  "SEPARATOR = [0x7c]"  \<comment> \<open>\<^verbatim>\<open>b"|"\<close>\<close>

definition chat_payload :: "uuid \<Rightarrow> uuid \<Rightarrow> byte list" where
  "chat_payload user_a user_b =
     (let (lo, hi) = (if uuid_int user_a \<le> uuid_int user_b then (user_a, user_b)
                      else (user_b, user_a))
      in CHAT_ID_HASH_VERSION @ SEPARATOR @ uuid_bytes lo @ SEPARATOR @ uuid_bytes hi)"

definition compute_chat_id :: "uuid \<Rightarrow> uuid \<Rightarrow> byte list" where
  "compute_chat_id user_a user_b = sha256 (chat_payload user_a user_b)"

text \<open>\<^verbatim>\<open>int.from_bytes(bs, "big")\<close>.\<close>

definition int_from_bytes :: "byte list \<Rightarrow> int" where
  "int_from_bytes bs = be_value 256 (map uint bs)"

definition shard_for_chat :: "byte list \<Rightarrow> int \<Rightarrow> int res" where
  "shard_for_chat chat_id n_shards =
     (if n_shards \<le> 0 then Inl (ValueError ''n_shards must be positive'')
      else if length chat_id < 8 then Inl (ValueError ''chat_id is too short, expected >= 8 bytes'')
      else Inr (int_from_bytes (take 8 chat_id) mod n_shards))"

section \<open>The chat identifier\<close>

lemma length_compute_chat_id [simp]: "length (compute_chat_id a b) = 32"
  by (simp add: compute_chat_id_def)

lemma chat_payload_sym: "chat_payload a b = chat_payload b a"
proof (cases "uuid_int a = uuid_int b")
  case True
  then show ?thesis by (simp add: uuid_int_inj)
next
  case False
  then show ?thesis by (auto simp: chat_payload_def)
qed

lemma compute_chat_id_sym: "compute_chat_id a b = compute_chat_id b a"
  by (simp add: compute_chat_id_def chat_payload_sym)

lemma chat_payload_inj:
  assumes "chat_payload a b = chat_payload c d"
  shows "{a, b} = {c, d}"
proof -
  have "\<exists>lo hi. {x, y} = {lo, hi} \<and> chat_payload x y
      = CHAT_ID_HASH_VERSION @ SEPARATOR @ uuid_bytes lo @ SEPARATOR @ uuid_bytes hi" for x y
    by (cases "uuid_int x \<le> uuid_int y") (auto simp: chat_payload_def)
  then obtain l h l' h' where
      "{a, b} = {l, h}" "{c, d} = {l', h'}"
    and "chat_payload a b = CHAT_ID_HASH_VERSION @ SEPARATOR @ uuid_bytes l @ SEPARATOR @ uuid_bytes h"
    and "chat_payload c d = CHAT_ID_HASH_VERSION @ SEPARATOR @ uuid_bytes l' @ SEPARATOR @ uuid_bytes h'"
    by metis
  with assms have "uuid_bytes l = uuid_bytes l'" and "uuid_bytes h = uuid_bytes h'"
    by auto
  with \<open>{a, b} = {l, h}\<close> \<open>{c, d} = {l', h'}\<close> show ?thesis
    using uuid_bytes_inj by metis
qed

section \<open>The shard index\<close>

lemma shard_for_chat_ok:
  assumes "0 < n" and "8 \<le> length cid"
  shows "shard_for_chat cid n = Inr (int_from_bytes (take 8 cid) mod n)"
  using assms by (simp add: shard_for_chat_def)

lemma shard_for_chat_range:
  assumes "shard_for_chat cid n = Inr i"
  shows "0 \<le> i" and "i < n"
  using assms by (auto simp: shard_for_chat_def split: if_splits)

text \<open>The bucket is a 64-bit unsigned integer, as the source's comment says.\<close>

lemma bucket_uint64: "int_from_bytes (take 8 cid) < 2 ^ 64"
proof -
  let ?ds = "map uint (take 8 cid)"
  have "\<forall>d \<in> set ?ds. 0 \<le> d \<and> d < 256"
    using unsigned_greater_eq [where ?'b = 8 and ?'a = int] unsigned_less [where ?'b = 8 and ?'a = int]
    by auto
  then have "be_value 256 ?ds < 256 ^ length ?ds" using be_value_range by blast
  also have "(256 :: int) ^ length ?ds \<le> 256 ^ 8" by (rule power_increasing) auto
  finally show ?thesis by (simp add: int_from_bytes_def)
qed

section \<open>Properties of the routing\<close>

text \<open>C29: the chat identifier does not depend on who writes to whom, has 32 bytes, and is
  the hash of a payload that determines the unordered pair of users: two dialogs share an
  identifier only if their payloads collide under SHA-256.\<close>

theorem chat_id_of_pair:
  "compute_chat_id a b = compute_chat_id b a \<and> length (compute_chat_id a b) = 32
   \<and> (chat_payload a b = chat_payload c d \<longleftrightarrow> {a, b} = {c, d})
   \<and> (compute_chat_id a b = compute_chat_id c d \<longleftrightarrow>
        {a, b} = {c, d} \<or> (chat_payload a b \<noteq> chat_payload c d \<and> sha256 (chat_payload a b) = sha256 (chat_payload c d)))"
proof -
  have "chat_payload a b = chat_payload c d \<longleftrightarrow> {a, b} = {c, d}"
    using chat_payload_inj chat_payload_sym by (metis doubleton_eq_iff)
  then show ?thesis
    using compute_chat_id_sym by (auto simp: compute_chat_id_def doubleton_eq_iff chat_payload_sym)
qed

text \<open>C30: when the number of shards is multiplied by \<open>k\<close>, a chat of shard \<open>i\<close> moves only to one
  of the shards \<open>i\<close>, \<open>i + n\<close>, \<open>i + 2 n\<close>, \<open>...\<close>, and every chat is routed.\<close>

theorem shard_growth:
  assumes "0 < n" and "0 < k"
  shows "\<exists>i j. shard_for_chat (compute_chat_id a b) n = Inr i \<and> shard_for_chat (compute_chat_id a b) (k * n) = Inr (i + j * n)
    \<and> 0 \<le> i \<and> i < n \<and> 0 \<le> j \<and> j < k"
proof -
  let ?x = "int_from_bytes (take 8 (compute_chat_id a b))"
  have "?x mod (n * k) = n * (?x div n mod k) + ?x mod n"
    using assms by (intro zmod_zmult2_eq) simp
  then have "shard_for_chat (compute_chat_id a b) (k * n) = Inr (?x mod n + (?x div n mod k) * n)"
    using assms by (simp add: shard_for_chat_ok mult.commute)
  moreover have "shard_for_chat (compute_chat_id a b) n = Inr (?x mod n)" using assms by (simp add: shard_for_chat_ok)
  ultimately show ?thesis using assms by (intro exI [of _ "?x mod n"] exI [of _ "?x div n mod k"]) auto
qed

lemma shard_growth_witness:
  "\<exists>i j. shard_for_chat (compute_chat_id 1 2) 3 = Inr i \<and> shard_for_chat (compute_chat_id 1 2) (2 * 3) = Inr (i + j * 3)
    \<and> 0 \<le> i \<and> i < 3 \<and> 0 \<le> j \<and> j < (2 :: int)"
  by (rule shard_growth) simp_all

end
