(* ===== verification/Cluster.thy ===== *)
theory Cluster
  imports Sharding Config
begin

text \<open>
  \<^verbatim>\<open>app/dialogs/cluster.py\<close>: the pools of the dialogs shards and the routing of chats to them.
  The class attributes of \<^verbatim>\<open>DialogsCluster\<close> are a record; the pool type \<open>'p\<close> is abstract, since
  \<^verbatim>\<open>asyncpg.create_pool\<close> is third-party code: its outcome for the \<open>idx\<close>-th DSN is the parameter
  \<open>create_pool\<close>.  Opened and closed pools are recorded in an event log.
\<close>

section \<open>State and operations\<close>

record 'p cluster =
  cl_pools :: "'p list"
  cl_read_n :: int
  cl_write_n :: int
  cl_dual_write :: bool

datatype 'p pool_event = Opened 'p | Closed 'p

type_synonym 'p pool_maker = "nat \<Rightarrow> string \<Rightarrow> int \<Rightarrow> int \<Rightarrow> 'p res"

definition initial_cluster :: "'p cluster" where
  "initial_cluster = \<lparr>cl_pools = [], cl_read_n = 0, cl_write_n = 0, cl_dual_write = False\<rparr>"

definition parse_shard_dsns :: "string \<Rightarrow> string list" where
  "parse_shard_dsns raw = [py_strip entry. entry \<leftarrow> py_split (CHR '','') raw, py_strip entry \<noteq> []]"

definition validate_resharding_state :: "'p cluster \<Rightarrow> unit res" where
  "validate_resharding_state c =
     (let n = int (length (cl_pools c)) in
      if \<not> (1 \<le> cl_read_n c \<and> cl_read_n c \<le> n) then Inl (RuntimeError ''read_n out of range'')
      else if \<not> (1 \<le> cl_write_n c \<and> cl_write_n c \<le> n) then Inl (RuntimeError ''write_n out of range'')
      else Inr ())"

text \<open>The loop of \<^verbatim>\<open>connect\<close> over the DSNs: a failure closes the pools opened so far.\<close>

fun open_pools :: "settings \<Rightarrow> 'p pool_maker \<Rightarrow> nat \<Rightarrow> string list \<Rightarrow> 'p list \<Rightarrow>
    'p pool_event list \<Rightarrow> 'p list res \<times> 'p pool_event list" where
  "open_pools S create_pool idx [] opened log = (Inr opened, log)"
| "open_pools S create_pool idx (dsn # dsns) opened log =
     (case create_pool idx dsn (dialogs_pool_min_size S) (dialogs_pool_max_size S) of
        Inr p \<Rightarrow> open_pools S create_pool (Suc idx) dsns (opened @ [p]) (log @ [Opened p])
      | Inl exc \<Rightarrow> (Inl (RuntimeError ''shard unavailable''), log @ map Closed opened))"

definition DialogsCluster_connect :: "settings \<Rightarrow> 'p pool_maker \<Rightarrow> ('p cluster \<times> 'p pool_event list, unit) prog" where
  "DialogsCluster_connect S create_pool st =
     (case st of (c, log) \<Rightarrow>
      let dsns = parse_shard_dsns (dialogs_shards S) in
      if dsns = [] then (Inl (RuntimeError ''DIALOGS_SHARDS empty''), (c, log))
      else case open_pools S create_pool 0 dsns [] log of
          (Inl e, log') \<Rightarrow> (Inl e, (c, log'))
        | (Inr ps, log') \<Rightarrow>
            let n = int (length ps);
                c' = \<lparr>cl_pools = ps,
                      cl_read_n = (if dialogs_read_n S \<noteq> 0 then dialogs_read_n S else n),
                      cl_write_n = (if dialogs_write_n S \<noteq> 0 then dialogs_write_n S else n),
                      cl_dual_write = dialogs_dual_write S\<rparr>
            in (validate_resharding_state c', (c', log')))"

definition DialogsCluster_disconnect :: "('p cluster \<times> 'p pool_event list, unit) prog" where
  "DialogsCluster_disconnect st =
     (case st of (c, log) \<Rightarrow> (Inr (), (c\<lparr>cl_pools := []\<rparr>, log @ map Closed (cl_pools c))))"

definition n_shards :: "'p cluster \<Rightarrow> int" where
  "n_shards c = int (length (cl_pools c))"

text \<open>\<^verbatim>\<open>cls._pools[idx]\<close> with an index that is never negative here.\<close>

definition pool_at :: "'p cluster \<Rightarrow> int \<Rightarrow> 'p res" where
  "pool_at c idx = (if nat idx < length (cl_pools c) then Inr (cl_pools c ! nat idx) else Inl IndexError)"

definition read_pool_for_chat :: "'p cluster \<Rightarrow> byte list \<Rightarrow> 'p res" where
  "read_pool_for_chat c chat_id =
     (if cl_pools c = [] then Inl (RuntimeError ''DialogsCluster not initialised'')
      else case shard_for_chat chat_id (cl_read_n c) of
          Inl e \<Rightarrow> Inl e
        | Inr idx \<Rightarrow> pool_at c idx)"

definition pool_for_chat :: "'p cluster \<Rightarrow> byte list \<Rightarrow> 'p res" where
  "pool_for_chat c chat_id = read_pool_for_chat c chat_id"

definition write_pools_for_chat :: "'p cluster \<Rightarrow> byte list \<Rightarrow> 'p list res" where
  "write_pools_for_chat c chat_id =
     (if cl_pools c = [] then Inl (RuntimeError ''DialogsCluster not initialised'')
      else case shard_for_chat chat_id (cl_write_n c) of
          Inl e \<Rightarrow> Inl e
        | Inr primary_idx \<Rightarrow>
            (if \<not> cl_dual_write c then
               (case pool_at c primary_idx of Inl e \<Rightarrow> Inl e | Inr p \<Rightarrow> Inr [p])
             else case shard_for_chat chat_id (cl_read_n c) of
                 Inl e \<Rightarrow> Inl e
               | Inr secondary_idx \<Rightarrow>
                   (if primary_idx = secondary_idx then
                      (case pool_at c primary_idx of Inl e \<Rightarrow> Inl e | Inr p \<Rightarrow> Inr [p])
                    else case pool_at c secondary_idx of
                        Inl e \<Rightarrow> Inl e
                      | Inr ps \<Rightarrow> (case pool_at c primary_idx of
                            Inl e \<Rightarrow> Inl e | Inr pp \<Rightarrow> Inr [ps, pp]))))"

definition pool_by_index :: "'p cluster \<Rightarrow> int \<Rightarrow> 'p res" where
  "pool_by_index c shard_idx =
     (if cl_pools c = [] then Inl (RuntimeError ''DialogsCluster not initialised'')
      else if \<not> (0 \<le> shard_idx \<and> shard_idx < int (length (cl_pools c)))
        then Inl (ValueError ''shard_idx out of range'')
      else pool_at c shard_idx)"

text \<open>\<^verbatim>\<open>async with pool.acquire()\<close> on the pool that is read: \<open>up\<close> says which servers answer.\<close>

definition connection_for_chat :: "('p \<Rightarrow> bool) \<Rightarrow> 'p cluster \<Rightarrow> byte list \<Rightarrow> 'p res" where
  "connection_for_chat up c chat_id =
     (case read_pool_for_chat c chat_id of
        Inl e \<Rightarrow> Inl e
      | Inr p \<Rightarrow> if up p then Inr p else Inl (ConnectionError ''shard''))"

definition is_dual_write :: "'p cluster \<Rightarrow> bool" where
  "is_dual_write c = cl_dual_write c"

definition read_n :: "'p cluster \<Rightarrow> int" where
  "read_n c = cl_read_n c"

definition write_n :: "'p cluster \<Rightarrow> int" where
  "write_n c = cl_write_n c"

text \<open>The attributes are assigned before they are validated, so a rejected configuration stays.\<close>

definition reconfigure :: "int option \<Rightarrow> int option \<Rightarrow> bool option \<Rightarrow> ('p cluster, unit) prog" where
  "reconfigure new_read_n new_write_n new_dual_write c =
     (let c1 = (case new_read_n of None \<Rightarrow> c | Some v \<Rightarrow> c\<lparr>cl_read_n := v\<rparr>);
          c2 = (case new_write_n of None \<Rightarrow> c1 | Some v \<Rightarrow> c1\<lparr>cl_write_n := v\<rparr>);
          c3 = (case new_dual_write of None \<Rightarrow> c2 | Some v \<Rightarrow> c2\<lparr>cl_dual_write := v\<rparr>)
      in (validate_resharding_state c3, c3))"

section \<open>The routing interface\<close>

text \<open>What the cluster relies on in a routing function: it answers on every valid key and every
  positive number of shards, and its answer is an index below that number.\<close>

locale shard_router =
  fixes route :: "'c \<Rightarrow> int \<Rightarrow> int res"
    and valid :: "'c \<Rightarrow> bool"
  assumes route_total: "valid k \<Longrightarrow> 0 < n \<Longrightarrow> \<exists>i. route k n = Inr i"
    and route_range: "route k n = Inr i \<Longrightarrow> 0 \<le> i \<and> i < n"
begin

definition home :: "'c \<Rightarrow> int \<Rightarrow> nat" where
  "home k n = (case route k n of Inr i \<Rightarrow> nat i | Inl _ \<Rightarrow> 0)"

lemma route_home:
  assumes "valid k" and "0 < n"
  shows "route k n = Inr (int (home k n))"
  using route_total [OF assms] route_range by (fastforce simp: home_def)

lemma home_less:
  assumes "valid k" and "1 \<le> n" and "n \<le> int m"
  shows "home k n < m"
  using route_home [of k n] route_range [of k n] assms by fastforce

lemma route_in_list:
  assumes "valid k" and "1 \<le> n" and "n \<le> int (length ps)"
  shows "ps ! home k n \<in> set ps"
  using home_less [OF assms] by simp

end

interpretation sfc: shard_router shard_for_chat "\<lambda>cid. 8 \<le> length cid"
  by unfold_locales (auto simp: shard_for_chat_def split: if_splits)

section \<open>Routing of a configured cluster\<close>

definition cluster_ok :: "'p cluster \<Rightarrow> bool" where
  "cluster_ok c \<longleftrightarrow> cl_pools c \<noteq> []
     \<and> 1 \<le> cl_read_n c \<and> cl_read_n c \<le> int (length (cl_pools c))
     \<and> 1 \<le> cl_write_n c \<and> cl_write_n c \<le> int (length (cl_pools c))"

abbreviation chat_home :: "byte list \<Rightarrow> int \<Rightarrow> nat" where
  "chat_home \<equiv> sfc.home"

lemma validate_ok_iff: "validate_resharding_state c = Inr () \<longleftrightarrow> cluster_ok c"
  by (auto simp: validate_resharding_state_def cluster_ok_def Let_def)

lemma pool_at_less [simp]: "i < length (cl_pools c) \<Longrightarrow> pool_at c (int i) = Inr (cl_pools c ! i)"
  by (simp add: pool_at_def)

lemma cluster_ok_homes:
  assumes "cluster_ok c" and "8 \<le> length cid"
  shows "chat_home cid (cl_read_n c) < length (cl_pools c)"
    and "chat_home cid (cl_write_n c) < length (cl_pools c)"
  using assms sfc.home_less by (auto simp: cluster_ok_def)

lemma read_pool_ok:
  assumes "cluster_ok c" and "8 \<le> length cid"
  shows "read_pool_for_chat c cid = Inr (cl_pools c ! chat_home cid (cl_read_n c))"
  using assms cluster_ok_homes [OF assms] sfc.route_home [of cid "cl_read_n c"]
  by (simp add: read_pool_for_chat_def cluster_ok_def)

lemma write_pools_ok:
  assumes "cluster_ok c" and "8 \<le> length cid"
  defines "r \<equiv> chat_home cid (cl_read_n c)" and "w \<equiv> chat_home cid (cl_write_n c)"
  shows "write_pools_for_chat c cid = Inr (map ((!) (cl_pools c))
           (if cl_dual_write c \<and> r \<noteq> w then [r, w] else [w]))"
  using assms(1,2) cluster_ok_homes [OF assms(1,2)] sfc.route_home [of cid "cl_read_n c"]
    sfc.route_home [of cid "cl_write_n c"]
  by (simp add: write_pools_for_chat_def cluster_ok_def r_def w_def)

lemma pool_by_index_ok:
  "i < length (cl_pools c) \<Longrightarrow> pool_by_index c (int i) = Inr (cl_pools c ! i)"
  by (auto simp: pool_by_index_def)

section \<open>Opening and closing the pools\<close>

lemma open_pools_spec:
  "open_pools S mk idx dsns opened log =
     (case open_pools S mk idx dsns opened [] of (r, l) \<Rightarrow> (r, log @ l))"
proof (induction dsns arbitrary: idx opened log)
  case (Cons dsn dsns)
  show ?case
  proof (cases "mk idx dsn (dialogs_pool_min_size S) (dialogs_pool_max_size S)")
    case (Inr p)
    then show ?thesis
      using Cons.IH [of "Suc idx" "opened @ [p]" "log @ [Opened p]"]
        Cons.IH [of "Suc idx" "opened @ [p]" "[Opened p]"]
      by (auto split: prod.splits)
  qed simp
qed simp

text \<open>A failure at any DSN closes exactly the pools that were open.\<close>

lemma open_pools_fail:
  assumes "open_pools S mk idx dsns opened [] = (Inl e, l)"
  shows "\<exists>ps. l = map Opened ps @ map Closed (opened @ ps)"
  using assms
proof (induction dsns arbitrary: idx opened l)
  case (Cons dsn dsns)
  show ?case
  proof (cases "mk idx dsn (dialogs_pool_min_size S) (dialogs_pool_max_size S)")
    case (Inl exc)
    with Cons.prems have "l = map Opened [] @ map Closed (opened @ [])" by simp
    then show ?thesis by blast
  next
    case (Inr p)
    with Cons.prems obtain l' where l': "open_pools S mk (Suc idx) dsns (opened @ [p]) [] = (Inl e, l')"
      and "l = Opened p # l'"
      by (subst (asm) open_pools.simps, subst (asm) open_pools_spec) (auto split: prod.splits)
    from Cons.IH [OF l'] obtain ps where "l' = map Opened ps @ map Closed ((opened @ [p]) @ ps)"
      by blast
    with \<open>l = Opened p # l'\<close> have "l = map Opened (p # ps) @ map Closed (opened @ p # ps)" by simp
    then show ?thesis by blast
  qed
qed simp

lemma open_pools_ok:
  assumes "open_pools S mk idx dsns opened [] = (Inr ps, l)"
  shows "\<exists>qs. ps = opened @ qs \<and> l = map Opened qs \<and> length qs = length dsns
    \<and> (\<forall>j < length dsns. mk (idx + j) (dsns ! j) (dialogs_pool_min_size S) (dialogs_pool_max_size S)
         = Inr (qs ! j))"
  using assms
proof (induction dsns arbitrary: idx opened l)
  case (Cons dsn dsns)
  then obtain p where p: "mk idx dsn (dialogs_pool_min_size S) (dialogs_pool_max_size S) = Inr p"
    by (auto split: sum.splits)
  with Cons.prems obtain l' where l': "open_pools S mk (Suc idx) dsns (opened @ [p]) [] = (Inr ps, l')"
    and l: "l = Opened p # l'"
    by (subst (asm) open_pools.simps, subst (asm) open_pools_spec) (auto split: prod.splits)
  from Cons.IH [OF l'] obtain qs where qs: "ps = (opened @ [p]) @ qs" "l' = map Opened qs"
      "length qs = length dsns"
    and each: "\<forall>j < length dsns. mk (Suc idx + j) (dsns ! j) (dialogs_pool_min_size S)
      (dialogs_pool_max_size S) = Inr (qs ! j)"
    by blast
  have "\<forall>j < length (dsn # dsns). mk (idx + j) ((dsn # dsns) ! j) (dialogs_pool_min_size S)
      (dialogs_pool_max_size S) = Inr ((p # qs) ! j)"
    using p each by (auto simp: nth_Cons split: nat.split)
  with qs l show ?case by (intro exI [of _ "p # qs"]) auto
qed simp

section \<open>Properties of the cluster\<close>

text \<open>A connect that returns has opened one pool for every DSN, in the order of
  \<^verbatim>\<open>DIALOGS_SHARDS\<close>, and the configuration it leaves routes every chat inside the pools.\<close>

theorem connect_opens_all:
  assumes "DialogsCluster_connect S mk (c, log) = (Inr (), (c', log'))"
  shows "cluster_ok c' \<and> log' = log @ map Opened (cl_pools c')
    \<and> length (cl_pools c') = length (parse_shard_dsns (dialogs_shards S))
    \<and> (\<forall>j < length (cl_pools c'). mk j (parse_shard_dsns (dialogs_shards S) ! j)
         (dialogs_pool_min_size S) (dialogs_pool_max_size S) = Inr (cl_pools c' ! j))
    \<and> cl_dual_write c' = dialogs_dual_write S"
proof -
  let ?dsns = "parse_shard_dsns (dialogs_shards S)"
  from assms obtain ps l where run: "open_pools S mk 0 ?dsns [] [] = (Inr ps, l)" and log: "log' = log @ l"
    and c': "cl_pools c' = ps" "cl_dual_write c' = dialogs_dual_write S" and "validate_resharding_state c' = Inr ()"
    by (auto simp: DialogsCluster_connect_def Let_def open_pools_spec [of S mk 0 ?dsns "[]" log]
        split: prod.splits sum.splits if_splits)
  then have "cluster_ok c'" by (simp add: validate_ok_iff)
  with open_pools_ok [OF run] log c' show ?thesis by auto
qed

text \<open>a connect that raises either leaves the configuration as it was and closes
  exactly the pools it opened, or has opened all pools and assigned a configuration that fails
  validation, which stays assigned with its pools open.\<close>

theorem connect_failure:
  assumes "DialogsCluster_connect S mk (c, log) = (Inl e, (c', log'))"
  shows "(c' = c \<and> (\<exists>ps. log' = log @ map Opened ps @ map Closed ps))
    \<or> (\<not> cluster_ok c' \<and> log' = log @ map Opened (cl_pools c')
       \<and> length (cl_pools c') = length (parse_shard_dsns (dialogs_shards S)))"
proof (cases "parse_shard_dsns (dialogs_shards S) = []")
  case True
  with assms have "c' = c" "log' = log @ map Opened [] @ map Closed []"
    by (auto simp: DialogsCluster_connect_def)
  then show ?thesis by blast
next
  case False
  let ?dsns = "parse_shard_dsns (dialogs_shards S)"
  obtain r l where run: "open_pools S mk 0 ?dsns [] [] = (r, l)" by fastforce
  then have log: "open_pools S mk 0 ?dsns [] log = (r, log @ l)" by (subst open_pools_spec) simp
  show ?thesis
  proof (cases r)
    case (Inl x)
    with run have "\<exists>ps. l = map Opened ps @ map Closed ([] @ ps)" by (intro open_pools_fail) simp
    with Inl assms False log show ?thesis by (auto simp: DialogsCluster_connect_def Let_def)
  next
    case (Inr ps)
    with assms False log have "validate_resharding_state c' = Inl e" "cl_pools c' = ps" "log' = log @ l"
      by (auto simp: DialogsCluster_connect_def Let_def)
    moreover from Inr run open_pools_ok [of S mk 0 ?dsns "[]" ps l] have "l = map Opened ps" "length ps = length ?dsns" by auto
    moreover from calculation(1) have "\<not> cluster_ok c'" using validate_ok_iff [of c'] by auto
    ultimately show ?thesis by simp
  qed
qed

text \<open>a reconfiguration is rejected exactly when it is out of range, and the
  rejected values stay in force: after a rejected \<open>read_n\<close> above the number of pools, some chat
  identifier routes to a pool that does not exist.\<close>

theorem reconfigure_keeps_rejected:
  assumes "cl_pools c \<noteq> []" and "int (length (cl_pools c)) < n" and "n \<le> 256"
  shows "\<exists>e. reconfigure (Some n) None None c = (Inl e, c\<lparr>cl_read_n := n\<rparr>)
    \<and> read_pool_for_chat (c\<lparr>cl_read_n := n\<rparr>) [0, 0, 0, 0, 0, 0, 0, of_nat (length (cl_pools c))] = Inl IndexError"
proof -
  let ?m = "length (cl_pools c)"
  have "uint (of_nat ?m :: 8 word) = int ?m"
    using assms by (simp add: unsigned_of_nat take_bit_nat_eq_self)
  then have "int_from_bytes [0, 0, 0, 0, 0, 0, 0, of_nat ?m] = int ?m"
    by (simp add: int_from_bytes_def be_value_def)
  then show ?thesis
    using assms by (simp add: reconfigure_def validate_resharding_state_def read_pool_for_chat_def
        shard_for_chat_def pool_at_def)
qed

text \<open>Two pools made by a pool factory that always answers.\<close>

definition demo_settings :: settings where
  "demo_settings = default_settings\<lparr>dialogs_shards := ''dsn0, dsn1'', dialogs_read_n := 0, dialogs_write_n := 0\<rparr>"

lemma demo_dsns: "parse_shard_dsns (dialogs_shards demo_settings) = [''dsn0'', ''dsn1'']"
  by (simp add: demo_settings_def parse_shard_dsns_def py_strip_def py_lstrip_def py_space_def Let_def)

lemma demo_connect:
  "DialogsCluster_connect demo_settings (\<lambda>i _ _ _. Inr i) (initial_cluster, [])
     = (Inr (), (\<lparr>cl_pools = [0, 1], cl_read_n = 2, cl_write_n = 2, cl_dual_write = False\<rparr>, [Opened 0, Opened 1]))"
  using demo_dsns by (simp add: DialogsCluster_connect_def Let_def validate_resharding_state_def)
    (simp add: demo_settings_def default_settings_def)

lemma connect_opens_all_witness:
  "cluster_ok \<lparr>cl_pools = [0 :: nat, 1], cl_read_n = 2, cl_write_n = 2, cl_dual_write = False\<rparr>"
  using connect_opens_all [OF demo_connect] by blast

lemma connect_failure_witness:
  "\<exists>e. DialogsCluster_connect demo_settings (\<lambda>i _ _ _. if i = 0 then Inr i else Inl (ConnectionError ''x'')) (initial_cluster, [])
     = (Inl e, (initial_cluster, [Opened 0, Closed 0]))
   \<and> (\<exists>ps. [Opened 0, Closed (0 :: nat)] = [] @ map Opened ps @ map Closed ps)"
proof -
  have run: "DialogsCluster_connect demo_settings (\<lambda>i _ _ _. if i = 0 then Inr i else Inl (ConnectionError ''x'')) (initial_cluster, [])
     = (Inl (RuntimeError ''shard unavailable''), (initial_cluster, [Opened 0, Closed (0 :: nat)]))"
    using demo_dsns by (simp add: DialogsCluster_connect_def Let_def)
  from connect_failure [OF run] have "\<exists>ps. [Opened 0, Closed (0 :: nat)] = [] @ map Opened ps @ map Closed ps"
    by (auto simp: initial_cluster_def)
  with run show ?thesis by blast
qed

lemma reconfigure_keeps_rejected_witness:
  "\<exists>e. reconfigure (Some 99) None None \<lparr>cl_pools = [0 :: nat, 1], cl_read_n = 2, cl_write_n = 2, cl_dual_write = False\<rparr>
     = (Inl e, \<lparr>cl_pools = [0, 1], cl_read_n = 99, cl_write_n = 2, cl_dual_write = False\<rparr>)"
  using reconfigure_keeps_rejected [of "\<lparr>cl_pools = [0 :: nat, 1], cl_read_n = 2, cl_write_n = 2, cl_dual_write = False\<rparr>" 99]
  by auto

end
