(* ===== verification/Messages.thy ===== *)
theory Messages
  imports Cluster "HOL-Library.Product_Lexorder"
begin

text \<open>
  One shard of the dialogs subsystem: the table \<^verbatim>\<open>messages\<close> of
  \<^verbatim>\<open>migrations/dialogs/001_messages.sql\<close> and the SQL statements the Python sources send to it.
  A shard is the list of its rows and the value of the \<^verbatim>\<open>BIGSERIAL\<close> sequence; the order of the
  list stands for the physical order of the table, which no statement relies on.  Timestamps are
  microseconds.  \<^verbatim>\<open>INSERT\<close> evaluates the default of \<^verbatim>\<open>id\<close> before it looks for a conflict, so the
  sequence advances even when \<^verbatim>\<open>ON CONFLICT (message_id) DO NOTHING\<close> drops the row.
\<close>

record message_row =
  msg_serial :: nat
  message_id :: uuid
  chat_id :: "byte list"
  sender_id :: uuid
  recipient_id :: uuid
  body :: string
  created_at :: int

record shard =
  sh_rows :: "message_row list"
  sh_next :: nat

definition empty_shard :: shard where
  "empty_shard = \<lparr>sh_rows = [], sh_next = 1\<rparr>"

text \<open>\<^verbatim>\<open>INSERT INTO messages (message_id, chat_id, sender_id, recipient_id, body, created_at)
  VALUES (...) ON CONFLICT (message_id) DO NOTHING\<close>.  A \<^verbatim>\<open>NULL\<close>-free row is given as a record whose
  serial is overwritten.\<close>

definition insert_message :: "message_row \<Rightarrow> shard \<Rightarrow> shard" where
  "insert_message r sh =
     \<lparr>sh_rows = (if message_id r \<in> message_id ` set (sh_rows sh) then sh_rows sh
                 else sh_rows sh @ [r\<lparr>msg_serial := sh_next sh\<rparr>]),
      sh_next = Suc (sh_next sh)\<rparr>"

text \<open>\<^verbatim>\<open>SELECT ... WHERE chat_id = $1 ORDER BY created_at DESC, id DESC LIMIT $2 OFFSET $3\<close>.\<close>

definition chat_rows_desc :: "byte list \<Rightarrow> shard \<Rightarrow> message_row list" where
  "chat_rows_desc cid sh =
     rev (sort_key (\<lambda>r. (created_at r, msg_serial r)) (filter (\<lambda>r. chat_id r = cid) (sh_rows sh)))"

definition select_chat_page :: "byte list \<Rightarrow> int \<Rightarrow> int \<Rightarrow> shard \<Rightarrow> message_row list res" where
  "select_chat_page cid lim off sh =
     (if lim < 0 then Inl (PostgresError ''LIMIT must not be negative'')
      else if off < 0 then Inl (PostgresError ''OFFSET must not be negative'')
      else Inr (take (nat lim) (drop (nat off) (chat_rows_desc cid sh))))"

text \<open>\<^verbatim>\<open>SELECT ... WHERE id > $1 ORDER BY id LIMIT $2\<close>.\<close>

definition select_after :: "nat \<Rightarrow> nat \<Rightarrow> shard \<Rightarrow> message_row list" where
  "select_after last_id lim sh =
     take lim (sort_key msg_serial (filter (\<lambda>r. last_id < msg_serial r) (sh_rows sh)))"

text \<open>\<^verbatim>\<open>DELETE FROM messages WHERE id = ANY($1)\<close>.\<close>

definition delete_ids :: "nat list \<Rightarrow> shard \<Rightarrow> shard" where
  "delete_ids ids sh = sh\<lparr>sh_rows := filter (\<lambda>r. msg_serial r \<notin> set ids) (sh_rows sh)\<rparr>"

section \<open>The constraints of the table\<close>

text \<open>\<^verbatim>\<open>PRIMARY KEY\<close> and \<^verbatim>\<open>UNIQUE\<close>, and that the sequence is ahead of every assigned id.\<close>

definition shard_ok :: "shard \<Rightarrow> bool" where
  "shard_ok sh \<longleftrightarrow> distinct (map msg_serial (sh_rows sh)) \<and> distinct (map message_id (sh_rows sh))
     \<and> (\<forall>r \<in> set (sh_rows sh). 0 < msg_serial r \<and> msg_serial r < sh_next sh)
     \<and> 0 < sh_next sh"

abbreviation shard_msgs :: "shard \<Rightarrow> uuid set" where
  "shard_msgs sh \<equiv> message_id ` set (sh_rows sh)"

lemma empty_shard_ok [simp]: "shard_ok empty_shard"
  by (simp add: shard_ok_def empty_shard_def)

lemma shard_msgs_insert [simp]: "shard_msgs (insert_message r sh) = insert (message_id r) (shard_msgs sh)"
  by (auto simp: insert_message_def)

lemma sh_next_insert [simp]: "sh_next (insert_message r sh) = Suc (sh_next sh)"
  by (simp add: insert_message_def)

lemma insert_message_mono: "set (sh_rows sh) \<subseteq> set (sh_rows (insert_message r sh))"
  by (auto simp: insert_message_def)

lemma insert_message_dup:
  "message_id r \<in> shard_msgs sh \<Longrightarrow> sh_rows (insert_message r sh) = sh_rows sh"
  by (simp add: insert_message_def)

lemma insert_message_new:
  "message_id r \<notin> shard_msgs sh \<Longrightarrow>
     sh_rows (insert_message r sh) = sh_rows sh @ [r\<lparr>msg_serial := sh_next sh\<rparr>]"
  by (simp add: insert_message_def)

lemma insert_message_rows:
  "x \<in> set (sh_rows (insert_message r sh)) \<longleftrightarrow>
     x \<in> set (sh_rows sh) \<or> (message_id r \<notin> shard_msgs sh \<and> x = r\<lparr>msg_serial := sh_next sh\<rparr>)"
  by (auto simp: insert_message_def)

lemma shard_ok_insert [intro]:
  assumes "shard_ok sh"
  shows "shard_ok (insert_message r sh)"
proof (cases "message_id r \<in> shard_msgs sh")
  case True
  with assms show ?thesis
    by (auto simp: shard_ok_def insert_message_dup less_Suc_eq)
next
  case False
  with assms show ?thesis
    by (auto simp: shard_ok_def insert_message_new less_Suc_eq)
qed

lemma shard_ok_delete [intro]: "shard_ok sh \<Longrightarrow> shard_ok (delete_ids ids sh)"
  by (auto simp: shard_ok_def delete_ids_def distinct_map_filter)

lemma shard_ok_unique:
  assumes "shard_ok sh" and "x \<in> set (sh_rows sh)" and "y \<in> set (sh_rows sh)"
  shows "msg_serial x = msg_serial y \<longleftrightarrow> x = y" and "message_id x = message_id y \<longleftrightarrow> x = y"
  using assms by (auto simp: shard_ok_def dest: filter_map_fst_unique)

section \<open>The order of a chat's messages\<close>

lemma set_chat_rows_desc [simp]:
  "set (chat_rows_desc cid sh) = {r \<in> set (sh_rows sh). chat_id r = cid}"
  by (auto simp: chat_rows_desc_def)

abbreviation msg_key :: "message_row \<Rightarrow> int \<times> nat" where
  "msg_key r \<equiv> (created_at r, msg_serial r)"

lemma chat_rows_desc_sorted: "sorted (map msg_key (rev (chat_rows_desc cid sh)))"
  by (simp add: chat_rows_desc_def)

lemma distinct_chat_rows_desc: "shard_ok sh \<Longrightarrow> distinct (chat_rows_desc cid sh)"
  by (auto simp: chat_rows_desc_def shard_ok_def distinct_map)

text \<open>Newest first: earlier in the list is strictly greater in \<open>(created_at, id)\<close>.\<close>

lemma chat_rows_desc_strict:
  assumes "shard_ok sh"
  shows "sorted_wrt (\<lambda>x y. msg_key y < msg_key x) (chat_rows_desc cid sh)"
proof -
  let ?xs = "rev (chat_rows_desc cid sh)"
  have "distinct (map msg_key ?xs)"
    using assms distinct_chat_rows_desc [OF assms, of cid]
    by (auto simp: distinct_map inj_on_def shard_ok_unique)
  with chat_rows_desc_sorted [of cid sh] have "sorted_wrt (<) (map msg_key ?xs)"
    by (simp add: strict_sorted_iff)
  then have "sorted_wrt (\<lambda>x y. msg_key x < msg_key y) ?xs"
    by (simp add: sorted_wrt_map)
  then show ?thesis by (simp add: sorted_wrt_rev)
qed

text \<open>A row whose key is not below any other key of its chat comes first.\<close>

lemma insort_key_snoc: "f y \<le> f x \<Longrightarrow> insort_key f y (zs @ [x]) = insort_key f y zs @ [x]"
  by (induction zs) auto

lemma sort_key_snoc_max:
  "\<forall>y \<in> set xs. f y \<le> f x \<Longrightarrow> sort_key f (xs @ [x]) = sort_key f xs @ [x]"
  by (induction xs) (auto simp: insort_key_snoc)

lemma chat_rows_desc_insert_newest:
  assumes "shard_ok sh" and "message_id r \<notin> shard_msgs sh"
    and "\<forall>x \<in> set (sh_rows sh). chat_id x = chat_id r \<longrightarrow> created_at x \<le> created_at r"
  shows "chat_rows_desc (chat_id r) (insert_message r sh)
    = r\<lparr>msg_serial := sh_next sh\<rparr> # chat_rows_desc (chat_id r) sh"
proof -
  let ?r = "r\<lparr>msg_serial := sh_next sh\<rparr>"
  let ?xs = "filter (\<lambda>x. chat_id x = chat_id r) (sh_rows sh)"
  have "\<forall>x \<in> set ?xs. msg_key x \<le> msg_key ?r"
    using assms(1,3) by (auto simp: shard_ok_def less_eq_prod_def le_less)
  then have "sort_key msg_key (?xs @ [?r]) = sort_key msg_key ?xs @ [?r]"
    by (rule sort_key_snoc_max)
  then show ?thesis
    using assms(2) by (simp add: chat_rows_desc_def insert_message_new)
qed

lemma chat_rows_desc_insert_other:
  "chat_id r \<noteq> cid \<Longrightarrow> chat_rows_desc cid (insert_message r sh) = chat_rows_desc cid sh"
  by (simp add: chat_rows_desc_def insert_message_def)

lemma chat_rows_desc_insert_dup:
  "message_id r \<in> shard_msgs sh \<Longrightarrow> chat_rows_desc cid (insert_message r sh) = chat_rows_desc cid sh"
  by (simp add: chat_rows_desc_def insert_message_dup)

text \<open>Sorting by \<open>(f, g)\<close> is a stable sort by \<open>f\<close> of the list sorted by \<open>g\<close>.\<close>

lemma insort_key_lex: "\<forall>z \<in> set zs. g x \<le> g z \<Longrightarrow> insort_key (\<lambda>x. (f x, g x)) x zs = insort_key f x zs"
  for f :: "'a \<Rightarrow> 'b :: linorder" and g :: "'a \<Rightarrow> 'c :: linorder"
  by (induction zs) (auto simp: less_eq_prod_def le_less)

lemma sort_key_insort_lex:
  fixes f :: "'a \<Rightarrow> 'b :: linorder" and g :: "'a \<Rightarrow> 'c :: linorder"
  assumes "sorted (map g ys)"
  shows "sort_key f (insort_key g x ys) = insort_key (\<lambda>x. (f x, g x)) x (sort_key f ys)"
  using assms
proof (induction ys)
  case (Cons y ys)
  show ?case
  proof (cases "g x \<le> g y")
    case True
    with Cons.prems have "\<forall>z \<in> set (sort_key f (y # ys)). g x \<le> g z"
      by (auto simp: set_insort_key)
    then have "insort_key (\<lambda>x. (f x, g x)) x (sort_key f (y # ys)) = insort_key f x (sort_key f (y # ys))"
      by (rule insort_key_lex)
    with True show ?thesis by simp
  next
    case False
    from Cons.prems have "\<forall>z \<in> set (sort_key f (insort_key g x ys)). g y \<le> g z"
        and "\<forall>z \<in> set (sort_key f ys). g y \<le> g z"
      using False by (auto simp: set_insort_key)
    then have "insort_key f y (sort_key f (insort_key g x ys))
          = insort_key (\<lambda>x. (f x, g x)) y (sort_key f (insort_key g x ys))"
        and "insort_key f y (sort_key f ys) = insort_key (\<lambda>x. (f x, g x)) y (sort_key f ys)"
      by (simp_all add: insort_key_lex)
    moreover have "insort_key (\<lambda>x. (f x, g x)) x (insort_key (\<lambda>x. (f x, g x)) y (sort_key f ys))
        = insort_key (\<lambda>x. (f x, g x)) y (insort_key (\<lambda>x. (f x, g x)) x (sort_key f ys))"
      using False by (intro insort_key_left_comm) auto
    ultimately show ?thesis
      using False Cons by simp
  qed
qed simp

lemma sort_key_lex:
  fixes f :: "'a \<Rightarrow> 'b :: linorder" and g :: "'a \<Rightarrow> 'c :: linorder"
  shows "sort_key (\<lambda>x. (f x, g x)) xs = sort_key f (sort_key g xs)"
  by (induction xs) (simp_all add: sort_key_insort_lex)

lemma sort_key_append_sorted:
  "\<forall>x \<in> set xs. \<forall>y \<in> set ys. f x \<le> f y \<Longrightarrow> sorted (map f ys) \<Longrightarrow> sort_key f (xs @ ys) = sort_key f xs @ ys"
proof (induction ys rule: rev_induct)
  case (snoc y ys)
  then have "sort_key f ((xs @ ys) @ [y]) = sort_key f (xs @ ys) @ [y]"
    by (intro sort_key_snoc_max) (auto simp: sorted_append)
  with snoc show ?case by (simp add: sorted_append)
qed simp

text \<open>Consecutive pages join to one page.\<close>

lemma take_drop_join: "take n (drop k xs) @ take m (drop (k + n) xs) = take (n + m) (drop k xs)"
  by (metis add.commute drop_drop take_add)

end
