(* ===== verification/Dialogs_Pg.thy ===== *)
theory Dialogs_Pg
  imports Messages
begin

text \<open>
  \<^verbatim>\<open>app/dialogs/repository.py\<close> and \<^verbatim>\<open>app/dialogs/pg_repository.py\<close>: the dialog repository on the
  sharded PostgreSQL cluster.  The state holds the cluster configuration and one shard per pool
  (equal pools are one database).  What the code leaves to its environment is an argument: the
  message id \<^verbatim>\<open>uuid4()\<close> returned, the time \<^verbatim>\<open>now()\<close> returns on each server, and which servers
  answer.
\<close>

record 'p dialogs =
  dg_cluster :: "'p cluster"
  dg_shard :: "'p \<Rightarrow> shard"

record dialog_dto =
  from_user_id :: uuid
  to_user_id :: uuid
  dto_text :: string
  dto_created_at :: int

definition row_to_dto :: "message_row \<Rightarrow> dialog_dto" where
  "row_to_dto row = \<lparr>from_user_id = sender_id row, to_user_id = recipient_id row,
     dto_text = body row, dto_created_at = created_at row\<rparr>"

text \<open>\<^verbatim>\<open>async with pool.acquire() as conn: await conn.execute(INSERT ...)\<close>.\<close>

definition exec_insert :: "('p \<Rightarrow> bool) \<Rightarrow> message_row \<Rightarrow> 'p \<Rightarrow> ('p dialogs, unit) prog" where
  "exec_insert up r p d =
     (if up p then (Inr (), d\<lparr>dg_shard := (dg_shard d)(p := insert_message r (dg_shard d p))\<rparr>)
      else (Inl (ConnectionError ''shard''), d))"

definition new_message :: "uuid \<Rightarrow> byte list \<Rightarrow> uuid \<Rightarrow> uuid \<Rightarrow> string \<Rightarrow> int \<Rightarrow> message_row" where
  "new_message mid cid from_id to_id text ts =
     \<lparr>msg_serial = 0, message_id = mid, chat_id = cid, sender_id = from_id,
      recipient_id = to_id, body = text, created_at = ts\<rparr>"

definition pg_send :: "('p \<Rightarrow> bool) \<Rightarrow> ('p \<Rightarrow> int) \<Rightarrow> uuid \<Rightarrow> uuid \<Rightarrow> uuid \<Rightarrow> string \<Rightarrow>
    ('p dialogs, unit) prog" where
  "pg_send up now mid from_id to_id text d =
     (let cid = compute_chat_id from_id to_id in
      case write_pools_for_chat (dg_cluster d) cid of
        Inl e \<Rightarrow> (Inl e, d)
      | Inr ps \<Rightarrow> forP ps (\<lambda>p. exec_insert up (new_message mid cid from_id to_id text (now p)) p) d)"

definition pg_list :: "('p \<Rightarrow> bool) \<Rightarrow> uuid \<Rightarrow> uuid \<Rightarrow> int \<Rightarrow> int \<Rightarrow>
    ('p dialogs, dialog_dto list) prog" where
  "pg_list up user_a user_b limit offset d =
     (let cid = compute_chat_id user_a user_b in
      case connection_for_chat up (dg_cluster d) cid of
        Inl e \<Rightarrow> (Inl e, d)
      | Inr p \<Rightarrow>
          case select_chat_page cid limit offset (dg_shard d p) of
            Inl e \<Rightarrow> (Inl e, d)
          | Inr rows \<Rightarrow> (Inr (map row_to_dto rows), d))"

section \<open>Well-formed states\<close>

text \<open>Every shard satisfies the table's constraints, and every stored message carries the chat
  identifier of its two users.\<close>

definition dialogs_ok :: "'p dialogs \<Rightarrow> bool" where
  "dialogs_ok d \<longleftrightarrow> cluster_ok (dg_cluster d) \<and> (\<forall>p. shard_ok (dg_shard d p)
     \<and> (\<forall>r \<in> set (sh_rows (dg_shard d p)). chat_id r = compute_chat_id (sender_id r) (recipient_id r)))"

definition read_pool :: "'p dialogs \<Rightarrow> byte list \<Rightarrow> 'p" where
  "read_pool d cid = cl_pools (dg_cluster d) ! chat_home cid (cl_read_n (dg_cluster d))"

definition write_pools :: "'p dialogs \<Rightarrow> byte list \<Rightarrow> 'p list" where
  "write_pools d cid =
     (let c = dg_cluster d; r = chat_home cid (cl_read_n c); w = chat_home cid (cl_write_n c)
      in map ((!) (cl_pools c)) (if cl_dual_write c \<and> r \<noteq> w then [r, w] else [w]))"

text \<open>The rows of the chat between two users, as the repository reads them.\<close>

definition chat_log :: "'p dialogs \<Rightarrow> uuid \<Rightarrow> uuid \<Rightarrow> message_row list" where
  "chat_log d a b = (let cid = compute_chat_id a b in chat_rows_desc cid (dg_shard d (read_pool d cid)))"

lemma read_pool_for_chat_eq:
  "cluster_ok (dg_cluster d) \<Longrightarrow> 8 \<le> length cid \<Longrightarrow>
     read_pool_for_chat (dg_cluster d) cid = Inr (read_pool d cid)"
  by (simp add: read_pool_ok read_pool_def)

lemma write_pools_for_chat_eq:
  "cluster_ok (dg_cluster d) \<Longrightarrow> 8 \<le> length cid \<Longrightarrow>
     write_pools_for_chat (dg_cluster d) cid = Inr (write_pools d cid)"
  by (simp add: write_pools_ok write_pools_def Let_def)

lemma write_pools_nonempty [simp]: "write_pools d cid \<noteq> []"
  by (simp add: write_pools_def Let_def)

text \<open>Reads see writes: the shard that is read is among the shards that are written, in normal
  mode (equal numbers of shards) and during dual-write.\<close>

lemma read_pool_written:
  assumes "cl_dual_write (dg_cluster d) \<or> cl_read_n (dg_cluster d) = cl_write_n (dg_cluster d)"
  shows "read_pool d cid \<in> set (write_pools d cid)"
  using assms by (auto simp: read_pool_def write_pools_def Let_def)

lemma distinct_write_pools:
  assumes "cluster_ok (dg_cluster d)" and "distinct (cl_pools (dg_cluster d))" and "8 \<le> length cid"
  shows "distinct (write_pools d cid)"
  using assms cluster_ok_homes [OF assms(1,3)]
  by (auto simp: write_pools_def Let_def nth_eq_iff_index_eq)

section \<open>Sending\<close>

text \<open>The effect of a send on the shard of a pool it reaches.\<close>

definition stored :: "uuid \<Rightarrow> uuid \<Rightarrow> uuid \<Rightarrow> string \<Rightarrow> ('p \<Rightarrow> int) \<Rightarrow> 'p \<Rightarrow> 'p dialogs \<Rightarrow> 'p dialogs" where
  "stored mid from_id to_id text now p d =
     d\<lparr>dg_shard := (dg_shard d)(p := insert_message
        (new_message mid (compute_chat_id from_id to_id) from_id to_id text (now p)) (dg_shard d p))\<rparr>"

lemma dg_cluster_fold_stored [simp]:
  "dg_cluster (fold (stored mid f t tx now) ps d) = dg_cluster d"
  by (induction ps arbitrary: d) (auto simp: stored_def)

lemma dg_shard_fold_stored:
  assumes "distinct ps"
  shows "dg_shard (fold (stored mid f t tx now) ps d) p =
    (if p \<in> set ps then insert_message (new_message mid (compute_chat_id f t) f t tx (now p)) (dg_shard d p)
     else dg_shard d p)"
  using assms by (induction ps arbitrary: d) (auto simp: stored_def)

lemma pg_send_ok:
  assumes "cluster_ok (dg_cluster d)"
    and "\<forall>p \<in> set (write_pools d (compute_chat_id f t)). up p"
  shows "pg_send up now mid f t tx d
    = (Inr (), fold (stored mid f t tx now) (write_pools d (compute_chat_id f t)) d)"
proof -
  let ?ps = "write_pools d (compute_chat_id f t)"
  have "forP ?ps (\<lambda>p. exec_insert up (new_message mid (compute_chat_id f t) f t tx (now p)) p) d
      = (Inr (), fold (stored mid f t tx now) ?ps d)"
    using assms(2) by (intro forP_total) (auto simp: exec_insert_def stored_def)
  then show ?thesis
    using assms(1) by (simp add: pg_send_def write_pools_for_chat_eq)
qed

lemma new_message_chat [simp]:
  "chat_id (new_message m c f t x ts) = c" "message_id (new_message m c f t x ts) = m"
  "sender_id (new_message m c f t x ts) = f" "recipient_id (new_message m c f t x ts) = t"
  "body (new_message m c f t x ts) = x" "created_at (new_message m c f t x ts) = ts"
  by (simp_all add: new_message_def)

lemma dialogs_ok_stored: "dialogs_ok d \<Longrightarrow> dialogs_ok (stored mid f t tx now p d)"
  by (fastforce simp: dialogs_ok_def stored_def insert_message_rows)

text \<open>Whatever a send does, and however many servers fail, the state stays well-formed.\<close>

lemma dialogs_ok_exec_insert:
  assumes "dialogs_ok d" and "exec_insert up (new_message mid (compute_chat_id f t) f t tx (now p)) p d = (r, d')"
  shows "dialogs_ok d'"
  using assms dialogs_ok_stored [OF assms(1), of mid f t tx now p]
  by (auto simp: exec_insert_def stored_def split: if_splits)

lemma pg_send_preserves_ok:
  assumes "dialogs_ok d" and "pg_send up now mid f t tx d = (r, d')"
  shows "dialogs_ok d'"
proof -
  have "dialogs_ok d'"
    if "dialogs_ok d" and "forP ps (\<lambda>p. exec_insert up (new_message mid (compute_chat_id f t) f t tx (now p)) p) d = (r, d')"
    for ps d
    using that
    by (induction ps arbitrary: d)
      (auto split: prod.splits sum.splits dest: dialogs_ok_exec_insert)
  with assms show ?thesis by (auto simp: pg_send_def Let_def split: sum.splits)
qed

section \<open>Listing\<close>

lemma pg_list_ok:
  assumes "cluster_ok (dg_cluster d)" and "up (read_pool d (compute_chat_id a b))"
    and "0 \<le> lim" and "0 \<le> off"
  shows "pg_list up a b lim off d
    = (Inr (map row_to_dto (take (nat lim) (drop (nat off) (chat_log d a b)))), d)"
  using assms by (simp add: pg_list_def connection_for_chat_def read_pool_for_chat_eq select_chat_page_def chat_log_def Let_def)

lemma chat_log_sym: "chat_log d a b = chat_log d b a"
  by (simp add: chat_log_def compute_chat_id_sym)

text \<open>The log of the dialog after a send: the new row comes first.\<close>

lemma pg_send_log:
  fixes tx :: string and now :: "'p \<Rightarrow> int"
  assumes "dialogs_ok d" and "distinct (cl_pools (dg_cluster d))"
    and "cl_dual_write (dg_cluster d) \<or> cl_read_n (dg_cluster d) = cl_write_n (dg_cluster d)"
    and "\<forall>p \<in> set (write_pools d (compute_chat_id f t)). up p"
    and "\<forall>r \<in> set (sh_rows (dg_shard d (read_pool d (compute_chat_id f t)))).
      message_id r \<noteq> mid \<and> (chat_id r = compute_chat_id f t \<longrightarrow> created_at r \<le> now (read_pool d (compute_chat_id f t)))"
  defines "d' \<equiv> fold (stored mid f t tx now) (write_pools d (compute_chat_id f t)) d"
    and "p \<equiv> read_pool d (compute_chat_id f t)"
  shows "pg_send up now mid f t tx d = (Inr (), d')" and "up p" and "\<And>c. read_pool d' c = read_pool d c"
    and "dg_shard d' q = (if q \<in> set (write_pools d (compute_chat_id f t)) then
      insert_message (new_message mid (compute_chat_id f t) f t tx (now q)) (dg_shard d q) else dg_shard d q)"
    and "chat_log d' f t = (new_message mid (compute_chat_id f t) f t tx (now p))\<lparr>msg_serial := sh_next (dg_shard d p)\<rparr> # chat_log d f t"
proof -
  let ?cid = "compute_chat_id f t" and ?r = "new_message mid (compute_chat_id f t) f t tx (now p)"
  have ok: "cluster_ok (dg_cluster d)" "shard_ok (dg_shard d p)" using assms(1) by (auto simp: dialogs_ok_def)
  show "pg_send up now mid f t tx d = (Inr (), d')" unfolding d'_def using ok(1) assms(4) by (rule pg_send_ok)
  show rp: "read_pool d' c = read_pool d c" for c by (simp add: read_pool_def d'_def)
  have wr: "p \<in> set (write_pools d ?cid)" unfolding p_def using assms(3) by (rule read_pool_written)
  then show "up p" using assms(4) by simp
  have dist: "distinct (write_pools d ?cid)" using ok(1) assms(2) by (simp add: distinct_write_pools)
  show sh: "dg_shard d' q = (if q \<in> set (write_pools d ?cid) then
      insert_message (new_message mid ?cid f t tx (now q)) (dg_shard d q) else dg_shard d q)" for q
    unfolding d'_def by (rule dg_shard_fold_stored [OF dist])
  have "chat_rows_desc ?cid (insert_message ?r (dg_shard d p))
      = ?r\<lparr>msg_serial := sh_next (dg_shard d p)\<rparr> # chat_rows_desc ?cid (dg_shard d p)"
    using chat_rows_desc_insert_newest [OF ok(2), of ?r] assms(5) by (fastforce simp: p_def)
  then show "chat_log d' f t = ?r\<lparr>msg_serial := sh_next (dg_shard d p)\<rparr> # chat_log d f t"
    using wr sh rp by (simp add: chat_log_def Let_def p_def)
qed

section \<open>Properties of the repository\<close>

text \<open>A send writes the pools the cluster names in their order and stops at
  the first that does not answer: it returns exactly when all of them answer, and otherwise it
  raises with the pools before the failing one written.\<close>

theorem send_writes_until_failure:
  assumes "cluster_ok (dg_cluster d)"
  shows "pg_send up now mid f t tx d =
    (if \<forall>p \<in> set (write_pools d (compute_chat_id f t)). up p then Inr () else Inl (ConnectionError ''shard''),
     fold (stored mid f t tx now) (takeWhile up (write_pools d (compute_chat_id f t))) d)"
proof -
  let ?ins = "\<lambda>p. exec_insert up (new_message mid (compute_chat_id f t) f t tx (now p)) p"
  have "forP ps ?ins e = (if \<forall>p \<in> set ps. up p then Inr () else Inl (ConnectionError ''shard''),
      fold (stored mid f t tx now) (takeWhile up ps) e)" for ps e
    by (induction ps arbitrary: e) (auto simp: exec_insert_def stored_def)
  then show ?thesis using assms by (simp add: pg_send_def write_pools_for_chat_eq Let_def)
qed

text \<open>C28: whatever servers fail, a send keeps the tables' constraints and the chat
  identifiers consistent, and no stored message is lost.\<close>

theorem send_keeps_state_ok:
  assumes "dialogs_ok d"
  shows "dialogs_ok (snd (pg_send up now mid f t tx d))
    \<and> (\<forall>p. set (sh_rows (dg_shard d p)) \<subseteq> set (sh_rows (dg_shard (snd (pg_send up now mid f t tx d)) p)))"
proof -
  obtain r d' where run: "pg_send up now mid f t tx d = (r, d')" by fastforce
  let ?cid = "compute_chat_id f t"
  have "set (sh_rows (dg_shard e p)) \<subseteq> set (sh_rows (dg_shard e' p))"
    if "forP ps (\<lambda>p. exec_insert up (new_message mid ?cid f t tx (now p)) p) e = (r, e')" for ps e e' p
    using that
    by (induction ps arbitrary: e)
      (fastforce simp: exec_insert_def insert_message_rows split: if_splits prod.splits sum.splits)+
  with run have "\<forall>p. set (sh_rows (dg_shard d p)) \<subseteq> set (sh_rows (dg_shard d' p))"
    by (auto simp: pg_send_def Let_def split: sum.splits)
  with run pg_send_preserves_ok [OF assms run] show ?thesis by simp
qed

text \<open>in normal mode and during dual-write, when the servers of the chat answer, a
  message with a new id that is not older than the chat's messages is shown first, to both users,
  before exactly what was shown before; every other dialog is unchanged.\<close>

theorem send_then_list:
  assumes "dialogs_ok d" and "distinct (cl_pools (dg_cluster d))"
    and "cl_dual_write (dg_cluster d) \<or> cl_read_n (dg_cluster d) = cl_write_n (dg_cluster d)"
    and "\<forall>p \<in> set (write_pools d (compute_chat_id f t)). up p"
    and "\<forall>r \<in> set (sh_rows (dg_shard d (read_pool d (compute_chat_id f t)))).
      message_id r \<noteq> mid \<and> (chat_id r = compute_chat_id f t \<longrightarrow> created_at r \<le> now (read_pool d (compute_chat_id f t)))"
    and "0 \<le> lim"
  shows "\<exists>d' shown. pg_send up now mid f t tx d = (Inr (), d')
    \<and> pg_list up t f lim 0 d = (Inr shown, d)
    \<and> pg_list up t f (lim + 1) 0 d' = (Inr (\<lparr>from_user_id = f, to_user_id = t, dto_text = tx,
         dto_created_at = now (read_pool d (compute_chat_id f t))\<rparr> # shown), d')
    \<and> pg_list up f t (lim + 1) 0 d' = pg_list up t f (lim + 1) 0 d'
    \<and> (\<forall>a b k off. compute_chat_id a b \<noteq> compute_chat_id f t \<longrightarrow>
         fst (pg_list up a b k off d') = fst (pg_list up a b k off d))"
proof -
  let ?cid = "compute_chat_id f t" and ?d' = "fold (stored mid f t tx now) (write_pools d (compute_chat_id f t)) d"
  let ?p = "read_pool d (compute_chat_id f t)"
  let ?r = "new_message mid ?cid f t tx (now ?p)"
  have ok: "cluster_ok (dg_cluster d)" "shard_ok (dg_shard d ?p)" using assms(1) by (auto simp: dialogs_ok_def)
  have cid: "compute_chat_id t f = ?cid" by (rule compute_chat_id_sym)
  note sl = pg_send_log [where up = up and now = now and mid = mid, OF assms(1-5)]
  have send: "pg_send up now mid f t tx d = (Inr (), ?d')" by (rule sl(1))
  note up = sl(2) and rp = sl(3) [where tx = tx] and sh = sl(4) [where tx = tx]
  have log: "chat_log ?d' t f = ?r\<lparr>msg_serial := sh_next (dg_shard d ?p)\<rparr> # chat_log d t f"
    using sl(5) [where tx = tx] by (simp add: chat_log_sym [of _ t f])
  have list: "pg_list up t f k off e = (Inr (map row_to_dto (take (nat k) (drop (nat off) (chat_log e t f)))), e)"
    if "e = d \<or> e = ?d'" "0 \<le> k" "0 \<le> off" for e k off
    using pg_list_ok [of e up t f k off] that ok(1) up rp cid by auto
  have "row_to_dto (?r\<lparr>msg_serial := m\<rparr>) = \<lparr>from_user_id = f, to_user_id = t, dto_text = tx, dto_created_at = now ?p\<rparr>" for m
    by (simp add: row_to_dto_def new_message_def)
  then have "pg_list up t f (lim + 1) 0 ?d' = (Inr (\<lparr>from_user_id = f, to_user_id = t, dto_text = tx,
      dto_created_at = now ?p\<rparr> # map row_to_dto (take (nat lim) (chat_log d t f))), ?d')"
    using list [of ?d' "lim + 1" 0] assms(6) by (simp add: log nat_add_distrib)
  moreover have "pg_list up t f lim 0 d = (Inr (map row_to_dto (take (nat lim) (chat_log d t f))), d)"
    using list [of d lim 0] assms(6) by simp
  moreover have "pg_list up f t (lim + 1) 0 ?d' = pg_list up t f (lim + 1) 0 ?d'"
    by (simp add: pg_list_def connection_for_chat_def cid)
  moreover have "fst (pg_list up a b k off ?d') = fst (pg_list up a b k off d)"
    if "compute_chat_id a b \<noteq> ?cid" for a b k off
  proof -
    have "chat_rows_desc (compute_chat_id a b) (dg_shard ?d' q) = chat_rows_desc (compute_chat_id a b) (dg_shard d q)" for q
      using that by (auto simp: sh chat_rows_desc_insert_other)
    then show ?thesis using ok(1) rp by (simp add: pg_list_def connection_for_chat_def Let_def read_pool_for_chat_eq select_chat_page_def)
  qed
  ultimately show ?thesis using send by blast
qed

text \<open>C27: a list returns at most \<open>limit\<close> messages, newest first, all of the chat of the
  two users (of exactly these two users, unless two payloads collide under SHA-256), and changes
  nothing.\<close>

theorem list_is_the_dialog:
  assumes "dialogs_ok d" and "pg_list up a b lim off d = (Inr ms, d')"
  shows "d' = d \<and> int (length ms) \<le> lim
    \<and> sorted_wrt (\<lambda>x y. dto_created_at y \<le> dto_created_at x) ms
    \<and> (\<forall>m \<in> set ms. sha256 (chat_payload (from_user_id m) (to_user_id m)) = sha256 (chat_payload a b)
         \<and> ({from_user_id m, to_user_id m} = {a, b}
            \<or> chat_payload (from_user_id m) (to_user_id m) \<noteq> chat_payload a b))"
proof -
  let ?cid = "compute_chat_id a b" and ?log = "chat_log d a b"
  have ok: "cluster_ok (dg_cluster d)" "shard_ok (dg_shard d (read_pool d ?cid))"
    using assms(1) by (auto simp: dialogs_ok_def)
  from assms(2) ok(1) have d': "d' = d" and lim: "0 \<le> lim"
    and ms: "ms = map row_to_dto (take (nat lim) (drop (nat off) ?log))"
    by (auto simp: pg_list_def connection_for_chat_def Let_def read_pool_for_chat_eq select_chat_page_def chat_log_def split: if_splits)
  have "sorted_wrt (\<lambda>x y. msg_key y < msg_key x) ?log"
    using chat_rows_desc_strict [OF ok(2)] by (simp add: chat_log_def Let_def)
  then have "sorted_wrt (\<lambda>x y. created_at y \<le> created_at x) ?log"
    by (rule sorted_wrt_mono_rel [rotated]) (auto simp: less_prod_def)
  then have "sorted_wrt (\<lambda>x y. created_at y \<le> created_at x) (take (nat lim) (drop (nat off) ?log))"
    by (intro sorted_wrt_take sorted_wrt_drop)
  then have sorted: "sorted_wrt (\<lambda>x y. dto_created_at y \<le> dto_created_at x) ms"
    by (simp add: ms sorted_wrt_map row_to_dto_def)
  have "compute_chat_id (from_user_id m) (to_user_id m) = ?cid" if "m \<in> set ms" for m
  proof -
    from that obtain r where r: "r \<in> set ?log" "m = row_to_dto r"
      by (auto simp: ms dest: in_set_takeD in_set_dropD)
    then have "r \<in> set (sh_rows (dg_shard d (read_pool d ?cid)))" "chat_id r = ?cid"
      by (auto simp: chat_log_def Let_def)
    with assms(1) r(2) show ?thesis by (auto simp: dialogs_ok_def row_to_dto_def)
  qed
  then have chats: "\<forall>m \<in> set ms. sha256 (chat_payload (from_user_id m) (to_user_id m)) = sha256 (chat_payload a b)"
    by (simp add: compute_chat_id_def)
  moreover have "{from_user_id m, to_user_id m} = {a, b} \<or> chat_payload (from_user_id m) (to_user_id m) \<noteq> chat_payload a b" for m
    using chat_payload_inj by blast
  moreover have "int (length ms) \<le> lim" using lim by (simp add: ms)
  ultimately show ?thesis using d' sorted by blast
qed

text \<open>Consecutive pages of a dialog join to one page: nothing is skipped or shown twice.\<close>

theorem list_pages_join:
  assumes "pg_list up a b n off d = (Inr xs, d)" and "pg_list up a b m (off + n) d = (Inr ys, d)"
  shows "pg_list up a b (n + m) off d = (Inr (xs @ ys), d)"
proof -
  have "nat (off + n) = nat off + nat n" "nat (n + m) = nat n + nat m"
    if "0 \<le> n" "0 \<le> m" "0 \<le> off" using that by auto
  with assms show ?thesis
    by (auto simp: pg_list_def connection_for_chat_def Let_def select_chat_page_def take_drop_join simp flip: map_append split: sum.splits if_splits)
qed

section \<open>An example\<close>

definition one_shard :: "shard \<Rightarrow> unit dialogs" where
  "one_shard sh = \<lparr>dg_cluster = \<lparr>cl_pools = [()], cl_read_n = 1, cl_write_n = 1, cl_dual_write = False\<rparr>,
     dg_shard = (\<lambda>_. sh)\<rparr>"

lemma one_shard_ok: "dialogs_ok (one_shard empty_shard)"
  by (simp add: dialogs_ok_def one_shard_def cluster_ok_def empty_shard_def shard_ok_def)

lemma send_writes_until_failure_witness:
  "pg_send (\<lambda>_. False) (\<lambda>_. 7) 9 1 2 ''hi'' (one_shard empty_shard) = (Inl (ConnectionError ''shard''), one_shard empty_shard)"
proof -
  obtain p ps where "write_pools (one_shard empty_shard) (compute_chat_id 1 2) = p # ps"
    using write_pools_nonempty by (metis list.exhaust)
  then show ?thesis
    using send_writes_until_failure [of "one_shard empty_shard" "\<lambda>_. False" "\<lambda>_. 7" 9 1 2 "''hi''"] one_shard_ok
    by (simp add: dialogs_ok_def)
qed

lemma send_keeps_state_ok_witness:
  "dialogs_ok (snd (pg_send (\<lambda>_. True) (\<lambda>_. 7) 9 1 2 ''hi'' (one_shard empty_shard)))"
  using send_keeps_state_ok [OF one_shard_ok] by blast

lemma send_then_list_witness:
  "\<exists>d' shown. pg_send (\<lambda>_. True) (\<lambda>_. 7) 9 1 2 ''hi'' (one_shard empty_shard) = (Inr (), d')
    \<and> pg_list (\<lambda>_. True) 2 1 (0 + 1) 0 d' = (Inr (\<lparr>from_user_id = 1, to_user_id = 2, dto_text = ''hi'', dto_created_at = 7\<rparr> # shown), d')"
  using send_then_list [OF one_shard_ok, of 1 2 "\<lambda>_. True" 9 "\<lambda>_. 7" 0 "''hi''"]
  by (auto simp: one_shard_def empty_shard_def)

lemma list_is_the_dialog_witness:
  "\<exists>ms. pg_list (\<lambda>_. True) 1 2 10 0 (one_shard empty_shard) = (Inr ms, one_shard empty_shard) \<and> int (length ms) \<le> 10"
proof -
  have "pg_list (\<lambda>_. True) 1 2 10 0 (one_shard empty_shard) = (Inr [], one_shard empty_shard)"
    using pg_list_ok [of "one_shard empty_shard" "\<lambda>_. True" 1 2 10 0] one_shard_ok
    by (simp add: dialogs_ok_def chat_log_def chat_rows_desc_def one_shard_def empty_shard_def Let_def)
  with list_is_the_dialog [OF one_shard_ok this] show ?thesis by blast
qed

lemma list_pages_join_witness:
  "pg_list (\<lambda>_. True) 1 2 (10 + 5) 0 (one_shard empty_shard) = (Inr ([] @ []), one_shard empty_shard)"
proof (rule list_pages_join)
  have "pg_list (\<lambda>_. True) 1 2 n off (one_shard empty_shard) = (Inr [], one_shard empty_shard)" if "0 \<le> n" "0 \<le> off" for n off
    using pg_list_ok [of "one_shard empty_shard" "\<lambda>_. True" 1 2 n off] one_shard_ok that
    by (simp add: dialogs_ok_def chat_log_def chat_rows_desc_def one_shard_def empty_shard_def Let_def)
  then show "pg_list (\<lambda>_. True) 1 2 10 0 (one_shard empty_shard) = (Inr [], one_shard empty_shard)"
    and "pg_list (\<lambda>_. True) 1 2 5 (0 + 10) (one_shard empty_shard) = (Inr [], one_shard empty_shard)" by simp_all
qed

end
