(* ===== verification/Resharding.thy ===== *)
theory Resharding
  imports Dialogs_Pg
begin

text \<open>
  \<^verbatim>\<open>scripts/resharding.py\<close>: the stages that move the dialogs from one number of shards to another.
  Each stage is a program on the cluster and its shards; \<open>up\<close> says which servers answer.  The page
  loop of the backfill is a recursive function with a termination proof: a page is never empty when
  the loop goes on, and copying never adds rows to the shard that is being scanned.
\<close>

section \<open>The stages\<close>

definition BATCH :: nat where
  "BATCH = 500"

definition on_cluster :: "('p cluster, 'a) prog \<Rightarrow> ('p dialogs, 'a) prog" where
  "on_cluster m d = (case m (dg_cluster d) of (r, c) \<Rightarrow> (r, d\<lparr>dg_cluster := c\<rparr>))"

definition cmd_enable_dual_write :: "int \<Rightarrow> ('p dialogs, unit) prog" where
  "cmd_enable_dual_write new_n = on_cluster (reconfigure None (Some new_n) (Some True))"

text \<open>The body of the row loop of \<^verbatim>\<open>cmd_backfill\<close>; \<open>moved\<close> counts the copies.\<close>

fun copy_rows :: "('p \<Rightarrow> bool) \<Rightarrow> int \<Rightarrow> int \<Rightarrow> message_row list \<Rightarrow> nat \<Rightarrow> ('p dialogs, nat) prog" where
  "copy_rows up new_n src_idx [] moved d = (Inr moved, d)"
| "copy_rows up new_n src_idx (row # rows) moved d =
     (case shard_for_chat (chat_id row) new_n of
        Inl e \<Rightarrow> (Inl e, d)
      | Inr new_idx \<Rightarrow>
          if new_idx = src_idx then copy_rows up new_n src_idx rows moved d
          else case pool_by_index (dg_cluster d) new_idx of
              Inl e \<Rightarrow> (Inl e, d)
            | Inr dst_pool \<Rightarrow>
                (case exec_insert up row dst_pool d of
                   (Inl e, d') \<Rightarrow> (Inl e, d')
                 | (Inr _, d') \<Rightarrow> copy_rows up new_n src_idx rows (Suc moved) d'))"

lemma copy_rows_keeps_source:
  assumes "copy_rows up new_n src rows moved d = (Inr k, d')"
    and "set rows \<subseteq> set (sh_rows (dg_shard d p))"
  shows "sh_rows (dg_shard d' p) = sh_rows (dg_shard d p)"
  using assms
proof (induction rows arbitrary: moved d)
  case (Cons r rs)
  have step: "sh_rows (dg_shard d1 p) = sh_rows (dg_shard d p)"
    if "exec_insert up r q d = (Inr u, d1)" for q u d1
    using that Cons.prems(2) by (auto simp: exec_insert_def insert_message_dup split: if_splits)
  show ?case
    using Cons.prems Cons.IH step
    by (auto split: sum.splits if_splits prod.splits)
qed simp

lemma last_page:
  assumes "select_after last_id lim sh \<noteq> []"
  shows "last (select_after last_id lim sh) \<in> set (sh_rows sh)"
    and "last_id < msg_serial (last (select_after last_id lim sh))"
  using last_in_set [OF assms] by (auto simp: select_after_def dest: in_set_takeD)

lemma length_filter_strict:
  assumes "\<And>x. P x \<Longrightarrow> Q x" and "y \<in> set xs" and "Q y" and "\<not> P y"
  shows "length (filter P xs) < length (filter Q xs)"
proof -
  have "filter P xs = filter P (filter Q xs)" using assms(1) by (auto intro: filter_cong)
  moreover have "length (filter P (filter Q xs)) < length (filter Q xs)"
    using assms(2-4) by (intro length_filter_less [of y]) auto
  ultimately show ?thesis by simp
qed

function (sequential) backfill_pages :: "('p \<Rightarrow> bool) \<Rightarrow> int \<Rightarrow> int \<Rightarrow> 'p \<Rightarrow> nat \<Rightarrow> nat \<Rightarrow>
    ('p dialogs, nat) prog" where
  "backfill_pages up new_n src_idx src_pool last_id moved d =
     (if \<not> up src_pool then (Inl (ConnectionError ''shard''), d)
      else let rows = select_after last_id BATCH (dg_shard d src_pool) in
        if rows = [] then (Inr moved, d)
        else case copy_rows up new_n src_idx rows moved d of
            (Inl e, d') \<Rightarrow> (Inl e, d')
          | (Inr moved', d') \<Rightarrow>
              backfill_pages up new_n src_idx src_pool (msg_serial (last rows)) moved' d')"
  by pat_completeness auto
termination
proof (relation "measure (\<lambda>(up, new_n, src_idx, src_pool, last_id, moved, d).
    length (filter (\<lambda>r. last_id < msg_serial r) (sh_rows (dg_shard d src_pool))))", goal_cases)
  case 1
  show ?case by simp
next
  case (2 up new_n src_idx src_pool last_id moved d rows res d' moved')
  then have run: "copy_rows up new_n src_idx rows moved d = (Inr moved', d')" by simp
  from 2 have "set rows \<subseteq> set (sh_rows (dg_shard d src_pool))"
    by (auto simp: select_after_def dest: in_set_takeD)
  with run have eq: "sh_rows (dg_shard d' src_pool) = sh_rows (dg_shard d src_pool)"
    by (rule copy_rows_keeps_source)
  from 2 have "last rows \<in> set (sh_rows (dg_shard d src_pool))"
    and "last_id < msg_serial (last rows)"
    using last_page by auto
  then show ?case
    by (auto simp: eq intro!: length_filter_strict [where y = "last rows"])
qed

declare backfill_pages.simps [simp del]

fun backfill_sources :: "('p \<Rightarrow> bool) \<Rightarrow> int \<Rightarrow> nat list \<Rightarrow> nat \<Rightarrow> ('p dialogs, nat) prog" where
  "backfill_sources up new_n [] moved d = (Inr moved, d)"
| "backfill_sources up new_n (src_idx # srcs) moved d =
     (case pool_by_index (dg_cluster d) (int src_idx) of
        Inl e \<Rightarrow> (Inl e, d)
      | Inr src_pool \<Rightarrow>
          (case backfill_pages up new_n (int src_idx) src_pool 0 moved d of
             (Inl e, d') \<Rightarrow> (Inl e, d')
           | (Inr moved', d') \<Rightarrow> backfill_sources up new_n srcs moved' d'))"

definition cmd_backfill :: "('p \<Rightarrow> bool) \<Rightarrow> int \<Rightarrow> ('p dialogs, nat) prog" where
  "cmd_backfill up new_n d =
     (if \<not> is_dual_write (dg_cluster d) then (Inl (RuntimeError ''backfill needs dual-write''), d)
      else let old_n = read_n (dg_cluster d) in backfill_sources up new_n [0..<nat old_n] 0 d)"

fun verify_rows :: "('p \<Rightarrow> bool) \<Rightarrow> int \<Rightarrow> 'p dialogs \<Rightarrow> int \<Rightarrow> message_row list \<Rightarrow> nat \<Rightarrow> nat res" where
  "verify_rows up new_n d src_idx [] missing = Inr missing"
| "verify_rows up new_n d src_idx (row # rows) missing =
     (case shard_for_chat (chat_id row) new_n of
        Inl e \<Rightarrow> Inl e
      | Inr new_idx \<Rightarrow>
          if new_idx = src_idx then verify_rows up new_n d src_idx rows missing
          else case pool_by_index (dg_cluster d) new_idx of
              Inl e \<Rightarrow> Inl e
            | Inr dst_pool \<Rightarrow>
                if \<not> up dst_pool then Inl (ConnectionError ''shard'')
                else verify_rows up new_n d src_idx rows
                  (if message_id row \<in> shard_msgs (dg_shard d dst_pool) then missing else Suc missing))"

fun verify_sources :: "('p \<Rightarrow> bool) \<Rightarrow> int \<Rightarrow> 'p dialogs \<Rightarrow> nat list \<Rightarrow> nat \<Rightarrow> nat res" where
  "verify_sources up new_n d [] missing = Inr missing"
| "verify_sources up new_n d (src_idx # srcs) missing =
     (case pool_by_index (dg_cluster d) (int src_idx) of
        Inl e \<Rightarrow> Inl e
      | Inr src_pool \<Rightarrow>
          if \<not> up src_pool then Inl (ConnectionError ''shard'')
          else case verify_rows up new_n d (int src_idx) (sh_rows (dg_shard d src_pool)) missing of
              Inl e \<Rightarrow> Inl e
            | Inr missing' \<Rightarrow> verify_sources up new_n d srcs missing')"

definition cmd_verify :: "('p \<Rightarrow> bool) \<Rightarrow> int \<Rightarrow> ('p dialogs, unit) prog" where
  "cmd_verify up new_n d =
     (case verify_sources up new_n d [0..<nat (read_n (dg_cluster d))] 0 of
        Inl e \<Rightarrow> (Inl e, d)
      | Inr missing \<Rightarrow>
          if missing \<noteq> 0 then (Inl (RuntimeError ''verify: messages missing on new shards''), d)
          else (Inr (), d))"

definition cmd_switch_read :: "int \<Rightarrow> ('p dialogs, unit) prog" where
  "cmd_switch_read new_n = on_cluster (reconfigure (Some new_n) None None)"

definition cmd_disable_dual_write :: "('p dialogs, unit) prog" where
  "cmd_disable_dual_write = on_cluster (reconfigure None None (Some False))"

text \<open>The list comprehension of \<^verbatim>\<open>cmd_cleanup\<close>.\<close>

fun ids_to_delete :: "int \<Rightarrow> int \<Rightarrow> message_row list \<Rightarrow> nat list res" where
  "ids_to_delete new_n shard_idx [] = Inr []"
| "ids_to_delete new_n shard_idx (r # rs) =
     (case shard_for_chat (chat_id r) new_n of
        Inl e \<Rightarrow> Inl e
      | Inr idx \<Rightarrow> (case ids_to_delete new_n shard_idx rs of
            Inl e \<Rightarrow> Inl e
          | Inr ids \<Rightarrow> Inr (if idx \<noteq> shard_idx then msg_serial r # ids else ids)))"

fun cleanup_shards :: "('p \<Rightarrow> bool) \<Rightarrow> int \<Rightarrow> nat list \<Rightarrow> nat \<Rightarrow> ('p dialogs, nat) prog" where
  "cleanup_shards up new_n [] deleted d = (Inr deleted, d)"
| "cleanup_shards up new_n (shard_idx # idxs) deleted d =
     (case pool_by_index (dg_cluster d) (int shard_idx) of
        Inl e \<Rightarrow> (Inl e, d)
      | Inr p \<Rightarrow>
          if \<not> up p then (Inl (ConnectionError ''shard''), d)
          else case ids_to_delete new_n (int shard_idx) (sh_rows (dg_shard d p)) of
              Inl e \<Rightarrow> (Inl e, d)
            | Inr ids \<Rightarrow>
                cleanup_shards up new_n idxs (deleted + length ids)
                  (if ids \<noteq> [] then d\<lparr>dg_shard := (dg_shard d)(p := delete_ids ids (dg_shard d p))\<rparr> else d))"

definition cmd_cleanup :: "('p \<Rightarrow> bool) \<Rightarrow> int \<Rightarrow> ('p dialogs, nat) prog" where
  "cmd_cleanup up new_n d =
     (if is_dual_write (dg_cluster d) then (Inl (RuntimeError ''cleanup under dual-write''), d)
      else cleanup_shards up new_n [0..<nat new_n] 0 d)"

section \<open>The command line\<close>

definition ALL_COMMANDS :: "string list" where
  "ALL_COMMANDS = [''enable-dual-write'', ''backfill'', ''verify'', ''switch-read'',
     ''disable-dual-write'', ''cleanup'']"

definition dropP :: "('s, 'a) prog \<Rightarrow> ('s, unit) prog" where
  "dropP m = bindP m (\<lambda>_. returnP ())"

definition dispatch :: "('p \<Rightarrow> bool) \<Rightarrow> string \<Rightarrow> int \<Rightarrow> ('p dialogs, unit) prog" where
  "dispatch up command new_n =
     (if command = ''disable-dual-write'' then cmd_disable_dual_write
      else if new_n \<le> 0 then raiseP (SystemExit ''--new-n required'')
      else if command = ''enable-dual-write'' then cmd_enable_dual_write new_n
      else if command = ''backfill'' then dropP (cmd_backfill up new_n)
      else if command = ''verify'' then cmd_verify up new_n
      else if command = ''switch-read'' then cmd_switch_read new_n
      else if command = ''cleanup'' then dropP (cmd_cleanup up new_n)
      else raiseP (SystemExit ''unknown command''))"

text \<open>One run of the script: a new process connects from the settings, runs one command and
  disconnects.  Only the databases and the pool log outlive it.\<close>

definition resharding_main :: "settings \<Rightarrow> 'p pool_maker \<Rightarrow> ('p \<Rightarrow> bool) \<Rightarrow> string \<Rightarrow> int \<Rightarrow>
    (('p \<Rightarrow> shard) \<times> 'p pool_event list, unit) prog" where
  "resharding_main S create_pool up command new_n st =
     (case st of (dbs, log) \<Rightarrow>
      if command \<notin> set ALL_COMMANDS then (Inl (SystemExit ''invalid choice''), (dbs, log))
      else case DialogsCluster_connect S create_pool (initial_cluster, log) of
          (Inl e, (c, log')) \<Rightarrow> (Inl e, (dbs, log'))
        | (Inr _, (c, log')) \<Rightarrow>
            (case dispatch up command new_n \<lparr>dg_cluster = c, dg_shard = dbs\<rparr> of
               (r, d) \<Rightarrow> (case DialogsCluster_disconnect (dg_cluster d, log') of
                  (_, (_, log'')) \<Rightarrow> (r, (dg_shard d, log'')))))"

section \<open>Runs of the script\<close>

lemma connect_dual_write:
  assumes "DialogsCluster_connect S mk (c, log) = (Inr u, (c', log'))"
  shows "cl_dual_write c' = dialogs_dual_write S" and "cluster_ok c'"
  using assms validate_ok_iff [of c']
  by (auto simp: DialogsCluster_connect_def Let_def split: prod.splits sum.splits if_splits)

text \<open>every run of the script takes the mode from the settings, so with
  dual-write off in the settings \<^verbatim>\<open>backfill\<close> raises and copies nothing, whatever
  \<^verbatim>\<open>enable-dual-write\<close> did in an earlier run.\<close>

theorem cli_backfill_needs_setting:
  assumes "\<not> dialogs_dual_write S"
  shows "\<exists>e log'. resharding_main S mk up ''backfill'' new_n
      (snd (resharding_main S mk up ''enable-dual-write'' new_n (dbs, log))) = (Inl e, (dbs, log'))"
proof -
  have en: "fst (snd (resharding_main S mk up ''enable-dual-write'' new_n (dbs, log))) = dbs"
    by (auto simp: resharding_main_def dispatch_def cmd_enable_dual_write_def on_cluster_def ALL_COMMANDS_def
        DialogsCluster_disconnect_def split: prod.splits sum.splits)
  have bf: "\<exists>e log'. resharding_main S mk up ''backfill'' new_n (dbs, l) = (Inl e, (dbs, log'))" for l
  proof (cases "DialogsCluster_connect S mk (initial_cluster, l)")
    case (fields r c l')
    show ?thesis
    proof (cases r)
      case (Inl e)
      then show ?thesis using fields by (simp add: resharding_main_def ALL_COMMANDS_def)
    next
      case (Inr u)
      then have "\<not> cl_dual_write c" using connect_dual_write(1) assms fields by metis
      then show ?thesis
        using Inr fields by (simp add: resharding_main_def ALL_COMMANDS_def dispatch_def dropP_def
            cmd_backfill_def is_dual_write_def DialogsCluster_disconnect_def bindP_def)
    qed
  qed
  show ?thesis
    using en bf [of "snd (snd (resharding_main S mk up ''enable-dual-write'' new_n (dbs, log)))"]
    by (metis prod.collapse)
qed

lemma cli_backfill_needs_setting_witness:
  "\<exists>e log'. resharding_main demo_settings (\<lambda>i _ _ _. Inr i) (\<lambda>_. True) ''backfill'' 2
      (snd (resharding_main demo_settings (\<lambda>i _ _ _. Inr i) (\<lambda>_. True) ''enable-dual-write'' 2 (\<lambda>_. empty_shard, [])))
    = (Inl e, ((\<lambda>_. empty_shard), log'))"
  by (rule cli_backfill_needs_setting) (simp add: demo_settings_def default_settings_def)

end
