(* ===== verification/Resharding_Spec.thy ===== *)
theory Resharding_Spec
  imports Resharding
begin

text \<open>
  What the stages of \<^verbatim>\<open>scripts/resharding.py\<close> compute.  The paged backfill is shown equal to one
  pass over the rows that are not yet at home, the verification to a test of the target shards,
  the cleanup to a filter; from these follows that a whole resharding keeps every dialog.
\<close>

section \<open>Sequences of inserts\<close>

definition ins :: "'p \<times> message_row \<Rightarrow> 'p dialogs \<Rightarrow> 'p dialogs" where
  "ins pr d = (case pr of (p, r) \<Rightarrow>
     d\<lparr>dg_shard := (dg_shard d)(p := insert_message r (dg_shard d p))\<rparr>)"

lemma dg_cluster_ins [simp]: "dg_cluster (ins pr d) = dg_cluster d"
  by (simp add: ins_def split: prod.split)

lemma dg_cluster_fold_ins [simp]: "dg_cluster (fold ins ops d) = dg_cluster d"
  by (induction ops arbitrary: d) auto

text \<open>A pool sees exactly the inserts addressed to it, in their order.\<close>

lemma dg_shard_fold_ins:
  "dg_shard (fold ins ops d) p
     = fold insert_message (map snd (filter (\<lambda>op. fst op = p) ops)) (dg_shard d p)"
  by (induction ops arbitrary: d) (auto simp: ins_def)

lemma exec_insert_up: "up p \<Longrightarrow> exec_insert up r p d = (Inr (), ins (p, r) d)"
  by (simp add: exec_insert_def ins_def)

lemma shard_msgs_fold_insert:
  "shard_msgs (fold insert_message rs sh) = shard_msgs sh \<union> message_id ` set rs"
  by (induction rs arbitrary: sh) auto

lemma shard_ok_fold_insert: "shard_ok sh \<Longrightarrow> shard_ok (fold insert_message rs sh)"
  by (induction rs arbitrary: sh) auto

text \<open>New rows are appended in order, with new serials; rows that are already there are kept.\<close>

definition unserial :: "message_row \<Rightarrow> message_row" where
  "unserial r = r\<lparr>msg_serial := 0\<rparr>"

lemma fold_insert_rows:
  assumes "shard_ok sh"
  shows "\<exists>new. sh_rows (fold insert_message rs sh) = sh_rows sh @ new
    \<and> (\<forall>x \<in> set new. \<exists>r \<in> set rs. unserial x = unserial r \<and> sh_next sh \<le> msg_serial x)
    \<and> sorted (map msg_serial new)
    \<and> (distinct (map message_id rs) \<and> message_id ` set rs \<inter> shard_msgs sh = {}
         \<longrightarrow> map unserial new = map unserial rs)"
  using assms
proof (induction rs arbitrary: sh)
  case Nil
  show ?case by (rule exI [of _ "[]"]) simp
next
  case (Cons r rs)
  let ?sh = "insert_message r sh"
  from Cons.prems have ok: "shard_ok ?sh" by auto
  from Cons.IH [OF ok] obtain new where
      rows: "sh_rows (fold insert_message rs ?sh) = sh_rows ?sh @ new"
    and from_rs: "\<forall>x \<in> set new. \<exists>r \<in> set rs. unserial x = unserial r \<and> sh_next ?sh \<le> msg_serial x"
    and srt: "sorted (map msg_serial new)"
    and fresh: "distinct (map message_id rs) \<and> message_id ` set rs \<inter> shard_msgs ?sh = {}
         \<longrightarrow> map unserial new = map unserial rs"
    by blast
  show ?case
  proof (cases "message_id r \<in> shard_msgs sh")
    case True
    with rows from_rs srt show ?thesis
      by (intro exI [of _ new]) (fastforce simp: insert_message_dup)
  next
    case False
    let ?x = "r\<lparr>msg_serial := sh_next sh\<rparr>"
    have "map unserial (?x # new) = map unserial (r # rs)"
      if "distinct (map message_id (r # rs))" "message_id ` set (r # rs) \<inter> shard_msgs sh = {}"
      using that fresh by (auto simp: unserial_def)
    moreover have "sorted (map msg_serial (?x # new))"
      using srt from_rs by fastforce
    moreover have "\<forall>x \<in> set (?x # new). \<exists>r' \<in> set (r # rs). unserial x = unserial r' \<and> sh_next sh \<le> msg_serial x"
      using from_rs by (fastforce simp: unserial_def)
    ultimately show ?thesis
      using rows False by (intro exI [of _ "?x # new"]) (simp add: insert_message_new)
  qed
qed

section \<open>The backfill is one pass over the misplaced rows\<close>

text \<open>The rows of source shard \<open>i\<close> that have another home under \<open>new_n\<close>, with that home.\<close>

definition copy_ops :: "'p list \<Rightarrow> int \<Rightarrow> nat \<Rightarrow> message_row list \<Rightarrow> ('p \<times> message_row) list" where
  "copy_ops ps new_n i rows =
     map (\<lambda>r. (ps ! chat_home (chat_id r) new_n, r)) (filter (\<lambda>r. chat_home (chat_id r) new_n \<noteq> i) rows)"

definition by_serial :: "shard \<Rightarrow> message_row list" where
  "by_serial sh = sort_key msg_serial (sh_rows sh)"

definition backfill_ops :: "'p dialogs \<Rightarrow> int \<Rightarrow> nat list \<Rightarrow> ('p \<times> message_row) list" where
  "backfill_ops d new_n srcs =
     (let ps = cl_pools (dg_cluster d) in
      concat (map (\<lambda>i. copy_ops ps new_n i (by_serial (dg_shard d (ps ! i)))) srcs))"

lemma backfill_ops_Cons:
  "backfill_ops d new_n (i # srcs) =
     copy_ops (cl_pools (dg_cluster d)) new_n i (by_serial (dg_shard d (cl_pools (dg_cluster d) ! i)))
       @ backfill_ops d new_n srcs"
  by (simp add: backfill_ops_def Let_def)

text \<open>Chat identifiers are long enough to be routed.\<close>

definition routable :: "shard \<Rightarrow> bool" where
  "routable sh \<longleftrightarrow> (\<forall>r \<in> set (sh_rows sh). 8 \<le> length (chat_id r))"

lemma copy_ops_append [simp]: "copy_ops ps n i (xs @ ys) = copy_ops ps n i xs @ copy_ops ps n i ys"
  by (simp add: copy_ops_def)

lemma copy_rows_eq:
  assumes "1 \<le> new_n" and "new_n \<le> int (length (cl_pools (dg_cluster d)))"
    and "\<forall>p \<in> set (cl_pools (dg_cluster d)). up p" and "\<forall>r \<in> set rows. 8 \<le> length (chat_id r)"
  shows "copy_rows up new_n (int i) rows moved d
    = (Inr (moved + length (copy_ops (cl_pools (dg_cluster d)) new_n i rows)),
       fold ins (copy_ops (cl_pools (dg_cluster d)) new_n i rows) d)"
  using assms
proof (induction rows arbitrary: moved d)
  case Nil
  then show ?case by (simp add: copy_ops_def)
next
  case (Cons r rows)
  let ?ps = "cl_pools (dg_cluster d)" and ?h = "chat_home (chat_id r) new_n"
  have h: "?h < length ?ps" using Cons.prems sfc.home_less [of "chat_id r" new_n] by simp
  have route: "shard_for_chat (chat_id r) new_n = Inr (int ?h)"
    using Cons.prems sfc.route_home [of "chat_id r" new_n] by simp
  have up: "up (?ps ! ?h)" using h Cons.prems by simp
  show ?case
  proof (cases "?h = i")
    case True
    then show ?thesis using Cons route by (simp add: copy_ops_def)
  next
    case False
    have "pool_by_index (dg_cluster d) (int ?h) = Inr (?ps ! ?h)"
      using h by (rule pool_by_index_ok)
    moreover have "copy_rows up new_n (int i) rows (Suc moved) (ins (?ps ! ?h, r) d)
        = (Inr (Suc moved + length (copy_ops ?ps new_n i rows)),
           fold ins (copy_ops ?ps new_n i rows) (ins (?ps ! ?h, r) d))"
      using Cons.prems Cons.IH [of "ins (?ps ! ?h, r) d" "Suc moved"] by simp
    ultimately show ?thesis
      using False route up by (simp add: copy_ops_def exec_insert_up)
  qed
qed

text \<open>Copies out of a shard do not change its rows: the only copies that could reach it carry
  message ids it already has.\<close>

lemma fold_insert_known:
  "message_id ` set rs \<subseteq> shard_msgs sh \<Longrightarrow> sh_rows (fold insert_message rs sh) = sh_rows sh"
  by (induction rs arbitrary: sh) (auto simp: insert_message_dup)

lemma source_unchanged:
  assumes "set rows \<subseteq> set (sh_rows (dg_shard d p))"
  shows "sh_rows (dg_shard (fold ins (copy_ops ps n i rows) d) p) = sh_rows (dg_shard d p)"
  unfolding dg_shard_fold_ins using assms
  by (intro fold_insert_known) (auto simp: copy_ops_def)

text \<open>The pages: what is left after \<open>last_id\<close> is a suffix of the rows in serial order.\<close>

definition after :: "nat \<Rightarrow> shard \<Rightarrow> message_row list" where
  "after k sh = sort_key msg_serial (filter (\<lambda>r. k < msg_serial r) (sh_rows sh))"

lemma after_cong: "sh_rows sh = sh_rows sh' \<Longrightarrow> after k sh = after k sh'"
  by (simp add: after_def)

lemma after_rows: "set (after k sh) \<subseteq> set (sh_rows sh)"
  by (auto simp: after_def)

lemma after_0: "shard_ok sh \<Longrightarrow> after 0 sh = by_serial sh"
  by (simp add: after_def by_serial_def shard_ok_def filter_id_conv)

lemma after_strict:
  assumes "shard_ok sh"
  shows "sorted_wrt (<) (map msg_serial (after k sh))"
proof -
  have "distinct (map msg_serial (after k sh))"
    using assms by (simp add: after_def shard_ok_def distinct_map inj_on_def)
  then show ?thesis by (simp add: after_def strict_sorted_iff)
qed

lemma filter_strict_prefix:
  fixes f :: "'a \<Rightarrow> 'b :: linorder"
  assumes "sorted_wrt (<) (map f xs)" and "k < length xs"
  shows "filter (\<lambda>r. f (xs ! k) < f r) xs = drop (Suc k) xs"
proof -
  have xs: "xs = take (Suc k) xs @ drop (Suc k) xs" by simp
  have "filter (\<lambda>r. f (xs ! k) < f r) (take (Suc k) xs) = []"
  proof (rule filter_False, rule ballI)
    fix x assume "x \<in> set (take (Suc k) xs)"
    then obtain j where "j \<le> k" "x = xs ! j"
      by (auto simp: in_set_conv_nth less_Suc_eq_le)
    then show "\<not> f (xs ! k) < f x"
      using assms by (cases "j = k") (auto simp: sorted_wrt_iff_nth_less dest: less_imp_not_less)
  qed
  moreover have "filter (\<lambda>r. f (xs ! k) < f r) (drop (Suc k) xs) = drop (Suc k) xs"
  proof (rule filter_True, rule ballI)
    fix x assume "x \<in> set (drop (Suc k) xs)"
    then obtain j where "j < length xs - Suc k" "x = xs ! (Suc k + j)"
      by (auto simp: in_set_conv_nth)
    then show "f (xs ! k) < f x"
      using assms by (auto simp: sorted_wrt_iff_nth_less)
  qed
  ultimately show ?thesis by (subst xs, subst filter_append) simp
qed

lemma after_next_page:
  assumes "shard_ok sh" and "after k sh \<noteq> []" and "0 < lim"
  defines "page \<equiv> take lim (after k sh)"
  shows "after (msg_serial (last page)) sh = drop lim (after k sh)"
proof -
  let ?xs = "after k sh" and ?m = "min (length (after k sh)) lim - 1"
  have m: "?m < length ?xs" using assms(2) by (cases "after k sh") auto
  have last: "last page = ?xs ! ?m"
    using assms(2,3) unfolding page_def by (simp add: last_conv_nth min.commute)
  have "k < msg_serial (?xs ! ?m)"
    using nth_mem [OF m] by (auto simp: after_def)
  then have "filter (\<lambda>r. msg_serial (?xs ! ?m) < msg_serial r) (sh_rows sh)
      = filter (\<lambda>r. msg_serial (?xs ! ?m) < msg_serial r) (filter (\<lambda>r. k < msg_serial r) (sh_rows sh))"
    by (auto intro!: filter_cong)
  then have "after (msg_serial (last page)) sh = filter (\<lambda>r. msg_serial (?xs ! ?m) < msg_serial r) ?xs"
    by (simp add: last after_def filter_sort)
  also have "\<dots> = drop (Suc ?m) ?xs"
    using after_strict [OF assms(1)] m by (rule filter_strict_prefix)
  also have "\<dots> = drop lim ?xs"
    using assms(2,3) by (cases "lim \<le> length ?xs") (auto simp: min_def)
  finally show ?thesis .
qed

lemma backfill_pages_eq:
  assumes "1 \<le> new_n" and "new_n \<le> int (length (cl_pools (dg_cluster d)))"
    and "\<forall>p \<in> set (cl_pools (dg_cluster d)). up p"
    and "p \<in> set (cl_pools (dg_cluster d))" and "shard_ok (dg_shard d p)" and "routable (dg_shard d p)"
  shows "backfill_pages up new_n (int i) p last_id moved d
    = (Inr (moved + length (copy_ops (cl_pools (dg_cluster d)) new_n i (after last_id (dg_shard d p)))),
       fold ins (copy_ops (cl_pools (dg_cluster d)) new_n i (after last_id (dg_shard d p))) d)"
  using assms
proof (induction up new_n "int i" p last_id moved d rule: backfill_pages.induct)
  case (1 up new_n p last_id moved d)
  let ?ps = "cl_pools (dg_cluster d)" and ?sh = "dg_shard d p"
  let ?page = "select_after last_id BATCH ?sh" and ?xs = "after last_id ?sh"
  have page: "?page = take BATCH ?xs" by (simp add: select_after_def after_def)
  show ?case
  proof (cases "?page = []")
    case True
    with page have "?xs = []" by (simp add: BATCH_def)
    with True "1.prems" show ?thesis by (simp add: backfill_pages.simps copy_ops_def)
  next
    case False
    then have ne: "?xs \<noteq> []" by (auto simp: page)
    let ?ops = "copy_ops ?ps new_n i ?page"
    let ?d = "fold ins ?ops d"
    have sub: "set ?page \<subseteq> set (sh_rows ?sh)"
      using after_rows [of last_id ?sh] by (auto simp: page dest: in_set_takeD)
    then have rows: "sh_rows (dg_shard ?d p) = sh_rows ?sh"
      by (rule source_unchanged)
    have run: "copy_rows up new_n (int i) ?page moved d = (Inr (moved + length ?ops), ?d)"
      using "1.prems" sub by (intro copy_rows_eq) (auto simp: routable_def)
    have ok: "shard_ok (dg_shard ?d p)" "routable (dg_shard ?d p)"
      using "1.prems" rows by (auto simp: dg_shard_fold_ins shard_ok_fold_insert routable_def)
    have rest: "after (msg_serial (last ?page)) (dg_shard ?d p) = drop BATCH ?xs"
      using after_next_page [of ?sh last_id BATCH] after_cong [OF rows] "1.prems"(5) ne page
      by (simp add: BATCH_def)
    have all: "copy_ops ?ps new_n i ?xs = ?ops @ copy_ops ?ps new_n i (drop BATCH ?xs)"
      by (simp add: page flip: copy_ops_append)
    have "backfill_pages up new_n (int i) p (msg_serial (last ?page)) (moved + length ?ops) ?d
        = (Inr (moved + length ?ops + length (copy_ops ?ps new_n i (drop BATCH ?xs))),
           fold ins (copy_ops ?ps new_n i (drop BATCH ?xs)) ?d)"
      using "1.hyps" [OF _ refl False run [symmetric] refl] "1.prems" ok rest by simp
    with "1.prems" False run show ?thesis
      by (simp add: backfill_pages.simps [of up new_n "int i" p last_id moved d] all Let_def)
  qed
qed

text \<open>A copy lands at the end of its shard in serial order, and at home, so scanning that shard
  later copies nothing more.\<close>

lemma by_serial_fold_insert:
  assumes "shard_ok sh"
  shows "\<exists>new. by_serial (fold insert_message rs sh) = by_serial sh @ new
    \<and> sh_rows (fold insert_message rs sh) = sh_rows sh @ new
    \<and> (\<forall>x \<in> set new. \<exists>r \<in> set rs. unserial x = unserial r)
    \<and> (distinct (map message_id rs) \<and> message_id ` set rs \<inter> shard_msgs sh = {}
         \<longrightarrow> map unserial new = map unserial rs)"
proof -
  from fold_insert_rows [OF assms, of rs] obtain new where
      rows: "sh_rows (fold insert_message rs sh) = sh_rows sh @ new"
    and from_rs: "\<forall>x \<in> set new. \<exists>r \<in> set rs. unserial x = unserial r \<and> sh_next sh \<le> msg_serial x"
    and srt: "sorted (map msg_serial new)"
    and fresh: "distinct (map message_id rs) \<and> message_id ` set rs \<inter> shard_msgs sh = {}
         \<longrightarrow> map unserial new = map unserial rs"
    by blast
  have "\<forall>x \<in> set (sh_rows sh). \<forall>y \<in> set new. msg_serial x \<le> msg_serial y"
    using assms from_rs by (fastforce simp: shard_ok_def)
  with srt have "by_serial (fold insert_message rs sh) = by_serial sh @ new"
    by (simp add: by_serial_def rows sort_key_append_sorted)
  with rows from_rs fresh show ?thesis by blast
qed

lemma unserial_fields:
  assumes "unserial x = unserial r"
  shows "chat_id x = chat_id r" and "message_id x = message_id r" and "sender_id x = sender_id r"
    and "recipient_id x = recipient_id r" and "body x = body r" and "created_at x = created_at r"
  using assms by (cases x; cases r; simp add: unserial_def)+

lemma copies_at_home:
  assumes "distinct ps" and "shard_ok (dg_shard d (ps ! j))" and "j < length ps"
    and "\<forall>r \<in> set rows. chat_home (chat_id r) new_n < length ps"
  shows "copy_ops ps new_n j (by_serial (dg_shard (fold ins (copy_ops ps new_n i rows) d) (ps ! j)))
    = copy_ops ps new_n j (by_serial (dg_shard d (ps ! j)))"
proof -
  let ?rs = "map snd (filter (\<lambda>op. fst op = ps ! j) (copy_ops ps new_n i rows))"
  from by_serial_fold_insert [OF assms(2), of ?rs] obtain new where
      eq: "by_serial (fold insert_message ?rs (dg_shard d (ps ! j))) = by_serial (dg_shard d (ps ! j)) @ new"
    and new: "\<forall>x \<in> set new. \<exists>r \<in> set ?rs. unserial x = unserial r"
    by blast
  have "chat_home (chat_id r) new_n = j" if "r \<in> set ?rs" for r
    using that assms by (auto simp: copy_ops_def nth_eq_iff_index_eq)
  then have "\<forall>x \<in> set new. chat_home (chat_id x) new_n = j"
    using new unserial_fields(1) by metis
  then have "copy_ops ps new_n j new = []"
    by (simp add: copy_ops_def filter_empty_conv)
  with eq show ?thesis by (simp add: dg_shard_fold_ins)
qed

definition shards_ok :: "'p dialogs \<Rightarrow> bool" where
  "shards_ok d \<longleftrightarrow> (\<forall>p \<in> set (cl_pools (dg_cluster d)). shard_ok (dg_shard d p) \<and> routable (dg_shard d p))"

lemma routable_fold_insert:
  assumes "routable sh" and "\<forall>r \<in> set rs. 8 \<le> length (chat_id r)"
  shows "routable (fold insert_message rs sh)"
  using assms
proof (induction rs arbitrary: sh)
  case (Cons r rs)
  then have "routable (insert_message r sh)" by (auto simp: routable_def insert_message_rows)
  with Cons show ?case by simp
qed simp

lemma shards_ok_fold_ins:
  assumes "shards_ok d" and "\<forall>op \<in> set ops. 8 \<le> length (chat_id (snd op))"
  shows "shards_ok (fold ins ops d)"
  using assms unfolding shards_ok_def dg_shard_fold_ins
  by (auto intro!: shard_ok_fold_insert routable_fold_insert)

lemma backfill_sources_eq:
  assumes "1 \<le> new_n" and "new_n \<le> int (length (cl_pools (dg_cluster d)))"
    and "\<forall>p \<in> set (cl_pools (dg_cluster d)). up p" and "distinct (cl_pools (dg_cluster d))"
    and "shards_ok d" and "\<forall>i \<in> set srcs. i < length (cl_pools (dg_cluster d))"
  shows "backfill_sources up new_n srcs moved d
    = (Inr (moved + length (backfill_ops d new_n srcs)), fold ins (backfill_ops d new_n srcs) d)"
  using assms
proof (induction srcs arbitrary: moved d)
  case Nil
  then show ?case by (simp add: backfill_ops_def)
next
  case (Cons i srcs)
  let ?ps = "cl_pools (dg_cluster d)"
  let ?rows = "by_serial (dg_shard d (?ps ! i))"
  let ?ops = "copy_ops ?ps new_n i ?rows" and ?d = "fold ins (copy_ops ?ps new_n i ?rows) d"
  have i: "i < length ?ps" and pi: "?ps ! i \<in> set ?ps" using Cons.prems by auto
  have ok: "shard_ok (dg_shard d (?ps ! i))" "routable (dg_shard d (?ps ! i))"
    using Cons.prems pi by (auto simp: shards_ok_def)
  have pages: "backfill_pages up new_n (int i) (?ps ! i) 0 moved d = (Inr (moved + length ?ops), ?d)"
    using backfill_pages_eq [of new_n d up "?ps ! i" i 0 moved] Cons.prems pi ok by (simp add: after_0)
  have long: "\<forall>r \<in> set ?rows. 8 \<le> length (chat_id r)"
    using ok by (auto simp: by_serial_def routable_def)
  then have homes: "\<forall>r \<in> set ?rows. chat_home (chat_id r) new_n < length ?ps"
    using Cons.prems sfc.home_less by blast
  have "shards_ok ?d"
    using Cons.prems long by (intro shards_ok_fold_ins) (auto simp: copy_ops_def)
  then have rest: "backfill_sources up new_n srcs (moved + length ?ops) ?d
      = (Inr (moved + length ?ops + length (backfill_ops ?d new_n srcs)), fold ins (backfill_ops ?d new_n srcs) ?d)"
    using Cons.prems by (intro Cons.IH) auto
  have same: "copy_ops ?ps new_n j (by_serial (dg_shard ?d (?ps ! j)))
      = copy_ops ?ps new_n j (by_serial (dg_shard d (?ps ! j)))" if "j \<in> set srcs" for j
    using that Cons.prems homes by (intro copies_at_home) (auto simp: shards_ok_def)
  have "backfill_ops ?d new_n srcs = backfill_ops d new_n srcs"
    using same by (simp add: backfill_ops_def cong: map_cong)
  with rest pages i show ?case
    by (simp add: pool_by_index_ok backfill_ops_Cons)
qed

end
