(* ===== verification/Resharding_Cycle.thy ===== *)
theory Resharding_Cycle
  imports Resharding_Spec
begin

text \<open>
  A whole resharding: enable dual-write, backfill, verify, switch the reads, disable dual-write,
  clean up.  The theory follows one dialog through the stages: the sequence of its messages in the
  order of their ids, which determines what \<^verbatim>\<open>/dialog/list\<close> shows.
\<close>

section \<open>A dialog as a sequence of messages\<close>

definition chat_seq :: "byte list \<Rightarrow> shard \<Rightarrow> message_row list" where
  "chat_seq cid sh = map unserial (filter (\<lambda>r. chat_id r = cid) (by_serial sh))"

lemma row_to_dto_unserial [simp]: "row_to_dto (unserial r) = row_to_dto r"
  by (simp add: row_to_dto_def unserial_def)

lemma created_at_unserial [simp]: "created_at (unserial r) = created_at r"
  by (simp add: unserial_def)

text \<open>What a client sees of a dialog depends on its sequence only.\<close>

lemma shown_by_seq:
  "map row_to_dto (chat_rows_desc cid sh)
     = map row_to_dto (rev (sort_key created_at (chat_seq cid sh)))"
proof -
  let ?xs = "filter (\<lambda>r. chat_id r = cid) (by_serial sh)"
  have "chat_rows_desc cid sh = rev (sort_key created_at ?xs)"
    by (simp add: chat_rows_desc_def sort_key_lex by_serial_def filter_sort)
  moreover have "sort_key created_at (map unserial ?xs) = map unserial (sort_key created_at ?xs)"
    by (simp add: sort_key_map comp_def)
  ultimately show ?thesis
    by (simp add: chat_seq_def rev_map comp_def)
qed

lemma filter_chat_unserial:
  "map unserial (filter (\<lambda>r. chat_id r = cid) xs) = filter (\<lambda>r. chat_id r = cid) (map unserial xs)"
  by (induction xs) (auto simp: unserial_def)

lemma chat_seq_fold_insert:
  assumes "shard_ok sh" and "distinct (map message_id rs)" and "message_id ` set rs \<inter> shard_msgs sh = {}"
  shows "chat_seq cid (fold insert_message rs sh)
    = chat_seq cid sh @ map unserial (filter (\<lambda>r. chat_id r = cid) rs)"
proof -
  from by_serial_fold_insert [OF assms(1), of rs] assms(2,3) obtain new where
      "by_serial (fold insert_message rs sh) = by_serial sh @ new"
    and "map unserial new = map unserial rs"
    by blast
  then show ?thesis by (simp add: chat_seq_def filter_chat_unserial)
qed

section \<open>States before and after\<close>

text \<open>Every stored row lies on the shard its chat has among \<open>n\<close> shards.\<close>

definition placed :: "int \<Rightarrow> 'p dialogs \<Rightarrow> bool" where
  "placed n d \<longleftrightarrow> (\<forall>i < length (cl_pools (dg_cluster d)).
     \<forall>r \<in> set (sh_rows (dg_shard d (cl_pools (dg_cluster d) ! i))). chat_home (chat_id r) n = i)"

text \<open>A message id occurs on one shard only.\<close>

definition single_copies :: "'p dialogs \<Rightarrow> bool" where
  "single_copies d \<longleftrightarrow> (\<forall>i < length (cl_pools (dg_cluster d)). \<forall>j < length (cl_pools (dg_cluster d)).
     i \<noteq> j \<longrightarrow> shard_msgs (dg_shard d (cl_pools (dg_cluster d) ! i))
       \<inter> shard_msgs (dg_shard d (cl_pools (dg_cluster d) ! j)) = {})"

text \<open>The state a resharding to \<open>new_n\<close> starts from: a configured cluster in normal mode whose
  rows are all at home.\<close>

definition reshard_start :: "('p \<Rightarrow> bool) \<Rightarrow> int \<Rightarrow> 'p dialogs \<Rightarrow> bool" where
  "reshard_start up new_n d \<longleftrightarrow> cluster_ok (dg_cluster d) \<and> distinct (cl_pools (dg_cluster d))
     \<and> (\<forall>p \<in> set (cl_pools (dg_cluster d)). up p) \<and> shards_ok d
     \<and> \<not> cl_dual_write (dg_cluster d) \<and> cl_write_n (dg_cluster d) = cl_read_n (dg_cluster d)
     \<and> placed (cl_read_n (dg_cluster d)) d \<and> single_copies d
     \<and> 1 \<le> new_n \<and> new_n \<le> int (length (cl_pools (dg_cluster d)))"

definition reshard :: "('p \<Rightarrow> bool) \<Rightarrow> int \<Rightarrow> ('p dialogs, unit) prog" where
  "reshard up new_n =
     bindP (cmd_enable_dual_write new_n) (\<lambda>_.
     bindP (cmd_backfill up new_n) (\<lambda>_.
     bindP (cmd_verify up new_n) (\<lambda>_.
     bindP (cmd_switch_read new_n) (\<lambda>_.
     bindP cmd_disable_dual_write (\<lambda>_.
     bindP (cmd_cleanup up new_n) (\<lambda>_. returnP ()))))))"

section \<open>After the backfill\<close>

text \<open>The rows a pool receives, source by source.\<close>

definition incoming :: "'p dialogs \<Rightarrow> int \<Rightarrow> nat \<Rightarrow> nat \<Rightarrow> message_row list" where
  "incoming d new_n t i =
     (if i = t then []
      else filter (\<lambda>r. chat_home (chat_id r) new_n = t)
        (by_serial (dg_shard d (cl_pools (dg_cluster d) ! i))))"

lemma row_home_less:
  assumes "shards_ok d" and "p \<in> set (cl_pools (dg_cluster d))" and "r \<in> set (sh_rows (dg_shard d p))"
    and "1 \<le> n" and "n \<le> int (length (cl_pools (dg_cluster d)))"
  shows "chat_home (chat_id r) n < length (cl_pools (dg_cluster d))"
proof -
  from assms(1-3) have "8 \<le> length (chat_id r)" by (auto simp: shards_ok_def routable_def)
  then show ?thesis using assms(4,5) by (rule sfc.home_less)
qed

lemma by_serial_set [simp]: "set (by_serial sh) = set (sh_rows sh)"
  by (simp add: by_serial_def)

lemma incoming_concat:
  assumes "distinct (cl_pools (dg_cluster d))" and "t < length (cl_pools (dg_cluster d))"
    and "shards_ok d" and "1 \<le> new_n" and "new_n \<le> int (length (cl_pools (dg_cluster d)))"
    and "\<forall>i \<in> set srcs. i < length (cl_pools (dg_cluster d))"
  shows "map snd (filter (\<lambda>op. fst op = cl_pools (dg_cluster d) ! t) (backfill_ops d new_n srcs))
    = concat (map (incoming d new_n t) srcs)"
  using assms(6)
proof (induction srcs)
  case Nil
  then show ?case by (simp add: backfill_ops_def)
next
  case (Cons i srcs)
  let ?ps = "cl_pools (dg_cluster d)" and ?rows = "by_serial (dg_shard d (cl_pools (dg_cluster d) ! i))"
  have "\<forall>r \<in> set ?rows. chat_home (chat_id r) new_n < length ?ps"
    using assms(3-5) Cons.prems row_home_less [of d "?ps ! i" _ new_n] by auto
  then have "filter (\<lambda>r. ?ps ! chat_home (chat_id r) new_n = ?ps ! t \<and> chat_home (chat_id r) new_n \<noteq> i) ?rows
      = incoming d new_n t i"
    using assms(1,2) by (auto simp: incoming_def nth_eq_iff_index_eq intro!: filter_cong filter_False)
  then have "map snd (filter (\<lambda>op. fst op = ?ps ! t) (copy_ops ?ps new_n i ?rows)) = incoming d new_n t i"
    by (simp add: copy_ops_def filter_map comp_def conj_commute)
  with Cons show ?case by (simp add: backfill_ops_Cons)
qed

lemma distinct_map_concat:
  assumes "distinct is" and "\<forall>i \<in> set is. distinct (map f (g i))"
    and "\<forall>i \<in> set is. \<forall>j \<in> set is. i \<noteq> j \<longrightarrow> f ` set (g i) \<inter> f ` set (g j) = {}"
  shows "distinct (map f (concat (map g is)))"
  using assms
proof (induction "is")
  case (Cons i "is")
  have tail: "distinct (map f (concat (map g is)))"
    using Cons.prems by (intro Cons.IH) simp_all
  have "f x \<noteq> f y" if "x \<in> set (g i)" "j \<in> set is" "y \<in> set (g j)" for x y j
  proof -
    from that(2) Cons.prems(1) have "i \<noteq> j" by auto
    with that(2) Cons.prems(3) have "f ` set (g i) \<inter> f ` set (g j) = {}" by simp
    with that show ?thesis by blast
  qed
  then have "f ` set (g i) \<inter> f ` set (concat (map g is)) = {}" by auto
  then show ?case using tail Cons.prems(2) by simp
qed simp

lemma distinct_by_serial: "shard_ok sh \<Longrightarrow> distinct (map message_id (by_serial sh))"
  by (auto simp: by_serial_def shard_ok_def distinct_map)

lemma incoming_fresh:
  fixes new_n :: int
  assumes "shards_ok d" and "single_copies d" and "t < length (cl_pools (dg_cluster d))"
    and "old \<le> length (cl_pools (dg_cluster d))"
  defines "rs \<equiv> concat (map (incoming d new_n t) [0..<old])"
  shows "distinct (map message_id rs)"
    and "message_id ` set rs \<inter> shard_msgs (dg_shard d (cl_pools (dg_cluster d) ! t)) = {}"
proof -
  let ?sh = "\<lambda>i. dg_shard d (cl_pools (dg_cluster d) ! i)"
  have sub: "message_id ` set (incoming d new_n t i) \<subseteq> shard_msgs (?sh i)" for i
    by (auto simp: incoming_def)
  have disj: "shard_msgs (?sh i) \<inter> shard_msgs (?sh j) = {}" if "i < old" "j < old" "i \<noteq> j" for i j
    using that assms(2,4) by (auto simp: single_copies_def)
  show "distinct (map message_id rs)"
    unfolding rs_def
  proof (rule distinct_map_concat)
    show "\<forall>i \<in> set [0..<old]. distinct (map message_id (incoming d new_n t i))"
    proof (rule ballI)
      fix i assume "i \<in> set [0..<old]"
      then have "shard_ok (?sh i)" using assms(1,4) by (auto simp: shards_ok_def)
      then show "distinct (map message_id (incoming d new_n t i))"
        by (simp add: incoming_def distinct_by_serial distinct_map_filter)
    qed
    show "\<forall>i \<in> set [0..<old]. \<forall>j \<in> set [0..<old]. i \<noteq> j \<longrightarrow>
        message_id ` set (incoming d new_n t i) \<inter> message_id ` set (incoming d new_n t j) = {}"
    proof (intro ballI impI)
      fix i j assume "i \<in> set [0..<old]" "j \<in> set [0..<old]" "i \<noteq> j"
      then have "shard_msgs (?sh i) \<inter> shard_msgs (?sh j) = {}" by (intro disj) auto
      with sub [of i] sub [of j]
      show "message_id ` set (incoming d new_n t i) \<inter> message_id ` set (incoming d new_n t j) = {}"
        by blast
    qed
  qed simp
  show "message_id ` set rs \<inter> shard_msgs (?sh t) = {}"
  proof -
    have "message_id ` set (incoming d new_n t i) \<inter> shard_msgs (?sh t) = {}" if "i < old" for i
    proof (cases "i = t")
      case True
      then show ?thesis by (simp add: incoming_def)
    next
      case False
      with that assms(2-4) have "shard_msgs (?sh i) \<inter> shard_msgs (?sh t) = {}"
        by (auto simp: single_copies_def)
      with sub [of i] show ?thesis by blast
    qed
    then show ?thesis unfolding rs_def by (fastforce simp: disjoint_iff)
  qed
qed

text \<open>A row is at most on one old shard, so what a dialog's new shard receives of it is exactly what
  its old shard has.\<close>

lemma incoming_chat:
  assumes "placed old_n d" and "i < length (cl_pools (dg_cluster d))"
  shows "filter (\<lambda>r. chat_id r = cid) (incoming d new_n (chat_home cid new_n) i)
    = (if i = chat_home cid old_n \<and> chat_home cid old_n \<noteq> chat_home cid new_n
       then filter (\<lambda>r. chat_id r = cid) (by_serial (dg_shard d (cl_pools (dg_cluster d) ! i))) else [])"
proof -
  have "chat_home (chat_id r) old_n = i"
    if "r \<in> set (sh_rows (dg_shard d (cl_pools (dg_cluster d) ! i)))" for r
    using assms that by (auto simp: placed_def)
  then show ?thesis
    by (auto simp: incoming_def filter_empty_conv intro!: filter_cong)
qed

lemma concat_map_single:
  assumes "distinct xs" and "a \<in> set xs" and "\<forall>x \<in> set xs. x \<noteq> a \<longrightarrow> f x = []"
  shows "concat (map f xs) = f a"
  using assms by (induction xs) (auto simp: concat_eq_Nil_conv)

lemma incoming_chat_all:
  assumes "placed old_n d" and "1 \<le> old_n" and "old_n \<le> int (length (cl_pools (dg_cluster d)))"
    and "8 \<le> length cid"
  shows "filter (\<lambda>r. chat_id r = cid) (concat (map (incoming d new_n (chat_home cid new_n)) [0..<nat old_n]))
    = (if chat_home cid old_n \<noteq> chat_home cid new_n
       then filter (\<lambda>r. chat_id r = cid)
         (by_serial (dg_shard d (cl_pools (dg_cluster d) ! chat_home cid old_n))) else [])"
proof -
  let ?f = "\<lambda>i. filter (\<lambda>r. chat_id r = cid) (incoming d new_n (chat_home cid new_n) i)"
  have h: "chat_home cid old_n < nat old_n"
    using assms(2,4) by (intro sfc.home_less) auto
  have f: "?f i = (if i = chat_home cid old_n \<and> chat_home cid old_n \<noteq> chat_home cid new_n
       then filter (\<lambda>r. chat_id r = cid) (by_serial (dg_shard d (cl_pools (dg_cluster d) ! i))) else [])"
    if "i < nat old_n" for i
    using assms(1,3) that by (intro incoming_chat) auto
  have "concat (map ?f [0..<nat old_n]) = ?f (chat_home cid old_n)"
    using h f by (intro concat_map_single) auto
  then show ?thesis using f [OF h] by (simp add: filter_concat comp_def)
qed

text \<open>The backfill gives the new shard of every dialog the dialog's sequence.\<close>

lemma chat_seq_backfilled:
  assumes "placed old_n d" and "single_copies d" and "shards_ok d" and "distinct (cl_pools (dg_cluster d))"
    and "1 \<le> old_n" and "old_n \<le> int (length (cl_pools (dg_cluster d)))"
    and "1 \<le> new_n" and "new_n \<le> int (length (cl_pools (dg_cluster d)))" and "8 \<le> length cid"
  shows "chat_seq cid (dg_shard (fold ins (backfill_ops d new_n [0..<nat old_n]) d)
           (cl_pools (dg_cluster d) ! chat_home cid new_n))
    = chat_seq cid (dg_shard d (cl_pools (dg_cluster d) ! chat_home cid old_n))"
proof -
  let ?ps = "cl_pools (dg_cluster d)" and ?t = "chat_home cid new_n" and ?s = "chat_home cid old_n"
  let ?rs = "concat (map (incoming d new_n ?t) [0..<nat old_n])" and ?sh = "dg_shard d (?ps ! ?t)"
  have t: "?t < length ?ps" and s: "?s < length ?ps"
    using sfc.home_less assms(5-9) by auto
  have old: "nat old_n \<le> length ?ps" using assms(6) by simp
  have "dg_shard (fold ins (backfill_ops d new_n [0..<nat old_n]) d) (?ps ! ?t) = fold insert_message ?rs ?sh"
    using incoming_concat [OF assms(4) t assms(3,7,8), of "[0..<nat old_n]"] old
    by (simp add: dg_shard_fold_ins)
  moreover have "shard_ok ?sh" using assms(3) t by (simp add: shards_ok_def)
  ultimately have eq: "chat_seq cid (dg_shard (fold ins (backfill_ops d new_n [0..<nat old_n]) d) (?ps ! ?t))
      = chat_seq cid ?sh @ map unserial (filter (\<lambda>r. chat_id r = cid) ?rs)"
    using chat_seq_fold_insert incoming_fresh [OF assms(3,2) t old] by simp
  show ?thesis
  proof (cases "?s = ?t")
    case True
    then show ?thesis using eq incoming_chat_all [OF assms(1,5,6,9), of new_n] by simp
  next
    case False
    have "filter (\<lambda>r. chat_id r = cid) (by_serial ?sh) = []"
      using assms(1) t False by (auto simp: placed_def filter_empty_conv)
    then have "chat_seq cid ?sh = []" by (simp add: chat_seq_def)
    then show ?thesis
      using eq False incoming_chat_all [OF assms(1,5,6,9), of new_n] by (simp add: chat_seq_def)
  qed
qed

section \<open>Verification\<close>

text \<open>The rows a verification counts: those whose home is another shard that has no copy.\<close>

definition missing_rows :: "'p dialogs \<Rightarrow> int \<Rightarrow> nat \<Rightarrow> message_row list \<Rightarrow> message_row list" where
  "missing_rows d new_n i rows = filter (\<lambda>r. chat_home (chat_id r) new_n \<noteq> i
     \<and> message_id r \<notin> shard_msgs (dg_shard d (cl_pools (dg_cluster d) ! chat_home (chat_id r) new_n))) rows"

lemma verify_rows_eq:
  assumes "1 \<le> new_n" and "new_n \<le> int (length (cl_pools (dg_cluster d)))"
    and "\<forall>p \<in> set (cl_pools (dg_cluster d)). up p" and "\<forall>r \<in> set rows. 8 \<le> length (chat_id r)"
  shows "verify_rows up new_n d (int i) rows k = Inr (k + length (missing_rows d new_n i rows))"
  using assms
proof (induction rows arbitrary: k)
  case (Cons r rows)
  let ?h = "chat_home (chat_id r) new_n"
  have h: "?h < length (cl_pools (dg_cluster d))" using Cons.prems sfc.home_less [of "chat_id r" new_n] by simp
  have "shard_for_chat (chat_id r) new_n = Inr (int ?h)"
    using Cons.prems sfc.route_home [of "chat_id r" new_n] by simp
  with h Cons show ?case by (simp add: missing_rows_def pool_by_index_ok)
qed (simp add: missing_rows_def)

lemma verify_sources_eq:
  assumes "1 \<le> new_n" and "new_n \<le> int (length (cl_pools (dg_cluster d)))"
    and "\<forall>p \<in> set (cl_pools (dg_cluster d)). up p" and "shards_ok d"
    and "\<forall>i \<in> set srcs. i < length (cl_pools (dg_cluster d))"
  shows "verify_sources up new_n d srcs k = Inr (k + (\<Sum>i\<leftarrow>srcs. length
    (missing_rows d new_n i (sh_rows (dg_shard d (cl_pools (dg_cluster d) ! i))))))"
  using assms(5)
proof (induction srcs arbitrary: k)
  case (Cons i srcs)
  let ?p = "cl_pools (dg_cluster d) ! i"
  have p: "?p \<in> set (cl_pools (dg_cluster d))" using Cons.prems by simp
  then have "\<forall>r \<in> set (sh_rows (dg_shard d ?p)). 8 \<le> length (chat_id r)"
    using assms(4) by (auto simp: shards_ok_def routable_def)
  then have "verify_rows up new_n d (int i) (sh_rows (dg_shard d ?p)) k
      = Inr (k + length (missing_rows d new_n i (sh_rows (dg_shard d ?p))))"
    using assms(1-3) by (intro verify_rows_eq)
  with p assms(3) Cons show ?case by (simp add: pool_by_index_ok)
qed simp

text \<open>Every row of the first \<open>n\<close> shards has a copy on its new shard.\<close>

definition all_copied :: "'p dialogs \<Rightarrow> int \<Rightarrow> nat \<Rightarrow> bool" where
  "all_copied d new_n n \<longleftrightarrow> (\<forall>i < n. \<forall>r \<in> set (sh_rows (dg_shard d (cl_pools (dg_cluster d) ! i))).
     message_id r \<in> shard_msgs (dg_shard d (cl_pools (dg_cluster d) ! chat_home (chat_id r) new_n)))"

lemma missing_rows_empty:
  "missing_rows d new_n i (sh_rows (dg_shard d (cl_pools (dg_cluster d) ! i))) = []
    \<longleftrightarrow> (\<forall>r \<in> set (sh_rows (dg_shard d (cl_pools (dg_cluster d) ! i))).
     message_id r \<in> shard_msgs (dg_shard d (cl_pools (dg_cluster d) ! chat_home (chat_id r) new_n)))"
  by (auto simp: missing_rows_def filter_empty_conv)

lemma cmd_verify_eq:
  assumes "1 \<le> new_n" and "new_n \<le> int (length (cl_pools (dg_cluster d)))"
    and "\<forall>p \<in> set (cl_pools (dg_cluster d)). up p" and "shards_ok d" and "cluster_ok (dg_cluster d)"
  shows "cmd_verify up new_n d =
    (if all_copied d new_n (nat (cl_read_n (dg_cluster d))) then Inr ()
     else Inl (RuntimeError ''verify: messages missing on new shards''), d)"
proof -
  let ?srcs = "[0..<nat (cl_read_n (dg_cluster d))]"
  let ?f = "\<lambda>i. length (missing_rows d new_n i (sh_rows (dg_shard d (cl_pools (dg_cluster d) ! i))))"
  have "\<forall>i \<in> set ?srcs. i < length (cl_pools (dg_cluster d))"
    using assms(5) by (auto simp: cluster_ok_def)
  then have "verify_sources up new_n d ?srcs 0 = Inr (\<Sum>i\<leftarrow>?srcs. ?f i)"
    using verify_sources_eq [of new_n d up ?srcs 0] assms by simp
  moreover have "(\<Sum>i\<leftarrow>?srcs. ?f i) = 0 \<longleftrightarrow> all_copied d new_n (nat (cl_read_n (dg_cluster d)))"
    unfolding sum_list_eq_0_iff all_copied_def missing_rows_empty [symmetric] by auto
  ultimately show ?thesis by (simp add: cmd_verify_def read_n_def)
qed

section \<open>Cleanup\<close>

definition keep_home :: "int \<Rightarrow> nat \<Rightarrow> shard \<Rightarrow> shard" where
  "keep_home new_n i sh = sh\<lparr>sh_rows := filter (\<lambda>r. chat_home (chat_id r) new_n = i) (sh_rows sh)\<rparr>"

lemma ids_to_delete_eq:
  assumes "1 \<le> new_n" and "\<forall>r \<in> set rows. 8 \<le> length (chat_id r)"
  shows "ids_to_delete new_n (int i) rows
    = Inr (map msg_serial (filter (\<lambda>r. chat_home (chat_id r) new_n \<noteq> i) rows))"
  using assms(2)
proof (induction rows)
  case (Cons r rows)
  then show ?case using assms(1) sfc.route_home [of "chat_id r" new_n] by auto
qed simp

lemma delete_ids_keep_home:
  assumes "shard_ok sh"
  shows "delete_ids (map msg_serial (filter (\<lambda>r. chat_home (chat_id r) new_n \<noteq> i) (sh_rows sh))) sh
    = keep_home new_n i sh"
proof -
  have "msg_serial x \<in> msg_serial ` {r \<in> set (sh_rows sh). chat_home (chat_id r) new_n \<noteq> i}
      \<longleftrightarrow> chat_home (chat_id x) new_n \<noteq> i" if "x \<in> set (sh_rows sh)" for x
    using that shard_ok_unique(1) [OF assms] by auto
  then show ?thesis by (simp add: delete_ids_def keep_home_def cong: filter_cong)
qed

lemma keep_home_id:
  "filter (\<lambda>r. chat_home (chat_id r) new_n \<noteq> i) (sh_rows sh) = [] \<Longrightarrow> keep_home new_n i sh = sh"
  by (simp add: keep_home_def filter_empty_conv filter_id_conv)

lemma cleanup_shards_eq:
  assumes "1 \<le> new_n" and "\<forall>p \<in> set (cl_pools (dg_cluster d)). up p" and "shards_ok d"
    and "distinct (cl_pools (dg_cluster d))"
    and "distinct idxs" and "\<forall>i \<in> set idxs. i < length (cl_pools (dg_cluster d))"
  shows "\<exists>k' d'. cleanup_shards up new_n idxs k d = (Inr k', d') \<and> dg_cluster d' = dg_cluster d
    \<and> (\<forall>i < length (cl_pools (dg_cluster d)). dg_shard d' (cl_pools (dg_cluster d) ! i)
         = (if i \<in> set idxs then keep_home new_n i (dg_shard d (cl_pools (dg_cluster d) ! i))
            else dg_shard d (cl_pools (dg_cluster d) ! i)))"
  using assms
proof (induction idxs arbitrary: k d)
  case (Cons j idxs)
  let ?ps = "cl_pools (dg_cluster d)"
  let ?sh = "dg_shard d (?ps ! j)"
  let ?ids = "map msg_serial (filter (\<lambda>r. chat_home (chat_id r) new_n \<noteq> j) (sh_rows ?sh))"
  let ?d = "d\<lparr>dg_shard := (dg_shard d)(?ps ! j := keep_home new_n j ?sh)\<rparr>"
  have j: "j < length ?ps" "?ps ! j \<in> set ?ps" using Cons.prems by auto
  have ok: "shard_ok ?sh" "routable ?sh" using Cons.prems j by (auto simp: shards_ok_def)
  have ids: "ids_to_delete new_n (int j) (sh_rows ?sh) = Inr ?ids"
    using Cons.prems(1) ok by (intro ids_to_delete_eq) (auto simp: routable_def)
  have upd: "(if ?ids \<noteq> [] then d\<lparr>dg_shard := (dg_shard d)(?ps ! j := delete_ids ?ids ?sh)\<rparr> else d) = ?d"
    using delete_ids_keep_home [OF ok(1), of new_n j] keep_home_id [of new_n j ?sh] by auto
  have run: "cleanup_shards up new_n (j # idxs) k d = cleanup_shards up new_n idxs (k + length ?ids) ?d"
    using Cons.prems j ids upd by (simp add: pool_by_index_ok)
  have "shard_ok (keep_home new_n j ?sh) \<and> routable (keep_home new_n j ?sh)"
    using ok delete_ids_keep_home [OF ok(1), of new_n j]
      shard_ok_delete [OF ok(1), of ?ids] by (auto simp: routable_def keep_home_def)
  then have "shards_ok ?d" using Cons.prems(3) by (auto simp: shards_ok_def)
  moreover have "dg_cluster ?d = dg_cluster d" by simp
  ultimately obtain k' d' where "cleanup_shards up new_n idxs (k + length ?ids) ?d = (Inr k', d')"
    and "dg_cluster d' = dg_cluster d" and each: "\<forall>i < length ?ps. dg_shard d' (?ps ! i)
         = (if i \<in> set idxs then keep_home new_n i (dg_shard ?d (?ps ! i)) else dg_shard ?d (?ps ! i))"
    using Cons.IH [of ?d "k + length ?ids"] Cons.prems by auto
  moreover have "\<forall>i < length ?ps. dg_shard d' (?ps ! i) = (if i \<in> set (j # idxs)
      then keep_home new_n i (dg_shard d (?ps ! i)) else dg_shard d (?ps ! i))"
    using each Cons.prems(4,5) j(1) by (auto simp: nth_eq_iff_index_eq)
  ultimately show ?case unfolding run by blast
qed simp

section \<open>The whole cycle\<close>

lemma chat_seq_keep_home:
  "chat_home cid new_n = i \<Longrightarrow> chat_seq cid (keep_home new_n i sh) = chat_seq cid sh"
  by (simp add: chat_seq_def by_serial_def keep_home_def filter_sort conj_commute cong: conj_cong)

text \<open>Every row after a backfill is a copy of a row before it.\<close>

lemma backfilled_row_origin:
  assumes "shard_ok (dg_shard d p)" and "\<forall>i \<in> set srcs. i < length (cl_pools (dg_cluster d))"
    and "x \<in> set (sh_rows (dg_shard (fold ins (backfill_ops d new_n srcs) d) p))"
  shows "x \<in> set (sh_rows (dg_shard d p)) \<or> (\<exists>i \<in> set srcs.
    \<exists>r \<in> set (sh_rows (dg_shard d (cl_pools (dg_cluster d) ! i))). unserial x = unserial r)"
proof -
  let ?rs = "map snd (filter (\<lambda>op. fst op = p) (backfill_ops d new_n srcs))"
  from fold_insert_rows [OF assms(1), of ?rs] obtain new where
      "sh_rows (fold insert_message ?rs (dg_shard d p)) = sh_rows (dg_shard d p) @ new"
    and "\<forall>x \<in> set new. \<exists>r \<in> set ?rs. unserial x = unserial r"
    by blast
  with assms(3) have "x \<in> set (sh_rows (dg_shard d p)) \<or> (\<exists>r \<in> set ?rs. unserial x = unserial r)"
    by (auto simp: dg_shard_fold_ins)
  then show ?thesis by (fastforce simp: backfill_ops_def copy_ops_def Let_def)
qed

text \<open>After a backfill the verification succeeds.\<close>

lemma backfill_copies_all:
  assumes "placed old_n d" and "shards_ok d" and "distinct (cl_pools (dg_cluster d))"
    and "1 \<le> old_n" and "old_n \<le> int (length (cl_pools (dg_cluster d)))"
    and "1 \<le> new_n" and "new_n \<le> int (length (cl_pools (dg_cluster d)))"
  shows "all_copied (fold ins (backfill_ops d new_n [0..<nat old_n]) d) new_n (nat old_n)"
  unfolding all_copied_def
proof (intro allI impI ballI)
  let ?ps = "cl_pools (dg_cluster d)" and ?ops = "backfill_ops d new_n [0..<nat old_n]"
  fix i x
  assume i: "i < nat old_n" and "x \<in> set (sh_rows (dg_shard (fold ins ?ops d)
    (cl_pools (dg_cluster (fold ins ?ops d)) ! i)))"
  then have x: "x \<in> set (sh_rows (dg_shard (fold ins ?ops d) (?ps ! i)))" by simp
  have iP: "i < length ?ps" using i assms(5) by simp
  let ?t = "chat_home (chat_id x) new_n"
  have ok: "shard_ok (dg_shard d (?ps ! i))" using assms(2) iP by (simp add: shards_ok_def)
  have srcs: "\<forall>i \<in> set [0..<nat old_n]. i < length ?ps" using assms(5) by auto
  from backfilled_row_origin [OF ok srcs x] iP i obtain j r where
      j: "j < nat old_n" and r: "r \<in> set (sh_rows (dg_shard d (?ps ! j)))" and eq: "unserial x = unserial r"
    by auto
  have t: "?t < length ?ps"
    using row_home_less [OF assms(2), of "?ps ! j" r new_n] j r assms(5-7) unserial_fields(1) [OF eq] by simp
  have "message_id r \<in> shard_msgs (dg_shard (fold ins ?ops d) (?ps ! ?t))"
  proof (cases "?t = j")
    case True
    then show ?thesis using r by (auto simp: dg_shard_fold_ins shard_msgs_fold_insert)
  next
    case False
    then have "r \<in> set (concat (map (incoming d new_n ?t) [0..<nat old_n]))"
      using j r unserial_fields(1) [OF eq] by (auto simp: incoming_def)
    then show ?thesis
      using incoming_concat [OF assms(3) t assms(2,6,7) srcs]
      by (auto simp: dg_shard_fold_ins shard_msgs_fold_insert)
  qed
  then show "message_id x \<in> shard_msgs (dg_shard (fold ins ?ops d) (cl_pools (dg_cluster (fold ins ?ops d)) ! ?t))"
    using unserial_fields(2) [OF eq] by simp
qed

text \<open>The stages that only change the configuration.\<close>

lemma config_stages:
  fixes d :: "'p dialogs"
  assumes "cluster_ok (dg_cluster d)" and "1 \<le> n" and "n \<le> int (length (cl_pools (dg_cluster d)))"
  shows "cmd_enable_dual_write n d
      = (Inr (), d\<lparr>dg_cluster := (dg_cluster d)\<lparr>cl_write_n := n, cl_dual_write := True\<rparr>\<rparr>)"
    and "cmd_switch_read n d = (Inr (), d\<lparr>dg_cluster := (dg_cluster d)\<lparr>cl_read_n := n\<rparr>\<rparr>)"
    and "cmd_disable_dual_write d = (Inr (), d\<lparr>dg_cluster := (dg_cluster d)\<lparr>cl_dual_write := False\<rparr>\<rparr>)"
  using assms
  by (simp_all add: cmd_enable_dual_write_def cmd_switch_read_def cmd_disable_dual_write_def
      on_cluster_def reconfigure_def validate_resharding_state_def cluster_ok_def)

lemma cluster_fields:
  "dg_cluster d = c\<lparr>cl_write_n := n, cl_dual_write := True\<rparr> \<Longrightarrow>
     d\<lparr>dg_cluster := (dg_cluster d)\<lparr>cl_read_n := n, cl_dual_write := False\<rparr>\<rparr>
     = d\<lparr>dg_cluster := \<lparr>cl_pools = cl_pools c, cl_read_n = n, cl_write_n = n, cl_dual_write = False\<rparr>\<rparr>"
  by (cases c) simp

text \<open>The state after a resharding: the shards below \<open>new_n\<close> are backfilled and cleaned, the others
  backfilled.\<close>

lemma reshard_run:
  assumes "reshard_start up new_n d"
  defines "ps \<equiv> cl_pools (dg_cluster d)"
    and "d1 \<equiv> fold ins (backfill_ops d new_n [0..<nat (cl_read_n (dg_cluster d))]) d"
  shows "\<exists>d'. reshard up new_n d = (Inr (), d')
    \<and> dg_cluster d' = \<lparr>cl_pools = ps, cl_read_n = new_n, cl_write_n = new_n, cl_dual_write = False\<rparr>
    \<and> (\<forall>i < length ps. dg_shard d' (ps ! i)
         = (if i < nat new_n then keep_home new_n i (dg_shard d1 (ps ! i)) else dg_shard d1 (ps ! i)))"
proof -
  let ?c = "dg_cluster d" and ?old = "cl_read_n (dg_cluster d)"
  note st = assms(1) [unfolded reshard_start_def]
  let ?da = "d\<lparr>dg_cluster := ?c\<lparr>cl_write_n := new_n, cl_dual_write := True\<rparr>\<rparr>"
  let ?ops = "backfill_ops ?da new_n [0..<nat ?old]"
  let ?db = "fold ins ?ops ?da"
  let ?dc = "?db\<lparr>dg_cluster := \<lparr>cl_pools = ps, cl_read_n = new_n, cl_write_n = new_n, cl_dual_write = False\<rparr>\<rparr>"
  have n: "1 \<le> ?old" "?old \<le> int (length ps)" "1 \<le> new_n" "new_n \<le> int (length ps)" "ps \<noteq> []"
    using st by (auto simp: cluster_ok_def ps_def)
  have ops: "?ops = backfill_ops d new_n [0..<nat ?old]" by (simp add: backfill_ops_def)
  have oka: "shards_ok ?da" "placed ?old ?da" using st by (auto simp: shards_ok_def placed_def)
  have shb: "dg_shard ?db = dg_shard d1" by (rule ext) (simp add: d1_def dg_shard_fold_ins ops)
  have srcs: "\<forall>i \<in> set [0..<nat ?old]. i < length ps" "\<forall>i \<in> set [0..<nat new_n]. i < length ps"
    using n by auto
  then have "backfill_sources up new_n [0..<nat ?old] 0 ?da = (Inr (length ?ops), ?db)"
    using backfill_sources_eq [of new_n ?da up "[0..<nat ?old]" 0] n oka st by (simp add: ps_def)
  then have run2: "cmd_backfill up new_n ?da = (Inr (length ?ops), ?db)"
    by (simp add: cmd_backfill_def is_dual_write_def read_n_def)
  have okb: "shards_ok ?db"
    using oka(1) by (rule shards_ok_fold_ins)
      (use st n in \<open>auto simp: backfill_ops_def copy_ops_def Let_def shards_ok_def routable_def ps_def\<close>)
  have "all_copied ?db new_n (nat ?old)"
    using backfill_copies_all [of ?old ?da new_n] oka st n by (simp add: ps_def)
  then have run3: "cmd_verify up new_n ?db = (Inr (), ?db)"
    using cmd_verify_eq [of new_n ?db up] okb st n by (simp add: ps_def cluster_ok_def)
  have "shards_ok ?dc" using okb by (simp add: shards_ok_def ps_def)
  then have "\<exists>k' d'. cleanup_shards up new_n [0..<nat new_n] 0 ?dc = (Inr k', d') \<and> dg_cluster d' = dg_cluster ?dc
    \<and> (\<forall>i < length (cl_pools (dg_cluster ?dc)). dg_shard d' (cl_pools (dg_cluster ?dc) ! i)
         = (if i \<in> set [0..<nat new_n] then keep_home new_n i (dg_shard ?dc (cl_pools (dg_cluster ?dc) ! i))
            else dg_shard ?dc (cl_pools (dg_cluster ?dc) ! i)))"
    using n st srcs(2) by (intro cleanup_shards_eq) (simp_all add: ps_def)
  then obtain k d' where run6: "cleanup_shards up new_n [0..<nat new_n] 0 ?dc = (Inr k, d')"
    and cl: "dg_cluster d' = dg_cluster ?dc" and sh: "\<forall>i < length ps. dg_shard d' (ps ! i)
      = (if i < nat new_n then keep_home new_n i (dg_shard ?db (ps ! i)) else dg_shard ?db (ps ! i))"
    by fastforce
  have run4: "cmd_disable_dual_write (?db\<lparr>dg_cluster := (dg_cluster ?db)\<lparr>cl_read_n := new_n\<rparr>\<rparr>) = (Inr (), ?dc)"
    using config_stages(3) [of "?db\<lparr>dg_cluster := (dg_cluster ?db)\<lparr>cl_read_n := new_n\<rparr>\<rparr>" new_n] n
      cluster_fields [of ?db new_n ?c] by (simp add: ps_def cluster_ok_def)
  have "cmd_cleanup up new_n ?dc = (Inr k, d')"
    using run6 by (simp add: cmd_cleanup_def is_dual_write_def)
  with run2 run3 run4 config_stages(1) [of d new_n] config_stages(2) [of ?db new_n] n
  have "reshard up new_n d = (Inr (), d')"
    by (simp add: reshard_def ps_def cluster_ok_def st)
  with cl sh shb show ?thesis by auto
qed

text \<open>A dialog reads the same before and after.\<close>

lemma pg_list_by_seq:
  assumes "cluster_ok (dg_cluster d)" and "cluster_ok (dg_cluster d')"
    and "up (read_pool d (compute_chat_id a b))" and "up (read_pool d' (compute_chat_id a b))"
    and "chat_seq (compute_chat_id a b) (dg_shard d' (read_pool d' (compute_chat_id a b)))
      = chat_seq (compute_chat_id a b) (dg_shard d (read_pool d (compute_chat_id a b)))"
  shows "fst (pg_list up a b lim off d') = fst (pg_list up a b lim off d)"
proof -
  let ?cid = "compute_chat_id a b"
  have "map row_to_dto (chat_rows_desc ?cid (dg_shard d' (read_pool d' ?cid)))
      = map row_to_dto (chat_rows_desc ?cid (dg_shard d (read_pool d ?cid)))"
    using assms(5) by (simp add: shown_by_seq)
  then have "map row_to_dto (take k (drop j (chat_rows_desc ?cid (dg_shard d' (read_pool d' ?cid)))))
      = map row_to_dto (take k (drop j (chat_rows_desc ?cid (dg_shard d (read_pool d ?cid)))))" for j k
    by (simp flip: take_map drop_map)
  then show ?thesis
    using assms(1-4) by (simp add: pg_list_def connection_for_chat_def Let_def read_pool_for_chat_eq select_chat_page_def)
qed

text \<open>C25: a resharding run through all its stages succeeds, leaves the cluster
  reading and writing \<open>new_n\<close> shards with dual-write off, and every \<^verbatim>\<open>list\<close> of every two users returns
  what it returned before, for every limit and offset; every row left on the shards in use is on
  the shard its chat is routed to.\<close>

theorem reshard_keeps_dialogs:
  assumes "reshard_start up new_n d"
  shows "\<exists>d'. reshard up new_n d = (Inr (), d')
    \<and> dg_cluster d' = \<lparr>cl_pools = cl_pools (dg_cluster d), cl_read_n = new_n, cl_write_n = new_n,
         cl_dual_write = False\<rparr>
    \<and> (\<forall>a b lim off. fst (pg_list up a b lim off d') = fst (pg_list up a b lim off d))
    \<and> (\<forall>i < nat new_n. \<forall>r \<in> set (sh_rows (dg_shard d' (cl_pools (dg_cluster d) ! i))).
         shard_for_chat (chat_id r) new_n = Inr (int i))"
proof -
  let ?ps = "cl_pools (dg_cluster d)" and ?old = "cl_read_n (dg_cluster d)"
  let ?d1 = "fold ins (backfill_ops d new_n [0..<nat ?old]) d"
  note st = assms [unfolded reshard_start_def]
  have n: "1 \<le> ?old" "?old \<le> int (length ?ps)" "1 \<le> new_n" "new_n \<le> int (length ?ps)" "?ps \<noteq> []"
    using st by (auto simp: cluster_ok_def)
  from reshard_run [OF assms] obtain d' where run: "reshard up new_n d = (Inr (), d')"
    and cl: "dg_cluster d' = \<lparr>cl_pools = ?ps, cl_read_n = new_n, cl_write_n = new_n, cl_dual_write = False\<rparr>"
    and sh: "\<forall>i < length ?ps. dg_shard d' (?ps ! i)
         = (if i < nat new_n then keep_home new_n i (dg_shard ?d1 (?ps ! i)) else dg_shard ?d1 (?ps ! i))"
    by blast
  have same: "fst (pg_list up a b lim off d') = fst (pg_list up a b lim off d)" for a b lim off
  proof (rule pg_list_by_seq)
    let ?cid = "compute_chat_id a b"
    let ?t = "chat_home ?cid new_n"
    have t: "?t < length ?ps" "?t < nat new_n" and s: "chat_home ?cid ?old < length ?ps"
      using n by (auto intro: sfc.home_less)
    show "cluster_ok (dg_cluster d)" "cluster_ok (dg_cluster d')" using st cl n by (auto simp: cluster_ok_def)
    show "up (read_pool d ?cid)" "up (read_pool d' ?cid)" using st s t cl by (auto simp: read_pool_def)
    show "chat_seq ?cid (dg_shard d' (read_pool d' ?cid)) = chat_seq ?cid (dg_shard d (read_pool d ?cid))"
      using chat_seq_backfilled [of ?old d new_n ?cid] st n t sh cl
      by (simp add: read_pool_def chat_seq_keep_home)
  qed
  have "shard_for_chat (chat_id r) new_n = Inr (int i)"
    if i: "i < nat new_n" and r: "r \<in> set (sh_rows (dg_shard d' (?ps ! i)))" for i r
  proof -
    have "i < length ?ps" using i n by simp
    with i r sh have r1: "r \<in> set (sh_rows (dg_shard ?d1 (?ps ! i)))" and h: "chat_home (chat_id r) new_n = i"
      by (auto simp: keep_home_def)
    have "shards_ok ?d1" using st n
      by (intro shards_ok_fold_ins) (auto simp: backfill_ops_def copy_ops_def Let_def shards_ok_def routable_def)
    with r1 \<open>i < length ?ps\<close> have "8 \<le> length (chat_id r)" by (auto simp: shards_ok_def routable_def)
    with h n show ?thesis using sfc.route_home [of "chat_id r" new_n] by simp
  qed
  with run cl same show ?thesis by blast
qed

section \<open>Resharding again\<close>

lemma shards_ok_backfilled:
  assumes "shards_ok d" and "\<forall>i \<in> set srcs. i < length (cl_pools (dg_cluster d))"
  shows "shards_ok (fold ins (backfill_ops d new_n srcs) d)"
  using assms
  by (intro shards_ok_fold_ins) (auto simp: backfill_ops_def copy_ops_def Let_def shards_ok_def routable_def)

lemma keep_home_ok: "shard_ok sh \<Longrightarrow> routable sh \<Longrightarrow> shard_ok (keep_home n i sh) \<and> routable (keep_home n i sh)"
  by (auto simp: shard_ok_def routable_def keep_home_def distinct_map_filter)

text \<open>Copies of one message belong to one chat.\<close>

lemma backfilled_same_chat:
  assumes "shards_ok d" and "single_copies d" and "\<forall>i \<in> set srcs. i < length (cl_pools (dg_cluster d))"
    and "i < length (cl_pools (dg_cluster d))" and "j < length (cl_pools (dg_cluster d))"
    and "x \<in> set (sh_rows (dg_shard (fold ins (backfill_ops d new_n srcs) d) (cl_pools (dg_cluster d) ! i)))"
    and "y \<in> set (sh_rows (dg_shard (fold ins (backfill_ops d new_n srcs) d) (cl_pools (dg_cluster d) ! j)))"
    and "message_id x = message_id y"
  shows "chat_id x = chat_id y"
proof -
  let ?ps = "cl_pools (dg_cluster d)" and ?d1 = "fold ins (backfill_ops d new_n srcs) d"
  have ok: "shard_ok (dg_shard d (?ps ! k))" if "k < length ?ps" for k
    using assms(1) that by (simp add: shards_ok_def)
  have orig: "\<exists>k < length ?ps. \<exists>r \<in> set (sh_rows (dg_shard d (?ps ! k))). unserial z = unserial r"
    if "k < length ?ps" "z \<in> set (sh_rows (dg_shard ?d1 (?ps ! k)))" for k z
    using backfilled_row_origin [OF ok [OF that(1)] assms(3) that(2)] assms(3) that(1) by blast
  from orig [OF assms(4,6)] orig [OF assms(5,7)] obtain k l r q where
      k: "k < length ?ps" and r: "r \<in> set (sh_rows (dg_shard d (?ps ! k)))" and xr: "unserial x = unserial r"
    and l: "l < length ?ps" and q: "q \<in> set (sh_rows (dg_shard d (?ps ! l)))" and yq: "unserial y = unserial q"
    by blast
  have mid: "message_id r = message_id q" using assms(8) unserial_fields(2) [OF xr] unserial_fields(2) [OF yq] by simp
  have "k = l"
  proof (rule ccontr)
    assume "k \<noteq> l"
    with assms(2) k l have "shard_msgs (dg_shard d (?ps ! k)) \<inter> shard_msgs (dg_shard d (?ps ! l)) = {}"
      by (simp add: single_copies_def)
    with r q mid show False by (metis disjoint_iff imageI)
  qed
  with r q mid ok [OF k] have "r = q" by (simp add: shard_ok_unique(2))
  then show ?thesis using unserial_fields(1) [OF xr] unserial_fields(1) [OF yq] by simp
qed

lemma reshard_end:
  assumes "reshard_start up new_n d" and "new_n = int (length (cl_pools (dg_cluster d)))"
    and "1 \<le> m" and "m \<le> int (length (cl_pools (dg_cluster d)))"
  shows "reshard_start up m (snd (reshard up new_n d))"
proof -
  let ?ps = "cl_pools (dg_cluster d)" and ?old = "cl_read_n (dg_cluster d)"
  let ?d1 = "fold ins (backfill_ops d new_n [0..<nat ?old]) d"
  note st = assms(1) [unfolded reshard_start_def]
  have srcs: "\<forall>i \<in> set [0..<nat ?old]. i < length ?ps" using st by (auto simp: cluster_ok_def)
  from reshard_run [OF assms(1)] obtain d' where run: "reshard up new_n d = (Inr (), d')"
    and cl: "dg_cluster d' = \<lparr>cl_pools = ?ps, cl_read_n = new_n, cl_write_n = new_n, cl_dual_write = False\<rparr>"
    and "\<forall>i < length ?ps. dg_shard d' (?ps ! i)
         = (if i < nat new_n then keep_home new_n i (dg_shard ?d1 (?ps ! i)) else dg_shard ?d1 (?ps ! i))"
    by blast
  then have sh: "dg_shard d' (?ps ! i) = keep_home new_n i (dg_shard ?d1 (?ps ! i))" if "i < length ?ps" for i
    using that assms(2) by simp
  have home: "chat_home (chat_id r) new_n = i \<and> r \<in> set (sh_rows (dg_shard ?d1 (?ps ! i)))"
    if "i < length ?ps" "r \<in> set (sh_rows (dg_shard d' (?ps ! i)))" for i r
    using that sh by (auto simp: keep_home_def)
  have "shards_ok ?d1" using st srcs by (intro shards_ok_backfilled) auto
  then have "shard_ok (dg_shard d' (?ps ! i)) \<and> routable (dg_shard d' (?ps ! i))" if "i < length ?ps" for i
    using that by (simp add: sh shards_ok_def keep_home_ok)
  then have "shards_ok d'" using cl by (auto simp: shards_ok_def in_set_conv_nth)
  moreover have "placed new_n d'" using home cl by (auto simp: placed_def)
  moreover have "shard_msgs (dg_shard d' (?ps ! i)) \<inter> shard_msgs (dg_shard d' (?ps ! j)) = {}"
    if ij: "i < length ?ps" "j < length ?ps" "i \<noteq> j" for i j
  proof (rule ccontr)
    assume "\<not> ?thesis"
    then obtain x y where x: "x \<in> set (sh_rows (dg_shard d' (?ps ! i)))"
      and y: "y \<in> set (sh_rows (dg_shard d' (?ps ! j)))" and "message_id x = message_id y" by auto
    with backfilled_same_chat [of d "[0..<nat ?old]" i j x new_n y] st srcs ij home
    have "chat_id x = chat_id y" by blast
    with home [OF ij(1) x] home [OF ij(2) y] ij(3) show False by simp
  qed
  ultimately show ?thesis
    using run cl st assms(2-4) by (auto simp: reshard_start_def single_copies_def cluster_ok_def)
qed

text \<open>When the new number of shards is the number of pools, the state a
  resharding leaves is again a state a resharding starts from: rows are at home, one copy of each
  message is left, and the tables' constraints hold.  So a second resharding, to any number of
  shards, succeeds.\<close>

theorem reshard_restartable:
  assumes "reshard_start up new_n d" and "new_n = int (length (cl_pools (dg_cluster d)))"
    and "1 \<le> m" and "m \<le> int (length (cl_pools (dg_cluster d)))"
  shows "reshard_start up m (snd (reshard up new_n d))
    \<and> fst (bindP (reshard up new_n) (\<lambda>_. reshard up m) d) = Inr ()"
proof -
  have "reshard_start up m (snd (reshard up new_n d))" using assms by (rule reshard_end)
  moreover from reshard_run [OF this] have "fst (reshard up m (snd (reshard up new_n d))) = Inr ()" by auto
  moreover from reshard_run [OF assms(1)] have "fst (reshard up new_n d) = Inr ()" by auto
  ultimately show ?thesis by (auto simp: bindP_def split: prod.splits)
qed

text \<open>the cleanup visits the first \<open>new_n\<close> shards only, so when the number of shards
  shrinks the rows of the shards that went out of use stay there.\<close>

theorem shrink_leaves_rows:
  assumes "reshard_start up new_n d" and "nat new_n \<le> i" and "i < length (cl_pools (dg_cluster d))"
  shows "\<exists>d'. reshard up new_n d = (Inr (), d')
    \<and> set (sh_rows (dg_shard d (cl_pools (dg_cluster d) ! i))) \<subseteq> set (sh_rows (dg_shard d' (cl_pools (dg_cluster d) ! i)))"
proof -
  let ?p = "cl_pools (dg_cluster d) ! i"
  have "set (sh_rows sh) \<subseteq> set (sh_rows (fold insert_message rs sh))" for rs sh
    by (induction rs arbitrary: sh) (use insert_message_mono in fastforce)+
  then have "set (sh_rows (dg_shard d ?p)) \<subseteq> set (sh_rows (dg_shard (fold ins ops d) ?p))" for ops
    by (simp add: dg_shard_fold_ins)
  with reshard_run [OF assms(1)] assms(2,3) show ?thesis by fastforce
qed

section \<open>An example\<close>

text \<open>Two shards, one of them in use, and three messages of two chats.\<close>

definition demo_row :: "nat \<Rightarrow> byte \<Rightarrow> int \<Rightarrow> message_row" where
  "demo_row k c ts = \<lparr>msg_serial = k, message_id = of_nat k, chat_id = [0, 0, 0, 0, 0, 0, 0, c],
     sender_id = 1, recipient_id = 2, body = ''hi'', created_at = ts\<rparr>"

definition demo_dialogs :: "nat dialogs" where
  "demo_dialogs =
     \<lparr>dg_cluster = \<lparr>cl_pools = [0, 1], cl_read_n = 1, cl_write_n = 1, cl_dual_write = False\<rparr>,
      dg_shard = (\<lambda>p. if p = 0 then \<lparr>sh_rows = [demo_row 1 4 10, demo_row 2 5 20, demo_row 3 5 15], sh_next = 4\<rparr>
                      else empty_shard)\<rparr>"

lemma chat_home_1 [simp]: "8 \<le> length cid \<Longrightarrow> chat_home cid 1 = 0"
  using sfc.home_less [of cid 1 1] by simp

lemma demo_reshard_start: "reshard_start (\<lambda>_. True) 2 demo_dialogs"
  by (auto simp: reshard_start_def demo_dialogs_def demo_row_def cluster_ok_def shards_ok_def
      shard_ok_def routable_def placed_def single_copies_def empty_shard_def less_Suc_eq)

lemma reshard_keeps_dialogs_witness:
  "\<exists>d'. reshard (\<lambda>_. True) 2 demo_dialogs = (Inr (), d')
    \<and> dg_cluster d' = \<lparr>cl_pools = [0, 1], cl_read_n = 2, cl_write_n = 2, cl_dual_write = False\<rparr>
    \<and> (\<forall>a b lim off. fst (pg_list (\<lambda>_. True) a b lim off d') = fst (pg_list (\<lambda>_. True) a b lim off demo_dialogs))
    \<and> (\<forall>i < 2. \<forall>r \<in> set (sh_rows (dg_shard d' ([0, 1] ! i))). shard_for_chat (chat_id r) 2 = Inr (int i))"
  using reshard_keeps_dialogs [OF demo_reshard_start] by (simp add: demo_dialogs_def)

lemma reshard_restartable_witness:
  "reshard_start (\<lambda>_. True) 1 (snd (reshard (\<lambda>_. True) 2 demo_dialogs))
    \<and> fst (bindP (reshard (\<lambda>_. True) 2) (\<lambda>_. reshard (\<lambda>_. True) 1) demo_dialogs) = Inr ()"
  using reshard_restartable [OF demo_reshard_start, of 1] by (simp add: demo_dialogs_def)

lemma shrink_leaves_rows_witness:
  "\<exists>d'. reshard (\<lambda>_. True) 1 (snd (reshard (\<lambda>_. True) 2 demo_dialogs)) = (Inr (), d')"
proof -
  let ?d = "snd (reshard (\<lambda>_. True) 2 demo_dialogs)"
  have start: "reshard_start (\<lambda>_. True) 2 demo_dialogs" by (rule demo_reshard_start)
  from reshard_run [OF this] have pools: "cl_pools (dg_cluster ?d) = [0, 1]" "cl_read_n (dg_cluster ?d) = 2"
    by (auto simp: demo_dialogs_def)
  have "reshard_start (\<lambda>_. True) 1 ?d"
    using reshard_end [OF start] by (simp add: demo_dialogs_def)
  from shrink_leaves_rows [OF this, of 1] pools show ?thesis by auto
qed

end
