(* ===== verification/Resharding_Online.thy ===== *)
theory Resharding_Online
  imports Resharding_Cycle
begin

text \<open>
  The backfill of \<^verbatim>\<open>scripts/resharding.py\<close> while the application keeps sending.  Every
  \<^verbatim>\<open>await\<close> of \<^verbatim>\<open>PgDialogRepository.send\<close> and of \<^verbatim>\<open>cmd_backfill\<close> is a point where the other side may
  run, so the two are steps of one relation: a send inserts into one pool at a time, the backfill
  fetches a page and copies one row at a time.  A send may fail between two pools, and the backfill
  may be started again.  The invariant says where every message still has to come from.
\<close>

section \<open>Interleaved steps\<close>

text \<open>A send under way: the message and the pools it has still to write.\<close>

record 'p pending_send =
  ps_mid :: uuid
  ps_from :: uuid
  ps_to :: uuid
  ps_text :: string
  ps_pools :: "'p list"

record 'p online =
  on_d :: "'p dialogs"
  on_sends :: "'p pending_send list"
  on_failed :: "uuid set"
  on_srcs :: "nat list"
  on_last :: nat
  on_page :: "message_row list"

definition start_backfill :: "'p online \<Rightarrow> 'p online" where
  "start_backfill s = s\<lparr>on_srcs := [0..<nat (read_n (dg_cluster (on_d s)))], on_last := 0, on_page := []\<rparr>"

inductive online_step :: "int \<Rightarrow> 'p online \<Rightarrow> 'p online \<Rightarrow> bool" for new_n where
  send_start: "write_pools_for_chat (dg_cluster (on_d s)) (compute_chat_id f t) = Inr ps \<Longrightarrow>
    online_step new_n s (s\<lparr>on_sends := \<lparr>ps_mid = mid, ps_from = f, ps_to = t, ps_text = tx, ps_pools = ps\<rparr>
      # on_sends s\<rparr>)"
| send_write: "on_sends s = xs @ m # ys \<Longrightarrow> ps_pools m = p # ps \<Longrightarrow>
    exec_insert (\<lambda>_. True) (new_message (ps_mid m) (compute_chat_id (ps_from m) (ps_to m)) (ps_from m)
      (ps_to m) (ps_text m) ts) p (on_d s) = (Inr (), d') \<Longrightarrow>
    online_step new_n s (s\<lparr>on_d := d', on_sends := xs @ m\<lparr>ps_pools := ps\<rparr> # ys\<rparr>)"
| send_return: "on_sends s = xs @ m # ys \<Longrightarrow> ps_pools m = [] \<Longrightarrow>
    online_step new_n s (s\<lparr>on_sends := xs @ ys\<rparr>)"
| send_fail: "on_sends s = xs @ m # ys \<Longrightarrow> ps_pools m \<noteq> [] \<Longrightarrow>
    online_step new_n s (s\<lparr>on_sends := xs @ ys, on_failed := insert (ps_mid m) (on_failed s)\<rparr>)"
| fetch: "on_page s = [] \<Longrightarrow> on_srcs s = i # srcs \<Longrightarrow> pool_by_index (dg_cluster (on_d s)) (int i) = Inr p \<Longrightarrow>
    rows = select_after (on_last s) BATCH (dg_shard (on_d s) p) \<Longrightarrow> rows \<noteq> [] \<Longrightarrow>
    online_step new_n s (s\<lparr>on_page := rows, on_last := msg_serial (last rows)\<rparr>)"
| next_source: "on_page s = [] \<Longrightarrow> on_srcs s = i # srcs \<Longrightarrow> pool_by_index (dg_cluster (on_d s)) (int i) = Inr p \<Longrightarrow>
    select_after (on_last s) BATCH (dg_shard (on_d s) p) = [] \<Longrightarrow>
    online_step new_n s (s\<lparr>on_srcs := srcs, on_last := 0\<rparr>)"
| copy: "on_page s = r # rows \<Longrightarrow> on_srcs s = i # srcs \<Longrightarrow>
    copy_rows (\<lambda>_. True) new_n (int i) [r] 0 (on_d s) = (Inr k, d') \<Longrightarrow>
    online_step new_n s (s\<lparr>on_d := d', on_page := rows\<rparr>)"
| restart: "online_step new_n s (start_backfill s)"

inductive_cases online_stepE: "online_step new_n s s'"

text \<open>Dual-write is on, no send is under way and the backfill is about to start.\<close>

definition online_init :: "int \<Rightarrow> 'p online \<Rightarrow> bool" where
  "online_init new_n s \<longleftrightarrow> cluster_ok (dg_cluster (on_d s)) \<and> cl_dual_write (dg_cluster (on_d s))
     \<and> cl_write_n (dg_cluster (on_d s)) = new_n \<and> shards_ok (on_d s)
     \<and> on_sends s = [] \<and> on_failed s = {} \<and> s = start_backfill s"

section \<open>The invariant\<close>

definition target :: "'p dialogs \<Rightarrow> int \<Rightarrow> byte list \<Rightarrow> 'p" where
  "target d new_n cid = cl_pools (dg_cluster d) ! chat_home cid new_n"

definition at_target :: "'p dialogs \<Rightarrow> int \<Rightarrow> uuid \<Rightarrow> byte list \<Rightarrow> bool" where
  "at_target d new_n mid cid \<longleftrightarrow> mid \<in> shard_msgs (dg_shard d (target d new_n cid))"

definition send_covered :: "'p online \<Rightarrow> int \<Rightarrow> 'p pending_send \<Rightarrow> bool" where
  "send_covered s new_n m \<longleftrightarrow> (let cid = compute_chat_id (ps_from m) (ps_to m) in
     target (on_d s) new_n cid \<in> set (ps_pools m) \<or> at_target (on_d s) new_n (ps_mid m) cid)"

text \<open>The backfill still has to come to a row: its shard is not scanned yet, or the row lies after
  the cursor or in the page at hand.\<close>

definition ahead :: "'p online \<Rightarrow> nat \<Rightarrow> message_row \<Rightarrow> bool" where
  "ahead s i r \<longleftrightarrow> (case on_srcs s of [] \<Rightarrow> False
     | j # js \<Rightarrow> i \<in> set js \<or> i = j \<and> (on_last s < msg_serial r \<or> r \<in> set (on_page s)))"

definition row_covered :: "'p online \<Rightarrow> int \<Rightarrow> nat \<Rightarrow> message_row \<Rightarrow> bool" where
  "row_covered s new_n i r \<longleftrightarrow> at_target (on_d s) new_n (message_id r) (chat_id r)
     \<or> ahead s i r
     \<or> (\<exists>m \<in> set (on_sends s). ps_mid m = message_id r \<and> target (on_d s) new_n (chat_id r) \<in> set (ps_pools m))
     \<or> message_id r \<in> on_failed s"

definition online_config :: "int \<Rightarrow> 'p online \<Rightarrow> bool" where
  "online_config new_n s \<longleftrightarrow> cluster_ok (dg_cluster (on_d s)) \<and> cl_dual_write (dg_cluster (on_d s))
     \<and> cl_write_n (dg_cluster (on_d s)) = new_n \<and> shards_ok (on_d s)
     \<and> (\<forall>i \<in> set (on_srcs s). i < length (cl_pools (dg_cluster (on_d s))))
     \<and> (case on_srcs s of [] \<Rightarrow> on_page s = []
        | i # _ \<Rightarrow> set (on_page s) \<subseteq> set (sh_rows (dg_shard (on_d s) (cl_pools (dg_cluster (on_d s)) ! i))))"

definition online_inv :: "int \<Rightarrow> 'p online \<Rightarrow> bool" where
  "online_inv new_n s \<longleftrightarrow> online_config new_n s \<and> (\<forall>m \<in> set (on_sends s). send_covered s new_n m)
     \<and> (\<forall>i < nat (read_n (dg_cluster (on_d s))).
          \<forall>r \<in> set (sh_rows (dg_shard (on_d s) (cl_pools (dg_cluster (on_d s)) ! i))). row_covered s new_n i r)"

lemma start_backfill_simps [simp]:
  "on_d (start_backfill s) = on_d s" "on_sends (start_backfill s) = on_sends s"
  "on_failed (start_backfill s) = on_failed s" "on_last (start_backfill s) = 0" "on_page (start_backfill s) = []"
  "on_srcs (start_backfill s) = [0..<nat (read_n (dg_cluster (on_d s)))]"
  by (simp_all add: start_backfill_def)

lemma ahead_start:
  assumes "i < nat (read_n (dg_cluster (on_d s)))" and "0 < msg_serial r"
  shows "ahead (start_backfill s) i r"
  using assms by (auto simp: ahead_def split: list.split dest: upt_eq_Cons_conv [THEN iffD1])

text \<open>What an insert keeps.\<close>

lemma target_ins [simp]: "target (ins op d) new_n cid = target d new_n cid"
  by (simp add: target_def)

lemma at_target_ins: "at_target d new_n mid cid \<Longrightarrow> at_target (ins op d) new_n mid cid"
  by (auto simp: at_target_def target_def ins_def split: prod.split)

lemma at_target_here: "at_target (ins (target d new_n cid, r) d) new_n (message_id r) cid"
  by (simp add: at_target_def ins_def target_def)

lemma rows_ins:
  "x \<in> set (sh_rows (dg_shard (ins (p, r) d) q)) \<longleftrightarrow> x \<in> set (sh_rows (dg_shard d q))
     \<or> p = q \<and> message_id r \<notin> shard_msgs (dg_shard d q) \<and> x = r\<lparr>msg_serial := sh_next (dg_shard d q)\<rparr>"
  by (auto simp: ins_def insert_message_rows)

lemma shards_ok_ins: "shards_ok d \<Longrightarrow> 8 \<le> length (chat_id r) \<Longrightarrow> shards_ok (ins (p, r) d)"
  using shards_ok_fold_ins [of d "[(p, r)]"] by simp

lemma read_n_pools: "cluster_ok c \<Longrightarrow> i < nat (read_n c) \<Longrightarrow> i < length (cl_pools c)"
  unfolding cluster_ok_def read_n_def by linarith

lemma row_long:
  assumes "shards_ok d" and "i < length (cl_pools (dg_cluster d))"
    and "r \<in> set (sh_rows (dg_shard d (cl_pools (dg_cluster d) ! i)))"
  shows "8 \<le> length (chat_id r)" and "0 < msg_serial r"
  using assms nth_mem [OF assms(2)] by (auto simp: shards_ok_def routable_def shard_ok_def)

lemma online_init_inv:
  assumes "online_init new_n s"
  shows "online_inv new_n s"
proof -
  have s: "s = start_backfill s" and ok: "cluster_ok (dg_cluster (on_d s))" "shards_ok (on_d s)"
    using assms by (auto simp: online_init_def)
  have "on_page s = []" "on_srcs s = [0..<nat (read_n (dg_cluster (on_d s)))]"
    by (subst s, simp)+
  then have "online_config new_n s"
    using assms read_n_pools [OF ok(1)] by (auto simp: online_config_def online_init_def split: list.split)
  moreover have "row_covered s new_n i r" if "i < nat (read_n (dg_cluster (on_d s)))"
      "r \<in> set (sh_rows (dg_shard (on_d s) (cl_pools (dg_cluster (on_d s)) ! i)))" for i r
  proof -
    have "ahead (start_backfill s) i r"
      using that(1) row_long(2) [OF ok(2) read_n_pools [OF ok(1) that(1)] that(2)] by (rule ahead_start)
    then show ?thesis using s by (simp add: row_covered_def)
  qed
  moreover have "on_sends s = []" using assms by (simp add: online_init_def)
  ultimately show ?thesis by (simp add: online_inv_def)
qed

section \<open>Every step keeps it\<close>

text \<open>An insert of row \<open>r\<close> into pool \<open>p\<close> keeps the invariant when the new row is covered afterwards
  and what the step takes from the page and the sends is at its target.\<close>

lemma insert_keeps_config:
  assumes "online_config new_n s" and "8 \<le> length (chat_id r)" and "on_d s' = ins (p, r) (on_d s)"
    and "on_srcs s' = on_srcs s" and "set (on_page s') \<subseteq> set (on_page s)"
  shows "online_config new_n s'"
  using assms shards_ok_ins [of "on_d s" r p]
  by (cases "on_srcs s") (auto simp: online_config_def rows_ins)

lemma insert_keeps_rows:
  assumes inv: "online_inv new_n s" and d': "on_d s' = ins (p, r) (on_d s)" and srcs: "on_srcs s' = on_srcs s"
    and last: "on_last s' = on_last s" and failed: "on_failed s' = on_failed s"
    and new: "at_target (on_d s') new_n (message_id r) (chat_id r)
      \<or> (\<exists>m \<in> set (on_sends s'). ps_mid m = message_id r \<and> target (on_d s) new_n (chat_id r) \<in> set (ps_pools m))"
    and page: "\<And>x. x \<in> set (on_page s) \<Longrightarrow> x \<notin> set (on_page s') \<Longrightarrow>
      at_target (on_d s') new_n (message_id x) (chat_id x)"
    and sends: "\<And>m cid. m \<in> set (on_sends s) \<Longrightarrow> target (on_d s) new_n cid \<in> set (ps_pools m) \<Longrightarrow>
      at_target (on_d s') new_n (ps_mid m) cid
      \<or> (\<exists>m' \<in> set (on_sends s'). ps_mid m' = ps_mid m \<and> target (on_d s) new_n cid \<in> set (ps_pools m'))"
    and i: "i < nat (read_n (dg_cluster (on_d s)))"
    and x: "x \<in> set (sh_rows (dg_shard (on_d s') (cl_pools (dg_cluster (on_d s)) ! i)))"
  shows "row_covered s' new_n i x"
proof (cases "x \<in> set (sh_rows (dg_shard (on_d s) (cl_pools (dg_cluster (on_d s)) ! i)))")
  case True
  with inv i have "row_covered s new_n i x" by (simp add: online_inv_def)
  then consider "at_target (on_d s) new_n (message_id x) (chat_id x)" | "ahead s i x"
    | m where "m \<in> set (on_sends s)" "ps_mid m = message_id x" "target (on_d s) new_n (chat_id x) \<in> set (ps_pools m)"
    | "message_id x \<in> on_failed s"
    by (auto simp: row_covered_def)
  then show ?thesis
  proof cases
    case 1
    then show ?thesis by (simp add: row_covered_def d' at_target_ins)
  next
    case 2
    then have "ahead s' i x \<or> x \<in> set (on_page s) \<and> x \<notin> set (on_page s')"
      by (auto simp: ahead_def srcs last split: list.splits)
    with page show ?thesis by (auto simp: row_covered_def)
  next
    case 3
    with sends [of m "chat_id x"] d' show ?thesis by (auto simp: row_covered_def)
  next
    case 4
    then show ?thesis by (simp add: row_covered_def failed)
  qed
next
  case False
  with x d' have "message_id x = message_id r" "chat_id x = chat_id r" by (auto simp: rows_ins)
  with new d' show ?thesis by (auto simp: row_covered_def)
qed

lemma send_write_inv:
  assumes inv: "online_inv new_n s" and m: "on_sends s = xs @ m # ys" "ps_pools m = p # ps"
    and run: "exec_insert (\<lambda>_. True) (new_message (ps_mid m) (compute_chat_id (ps_from m) (ps_to m)) (ps_from m)
      (ps_to m) (ps_text m) ts) p (on_d s) = (Inr (), d')"
  shows "online_inv new_n (s\<lparr>on_d := d', on_sends := xs @ m\<lparr>ps_pools := ps\<rparr> # ys\<rparr>)"
proof -
  let ?cid = "compute_chat_id (ps_from m) (ps_to m)"
  let ?r = "new_message (ps_mid m) ?cid (ps_from m) (ps_to m) (ps_text m) ts"
  let ?m = "m\<lparr>ps_pools := ps\<rparr>"
  let ?s = "s\<lparr>on_d := d', on_sends := xs @ ?m # ys\<rparr>"
  have d': "d' = ins (p, ?r) (on_d s)" using run exec_insert_up [of "\<lambda>_. True" p ?r "on_d s"] by simp
  have conf: "online_config new_n ?s"
    by (rule insert_keeps_config [of _ s ?r _ p]) (use inv in \<open>auto simp: online_inv_def d'\<close>)
  have here: "at_target d' new_n (ps_mid m) cid" if "target (on_d s) new_n cid = p" for cid
    using at_target_here [of "on_d s" new_n cid ?r] that by (simp add: d')
  have cov: "\<forall>q \<in> set (on_sends s). send_covered s new_n q" using inv by (simp add: online_inv_def)
  then have "send_covered ?s new_n q" if "q \<in> set (xs @ ys)" for q
    using that m(1) by (auto simp: send_covered_def Let_def d' at_target_ins)
  moreover have mcov: "send_covered ?s new_n ?m"
    using cov m here [of ?cid] by (auto simp: send_covered_def Let_def d' at_target_ins)
  moreover have "row_covered ?s new_n i x" if "i < nat (read_n (dg_cluster (on_d s)))"
      "x \<in> set (sh_rows (dg_shard (on_d ?s) (cl_pools (dg_cluster (on_d s)) ! i)))" for i x
    using inv
  proof (rule insert_keeps_rows [where p = p and r = ?r])
    show "at_target (on_d ?s) new_n (message_id ?r) (chat_id ?r) \<or> (\<exists>m \<in> set (on_sends ?s).
        ps_mid m = message_id ?r \<and> target (on_d s) new_n (chat_id ?r) \<in> set (ps_pools m))"
      using mcov by (auto simp: send_covered_def Let_def d')
    show "at_target (on_d ?s) new_n (ps_mid q) cid \<or> (\<exists>m' \<in> set (on_sends ?s).
        ps_mid m' = ps_mid q \<and> target (on_d s) new_n cid \<in> set (ps_pools m'))"
      if "q \<in> set (on_sends s)" "target (on_d s) new_n cid \<in> set (ps_pools q)" for q cid
      using that m here [of cid] by auto
  qed (use that in \<open>auto simp: d'\<close>)
  ultimately show ?thesis using conf by (auto simp: online_inv_def d')
qed

lemma copy_one:
  assumes "1 \<le> new_n" and "new_n \<le> int (length (cl_pools (dg_cluster d)))" and "8 \<le> length (chat_id r)"
  shows "copy_rows (\<lambda>_. True) new_n (int i) [r] 0 d
    = (if chat_home (chat_id r) new_n = i then (Inr 0, d) else (Inr 1, ins (target d new_n (chat_id r), r) d))"
  using copy_rows_eq [of new_n d "\<lambda>_. True" "[r]" i 0] assms by (simp add: copy_ops_def target_def)

lemma copy_inv:
  assumes inv: "online_inv new_n s" and page: "on_page s = r # rows" and srcs: "on_srcs s = i # srcs"
    and run: "copy_rows (\<lambda>_. True) new_n (int i) [r] 0 (on_d s) = (Inr k, d')"
  shows "online_inv new_n (s\<lparr>on_d := d', on_page := rows\<rparr>)"
proof -
  let ?s = "s\<lparr>on_d := d', on_page := rows\<rparr>" and ?ps = "cl_pools (dg_cluster (on_d s))"
  have conf: "online_config new_n s" using inv by (simp add: online_inv_def)
  then have i: "i < length ?ps" and r: "r \<in> set (sh_rows (dg_shard (on_d s) (?ps ! i)))"
    and ok: "shards_ok (on_d s)" and n: "1 \<le> new_n" "new_n \<le> int (length ?ps)"
    using page srcs by (auto simp: online_config_def cluster_ok_def)
  have long: "8 \<le> length (chat_id r)" using ok i r by (rule row_long)
  have d': "d' = (if chat_home (chat_id r) new_n = i then on_d s else ins (target (on_d s) new_n (chat_id r), r) (on_d s))"
    using run copy_one [OF n long, of i] by (simp split: if_splits)
  have copied: "at_target d' new_n (message_id r) (chat_id r)"
    using r at_target_here [of "on_d s" new_n "chat_id r" r] by (auto simp: d' at_target_def target_def)
  show ?thesis
  proof (cases "chat_home (chat_id r) new_n = i")
    case True
    then have "d' = on_d s" by (simp add: d')
    moreover from this have "row_covered ?s new_n j x" if "row_covered s new_n j x" for j x
      using that copied page srcs by (auto simp: row_covered_def ahead_def)
    moreover have "online_config new_n ?s" using conf page \<open>d' = on_d s\<close> by (auto simp: online_config_def srcs)
    ultimately show ?thesis using inv by (simp add: online_inv_def send_covered_def)
  next
    case False
    then have dd: "d' = ins (target (on_d s) new_n (chat_id r), r) (on_d s)" by (simp add: d')
    have "online_config new_n ?s"
      by (rule insert_keeps_config [OF conf long]) (use page in \<open>auto simp: dd\<close>)
    moreover have "\<forall>m \<in> set (on_sends ?s). send_covered ?s new_n m"
      using inv by (auto simp: online_inv_def send_covered_def Let_def dd at_target_ins)
    moreover have "row_covered ?s new_n j x" if "j < nat (read_n (dg_cluster (on_d s)))"
        "x \<in> set (sh_rows (dg_shard (on_d ?s) (?ps ! j)))" for j x
      by (rule insert_keeps_rows [OF inv, where r = r and p = "target (on_d s) new_n (chat_id r)"])
        (use that page copied in \<open>auto simp: dd\<close>)
    ultimately show ?thesis by (simp add: online_inv_def dd)
  qed
qed

lemma fetch_ahead:
  assumes "shard_ok sh" and "r \<in> set (sh_rows sh)" and "k < msg_serial r"
    and "page = select_after k BATCH sh"
  shows "page \<noteq> []" and "r \<in> set page \<or> msg_serial (last page) < msg_serial r"
proof -
  let ?xs = "after k sh"
  have page: "page = take BATCH ?xs" by (simp add: assms(4) select_after_def after_def)
  have r: "r \<in> set ?xs" using assms(2,3) by (simp add: after_def)
  then show "page \<noteq> []" by (auto simp: page BATCH_def)
  have "?xs \<noteq> []" using r by auto
  then have rest: "after (msg_serial (last page)) sh = drop BATCH ?xs"
    using after_next_page [OF assms(1), of k BATCH] page by (simp add: BATCH_def)
  have "r \<in> set page \<or> r \<in> set (drop BATCH ?xs)"
    using r page by (metis UnE append_take_drop_id set_append)
  then have "r \<in> set page \<or> r \<in> set (after (msg_serial (last page)) sh)" unfolding rest .
  moreover have "msg_serial (last page) < msg_serial r" if "r \<in> set (after (msg_serial (last page)) sh)"
    using that by (simp add: after_def)
  ultimately show "r \<in> set page \<or> msg_serial (last page) < msg_serial r" by blast
qed

text \<open>Steps that leave the shards alone.\<close>

lemma same_shards_inv:
  assumes inv: "online_inv new_n s" and d: "on_d s' = on_d s" and conf: "online_config new_n s'"
    and sends: "\<And>m. m \<in> set (on_sends s') \<Longrightarrow> send_covered s new_n m"
    and rows: "\<And>i r. i < nat (read_n (dg_cluster (on_d s))) \<Longrightarrow>
      r \<in> set (sh_rows (dg_shard (on_d s) (cl_pools (dg_cluster (on_d s)) ! i))) \<Longrightarrow>
      row_covered s new_n i r \<Longrightarrow> row_covered s' new_n i r"
  shows "online_inv new_n s'"
  using assms by (auto simp: online_inv_def send_covered_def)

lemma send_start_covered:
  assumes "online_config new_n s" and "write_pools_for_chat (dg_cluster (on_d s)) cid = Inr ps" and "8 \<le> length cid"
  shows "target (on_d s) new_n cid \<in> set ps"
  using assms write_pools_ok [of "dg_cluster (on_d s)" cid]
  by (auto simp: online_config_def target_def split: if_splits)

lemma fetch_inv:
  assumes inv: "online_inv new_n s" and page: "on_page s = []" and srcs: "on_srcs s = i # srcs"
    and p: "pool_by_index (dg_cluster (on_d s)) (int i) = Inr p"
    and rows: "rows = select_after (on_last s) BATCH (dg_shard (on_d s) p)"
  shows "rows \<noteq> [] \<Longrightarrow> online_inv new_n (s\<lparr>on_page := rows, on_last := msg_serial (last rows)\<rparr>)"
    and "rows = [] \<Longrightarrow> online_inv new_n (s\<lparr>on_srcs := srcs, on_last := 0\<rparr>)"
proof -
  let ?ps = "cl_pools (dg_cluster (on_d s))"
  have conf: "online_config new_n s" and sends: "\<forall>m \<in> set (on_sends s). send_covered s new_n m"
    using inv by (auto simp: online_inv_def)
  then have i: "i < length ?ps" using srcs by (auto simp: online_config_def)
  with p have p: "p = ?ps ! i" by (simp add: pool_by_index_ok)
  have ok: "shard_ok (dg_shard (on_d s) p)" and all: "shards_ok (on_d s)"
    using conf i by (auto simp: p online_config_def shards_ok_def)
  have sub: "set rows \<subseteq> set (sh_rows (dg_shard (on_d s) p))"
    by (auto simp: rows select_after_def dest: in_set_takeD)
  show "online_inv new_n (s\<lparr>on_page := rows, on_last := msg_serial (last rows)\<rparr>)" if "rows \<noteq> []"
  proof (rule same_shards_inv [OF inv])
    show "online_config new_n (s\<lparr>on_page := rows, on_last := msg_serial (last rows)\<rparr>)"
      using conf sub by (simp add: online_config_def srcs p)
    show "row_covered (s\<lparr>on_page := rows, on_last := msg_serial (last rows)\<rparr>) new_n j r"
      if "r \<in> set (sh_rows (dg_shard (on_d s) (?ps ! j)))" "row_covered s new_n j r" for j r
      using that fetch_ahead(2) [OF ok, of r "on_last s" rows] rows
      by (auto simp: row_covered_def ahead_def srcs page p)
  qed (use sends in auto)
  show "online_inv new_n (s\<lparr>on_srcs := srcs, on_last := 0\<rparr>)" if empty: "rows = []"
  proof (rule same_shards_inv [OF inv])
    show "online_config new_n (s\<lparr>on_srcs := srcs, on_last := 0\<rparr>)"
      using conf page by (auto simp: online_config_def srcs split: list.split)
    show "row_covered (s\<lparr>on_srcs := srcs, on_last := 0\<rparr>) new_n j r"
      if j: "j < nat (read_n (dg_cluster (on_d s)))"
        and r: "r \<in> set (sh_rows (dg_shard (on_d s) (?ps ! j)))" and cov: "row_covered s new_n j r" for j r
    proof -
      have "j < length ?ps" using conf j by (auto simp: online_config_def intro: read_n_pools)
      then have "0 < msg_serial r" using row_long(2) [OF all _ r] by simp
      then show ?thesis
        using cov r fetch_ahead(1) [OF ok, of r "on_last s" rows] rows empty
        by (auto simp: row_covered_def ahead_def srcs page p split: list.split)
    qed
  qed (use sends in auto)
qed

lemma sends_irrelevant [simp]:
  "online_config new_n (s\<lparr>on_sends := q\<rparr>) = online_config new_n s"
  "online_config new_n (s\<lparr>on_failed := fs\<rparr>) = online_config new_n s"
  "ahead (s\<lparr>on_sends := q\<rparr>) i r = ahead s i r" "ahead (s\<lparr>on_failed := fs\<rparr>) i r = ahead s i r"
  by (simp_all add: online_config_def ahead_def split: list.split)

lemma send_start_inv:
  assumes inv: "online_inv new_n s"
    and ps: "write_pools_for_chat (dg_cluster (on_d s)) (compute_chat_id f t) = Inr ps"
  shows "online_inv new_n (s\<lparr>on_sends := \<lparr>ps_mid = mid, ps_from = f, ps_to = t, ps_text = tx, ps_pools = ps\<rparr>
      # on_sends s\<rparr>)"
proof (rule same_shards_inv [OF inv])
  have conf: "online_config new_n s" using inv by (simp add: online_inv_def)
  let ?m = "\<lparr>ps_mid = mid, ps_from = f, ps_to = t, ps_text = tx, ps_pools = ps\<rparr>"
  let ?s = "s\<lparr>on_sends := ?m # on_sends s\<rparr>"
  show "online_config new_n ?s" using conf by simp
  show "send_covered s new_n q" if "q \<in> set (on_sends ?s)" for q
    using that inv send_start_covered [OF conf ps] by (auto simp: online_inv_def send_covered_def)
  show "row_covered ?s new_n i r" if "row_covered s new_n i r" for i r
    using that by (auto simp: row_covered_def)
qed simp

lemma send_end_inv:
  assumes inv: "online_inv new_n s" and m: "on_sends s = xs @ m # ys"
  shows "ps_pools m = [] \<Longrightarrow> online_inv new_n (s\<lparr>on_sends := xs @ ys\<rparr>)"
    and "online_inv new_n (s\<lparr>on_sends := xs @ ys, on_failed := insert (ps_mid m) (on_failed s)\<rparr>)"
proof -
  have conf: "online_config new_n s" and sends: "\<forall>q \<in> set (on_sends s). send_covered s new_n q"
    using inv by (auto simp: online_inv_def)
  show "online_inv new_n (s\<lparr>on_sends := xs @ ys\<rparr>)" if "ps_pools m = []"
    by (rule same_shards_inv [OF inv])
      (use conf sends m that in \<open>auto simp: row_covered_def\<close>)
  show "online_inv new_n (s\<lparr>on_sends := xs @ ys, on_failed := insert (ps_mid m) (on_failed s)\<rparr>)"
    by (rule same_shards_inv [OF inv])
      (use conf sends m in \<open>auto simp: row_covered_def\<close>)
qed

lemma restart_inv:
  assumes inv: "online_inv new_n s"
  shows "online_inv new_n (start_backfill s)"
proof (rule same_shards_inv [OF inv])
  have conf: "cluster_ok (dg_cluster (on_d s))" "shards_ok (on_d s)"
    using inv by (auto simp: online_inv_def online_config_def)
  show "online_config new_n (start_backfill s)"
    using inv read_n_pools [OF conf(1)] by (auto simp: online_inv_def online_config_def split: list.split)
  show "row_covered (start_backfill s) new_n i r"
    if "i < nat (read_n (dg_cluster (on_d s)))"
      "r \<in> set (sh_rows (dg_shard (on_d s) (cl_pools (dg_cluster (on_d s)) ! i)))" for i r
    using that ahead_start [of i s r] row_long(2) [OF conf(2) read_n_pools [OF conf(1) that(1)] that(2)]
    by (simp add: row_covered_def)
qed (use inv in \<open>simp_all add: online_inv_def\<close>)

lemmas online_inv_rules = send_start_inv send_write_inv send_end_inv fetch_inv copy_inv restart_inv

lemma online_step_inv: "online_step new_n s s' \<Longrightarrow> online_inv new_n s \<Longrightarrow> online_inv new_n s'"
  by (induction rule: online_step.induct) (auto intro: online_inv_rules)

lemma online_reachable_inv:
  assumes "(online_step new_n)\<^sup>*\<^sup>* s0 s" and "online_init new_n s0"
  shows "online_inv new_n s"
  using assms by (induction) (auto intro: online_init_inv online_step_inv)

section \<open>When the backfill is through\<close>

text \<open>However sends and the backfill interleave, and however often the
  backfill is started again: when it has scanned every old shard and no send is under way, every
  message on an old shard has a copy on the shard its chat moves to, except messages of sends that
  failed half-way; when no send failed, the verification stage passes.\<close>

theorem online_backfill_complete:
  assumes "online_init new_n s0" and "(online_step new_n)\<^sup>*\<^sup>* s0 s" and "on_srcs s = []" and "on_sends s = []"
  shows "(\<forall>i < nat (read_n (dg_cluster (on_d s))).
      \<forall>r \<in> set (sh_rows (dg_shard (on_d s) (cl_pools (dg_cluster (on_d s)) ! i))).
        at_target (on_d s) new_n (message_id r) (chat_id r) \<or> message_id r \<in> on_failed s)
    \<and> (on_failed s = {} \<longrightarrow> cmd_verify (\<lambda>_. True) new_n (on_d s) = (Inr (), on_d s))"
proof -
  have inv: "online_inv new_n s" using assms(2,1) by (rule online_reachable_inv)
  then have cov: "\<forall>i < nat (read_n (dg_cluster (on_d s))).
      \<forall>r \<in> set (sh_rows (dg_shard (on_d s) (cl_pools (dg_cluster (on_d s)) ! i))).
        at_target (on_d s) new_n (message_id r) (chat_id r) \<or> message_id r \<in> on_failed s"
    using assms(3,4) by (fastforce simp: online_inv_def row_covered_def ahead_def)
  have conf: "cluster_ok (dg_cluster (on_d s))" "shards_ok (on_d s)" "cl_write_n (dg_cluster (on_d s)) = new_n"
    using inv by (auto simp: online_inv_def online_config_def)
  have "cmd_verify (\<lambda>_. True) new_n (on_d s) = (Inr (), on_d s)" if "on_failed s = {}"
  proof -
    have "all_copied (on_d s) new_n (nat (cl_read_n (dg_cluster (on_d s))))"
      using cov that by (auto simp: all_copied_def at_target_def target_def read_n_def)
    then show ?thesis
      using cmd_verify_eq [of new_n "on_d s" "\<lambda>_. True"] conf by (auto simp: cluster_ok_def)
  qed
  with cov show ?thesis by blast
qed

text \<open>A run of the backfill over one old shard with one message.\<close>

definition demo_online :: "nat list \<Rightarrow> nat \<Rightarrow> message_row list \<Rightarrow> shard \<Rightarrow> bool online" where
  "demo_online srcs k page sh =
     \<lparr>on_d = \<lparr>dg_cluster = \<lparr>cl_pools = [False, True], cl_read_n = 1, cl_write_n = 2, cl_dual_write = True\<rparr>,
              dg_shard = (\<lambda>p. if p then sh else \<lparr>sh_rows = [demo_row 1 5 10], sh_next = 2\<rparr>)\<rparr>,
      on_sends = [], on_failed = {}, on_srcs = srcs, on_last = k, on_page = page\<rparr>"

lemma demo_online_run:
  "(online_step 2)\<^sup>*\<^sup>* (demo_online [0] 0 [] empty_shard)
     (demo_online [] 0 [] (insert_message (demo_row 1 5 10) empty_shard))"
proof -
  let ?r = "demo_row 1 5 10"
  have 1: "online_step 2 (demo_online [0] 0 [] sh) (demo_online [0] 1 [?r] sh)" for sh
    using online_step.fetch [of "demo_online [0] 0 [] sh" 0 "[]" False "[?r]" 2]
    by (simp add: demo_online_def pool_by_index_def pool_at_def select_after_def BATCH_def demo_row_def)
  have "copy_rows (\<lambda>_. True) 2 (int 0) [?r] 0 (on_d (demo_online [0] 1 [?r] empty_shard))
      = (Inr 1, on_d (demo_online [0] 1 [] (insert_message ?r empty_shard)))"
    by (auto simp: demo_online_def demo_row_def pool_by_index_def pool_at_def exec_insert_def
        shard_for_chat_def int_from_bytes_def be_value_def fun_upd_def)
  then have 2: "online_step 2 (demo_online [0] 1 [?r] empty_shard)
      (demo_online [0] 1 [] (insert_message ?r empty_shard))"
    using online_step.copy [of "demo_online [0] 1 [?r] empty_shard" ?r "[]" 0 "[]" 2 1]
    by (simp add: demo_online_def)
  have 3: "online_step 2 (demo_online [0] 1 [] sh) (demo_online [] 0 [] sh)" for sh
    using online_step.next_source [of "demo_online [0] 1 [] sh" 0 "[]" False 2]
    by (simp add: demo_online_def pool_by_index_def pool_at_def select_after_def BATCH_def demo_row_def)
  from 1 2 3 show ?thesis by (meson rtranclp.rtrancl_refl rtranclp.rtrancl_into_rtrancl)
qed

lemma demo_online_init: "online_init 2 (demo_online [0] 0 [] empty_shard)"
  by (simp add: online_init_def demo_online_def start_backfill_def read_n_def cluster_ok_def
      shards_ok_def shard_ok_def routable_def demo_row_def empty_shard_def)

lemma online_backfill_complete_witness:
  "cmd_verify (\<lambda>_. True) 2 (on_d (demo_online [] 0 [] (insert_message (demo_row 1 5 10) empty_shard)))
     = (Inr (), on_d (demo_online [] 0 [] (insert_message (demo_row 1 5 10) empty_shard)))"
  using online_backfill_complete [OF demo_online_init demo_online_run] by (simp add: demo_online_def)

end
