(* ===== verification/Resharding_Live.thy ===== *)
theory Resharding_Live
  imports Resharding_Online
begin

text \<open>
  A resharding of \<^verbatim>\<open>scripts/resharding.py\<close> from the switched on dual-write to the cleanup, with the application sending all the time until
  the verification: the scenario of \<^verbatim>\<open>tests/integration/test_resharding.py\<close>, for every history.
\<close>

section \<open>The last stages\<close>

definition reshard_finish :: "('p \<Rightarrow> bool) \<Rightarrow> int \<Rightarrow> ('p dialogs, unit) prog" where
  "reshard_finish up new_n =
     bindP (cmd_verify up new_n) (\<lambda>_.
     bindP (cmd_switch_read new_n) (\<lambda>_.
     bindP cmd_disable_dual_write (\<lambda>_.
     bindP (cmd_cleanup up new_n) (\<lambda>_. returnP ()))))"

lemma reshard_finish_run:
  assumes c: "cluster_ok (dg_cluster d)" "distinct (cl_pools (dg_cluster d))" and w: "cl_write_n (dg_cluster d) = new_n"
    and ok: "shards_ok d" and up: "\<forall>p \<in> set (cl_pools (dg_cluster d)). up p"
    and copied: "all_copied d new_n (nat (cl_read_n (dg_cluster d)))"
  defines "ps \<equiv> cl_pools (dg_cluster d)"
  shows "\<exists>d'. reshard_finish up new_n d = (Inr (), d')
    \<and> dg_cluster d' = \<lparr>cl_pools = ps, cl_read_n = new_n, cl_write_n = new_n, cl_dual_write = False\<rparr>
    \<and> (\<forall>i < length ps. dg_shard d' (ps ! i) = (if i < nat new_n then keep_home new_n i (dg_shard d (ps ! i)) else dg_shard d (ps ! i)))"
proof -
  have n: "1 \<le> new_n" "new_n \<le> int (length ps)" using c(1) w by (auto simp: cluster_ok_def ps_def)
  let ?d1 = "d\<lparr>dg_cluster := (dg_cluster d)\<lparr>cl_read_n := new_n\<rparr>\<rparr>"
  let ?d2 = "d\<lparr>dg_cluster := (dg_cluster d)\<lparr>cl_read_n := new_n, cl_dual_write := False\<rparr>\<rparr>"
  have verify: "cmd_verify up new_n d = (Inr (), d)"
    using cmd_verify_eq [OF n(1) _ up ok c(1)] n(2) copied by (simp add: ps_def)
  have switch: "cmd_switch_read new_n d = (Inr (), ?d1)"
    using config_stages(2) [OF c(1) n(1)] n(2) by (simp add: ps_def)
  have "cluster_ok (dg_cluster ?d1)" using c(1) n by (simp add: cluster_ok_def ps_def)
  then have disable: "cmd_disable_dual_write ?d1 = (Inr (), ?d2)"
    using config_stages(3) [of ?d1 new_n] n by (simp add: ps_def)
  have "shards_ok ?d2" using ok by (simp add: shards_ok_def)
  moreover have "\<forall>i \<in> set [0..<nat new_n]. i < length (cl_pools (dg_cluster d))" using n by (auto simp: ps_def)
  ultimately obtain k d' where clean: "cleanup_shards up new_n [0..<nat new_n] 0 ?d2 = (Inr k, d')" "dg_cluster d' = dg_cluster ?d2"
      "\<forall>i < length ps. dg_shard d' (ps ! i) = (if i < nat new_n then keep_home new_n i (dg_shard d (ps ! i)) else dg_shard d (ps ! i))"
    using cleanup_shards_eq [of new_n ?d2 up "[0..<nat new_n]" 0] n(1) up c(2) by (auto simp: ps_def cong: if_cong)
  have "cmd_cleanup up new_n ?d2 = (Inr k, d')" using clean(1) by (simp add: cmd_cleanup_def is_dual_write_def)
  then have "reshard_finish up new_n d = (Inr (), d')" using verify switch disable by (simp add: reshard_finish_def)
  moreover have "dg_cluster ?d2 = \<lparr>cl_pools = ps, cl_read_n = new_n, cl_write_n = new_n, cl_dual_write = False\<rparr>"
    using w by (cases "dg_cluster d") (simp add: ps_def)
  ultimately show ?thesis using clean(2,3) by auto
qed

section \<open>The live phase\<close>

text \<open>While the backfill runs the configuration does not change and no shard loses a message.\<close>

definition extends :: "'p dialogs \<Rightarrow> 'p dialogs \<Rightarrow> bool" where
  "extends d d' \<longleftrightarrow> dg_cluster d' = dg_cluster d \<and> (\<forall>p. shard_msgs (dg_shard d p) \<subseteq> shard_msgs (dg_shard d' p))"

lemma extends_refl [simp]: "extends d d"
  by (simp add: extends_def)

lemma extends_trans: "extends d d' \<Longrightarrow> extends d' d'' \<Longrightarrow> extends d d''"
  unfolding extends_def by (intro conjI allI, simp, meson subset_trans)

lemma exec_insert_extends: "exec_insert up r p d = (x, d') \<Longrightarrow> extends d d'"
  using insert_message_mono [of "dg_shard d p" r] by (fastforce simp: exec_insert_def extends_def split: if_splits)

lemma copy_rows_extends: "copy_rows up new_n i rows k d = (x, d') \<Longrightarrow> extends d d'"
  by (induction rows arbitrary: k d)
    (auto split: sum.splits if_splits prod.splits dest: exec_insert_extends intro: extends_trans)

lemma online_step_extends: "online_step new_n s s' \<Longrightarrow> extends (on_d s) (on_d s')"
  by (induction rule: online_step.induct) (auto dest: exec_insert_extends copy_rows_extends simp: start_backfill_def simp del: copy_rows.simps)

lemma online_steps_extend: "(online_step new_n)\<^sup>*\<^sup>* s s' \<Longrightarrow> extends (on_d s) (on_d s')"
  by (induction rule: rtranclp_induct) (auto dest: online_step_extends intro: extends_trans)

text \<open>Message ids are \<^verbatim>\<open>uuid4\<close>, so an id stands for messages of one chat only, its \<open>owner\<close>.\<close>

definition ids_identify :: "(uuid \<Rightarrow> byte list) \<Rightarrow> 'p dialogs \<Rightarrow> bool" where
  "ids_identify owner d \<longleftrightarrow> (\<forall>p \<in> set (cl_pools (dg_cluster d)). \<forall>x \<in> set (sh_rows (dg_shard d p)). chat_id x = owner (message_id x))"

lemma kept_at_home:
  assumes "ids_identify owner d" and "at_target d new_n mid (owner mid)" and "chat_home (owner mid) new_n < length (cl_pools (dg_cluster d))"
  shows "mid \<in> shard_msgs (keep_home new_n (chat_home (owner mid) new_n) (dg_shard d (cl_pools (dg_cluster d) ! chat_home (owner mid) new_n)))"
proof -
  let ?q = "cl_pools (dg_cluster d) ! chat_home (owner mid) new_n"
  obtain y where y: "y \<in> set (sh_rows (dg_shard d ?q))" "message_id y = mid" using assms(2) by (auto simp: at_target_def target_def)
  then have "chat_id y = owner mid" using assms(1,3) by (auto simp: ids_identify_def)
  then show ?thesis using y by (force simp: keep_home_def)
qed

text \<open>C26: Whatever the application sends from the moment dual-write is on until the verification, and however the sends and the backfill take turns: when the
  backfill is through, no send failed and none is under way, the verification passes, reads are switched, and after the cleanup every message the old shards held
  is on the shard of its chat, a message whose send had written its copies included, every row is on the shard of its chat, and no message
  is on two of the shards in use.\<close>

theorem live_reshard_no_loss_no_dups:
  assumes init: "online_init new_n s0" "distinct (cl_pools (dg_cluster (on_d s0)))" and run: "(online_step new_n)\<^sup>*\<^sup>* s0 s"
    and through: "on_srcs s = []" "on_sends s = []" "on_failed s = {}" and ids: "ids_identify owner (on_d s)"
  defines "ps \<equiv> cl_pools (dg_cluster (on_d s0))" and "old_n \<equiv> cl_read_n (dg_cluster (on_d s0))"
  shows "\<exists>d'. reshard_finish (\<lambda>_. True) new_n (on_d s) = (Inr (), d')
    \<and> dg_cluster d' = \<lparr>cl_pools = ps, cl_read_n = new_n, cl_write_n = new_n, cl_dual_write = False\<rparr>
    \<and> (\<forall>i < nat old_n. \<forall>r \<in> set (sh_rows (dg_shard (on_d s) (ps ! i))).
        message_id r \<in> shard_msgs (dg_shard d' (ps ! chat_home (chat_id r) new_n)))
    \<and> (\<forall>s1 m. (online_step new_n)\<^sup>*\<^sup>* s0 s1 \<and> (online_step new_n)\<^sup>*\<^sup>* s1 s \<and> m \<in> set (on_sends s1) \<and> ps_pools m = []
          \<and> owner (ps_mid m) = compute_chat_id (ps_from m) (ps_to m) \<longrightarrow>
        ps_mid m \<in> shard_msgs (dg_shard d' (ps ! chat_home (owner (ps_mid m)) new_n)))
    \<and> (\<forall>i < nat new_n. \<forall>r \<in> set (sh_rows (dg_shard d' (ps ! i))). chat_home (chat_id r) new_n = i)
    \<and> (\<forall>i < nat new_n. \<forall>j < nat new_n. i \<noteq> j \<longrightarrow> shard_msgs (dg_shard d' (ps ! i)) \<inter> shard_msgs (dg_shard d' (ps ! j)) = {})"
proof -
  let ?d = "on_d s"
  have cl: "dg_cluster ?d = dg_cluster (on_d s0)" using online_steps_extend [OF run] by (simp add: extends_def)
  have inv: "online_inv new_n s" by (rule online_reachable_inv [OF run init(1)])
  then have conf: "cluster_ok (dg_cluster ?d)" "cl_write_n (dg_cluster ?d) = new_n" "shards_ok ?d"
    by (simp_all add: online_inv_def online_config_def)
  have pools: "cl_pools (dg_cluster ?d) = ps" "cl_read_n (dg_cluster ?d) = old_n" using cl by (simp_all add: ps_def old_n_def)
  have n: "1 \<le> new_n" "new_n \<le> int (length ps)" "1 \<le> old_n" "old_n \<le> int (length ps)" using conf(1,2) pools by (auto simp: cluster_ok_def)
  have copied: "all_copied ?d new_n (nat (cl_read_n (dg_cluster ?d)))"
    using online_backfill_complete [OF init(1) run through(1,2)] through(3) by (auto simp: all_copied_def at_target_def target_def read_n_def)
  obtain d' where d': "reshard_finish (\<lambda>_. True) new_n ?d = (Inr (), d')"
      "dg_cluster d' = \<lparr>cl_pools = ps, cl_read_n = new_n, cl_write_n = new_n, cl_dual_write = False\<rparr>"
      "\<forall>i < length ps. dg_shard d' (ps ! i) = (if i < nat new_n then keep_home new_n i (dg_shard ?d (ps ! i)) else dg_shard ?d (ps ! i))"
    using reshard_finish_run [OF conf(1) _ conf(2,3) _ copied, of "\<lambda>_. True"] init(2) cl pools(1) by (auto simp: ps_def cong: if_cong)
  have home: "mid \<in> shard_msgs (dg_shard d' (ps ! chat_home (owner mid) new_n))"
    if "at_target ?d new_n mid (owner mid)" "8 \<le> length (owner mid)" for mid
  proof -
    have h: "chat_home (owner mid) new_n < nat new_n" using sfc.home_less [OF that(2) n(1), of "nat new_n"] by simp
    then show ?thesis using kept_at_home [OF ids that(1)] d'(3) n(2) pools(1) by simp
  qed
  have "message_id r \<in> shard_msgs (dg_shard d' (ps ! chat_home (chat_id r) new_n))"
    if "i < nat old_n" "r \<in> set (sh_rows (dg_shard ?d (ps ! i)))" for i r
  proof -
    have i: "i < length ps" using that(1) n(4) by simp
    then have "chat_id r = owner (message_id r)" using ids that(2) pools(1) by (auto simp: ids_identify_def)
    moreover have "8 \<le> length (chat_id r)" using row_long(1) [OF conf(3)] i that(2) pools(1) by simp
    moreover have "at_target ?d new_n (message_id r) (chat_id r)" using copied that pools by (auto simp: all_copied_def at_target_def target_def)
    ultimately show ?thesis using home by metis
  qed
  moreover have "ps_mid m \<in> shard_msgs (dg_shard d' (ps ! chat_home (owner (ps_mid m)) new_n))"
    if s1: "(online_step new_n)\<^sup>*\<^sup>* s0 s1" "(online_step new_n)\<^sup>*\<^sup>* s1 s" and m: "m \<in> set (on_sends s1)" "ps_pools m = []"
      and owner: "owner (ps_mid m) = compute_chat_id (ps_from m) (ps_to m)" for s1 m
  proof -
    have "send_covered s1 new_n m" using online_reachable_inv [OF s1(1) init(1)] m(1) by (simp add: online_inv_def)
    then have "at_target (on_d s1) new_n (ps_mid m) (owner (ps_mid m))" using m(2) owner by (simp add: send_covered_def Let_def)
    then have "at_target ?d new_n (ps_mid m) (owner (ps_mid m))"
      using online_steps_extend [OF s1(2)] by (auto simp: at_target_def target_def extends_def)
    moreover have "8 \<le> length (owner (ps_mid m))" using owner by simp
    ultimately show ?thesis by (rule home)
  qed
  moreover have placed: "chat_home (chat_id r) new_n = i" if "i < nat new_n" "r \<in> set (sh_rows (dg_shard d' (ps ! i)))" for i r
    using that d'(3) n(2) by (simp add: keep_home_def)
  moreover have "shard_msgs (dg_shard d' (ps ! i)) \<inter> shard_msgs (dg_shard d' (ps ! j)) = {}" if ij: "i < nat new_n" "j < nat new_n" "i \<noteq> j" for i j
  proof (rule ccontr)
    assume "\<not> ?thesis"
    then obtain x y where x: "x \<in> set (sh_rows (dg_shard d' (ps ! i)))" and y: "y \<in> set (sh_rows (dg_shard d' (ps ! j)))" and "message_id x = message_id y"
      by auto
    moreover have "chat_id z = owner (message_id z)" if "k < nat new_n" "z \<in> set (sh_rows (dg_shard d' (ps ! k)))" for k z
      using that d'(3) n(2) ids pools(1) by (auto simp: keep_home_def ids_identify_def)
    ultimately have "chat_id x = chat_id y" using ij by metis
    then show False using placed [OF ij(1) x] placed [OF ij(2) y] ij(3) by simp
  qed
  ultimately show ?thesis using d'(1,2) by blast
qed

lemma live_reshard_no_loss_no_dups_witness:
  "\<exists>d'. reshard_finish (\<lambda>_. True) 2 (on_d (demo_online [] 0 [] (insert_message (demo_row 1 5 10) empty_shard))) = (Inr (), d')
    \<and> (1 :: uuid) \<in> shard_msgs (dg_shard d' True)"
proof -
  let ?s = "demo_online [] 0 [] (insert_message (demo_row 1 5 10) empty_shard)"
  have h: "chat_home [0, 0, 0, 0, 0, 0, 0, 5] 2 = 1" by (simp add: sfc.home_def shard_for_chat_def int_from_bytes_def be_value_def)
  have "ids_identify (\<lambda>_. [0, 0, 0, 0, 0, 0, 0, 5]) (on_d ?s)"
    by (auto simp: ids_identify_def demo_online_def insert_message_def empty_shard_def demo_row_def)
  from live_reshard_no_loss_no_dups [OF demo_online_init _ demo_online_run _ _ _ this]
  show ?thesis using h by (fastforce simp: demo_online_def demo_row_def)
qed

end
