(* ===== verification/Rabbit_Broker.thy ===== *)
theory Rabbit_Broker
  imports Prelude Uuid
begin

text \<open>
  What the sources rely on in the message broker.  RabbitMQ and \<^verbatim>\<open>aio_pika\<close> are not part of the
  repository, so the operations the code calls are parameters; their documented behaviour, that of
  an AMQP 0-9-1 topic exchange, is the locale \<open>topic_broker\<close>.  The record \<open>broker\<close> with its operations
  is that documented behaviour as functions, on which the locale is interpreted.
\<close>

section \<open>Messages\<close>

text \<open>JSON values.  The body of a message is a JSON text; the model carries the value, and \<open>None\<close>
  where a body is no JSON text.  \<open>JUuid\<close> is a Python \<^verbatim>\<open>UUID\<close> object inside a payload, which is no
  JSON value until the encoder has turned it into a string.\<close>

datatype json =
    JNull
  | JBool bool
  | JInt int
  | JStr string
  | JUuid uuid
  | JList "json list"
  | JObj "(string \<times> json) list"

type_synonym body = "json option"

section \<open>Topic routing\<close>

text \<open>Words of the binding key against words of the routing key: \<^verbatim>\<open>*\<close> stands for one word, \<^verbatim>\<open>#\<close> for any
  number of words.\<close>

fun topic_words :: "string list \<Rightarrow> string list \<Rightarrow> bool" where
  "topic_words [] ks = (ks = [])"
| "topic_words (p # ps) [] = (p = ''#'' \<and> topic_words ps [])"
| "topic_words (p # ps) (k # ks) =
     (if p = ''#'' then topic_words ps (k # ks) \<or> topic_words (p # ps) ks
      else (p = ''*'' \<or> p = k) \<and> topic_words ps ks)"

definition topic_match :: "string \<Rightarrow> string \<Rightarrow> bool" where
  "topic_match pat key = topic_words (py_split (CHR ''.'') pat) (py_split (CHR ''.'') key)"

definition literal_key :: "string \<Rightarrow> bool" where
  "literal_key k \<longleftrightarrow> CHR ''*'' \<notin> set k \<and> CHR ''#'' \<notin> set k"

lemma topic_words_literal:
  assumes "''*'' \<notin> set ps" and "''#'' \<notin> set ps"
  shows "topic_words ps ks \<longleftrightarrow> ps = ks"
  using assms by (induction ps ks rule: topic_words.induct) auto

fun py_join :: "char \<Rightarrow> string list \<Rightarrow> string" where
  "py_join c [] = []"
| "py_join c [x] = x"
| "py_join c (x # y # zs) = x @ c # py_join c (y # zs)"

lemma py_join_split: "py_join c (py_split c s) = s"
proof (induction s)
  case (Cons x s)
  obtain y ys where y: "py_split c s = y # ys" by (metis neq_Nil_conv py_split_nonempty)
  have "py_join c ((x # y) # ys) = x # py_join c (y # ys)" by (cases ys) auto
  with Cons y show ?case by (cases "x = c") (simp_all)
qed simp

lemma py_split_inj: "py_split c s = py_split c t \<longleftrightarrow> s = t"
  by (metis py_join_split)

lemma py_split_chars: "p \<in> set (py_split c s) \<Longrightarrow> set p \<subseteq> set s"
proof (induction s arbitrary: p)
  case (Cons x s)
  show ?case
  proof (cases "py_split c s")
    case Nil
    then show ?thesis by simp
  next
    case (Cons y ys)
    with Cons.prems Cons.IH [of p] Cons.IH [of y] show ?thesis by (auto split: if_splits)
  qed
qed simp

text \<open>A binding key without wildcards matches itself only.\<close>

lemma topic_match_literal:
  assumes "literal_key pat"
  shows "topic_match pat key \<longleftrightarrow> pat = key"
proof -
  have "''*'' \<notin> set (py_split (CHR ''.'') pat)" "''#'' \<notin> set (py_split (CHR ''.'') pat)"
    using assms py_split_chars by (force simp: literal_key_def)+
  then show ?thesis by (simp add: topic_match_def topic_words_literal py_split_inj)
qed

section \<open>The interface\<close>

locale topic_broker =
  fixes bind :: "string \<Rightarrow> string \<Rightarrow> ('b, unit) prog"
    and unbind :: "string \<Rightarrow> string \<Rightarrow> ('b, unit) prog"
    and publish :: "string \<Rightarrow> body \<Rightarrow> ('b, unit) prog"
    and bound :: "'b \<Rightarrow> string \<Rightarrow> string set"
    and inbox :: "'b \<Rightarrow> string \<Rightarrow> (string \<times> body) list"
  assumes bind_bound: "bind q k b = (Inr (), b') \<Longrightarrow> bound b' = (bound b)(q := insert k (bound b q))"
    and bind_failed: "bind q k b = (Inl e, b') \<Longrightarrow> bound b' = bound b \<or> bound b' = (bound b)(q := insert k (bound b q))"
    and bind_inbox: "bind q k b = (r, b') \<Longrightarrow> inbox b' = inbox b"
    and unbind_bound: "unbind q k b = (Inr (), b') \<Longrightarrow> bound b' = (bound b)(q := bound b q - {k})"
    and unbind_failed: "unbind q k b = (Inl e, b') \<Longrightarrow> bound b' = bound b \<or> bound b' = (bound b)(q := bound b q - {k})"
    and unbind_inbox: "unbind q k b = (r, b') \<Longrightarrow> inbox b' = inbox b"
    and publish_bound: "publish k m b = (r, b') \<Longrightarrow> bound b' = bound b"
    and publish_inbox: "publish k m b = (Inr (), b') \<Longrightarrow>
      inbox b' q = inbox b q @ (if \<exists>p \<in> bound b q. topic_match p k then [(k, m)] else [])"
    and publish_failed: "publish k m b = (Inl e, b') \<Longrightarrow> inbox b' = inbox b"
begin

text \<open>With literal binding keys a queue receives exactly the messages of its keys.\<close>

lemma publish_literal:
  assumes "publish k m b = (Inr (), b')" and "\<forall>p \<in> bound b q. literal_key p"
  shows "inbox b' q = inbox b q @ (if k \<in> bound b q then [(k, m)] else [])"
proof -
  have "(\<exists>p \<in> bound b q. topic_match p k) \<longleftrightarrow> k \<in> bound b q"
    using assms(2) by (auto simp: topic_match_literal)
  then show ?thesis using publish_inbox [OF assms(1), of q] by simp
qed

end

section \<open>The documented behaviour as functions\<close>

record broker =
  bk_up :: bool
  bk_bindings :: "(string \<times> string) list"
  bk_inbox :: "string \<Rightarrow> (string \<times> body) list"

definition broker_bind :: "string \<Rightarrow> string \<Rightarrow> (broker, unit) prog" where
  "broker_bind q k b =
     (if bk_up b then (Inr (), b\<lparr>bk_bindings := List.insert (q, k) (bk_bindings b)\<rparr>)
      else (Inl (AmqpError ''connection closed''), b))"

definition broker_unbind :: "string \<Rightarrow> string \<Rightarrow> (broker, unit) prog" where
  "broker_unbind q k b =
     (if bk_up b then (Inr (), b\<lparr>bk_bindings := removeAll (q, k) (bk_bindings b)\<rparr>)
      else (Inl (AmqpError ''connection closed''), b))"

definition broker_bound :: "broker \<Rightarrow> string \<Rightarrow> string set" where
  "broker_bound b q = {k. (q, k) \<in> set (bk_bindings b)}"

definition broker_publish :: "string \<Rightarrow> body \<Rightarrow> (broker, unit) prog" where
  "broker_publish k m b =
     (if bk_up b then (Inr (), b\<lparr>bk_inbox := (\<lambda>q. bk_inbox b q
        @ (if \<exists>(q', p) \<in> set (bk_bindings b). q' = q \<and> topic_match p k then [(k, m)] else []))\<rparr>)
      else (Inl (AmqpError ''connection closed''), b))"

interpretation bk: topic_broker broker_bind broker_unbind broker_publish broker_bound bk_inbox
  by unfold_locales
    (force simp: broker_bind_def broker_unbind_def broker_publish_def broker_bound_def split: if_splits)+

definition demo_broker :: broker where
  "demo_broker = \<lparr>bk_up = True, bk_bindings = [], bk_inbox = (\<lambda>_. [])\<rparr>"

end
