(* ===== verification/Rabbit_Client.thy ===== *)
theory Rabbit_Client
  imports Rabbit_Broker Config
begin

text \<open>
  \<^verbatim>\<open>app/rabbit_client.py\<close>: the process-wide connection to the broker and the publication of events.
  The three class attributes are a record; the results of the \<^verbatim>\<open>aio_pika\<close> calls are parameters.
\<close>

section \<open>Encoding\<close>

text \<open>\<^verbatim>\<open>_UUIDEncoder\<close>: UUIDs become strings; every other value of a payload is a JSON value already.\<close>

fun encode :: "json \<Rightarrow> json" where
  "encode (JUuid u) = JStr (uuid_str u)"
| "encode (JList xs) = JList (map encode xs)"
| "encode (JObj kvs) = JObj (map (\<lambda>(k, v). (k, encode v)) kvs)"
| "encode JNull = JNull"
| "encode (JBool b) = JBool b"
| "encode (JInt n) = JInt n"
| "encode (JStr s) = JStr s"

definition dumps :: "json \<Rightarrow> body" where
  "dumps payload = Some (encode payload)"

text \<open>What comes out holds no UUID object, so it is a JSON text.\<close>

fun plain_json :: "json \<Rightarrow> bool" where
  "plain_json (JUuid u) = False"
| "plain_json (JList xs) = (\<forall>x \<in> set xs. plain_json x)"
| "plain_json (JObj kvs) = (\<forall>kv \<in> set kvs. plain_json (snd kv))"
| "plain_json _ = True"

lemma plain_encode: "plain_json (encode p)"
  by (induction p rule: encode.induct) auto

lemma encode_plain: "plain_json p \<Longrightarrow> encode p = p"
proof (induction p rule: encode.induct)
  case (3 kvs)
  have "map (\<lambda>(k, v). (k, encode v)) kvs = map (\<lambda>kv. kv) kvs"
    using 3 by (intro map_cong) (auto simp: split_def)
  then show ?case by simp
qed (auto simp: map_idI)

section \<open>The connection\<close>

record ('c, 'ch, 'x) rabbit =
  rb_connection :: "'c option"
  rb_publisher_channel :: "'ch option"
  rb_publisher_exchange :: "'x option"

definition initial_rabbit :: "('c, 'ch, 'x) rabbit" where
  "initial_rabbit = \<lparr>rb_connection = None, rb_publisher_channel = None, rb_publisher_exchange = None\<rparr>"

text \<open>The parameters are the outcomes of \<^verbatim>\<open>connect_robust\<close>, \<^verbatim>\<open>connection.channel\<close>, \<^verbatim>\<open>set_qos\<close> and
  \<^verbatim>\<open>declare_exchange\<close>.  The lock makes the body one step, so the second test of \<^verbatim>\<open>_connection\<close> is the
  first one again.\<close>

definition RabbitClient_connect :: "settings \<Rightarrow> (string \<Rightarrow> 'c res) \<Rightarrow> ('c \<Rightarrow> 'ch res) \<Rightarrow> ('ch \<Rightarrow> int \<Rightarrow> unit res) \<Rightarrow>
    ('ch \<Rightarrow> string \<Rightarrow> 'x res) \<Rightarrow> (('c, 'ch, 'x) rabbit, unit) prog" where
  "RabbitClient_connect S connect_robust channel set_qos declare_exchange r =
     (case rb_connection r of
        Some _ \<Rightarrow> (Inr (), r)
      | None \<Rightarrow>
          (case connect_robust (rabbitmq_url S) of
             Inl e \<Rightarrow> (Inl e, r)
           | Inr connection \<Rightarrow>
               let r1 = r\<lparr>rb_connection := Some connection\<rparr> in
               (case channel connection of
                  Inl e \<Rightarrow> (Inl e, r1)
                | Inr ch \<Rightarrow>
                    (case set_qos ch (rabbitmq_prefetch S) of
                       Inl e \<Rightarrow> (Inl e, r1)
                     | Inr _ \<Rightarrow>
                         (case declare_exchange ch (rabbitmq_exchange S) of
                            Inl e \<Rightarrow> (Inl e, r1)
                          | Inr x \<Rightarrow> (Inr (), r1\<lparr>rb_publisher_channel := Some ch,
                                             rb_publisher_exchange := Some x\<rparr>))))))"

text \<open>\<^verbatim>\<open>try: await close() finally: ...\<close>.\<close>

definition RabbitClient_disconnect :: "('c \<Rightarrow> unit res) \<Rightarrow> (('c, 'ch, 'x) rabbit, unit) prog" where
  "RabbitClient_disconnect close r =
     (case rb_connection r of
        None \<Rightarrow> (Inr (), r)
      | Some c \<Rightarrow> (close c, initial_rabbit))"

definition RabbitClient_connection :: "('c, 'ch, 'x) rabbit \<Rightarrow> 'c res" where
  "RabbitClient_connection r =
     (case rb_connection r of None \<Rightarrow> Inl (RuntimeError ''RabbitClient is not connected'') | Some c \<Rightarrow> Inr c)"

definition RabbitClient_exchange :: "('c, 'ch, 'x) rabbit \<Rightarrow> 'x res" where
  "RabbitClient_exchange r =
     (case rb_publisher_exchange r of None \<Rightarrow> Inl (RuntimeError ''RabbitClient is not connected'') | Some x \<Rightarrow> Inr x)"

text \<open>\<^verbatim>\<open>exchange.publish(message, routing_key)\<close> is the parameter \<open>send\<close>; a message is its body and
  whether it is persistent.\<close>

definition RabbitClient_publish :: "('c, 'ch, 'x) rabbit \<Rightarrow> ('x \<Rightarrow> string \<Rightarrow> body \<Rightarrow> bool \<Rightarrow> ('b, unit) prog) \<Rightarrow>
    string \<Rightarrow> json \<Rightarrow> bool \<Rightarrow> ('b, unit) prog" where
  "RabbitClient_publish r send routing_key payload persistent b =
     (case RabbitClient_exchange r of
        Inl e \<Rightarrow> (Inl e, b)
      | Inr x \<Rightarrow> send x routing_key (dumps payload) persistent b)"

definition user_routing_key :: "settings \<Rightarrow> string \<Rightarrow> string" where
  "user_routing_key S user_id = rabbitmq_user_routing_prefix S @ ''.'' @ user_id"

section \<open>Properties\<close>

text \<open>when the connection is opened but the channel cannot be, the
  connect raises and leaves the connection assigned; every later connect then returns at once
  without an exchange, and every publication raises.\<close>

theorem rabbit_failed_connect_sticks:
  assumes "connect_robust (rabbitmq_url S) = Inr c" and "channel c = Inl e"
  shows "\<exists>r. RabbitClient_connect S connect_robust channel set_qos declare_exchange initial_rabbit = (Inl e, r)
    \<and> RabbitClient_connect S connect_robust' channel' set_qos' declare_exchange' r = (Inr (), r)
    \<and> RabbitClient_publish r send key payload persistent b
        = (Inl (RuntimeError ''RabbitClient is not connected''), b)"
  using assms by (simp add: RabbitClient_connect_def initial_rabbit_def RabbitClient_publish_def
      RabbitClient_exchange_def Let_def)

lemma rabbit_failed_connect_sticks_witness:
  "\<exists>r. RabbitClient_connect default_settings (\<lambda>_. Inr ()) (\<lambda>_. Inl (AmqpError ''no channel'')) (\<lambda>_ _. Inr ()) (\<lambda>_ _. Inr ())
        initial_rabbit = (Inl (AmqpError ''no channel''), r)
    \<and> RabbitClient_connect default_settings (\<lambda>_. Inr ()) (\<lambda>_. Inr ()) (\<lambda>_ _. Inr ()) (\<lambda>_ _. Inr ()) r = (Inr (), r)
    \<and> RabbitClient_publish r (\<lambda>_ k m _. broker_publish k m) ''k'' JNull True demo_broker
        = (Inl (RuntimeError ''RabbitClient is not connected''), demo_broker)"
  by (rule rabbit_failed_connect_sticks) simp_all

end
