(* ===== verification/Connection_Manager.thy ===== *)
theory Connection_Manager
  imports Rabbit_Broker "HOL-Library.AList"
begin

text \<open>
  \<^verbatim>\<open>app/ws/connection_manager.py\<close>: the registry of live WebSocket connections.  A dictionary is an
  association list in insertion order, a set of sockets a list without duplicates, whose order is
  the order an iteration takes.  What runs under the lock is one function; the callbacks run after
  it, so their interleaving with other sessions is a step relation.
\<close>

section \<open>State and operations\<close>

record 'w manager =
  cm_conns :: "(uuid \<times> 'w list) list"

text \<open>A callback acts on the environment \<open>'s\<close>, here the broker.\<close>

type_synonym 's callback = "(uuid \<Rightarrow> ('s, unit) prog) option"

definition initial_manager :: "'w manager" where
  "initial_manager = \<lparr>cm_conns = []\<rparr>"

definition conns_of :: "'w manager \<Rightarrow> uuid \<Rightarrow> 'w list" where
  "conns_of c u = (case map_of (cm_conns c) u of None \<Rightarrow> [] | Some ws \<Rightarrow> ws)"

text \<open>The locked part of \<^verbatim>\<open>connect\<close>: whether this is the user's first connection, and the new registry.\<close>

definition cm_register :: "uuid \<Rightarrow> 'w \<Rightarrow> 'w manager \<Rightarrow> bool \<times> 'w manager" where
  "cm_register user_id ws c =
     (let sockets = conns_of c user_id in
      (sockets = [], c\<lparr>cm_conns := AList.update user_id (if ws \<in> set sockets then sockets else sockets @ [ws]) (cm_conns c)\<rparr>))"

text \<open>The locked part of \<^verbatim>\<open>disconnect\<close>: whether this was the user's last connection.\<close>

definition cm_unregister :: "uuid \<Rightarrow> 'w \<Rightarrow> 'w manager \<Rightarrow> bool \<times> 'w manager" where
  "cm_unregister user_id ws c =
     (case map_of (cm_conns c) user_id of
        None \<Rightarrow> (False, c)
      | Some sockets \<Rightarrow>
          let rest = removeAll ws sockets in
          if rest = [] then (True, c\<lparr>cm_conns := AList.delete user_id (cm_conns c)\<rparr>)
          else (False, c\<lparr>cm_conns := AList.update user_id rest (cm_conns c)\<rparr>))"

text \<open>An exception of a callback is logged and dropped.\<close>

definition run_callback :: "'s callback \<Rightarrow> uuid \<Rightarrow> 's \<Rightarrow> 's" where
  "run_callback cb user_id s = (case cb of None \<Rightarrow> s | Some f \<Rightarrow> snd (f user_id s))"

definition ConnectionManager_connect :: "'s callback \<Rightarrow> uuid \<Rightarrow> 'w \<Rightarrow> 'w manager \<times> 's \<Rightarrow> 'w manager \<times> 's" where
  "ConnectionManager_connect on_first user_id ws st =
     (case cm_register user_id ws (fst st) of
        (is_first, c) \<Rightarrow> (c, if is_first then run_callback on_first user_id (snd st) else snd st))"

definition ConnectionManager_disconnect :: "'s callback \<Rightarrow> uuid \<Rightarrow> 'w \<Rightarrow> 'w manager \<times> 's \<Rightarrow> 'w manager \<times> 's" where
  "ConnectionManager_disconnect on_last user_id ws st =
     (case cm_unregister user_id ws (fst st) of
        (is_last, c) \<Rightarrow> (c, if is_last then run_callback on_last user_id (snd st) else snd st))"

text \<open>The loop of \<^verbatim>\<open>push\<close> over the sockets; \<open>send_ok\<close> says on which of them \<^verbatim>\<open>send_json\<close> returns, and the
  deliveries are collected.\<close>

fun push_loop :: "('w \<Rightarrow> bool) \<Rightarrow> json \<Rightarrow> 'w list \<Rightarrow> nat \<Rightarrow> 'w list \<Rightarrow> ('w \<times> json) list \<Rightarrow>
    nat \<times> 'w list \<times> ('w \<times> json) list" where
  "push_loop send_ok payload [] sent broken out = (sent, broken, out)"
| "push_loop send_ok payload (ws # sockets) sent broken out =
     (if send_ok ws then push_loop send_ok payload sockets (Suc sent) broken (out @ [(ws, payload)])
      else push_loop send_ok payload sockets sent (broken @ [ws]) out)"

definition ConnectionManager_push :: "'s callback \<Rightarrow> ('w \<Rightarrow> bool) \<Rightarrow> uuid \<Rightarrow> json \<Rightarrow> 'w manager \<times> 's \<Rightarrow>
    nat \<times> ('w \<times> json) list \<times> 'w manager \<times> 's" where
  "ConnectionManager_push on_last send_ok user_id payload st =
     (let sockets = conns_of (fst st) user_id in
      if sockets = [] then (0, [], st)
      else case push_loop send_ok payload sockets 0 [] [] of
        (sent, broken, out) \<Rightarrow>
          (sent, out, fold (ConnectionManager_disconnect on_last user_id) broken st))"

definition active_users :: "'w manager \<Rightarrow> uuid list" where
  "active_users c = map fst (cm_conns c)"

definition total_connections :: "'w manager \<Rightarrow> nat" where
  "total_connections c = sum_list (map (\<lambda>(_, s). length s) (cm_conns c))"

section \<open>The registry\<close>

definition manager_ok :: "'w manager \<Rightarrow> bool" where
  "manager_ok c \<longleftrightarrow> distinct (map fst (cm_conns c)) \<and> (\<forall>(u, ws) \<in> set (cm_conns c). ws \<noteq> [] \<and> distinct ws)"

named_theorems cm_simps \<open>the effect of the registry operations on the sockets of a user\<close>

lemma manager_ok_initial [simp]: "manager_ok initial_manager"
  by (simp add: manager_ok_def initial_manager_def)

lemma conns_initial [cm_simps]: "conns_of initial_manager u = []"
  by (simp add: conns_of_def initial_manager_def)

lemma map_of_conns: "manager_ok c \<Longrightarrow> map_of (cm_conns c) u = (if conns_of c u = [] then None else Some (conns_of c u))"
  by (fastforce simp: conns_of_def manager_ok_def split: option.split dest: map_of_SomeD)

lemma distinct_conns: "manager_ok c \<Longrightarrow> distinct (conns_of c u)"
  by (fastforce simp: conns_of_def manager_ok_def split: option.split dest: map_of_SomeD)

lemma active_users_iff:
  assumes "manager_ok c"
  shows "u \<in> set (active_users c) \<longleftrightarrow> conns_of c u \<noteq> []"
proof -
  have "u \<in> set (active_users c) \<longleftrightarrow> map_of (cm_conns c) u \<noteq> None"
    by (simp add: active_users_def map_of_eq_None_iff)
  also have "\<dots> \<longleftrightarrow> conns_of c u \<noteq> []" using map_of_conns [OF assms, of u] by simp
  finally show ?thesis .
qed

lemma in_set_update:
  assumes "x \<in> set (AList.update k v al)"
  shows "x = (k, v) \<or> x \<in> set al"
  using assms by (induction al) (auto split: if_splits)

lemma in_set_delete: "x \<in> set (AList.delete k al) \<Longrightarrow> x \<in> set al"
  by (induction al) (auto split: if_splits)

lemma register_conns [cm_simps]:
  "conns_of (snd (cm_register u w c)) v =
     (if v = u then if w \<in> set (conns_of c u) then conns_of c u else conns_of c u @ [w] else conns_of c v)"
  by (auto simp: cm_register_def conns_of_def Let_def update_conv' split: option.split)

lemma register_first [cm_simps]: "fst (cm_register u w c) \<longleftrightarrow> conns_of c u = []"
  by (simp add: cm_register_def Let_def)

lemma manager_ok_register: "manager_ok c \<Longrightarrow> manager_ok (snd (cm_register u w c))"
  using distinct_conns [of c u]
  by (fastforce simp: manager_ok_def cm_register_def Let_def distinct_update dest: in_set_update)

lemma unregister_conns [cm_simps]:
  assumes "manager_ok c"
  shows "conns_of (snd (cm_unregister u w c)) v = (if v = u then removeAll w (conns_of c u) else conns_of c v)"
  using map_of_conns [OF assms, of u]
  by (auto simp: cm_unregister_def conns_of_def Let_def update_conv' delete_conv' split: option.split)

lemma unregister_last [cm_simps]:
  assumes "manager_ok c"
  shows "fst (cm_unregister u w c) \<longleftrightarrow> conns_of c u \<noteq> [] \<and> removeAll w (conns_of c u) = []"
  using map_of_conns [OF assms, of u] by (simp add: cm_unregister_def Let_def)

lemma manager_ok_unregister:
  assumes "manager_ok c"
  shows "manager_ok (snd (cm_unregister u w c))"
proof (cases "map_of (cm_conns c) u")
  case None
  with assms show ?thesis by (simp add: cm_unregister_def)
next
  case (Some ws)
  with map_of_conns [OF assms, of u] have ws: "ws = conns_of c u" by (simp split: if_splits)
  have "distinct (removeAll w ws)" using distinct_conns [OF assms, of u] by (simp add: ws distinct_removeAll)
  with Some assms show ?thesis
    by (fastforce simp: manager_ok_def cm_unregister_def Let_def distinct_update distinct_delete
        dest: in_set_update in_set_delete)
qed

section \<open>Pushing\<close>

lemma push_loop_eq:
  "push_loop ok p ws n br out = (n + length (filter ok ws), br @ filter (\<lambda>w. \<not> ok w) ws,
     out @ map (\<lambda>w. (w, p)) (filter ok ws))"
  by (induction ws arbitrary: n br out) auto

lemma disconnect_fst: "fst (ConnectionManager_disconnect cb u w st) = snd (cm_unregister u w (fst st))"
  by (simp add: ConnectionManager_disconnect_def split: prod.split)

lemma disconnect_snd:
  "snd (ConnectionManager_disconnect cb u w st)
     = (if fst (cm_unregister u w (fst st)) then run_callback cb u (snd st) else snd st)"
  by (simp add: ConnectionManager_disconnect_def split: prod.split)

text \<open>Disconnecting a list of sockets: the last callback runs once, when none is left.\<close>

lemma disconnect_all:
  assumes "manager_ok (fst st)" and "set ws \<subseteq> set (conns_of (fst st) u)" and "distinct ws"
    and "st' = fold (ConnectionManager_disconnect cb u) ws st"
  shows "manager_ok (fst st')
    \<and> (\<forall>v. conns_of (fst st') v = (if v = u then filter (\<lambda>w. w \<notin> set ws) (conns_of (fst st) u) else conns_of (fst st) v))
    \<and> snd st' = (if ws \<noteq> [] \<and> set (conns_of (fst st) u) \<subseteq> set ws then run_callback cb u (snd st) else snd st)"
  using assms
proof (induction ws arbitrary: st)
  case (Cons w ws)
  let ?st = "ConnectionManager_disconnect cb u w st"
  have ok: "manager_ok (fst ?st)" using Cons.prems(1) by (simp add: disconnect_fst manager_ok_unregister)
  have cs: "conns_of (fst ?st) v = (if v = u then removeAll w (conns_of (fst st) u) else conns_of (fst st) v)" for v
    using Cons.prems(1) by (simp add: disconnect_fst cm_simps)
  have sub: "set ws \<subseteq> set (conns_of (fst ?st) u)" using Cons.prems(2,3) by (auto simp: cs)
  have "st' = fold (ConnectionManager_disconnect cb u) ws ?st" using Cons.prems(4) by simp
  note IH = Cons.IH [OF ok sub _ this]
  have last: "fst (cm_unregister u w (fst st)) \<longleftrightarrow> set (conns_of (fst st) u) \<subseteq> {w}"
    using Cons.prems(1,2) by (auto simp: unregister_last removeAll_filter_not_eq filter_empty_conv)
  have env: "snd ?st = (if set (conns_of (fst st) u) \<subseteq> {w} then run_callback cb u (snd st) else snd st)"
    by (simp add: disconnect_snd last)
  show ?case
  proof (cases "ws = []")
    case True
    with ok cs env Cons.prems(4) show ?thesis
      by (auto simp: removeAll_filter_not_eq intro!: filter_cong)
  next
    case False
    with Cons.prems(2,3) have "\<not> set (conns_of (fst st) u) \<subseteq> {w}" by (cases ws) auto
    then have env': "snd ?st = snd st" by (simp add: env)
    have "set (conns_of (fst ?st) u) \<subseteq> set ws \<longleftrightarrow> set (conns_of (fst st) u) \<subseteq> set (w # ws)"
      by (auto simp: cs)
    moreover have "filter (\<lambda>x. x \<notin> set ws) (conns_of (fst ?st) u) = filter (\<lambda>x. x \<notin> set (w # ws)) (conns_of (fst st) u)"
      by (auto simp: cs removeAll_filter_not_eq filter_filter intro!: filter_cong)
    ultimately show ?thesis using IH False env' cs Cons.prems(3) by simp
  qed
qed simp

lemma push_result:
  assumes "manager_ok c"
  shows "\<exists>c' s'. ConnectionManager_push cb ok u p (c, s)
      = (length (filter ok (conns_of c u)), map (\<lambda>w. (w, p)) (filter ok (conns_of c u)), c', s')
    \<and> manager_ok c' \<and> distinct (filter ok (conns_of c u))
    \<and> (\<forall>v. conns_of c' v = (if v = u then filter ok (conns_of c u) else conns_of c v))
    \<and> s' = (if conns_of c u \<noteq> [] \<and> filter ok (conns_of c u) = [] then run_callback cb u s else s)"
proof (cases "conns_of c u = []")
  case True
  with assms show ?thesis by (simp add: ConnectionManager_push_def)
next
  case False
  let ?br = "filter (\<lambda>w. \<not> ok w) (conns_of c u)"
  let ?st = "fold (ConnectionManager_disconnect cb u) ?br (c, s)"
  have dist: "distinct (conns_of c u)" using assms by (rule distinct_conns)
  have push: "ConnectionManager_push cb ok u p (c, s)
      = (length (filter ok (conns_of c u)), map (\<lambda>w. (w, p)) (filter ok (conns_of c u)), fst ?st, snd ?st)"
    using False by (simp add: ConnectionManager_push_def push_loop_eq Let_def)
  have all: "manager_ok (fst ?st) \<and> (\<forall>v. conns_of (fst ?st) v
        = (if v = u then filter (\<lambda>w. w \<notin> set ?br) (conns_of c u) else conns_of c v))
      \<and> snd ?st = (if ?br \<noteq> [] \<and> set (conns_of c u) \<subseteq> set ?br then run_callback cb u s else s)"
    using disconnect_all [of "(c, s)" ?br u ?st cb] assms dist by auto
  have "filter (\<lambda>w. w \<notin> set ?br) (conns_of c u) = filter ok (conns_of c u)"
    by (auto intro!: filter_cong)
  moreover have "?br \<noteq> [] \<and> set (conns_of c u) \<subseteq> set ?br \<longleftrightarrow> filter ok (conns_of c u) = []"
    using False by (auto simp: filter_empty_conv) (metis list.set_intros(1) neq_Nil_conv)
  ultimately show ?thesis using push all dist False by simp
qed

text \<open>A push sends the payload exactly once to each socket of the user that accepts it,
  and to no other socket, returns their number, drops exactly the broken sockets, and runs the
  last-disconnect callback, once, exactly when the user had sockets and all of them are broken.\<close>

theorem push_delivers:
  assumes "manager_ok c"
  shows "\<exists>c' s'. ConnectionManager_push cb ok u p (c, s)
      = (length (filter ok (conns_of c u)), map (\<lambda>w. (w, p)) (filter ok (conns_of c u)), c', s')
    \<and> manager_ok c' \<and> distinct (filter ok (conns_of c u))
    \<and> (\<forall>v. conns_of c' v = (if v = u then filter ok (conns_of c u) else conns_of c v))
    \<and> s' = (if conns_of c u \<noteq> [] \<and> filter ok (conns_of c u) = [] then run_callback cb u s else s)"
  by (rule push_result [OF assms])

definition demo_manager :: "nat manager" where
  "demo_manager = \<lparr>cm_conns = [(7, [1, 2]), (8, [3])]\<rparr>"

lemma push_delivers_witness:
  "\<exists>c' s'. ConnectionManager_push None (\<lambda>w. w \<noteq> 2) 7 JNull (demo_manager, ()) = (1, [(1, JNull)], c', s')"
proof -
  have "manager_ok demo_manager" "conns_of demo_manager 7 = [1, 2]"
    by (simp_all add: manager_ok_def demo_manager_def conns_of_def)
  with push_delivers [of demo_manager None "\<lambda>w. w \<noteq> 2" 7 JNull "()"] show ?thesis by auto
qed

section \<open>Callbacks and bindings\<close>

text \<open>What the registry relies on in its callbacks: a subscription that returns is in force, and neither
  callback touches other users.  An unsubscription may fail silently.\<close>

locale subscriptions =
  fixes sub :: "uuid \<Rightarrow> ('s, unit) prog" and unsub :: "uuid \<Rightarrow> ('s, unit) prog"
    and subscribed :: "'s \<Rightarrow> uuid set"
  assumes sub_ok: "sub u s = (Inr (), s') \<Longrightarrow> u \<in> subscribed s'"
    and sub_other: "sub u s = (r, s') \<Longrightarrow> v \<noteq> u \<Longrightarrow> v \<in> subscribed s' \<longleftrightarrow> v \<in> subscribed s"
    and unsub_other: "unsub u s = (r, s') \<Longrightarrow> v \<noteq> u \<Longrightarrow> v \<in> subscribed s' \<longleftrightarrow> v \<in> subscribed s"

text \<open>Sessions of many users on one event loop.  The locked part of a \<^verbatim>\<open>connect\<close> or \<^verbatim>\<open>disconnect\<close> is one
  step; the callback it owes is queued, and the broker serves the calls of one channel in their
  order.  A callback that raises is recorded in \<open>lv_failed\<close>.\<close>

record ('w, 's) live =
  lv_manager :: "'w manager"
  lv_pending :: "(bool \<times> uuid) list"
  lv_env :: 's
  lv_failed :: "uuid set"

inductive live_step :: "(uuid \<Rightarrow> ('s, unit) prog) \<Rightarrow> (uuid \<Rightarrow> ('s, unit) prog) \<Rightarrow> ('w, 's) live \<Rightarrow> ('w, 's) live \<Rightarrow> bool"
  for on_first on_last where
  connect: "cm_register u w (lv_manager s) = (is_first, c) \<Longrightarrow>
    live_step on_first on_last s
      (s\<lparr>lv_manager := c, lv_pending := lv_pending s @ (if is_first then [(True, u)] else [])\<rparr>)"
| disconnect: "cm_unregister u w (lv_manager s) = (is_last, c) \<Longrightarrow>
    live_step on_first on_last s
      (s\<lparr>lv_manager := c, lv_pending := lv_pending s @ (if is_last then [(False, u)] else [])\<rparr>)"
| callback: "lv_pending s = (b, u) # ps \<Longrightarrow> (if b then on_first else on_last) u (lv_env s) = (r, e) \<Longrightarrow>
    live_step on_first on_last s (s\<lparr>lv_pending := ps, lv_env := e,
      lv_failed := (case r of Inr _ \<Rightarrow> lv_failed s | Inl _ \<Rightarrow> insert u (lv_failed s))\<rparr>)"

definition live_init :: "'s \<Rightarrow> ('w, 's) live" where
  "live_init e = \<lparr>lv_manager = initial_manager, lv_pending = [], lv_env = e, lv_failed = {}\<rparr>"

text \<open>What the queued callbacks will make of a user's subscription.\<close>

fun due :: "uuid \<Rightarrow> (bool \<times> uuid) list \<Rightarrow> bool \<Rightarrow> bool" where
  "due u [] b = b"
| "due u ((x, v) # ps) b = due u ps (if v = u then x else b)"

lemma due_append [simp]: "due u (ps @ qs) b = due u qs (due u ps b)"
  by (induction ps arbitrary: b) auto

lemma due_mono: "due u ps b \<Longrightarrow> (b \<Longrightarrow> b') \<Longrightarrow> due u ps b'"
proof (induction ps arbitrary: b b')
  case (Cons p ps)
  then show ?case by (cases p) (auto split: if_splits)
qed simp

context subscriptions
begin

lemma callback_due:
  assumes "(if b then sub else unsub) v e = (r, e')"
    and "u \<notin> (case r of Inr _ \<Rightarrow> F | Inl _ \<Rightarrow> insert v F)" and "due u ((b, v) # ps) (u \<in> subscribed e)"
  shows "due u ps (u \<in> subscribed e')"
proof -
  have "(if v = u then b else u \<in> subscribed e) \<Longrightarrow> u \<in> subscribed e'"
    using assms(1,2) sub_ok [of v e e'] sub_other [of v e r e' u] unsub_other [of v e r e' u]
    by (cases r) (auto split: if_splits)
  with assms(3) show ?thesis using due_mono [of u ps] by simp
qed

lemma live_invariant:
  assumes "(live_step sub unsub)\<^sup>*\<^sup>* (live_init e) s"
  shows "manager_ok (lv_manager s) \<and> (\<forall>u. u \<notin> lv_failed s \<longrightarrow> conns_of (lv_manager s) u \<noteq> [] \<longrightarrow>
    due u (lv_pending s) (u \<in> subscribed (lv_env s)))"
  using assms
proof (induction rule: rtranclp_induct)
  case base
  then show ?case by (simp add: live_init_def cm_simps)
next
  case (step y z)
  then have ok: "manager_ok (lv_manager y)" and
    inv: "\<And>u. u \<notin> lv_failed y \<Longrightarrow> conns_of (lv_manager y) u \<noteq> [] \<Longrightarrow>
      due u (lv_pending y) (u \<in> subscribed (lv_env y))"
    by auto
  from step.hyps(2) show ?case
  proof cases
    case (connect u w is_first c)
    then have c: "c = snd (cm_register u w (lv_manager y))" "is_first = fst (cm_register u w (lv_manager y))" by auto
    show ?thesis unfolding connect(1) using ok inv by (auto simp: c cm_simps manager_ok_register)
  next
    case (disconnect u w is_last c)
    then have c: "c = snd (cm_unregister u w (lv_manager y))" "is_last = fst (cm_unregister u w (lv_manager y))" by auto
    show ?thesis unfolding disconnect(1) using ok inv
      by (auto simp: c cm_simps manager_ok_unregister) (metis removeAll.simps(1))
  next
    case (callback b u ps r e)
    have "due v ps (v \<in> subscribed e)"
      if "v \<notin> (case r of Inr _ \<Rightarrow> lv_failed y | Inl _ \<Rightarrow> insert u (lv_failed y))"
        "conns_of (lv_manager y) v \<noteq> []" for v
    proof -
      have "v \<notin> lv_failed y" using that(1) by (auto split: sum.splits)
      with inv [of v] callback_due [OF callback(3) that(1), of ps] callback(2) that(2) show ?thesis by simp
    qed
    with callback(1) ok show ?thesis by simp
  qed
qed

lemma connected_subscribed:
  assumes "(live_step sub unsub)\<^sup>*\<^sup>* (live_init e) s"
    and "lv_pending s = []" and "u \<notin> lv_failed s" and "conns_of (lv_manager s) u \<noteq> []"
  shows "u \<in> subscribed (lv_env s)"
  using live_invariant [OF assms(1)] assms(2-4) by auto

end

end
