(* ===== verification/Ws_Bridge.thy ===== *)
theory Ws_Bridge
  imports Rabbit_Client Connection_Manager
begin

text \<open>
  \<^verbatim>\<open>app/ws/rabbit_bridge.py\<close>: one queue of the broker per process, bound to the routing keys of the
  users connected here; its consumer hands every message to the sockets of the user its routing
  key names.  The theory closes with the path of an event from the publisher to the sockets.
\<close>

section \<open>The bridge\<close>

record ('ch, 'x) bridge =
  br_instance_id :: string
  br_channel :: "'ch option"
  br_queue :: "string option"
  br_exchange :: "'x option"
  br_consumer_task :: bool

definition RabbitWsBridge :: "string \<Rightarrow> ('ch, 'x) bridge" where
  "RabbitWsBridge instance_id = \<lparr>br_instance_id = instance_id, br_channel = None, br_queue = None,
     br_exchange = None, br_consumer_task = False\<rparr>"

definition bridge_start :: "settings \<Rightarrow> 'ch res \<Rightarrow> ('ch \<Rightarrow> int \<Rightarrow> unit res) \<Rightarrow> ('ch \<Rightarrow> string \<Rightarrow> 'x res) \<Rightarrow>
    ('ch \<Rightarrow> string \<Rightarrow> string res) \<Rightarrow> (('ch, 'x) bridge, unit) prog" where
  "bridge_start S channel set_qos declare_exchange declare_queue br =
     (case channel of
        Inl e \<Rightarrow> (Inl e, br)
      | Inr ch \<Rightarrow> (case set_qos ch (rabbitmq_prefetch S) of
          Inl e \<Rightarrow> (Inl e, br)
        | Inr _ \<Rightarrow> (case declare_exchange ch (rabbitmq_exchange S) of
            Inl e \<Rightarrow> (Inl e, br)
          | Inr x \<Rightarrow> (case declare_queue ch (''ws.'' @ br_instance_id br) of
              Inl e \<Rightarrow> (Inl e, br)
            | Inr q \<Rightarrow> (Inr (), br\<lparr>br_channel := Some ch, br_exchange := Some x, br_queue := Some q,
                                 br_consumer_task := True\<rparr>)))))"

text \<open>The cancelled consumer is awaited with every exception dropped; then the channel is closed.\<close>

definition bridge_stop :: "('ch \<Rightarrow> unit res) \<Rightarrow> (('ch, 'x) bridge, unit) prog" where
  "bridge_stop close br =
     (case (case br_channel br of None \<Rightarrow> Inr () | Some ch \<Rightarrow> close ch) of
        Inl e \<Rightarrow> (Inl e, br)
      | Inr _ \<Rightarrow> (Inr (), RabbitWsBridge (br_instance_id br)))"

definition bridge_bind_user :: "settings \<Rightarrow> (string \<Rightarrow> string \<Rightarrow> ('b, unit) prog) \<Rightarrow> string option \<Rightarrow> uuid \<Rightarrow> ('b, unit) prog" where
  "bridge_bind_user S bind queue user_id b =
     (case queue of
        None \<Rightarrow> (Inr (), b)
      | Some q \<Rightarrow> bind q (user_routing_key S (uuid_str user_id)) b)"

definition bridge_unbind_user :: "settings \<Rightarrow> (string \<Rightarrow> string \<Rightarrow> ('b, unit) prog) \<Rightarrow> string option \<Rightarrow> uuid \<Rightarrow> ('b, unit) prog" where
  "bridge_unbind_user S unbind queue user_id b =
     (case queue of
        None \<Rightarrow> (Inr (), b)
      | Some q \<Rightarrow> (Inr (), snd (unbind q (user_routing_key S (uuid_str user_id)) b)))"

text \<open>The user a routing key names, as the consumer reads it.\<close>

definition routing_key_user :: "string \<Rightarrow> uuid option" where
  "routing_key_user rk =
     (let parts = py_split (CHR ''.'') rk in
      if length parts \<noteq> 3 then None
      else case UUID (parts ! 2) of Inl _ \<Rightarrow> None | Inr u \<Rightarrow> Some u)"

text \<open>The body of the consumer's loop: a body that is no JSON and a routing key that names no user
  are skipped.\<close>

definition bridge_handle :: "'s callback \<Rightarrow> ('w \<Rightarrow> bool) \<Rightarrow> string \<times> body \<Rightarrow> 'w manager \<times> 's \<Rightarrow>
    ('w \<times> json) list \<times> 'w manager \<times> 's" where
  "bridge_handle on_last send_ok msg st =
     (case msg of (rk, body) \<Rightarrow>
      (case body of
         None \<Rightarrow> ([], st)
       | Some payload \<Rightarrow>
           (case routing_key_user rk of
              None \<Rightarrow> ([], st)
            | Some user_id \<Rightarrow> snd (ConnectionManager_push on_last send_ok user_id payload st))))"

fun consume_loop :: "'s callback \<Rightarrow> ('w \<Rightarrow> bool) \<Rightarrow> (string \<times> body) list \<Rightarrow> 'w manager \<times> 's \<Rightarrow>
    ('w \<times> json) list \<times> 'w manager \<times> 's" where
  "consume_loop on_last send_ok [] st = ([], st)"
| "consume_loop on_last send_ok (m # ms) st =
     (case bridge_handle on_last send_ok m st of
        (out, st') \<Rightarrow> (case consume_loop on_last send_ok ms st' of (out', st'') \<Rightarrow> (out @ out', st'')))"

section \<open>Routing keys\<close>

text \<open>The prefix of the settings has two words and no wildcard, as the default \<^verbatim>\<open>feed.user\<close> has.\<close>

definition prefix_ok :: "settings \<Rightarrow> bool" where
  "prefix_ok S \<longleftrightarrow> length (py_split (CHR ''.'') (rabbitmq_user_routing_prefix S)) = 2
     \<and> literal_key (rabbitmq_user_routing_prefix S)"

lemma prefix_ok_default: "prefix_ok default_settings"
  by (simp add: prefix_ok_def default_settings_def literal_key_def)

lemma py_split_snoc: "c \<notin> set t \<Longrightarrow> py_split c (s @ c # t) = py_split c s @ [t]"
proof (induction s)
  case (Cons x s)
  then show ?case by (auto simp: py_split_no_sep split: list.splits)
qed (simp add: py_split_no_sep)

lemma routing_key_user_key: "prefix_ok S \<Longrightarrow> routing_key_user (user_routing_key S (uuid_str u)) = Some u"
  by (simp add: routing_key_user_def user_routing_key_def prefix_ok_def py_split_snoc uuid_str_no_special
      nth_append UUID_str Let_def)

lemma user_routing_key_inj: "user_routing_key S (uuid_str u) = user_routing_key S (uuid_str v) \<longleftrightarrow> u = v"
  by (simp add: user_routing_key_def uuid_str_inj)

lemma uuid_str_no_wildcard: "CHR ''*'' \<notin> set (uuid_str u)" "CHR ''#'' \<notin> set (uuid_str u)"
  using uuid_str_chars [of _ u] by (force simp: plain_hex_def)+

lemma literal_user_key: "prefix_ok S \<Longrightarrow> literal_key (user_routing_key S (uuid_str u))"
  by (simp add: literal_key_def user_routing_key_def prefix_ok_def uuid_str_no_wildcard)

text \<open>The consumer reads back from a user's routing key exactly this user, keys of
  different users differ, and no key holds a wildcard, for every prefix of two literal words.\<close>

theorem routing_key_roundtrip:
  assumes "prefix_ok S"
  shows "routing_key_user (user_routing_key S (uuid_str u)) = Some u
    \<and> (user_routing_key S (uuid_str u) = user_routing_key S (uuid_str v) \<longleftrightarrow> u = v)
    \<and> (topic_match (user_routing_key S (uuid_str u)) key \<longleftrightarrow> key = user_routing_key S (uuid_str u))"
  using routing_key_user_key [OF assms] user_routing_key_inj topic_match_literal [OF literal_user_key [OF assms]] by auto

lemma routing_key_roundtrip_witness:
  "routing_key_user (user_routing_key default_settings (uuid_str 5)) = Some 5"
  using routing_key_roundtrip [OF prefix_ok_default] by blast

section \<open>Bindings follow connections\<close>

text \<open>The queue \<open>q\<close> of this process at a broker that keeps its contract.\<close>

locale bridge_queue = topic_broker +
  fixes S :: settings and q :: string
  assumes prefix: "prefix_ok S"
begin

lemma bind_user_bound:
  assumes "bridge_bind_user S bind (Some q) u b = (r, b')"
  shows "bound b' q - {user_routing_key S (uuid_str u)} = bound b q - {user_routing_key S (uuid_str u)}"
    and "r = Inr () \<Longrightarrow> user_routing_key S (uuid_str u) \<in> bound b' q"
    and "bound b q \<subseteq> bound b' q"
proof -
  from assms have bind: "bind q (user_routing_key S (uuid_str u)) b = (r, b')" by (simp add: bridge_bind_user_def)
  have "bound b' = bound b \<or> bound b' = (bound b)(q := insert (user_routing_key S (uuid_str u)) (bound b q))"
    using bind_bound bind_failed bind by (cases r) auto
  then show "bound b' q - {user_routing_key S (uuid_str u)} = bound b q - {user_routing_key S (uuid_str u)}"
    and "bound b q \<subseteq> bound b' q" by auto
  show "user_routing_key S (uuid_str u) \<in> bound b' q" if "r = Inr ()"
    using bind_bound [of q _ b b'] bind that by simp
qed

lemma unbind_user_bound:
  assumes "bridge_unbind_user S unbind (Some q) u b = (r, b')"
  shows "bound b' q - {user_routing_key S (uuid_str u)} = bound b q - {user_routing_key S (uuid_str u)}"
    and "bound b' q \<subseteq> bound b q"
proof -
  from assms obtain x where "unbind q (user_routing_key S (uuid_str u)) b = (x, b')"
    by (cases "unbind q (user_routing_key S (uuid_str u)) b") (auto simp: bridge_unbind_user_def)
  then have "bound b' = bound b \<or> bound b' = (bound b)(q := bound b q - {user_routing_key S (uuid_str u)})"
    using unbind_bound unbind_failed by (cases x) auto
  then show "bound b' q - {user_routing_key S (uuid_str u)} = bound b q - {user_routing_key S (uuid_str u)}"
    and "bound b' q \<subseteq> bound b q" by auto
qed

end

sublocale bridge_queue \<subseteq> users: subscriptions "bridge_bind_user S bind (Some q)"
  "bridge_unbind_user S unbind (Some q)" "\<lambda>b. {u. user_routing_key S (uuid_str u) \<in> bound b q}"
proof
  fix u b b' r v
  show "u \<in> {u. user_routing_key S (uuid_str u) \<in> bound b' q}"
    if "bridge_bind_user S bind (Some q) u b = (Inr (), b')"
    using bind_user_bound(2) [OF that] by simp
  have key: "user_routing_key S (uuid_str v) \<noteq> user_routing_key S (uuid_str u)" if "v \<noteq> u"
    using that by (simp add: user_routing_key_inj)
  show "v \<in> {u. user_routing_key S (uuid_str u) \<in> bound b' q} \<longleftrightarrow> v \<in> {u. user_routing_key S (uuid_str u) \<in> bound b q}"
    if "bridge_bind_user S bind (Some q) u b = (r, b')" "v \<noteq> u"
    using bind_user_bound(1) [OF that(1)] key [OF that(2)] by blast
  show "v \<in> {u. user_routing_key S (uuid_str u) \<in> bound b' q} \<longleftrightarrow> v \<in> {u. user_routing_key S (uuid_str u) \<in> bound b q}"
    if "bridge_unbind_user S unbind (Some q) u b = (r, b')" "v \<noteq> u"
    using unbind_user_bound(1) [OF that(1)] key [OF that(2)] by blast
qed

context bridge_queue
begin

lemma live_manager_ok:
  assumes "(live_step (bridge_bind_user S bind (Some q)) (bridge_unbind_user S unbind (Some q)))\<^sup>*\<^sup>* (live_init b0) s"
  shows "manager_ok (lv_manager s)"
  using users.live_invariant [OF assms] by blast

text \<open>The queue is bound to keys of users only.\<close>

lemma live_user_keys:
  assumes "(live_step (bridge_bind_user S bind (Some q)) (bridge_unbind_user S unbind (Some q)))\<^sup>*\<^sup>* (live_init b0) s"
    and "bound b0 q = {}"
  shows "bound (lv_env s) q \<subseteq> range (\<lambda>u. user_routing_key S (uuid_str u))"
  using assms
proof (induction rule: rtranclp_induct)
  case (step y z)
  from step.hyps(2) show ?case
  proof cases
    case (callback b u ps r e)
    have "bound e q \<subseteq> insert (user_routing_key S (uuid_str u)) (bound (lv_env y) q)"
      using callback(3) bind_user_bound(1) unbind_user_bound(1) by (cases b) force+
    with callback step.IH step.prems show ?thesis by auto
  qed (use step in auto)
qed (simp add: live_init_def)

lemma event_delivered:
  assumes "(live_step (bridge_bind_user S bind (Some q)) (bridge_unbind_user S unbind (Some q)))\<^sup>*\<^sup>* (live_init b0) s"
    and "bound b0 q = {}" and "lv_pending s = []" and "u \<notin> lv_failed s" and "conns_of (lv_manager s) u \<noteq> []"
    and "publish (user_routing_key S (uuid_str u)) m (lv_env s) = (Inr (), b')"
  shows "inbox b' q = inbox (lv_env s) q @ [(user_routing_key S (uuid_str u), m)]"
proof -
  have "user_routing_key S (uuid_str u) \<in> bound (lv_env s) q"
    using users.connected_subscribed [OF assms(1,3-5)] by simp
  moreover have "\<forall>p \<in> bound (lv_env s) q. literal_key p"
    using live_user_keys [OF assms(1,2)] literal_user_key [OF prefix] by auto
  ultimately show ?thesis using publish_literal [OF assms(6)] by simp
qed

end

interpretation bkq: bridge_queue broker_bind broker_unbind broker_publish broker_bound bk_inbox default_settings q for q
  by unfold_locales (rule prefix_ok_default)

text \<open>C31: at every broker that keeps the contract of a topic exchange, for a user
  who is connected here and whose subscription did not fail: after any interleaving of connects,
  disconnects and callbacks, an event published under the user's key enters this process's queue
  exactly once, and its consumer sends the encoded payload exactly once to every socket of the
  user that accepts it and to no other.\<close>

theorem event_reaches_sockets:
  assumes "topic_broker bind unbind publish bound inbox" and "prefix_ok S"
    and "(live_step (bridge_bind_user S bind (Some q)) (bridge_unbind_user S unbind (Some q)))\<^sup>*\<^sup>* (live_init b0) s"
    and "bound b0 q = {}" and "lv_pending s = []" and "u \<notin> lv_failed s" and "conns_of (lv_manager s) u \<noteq> []"
    and "publish (user_routing_key S (uuid_str u)) (dumps p) (lv_env s) = (Inr (), b')"
  shows "inbox b' q = inbox (lv_env s) q @ [(user_routing_key S (uuid_str u), dumps p)]
    \<and> fst (bridge_handle cb ok (user_routing_key S (uuid_str u), dumps p) (lv_manager s, e))
        = map (\<lambda>w. (w, encode p)) (filter ok (conns_of (lv_manager s) u))
    \<and> distinct (conns_of (lv_manager s) u)"
proof -
  have "bridge_queue bind unbind publish bound inbox S"
    using assms(1,2) by (simp add: bridge_queue_def bridge_queue_axioms_def)
  then have inbox: "inbox b' q = inbox (lv_env s) q @ [(user_routing_key S (uuid_str u), dumps p)]"
    using assms(3-8) by (rule bridge_queue.event_delivered)
  have "manager_ok (lv_manager s)"
    using bridge_queue.live_manager_ok [OF \<open>bridge_queue bind unbind publish bound inbox S\<close> assms(3)] .
  then show ?thesis
    using inbox push_result [of "lv_manager s" cb ok u "encode p" e] distinct_conns [of "lv_manager s" u]
    by (auto simp: bridge_handle_def dumps_def routing_key_user_key [OF assms(2)])
qed

text \<open>One session at the documented broker.\<close>

abbreviation demo_key :: string where
  "demo_key \<equiv> user_routing_key default_settings (uuid_str 7)"

definition demo_live :: "(nat, broker) live" where
  "demo_live = \<lparr>lv_manager = \<lparr>cm_conns = [(7, [1])]\<rparr>, lv_pending = [],
     lv_env = demo_broker\<lparr>bk_bindings := [(''ws.1'', demo_key)]\<rparr>, lv_failed = {}\<rparr>"

lemma demo_live_run:
  "(live_step (bridge_bind_user default_settings broker_bind (Some ''ws.1''))
      (bridge_unbind_user default_settings broker_unbind (Some ''ws.1'')))\<^sup>*\<^sup>* (live_init demo_broker) demo_live"
proof -
  let ?step = "live_step (bridge_bind_user default_settings broker_bind (Some ''ws.1''))
      (bridge_unbind_user default_settings broker_unbind (Some ''ws.1'')) :: (nat, broker) live \<Rightarrow> _ \<Rightarrow> _"
  let ?mid = "\<lparr>lv_manager = \<lparr>cm_conns = [(7, [1 :: nat])]\<rparr>, lv_pending = [(True, 7)], lv_env = demo_broker, lv_failed = {}\<rparr>"
  have "?step (live_init demo_broker) ?mid"
    using live_step.connect [of 7 1 "live_init demo_broker" True "\<lparr>cm_conns = [(7, [1 :: nat])]\<rparr>"]
    by (simp add: live_init_def initial_manager_def cm_register_def conns_of_def)
  moreover have "?step ?mid demo_live"
    using live_step.callback [of ?mid True 7 "[]" "bridge_bind_user default_settings broker_bind (Some ''ws.1'')"
        "bridge_unbind_user default_settings broker_unbind (Some ''ws.1'')" "Inr ()"
        "demo_broker\<lparr>bk_bindings := [(''ws.1'', demo_key)]\<rparr>"]
    by (simp add: bridge_bind_user_def broker_bind_def demo_broker_def demo_live_def)
  ultimately show ?thesis by (meson r_into_rtranclp rtranclp.rtrancl_into_rtrancl)
qed

lemma event_reaches_sockets_witness:
  "fst (bridge_handle None (\<lambda>_. True) (demo_key, dumps (JStr ''x'')) (lv_manager demo_live, ())) = [(1, JStr ''x'')]"
proof -
  let ?b = "snd (broker_publish demo_key (dumps (JStr ''x'')) (lv_env demo_live))"
  have "broker_publish demo_key (dumps (JStr ''x'')) (lv_env demo_live) = (Inr (), ?b)"
    by (simp add: broker_publish_def demo_live_def demo_broker_def)
  from event_reaches_sockets [OF bk.topic_broker_axioms prefix_ok_default demo_live_run _ _ _ _ this,
      where cb = None and ok = "\<lambda>_. True" and e = "()"]
  show ?thesis by (simp add: demo_live_def conns_of_def broker_bound_def demo_broker_def)
qed

end
