(* ===== verification/Auth.thy ===== *)
theory Auth
  imports Config Sha256
begin

text \<open>
  \<^verbatim>\<open>app/auth.py\<close>: passwords and access tokens.  \<^verbatim>\<open>bcrypt\<close> and \<^verbatim>\<open>jwt\<close> are third-party packages: their
  functions are parameters, and what the code relies on is the locale \<open>token_library\<close>.  Times are
  seconds.
\<close>

section \<open>Operations\<close>

record claims =
  claim_sub :: "string option"
  claim_exp :: int

type_synonym jwt_encoder = "claims \<Rightarrow> string \<Rightarrow> string \<Rightarrow> string"
type_synonym jwt_decoder = "string \<Rightarrow> string \<Rightarrow> string list \<Rightarrow> int \<Rightarrow> claims option"

definition hash_password :: "(string \<Rightarrow> string \<Rightarrow> string) \<Rightarrow> string \<Rightarrow> string \<Rightarrow> string" where
  "hash_password hashpw salt password = hashpw password salt"

definition verify_password :: "(string \<Rightarrow> string \<Rightarrow> bool) \<Rightarrow> string \<Rightarrow> string \<Rightarrow> bool" where
  "verify_password checkpw password password_hash = checkpw password password_hash"

definition create_access_token :: "settings \<Rightarrow> jwt_encoder \<Rightarrow> int \<Rightarrow> string \<Rightarrow> string" where
  "create_access_token S jwt_encode now user_id =
     jwt_encode \<lparr>claim_sub = Some user_id, claim_exp = now + 60 * jwt_expire_minutes S\<rparr> (jwt_secret S) (jwt_algorithm S)"

text \<open>\<^verbatim>\<open>jwt.decode\<close> raises a \<^verbatim>\<open>PyJWTError\<close> where the parameter is \<open>None\<close>.\<close>

definition decode_access_token :: "settings \<Rightarrow> jwt_decoder \<Rightarrow> int \<Rightarrow> string \<Rightarrow> string option" where
  "decode_access_token S jwt_decode now token =
     (case jwt_decode token (jwt_secret S) [jwt_algorithm S] now of
        None \<Rightarrow> None
      | Some payload \<Rightarrow> claim_sub payload)"

definition get_current_user :: "settings \<Rightarrow> jwt_decoder \<Rightarrow> int \<Rightarrow> string \<Rightarrow> uuid res" where
  "get_current_user S jwt_decode now credentials =
     (case decode_access_token S jwt_decode now credentials of
        None \<Rightarrow> Inl (HTTPException 401 ''Invalid or expired token'')
      | Some user_id_str \<Rightarrow>
          (case UUID user_id_str of
             Inl _ \<Rightarrow> Inl (HTTPException 401 ''Malformed token subject'')
           | Inr u \<Rightarrow> Inr u))"

definition authenticate_ws :: "settings \<Rightarrow> jwt_decoder \<Rightarrow> int \<Rightarrow> string \<Rightarrow> uuid option" where
  "authenticate_ws S jwt_decode now token =
     (case decode_access_token S jwt_decode now token of
        None \<Rightarrow> None
      | Some user_id_str \<Rightarrow> (case UUID user_id_str of Inl _ \<Rightarrow> None | Inr u \<Rightarrow> Some u))"

section \<open>The token library\<close>

text \<open>What a token encodes is decoded with the same secret and algorithm until it expires, and refused
  afterwards.\<close>

locale token_library =
  fixes jwt_encode :: jwt_encoder and jwt_decode :: jwt_decoder
  assumes decode_encode: "alg \<in> set algs \<Longrightarrow>
    jwt_decode (jwt_encode c secret alg) secret algs now = (if now < claim_exp c then Some c else None)"
begin

lemma decode_created:
  "decode_access_token S jwt_decode later (create_access_token S jwt_encode now sub)
     = (if later < now + 60 * jwt_expire_minutes S then Some sub else None)"
  by (simp add: decode_access_token_def create_access_token_def decode_encode)

lemma current_user_created:
  "get_current_user S jwt_decode later (create_access_token S jwt_encode now (uuid_str u))
     = (if later < now + 60 * jwt_expire_minutes S then Inr u
        else Inl (HTTPException 401 ''Invalid or expired token''))"
  by (simp add: get_current_user_def decode_created UUID_str)

end

text \<open>Tokens signed with HMAC-SHA256, as \<^verbatim>\<open>HS256\<close> signs them, satisfy the contract.  The text of a token
  is the expiry, a colon, the subject, a dot and the signature in hexadecimal.\<close>

definition str_bytes :: "string \<Rightarrow> byte list" where
  "str_bytes = map of_char"

definition hmac_sha256 :: "byte list \<Rightarrow> byte list \<Rightarrow> byte list" where
  "hmac_sha256 key msg =
     (let k0 = (if length key > 64 then sha256 key else key);
          k = k0 @ replicate (64 - length k0) 0
      in sha256 (map (\<lambda>b. b XOR 0x5c) k @ sha256 (map (\<lambda>b. b XOR 0x36) k @ msg)))"

definition bytes_hex :: "byte list \<Rightarrow> string" where
  "bytes_hex bs = concat (map (\<lambda>b. [hex_char (uint b div 16), hex_char (uint b mod 16)]) bs)"

definition signature :: "string \<Rightarrow> string \<Rightarrow> string \<Rightarrow> string" where
  "signature secret alg payload = bytes_hex (hmac_sha256 (str_bytes secret) (str_bytes (alg @ '':'' @ payload)))"

definition signed_encode :: jwt_encoder where
  "signed_encode c secret alg =
     (let payload = int_str (claim_exp c) @ '':'' @ (case claim_sub c of None \<Rightarrow> ''n'' | Some s \<Rightarrow> CHR ''s'' # s)
      in payload @ ''.'' @ signature secret alg payload)"

definition digits_value :: "string \<Rightarrow> int" where
  "digits_value s = be_value 10 (map (\<lambda>c. of_char c - 48) s)"

definition read_int :: "string \<Rightarrow> int" where
  "read_int s = (if take 1 s = ''-'' then - digits_value (drop 1 s) else digits_value s)"

definition signed_decode :: jwt_decoder where
  "signed_decode token secret algs now =
     (let r = rev token;
          sig = rev (takeWhile (\<lambda>c. c \<noteq> CHR ''.'') r);
          payload = rev (tl (dropWhile (\<lambda>c. c \<noteq> CHR ''.'') r));
          expiry = read_int (takeWhile (\<lambda>c. c \<noteq> CHR '':'') payload);
          sub = tl (dropWhile (\<lambda>c. c \<noteq> CHR '':'') payload)
      in if (\<exists>alg \<in> set algs. sig = signature secret alg payload) \<and> now < expiry
         then Some \<lparr>claim_sub = (if take 1 sub = ''s'' then Some (drop 1 sub) else None), claim_exp = expiry\<rparr>
         else None)"

lemma be_value_snoc: "be_value b (xs @ [d]) = be_value b xs * b + d"
  by (simp add: be_value_def)

lemma of_char_digit: "n < 10 \<Longrightarrow> (of_char (char_of (48 + n) :: char) :: int) = 48 + int n"
proof -
  assume "n < 10"
  then have "(of_char (char_of (48 + n) :: char) :: nat) = 48 + n" by simp
  then show ?thesis by (metis of_char_of of_nat_add of_nat_numeral of_nat_of_char)
qed

lemma digits_value_nat_str: "digits_value (nat_str n) = int n"
proof (induction n rule: nat_str.induct)
  case (1 n)
  show ?case
  proof (cases "n < 10")
    case True
    then show ?thesis by (subst nat_str.simps) (simp add: digits_value_def be_value_Cons of_char_digit)
  next
    case False
    with 1 have "digits_value (nat_str n) = int (n div 10) * 10 + int (n mod 10)"
      by (subst nat_str.simps) (simp add: digits_value_def be_value_snoc of_char_digit)
    then show ?thesis by presburger
  qed
qed

lemma nat_str_digits: "c \<in> set (nat_str n) \<Longrightarrow> c \<in> set ''0123456789''"
proof (induction n rule: nat_str.induct)
  case (1 n)
  have digit: "char_of (48 + m) \<in> set ''0123456789''" if "m < 10" for m :: nat
  proof -
    have "m \<in> set [0..<10]" using that by simp
    moreover have "list_all (\<lambda>m. char_of (48 + m) \<in> set ''0123456789'') [0..<10 :: nat]" by code_simp
    ultimately show ?thesis by (simp only: list_all_iff)
  qed
  from "1.prems" show ?case
  proof (subst (asm) nat_str.simps, cases "n < 10")
    case True
    assume "c \<in> set (if n < 10 then [char_of (48 + n)] else nat_str (n div 10) @ [char_of (48 + n mod 10)])"
    with True digit [of n] show ?thesis by (simp only: if_True) simp
  next
    case False
    assume "c \<in> set (if n < 10 then [char_of (48 + n)] else nat_str (n div 10) @ [char_of (48 + n mod 10)])"
    with False "1.IH" digit [of "n mod 10"] show ?thesis by auto
  qed
qed

lemma nat_str_nonempty: "nat_str n \<noteq> []"
  by (subst nat_str.simps) simp

lemma read_int_str: "read_int (int_str n) = n"
proof (cases "n < 0")
  case True
  then show ?thesis by (simp add: read_int_def int_str_def digits_value_nat_str)
next
  case False
  obtain c cs where c: "nat_str (nat n) = c # cs" using nat_str_nonempty by (metis neq_Nil_conv)
  then have "c \<noteq> CHR ''-''" using nat_str_digits [of c "nat n"] by auto
  with False c show ?thesis using digits_value_nat_str [of "nat n"] by (simp add: read_int_def int_str_def)
qed

lemma int_str_no_colon: "CHR '':'' \<notin> set (int_str n)"
  using nat_str_digits [of "CHR '':''" "nat n"] nat_str_digits [of "CHR '':''" "nat (- n)"] by (auto simp: int_str_def)

lemma bytes_hex_no_dot: "CHR ''.'' \<notin> set (bytes_hex bs)"
proof -
  have "plain_hex (hex_char (uint b div 16)) \<and> plain_hex (hex_char (uint b mod 16))" for b :: byte
    using unsigned_greater_eq [of b, where ?'a = int] unsigned_less [of b, where ?'a = int] 
    by (intro conjI hex_char_cases [THEN conjunct2]) (auto simp: pos_imp_zdiv_nonneg_iff)
  then have "plain_hex c" if "c \<in> set (bytes_hex bs)" for c
    using that by (auto simp: bytes_hex_def)
  moreover have "\<not> plain_hex (CHR ''.'')" by (simp add: plain_hex_def)
  ultimately show ?thesis by blast
qed

lemma span_sep:
  "\<forall>x \<in> set xs. x \<noteq> a \<Longrightarrow> takeWhile (\<lambda>x. x \<noteq> a) (xs @ a # ys) = xs \<and> dropWhile (\<lambda>x. x \<noteq> a) (xs @ a # ys) = a # ys"
  by (induction xs) auto

interpretation signed: token_library signed_encode signed_decode
proof
  fix alg :: string and algs secret now and c :: claims
  assume alg: "alg \<in> set algs"
  let ?sub = "case claim_sub c of None \<Rightarrow> ''n'' | Some s \<Rightarrow> CHR ''s'' # s"
  let ?payload = "int_str (claim_exp c) @ CHR '':'' # ?sub"
  let ?sig = "signature secret alg ?payload"
  have dot: "\<forall>x \<in> set (rev ?sig). x \<noteq> CHR ''.''" using bytes_hex_no_dot by (auto simp: signature_def)
  have colon: "\<forall>x \<in> set (int_str (claim_exp c)). x \<noteq> CHR '':''" using int_str_no_colon by auto
  have tok: "rev (signed_encode c secret alg) = rev ?sig @ CHR ''.'' # rev ?payload"
    by (simp add: signed_encode_def Let_def)
  have "takeWhile (\<lambda>x. x \<noteq> CHR ''.'') (rev ?sig @ CHR ''.'' # rev ?payload) = rev ?sig"
    and "dropWhile (\<lambda>x. x \<noteq> CHR ''.'') (rev ?sig @ CHR ''.'' # rev ?payload) = CHR ''.'' # rev ?payload"
    using span_sep [OF dot] by blast+
  moreover have "takeWhile (\<lambda>x. x \<noteq> CHR '':'') ?payload = int_str (claim_exp c)"
    and "dropWhile (\<lambda>x. x \<noteq> CHR '':'') ?payload = CHR '':'' # ?sub"
    using span_sep [OF colon] by blast+
  ultimately have "signed_decode (signed_encode c secret alg) secret algs now
      = (if (\<exists>alg' \<in> set algs. ?sig = signature secret alg' ?payload) \<and> now < claim_exp c
         then Some \<lparr>claim_sub = claim_sub c, claim_exp = claim_exp c\<rparr> else None)"
    unfolding signed_decode_def Let_def tok
    by (simp add: read_int_str split: option.split)
  with alg show "signed_decode (signed_encode c secret alg) secret algs now = (if now < claim_exp c then Some c else None)"
    by auto
qed

text \<open>C36: with a token library that decodes what it encoded until it expires, the token
  created for a user is accepted for exactly this user until \<^verbatim>\<open>jwt_expire_minutes\<close> have passed, by the
  HTTP dependency and by the WebSocket, and refused with 401 afterwards.\<close>

theorem token_roundtrip:
  assumes "token_library jwt_encode jwt_decode"
  shows "get_current_user S jwt_decode later (create_access_token S jwt_encode now (uuid_str u))
      = (if later < now + 60 * jwt_expire_minutes S then Inr u
         else Inl (HTTPException 401 ''Invalid or expired token''))
    \<and> authenticate_ws S jwt_decode later (create_access_token S jwt_encode now (uuid_str u))
      = (if later < now + 60 * jwt_expire_minutes S then Some u else None)"
  using token_library.current_user_created [OF assms] token_library.decode_created [OF assms]
  by (simp add: authenticate_ws_def UUID_str)

lemma token_roundtrip_witness:
  "get_current_user default_settings signed_decode 3599 (create_access_token default_settings signed_encode 0 (uuid_str 5)) = Inr 5
   \<and> authenticate_ws default_settings signed_decode 3600 (create_access_token default_settings signed_encode 0 (uuid_str 5)) = None"
  using token_roundtrip [OF signed.token_library_axioms, of default_settings 3599 0 5]
    token_roundtrip [OF signed.token_library_axioms, of default_settings 3600 0 5]
  by (simp add: default_settings_def)

end
