(* ===== verification/Ws_Feed.thy ===== *)
theory Ws_Feed
  imports Auth Connection_Manager
begin

text \<open>
  \<^verbatim>\<open>app/routes/ws_feed.py\<close>: the WebSocket endpoint.  What the client and the clock do to a session is a
  list of events; what the session does to the socket is a list of actions.  The pings of the
  heartbeat task depend on real time only and are not part of the actions.
\<close>

section \<open>The endpoint\<close>

datatype ws_event = Received string | IdleTimeout | ClientGone | Failure

datatype ws_action = Accept | SendJson json | CloseWs int

definition WS_CLOSE_UNAUTHORIZED :: int where "WS_CLOSE_UNAUTHORIZED = 4401"
definition WS_CLOSE_IDLE :: int where "WS_CLOSE_IDLE = 4408"
definition WS_CLOSE_INTERNAL :: int where "WS_CLOSE_INTERNAL = 1011"

text \<open>The receive loop: \<open>None\<close> while it waits.  \<open>close_ok\<close> says whether \<^verbatim>\<open>ws.close\<close> returns; where it
  raises after a timeout, the handler of \<^verbatim>\<open>Exception\<close> tries to close once more and drops what that
  raises.\<close>

fun receive_loop :: "(int \<Rightarrow> bool) \<Rightarrow> ws_event list \<Rightarrow> ws_action list option" where
  "receive_loop close_ok [] = None"
| "receive_loop close_ok (Received msg # es) = receive_loop close_ok es"
| "receive_loop close_ok (IdleTimeout # es) =
     Some (if close_ok WS_CLOSE_IDLE then [CloseWs WS_CLOSE_IDLE]
           else if close_ok WS_CLOSE_INTERNAL then [CloseWs WS_CLOSE_INTERNAL] else [])"
| "receive_loop close_ok (ClientGone # es) = Some []"
| "receive_loop close_ok (Failure # es) =
     Some (if close_ok WS_CLOSE_INTERNAL then [CloseWs WS_CLOSE_INTERNAL] else [])"

text \<open>The result is the outcome (none while the session is open), the actions and the registry.  The
  registry is missing when the application was started without the RabbitMQ transport.\<close>

definition feed_ws :: "settings \<Rightarrow> jwt_decoder \<Rightarrow> int \<Rightarrow> 's callback \<Rightarrow> 's callback \<Rightarrow> string \<Rightarrow> 'w \<Rightarrow> (int \<Rightarrow> bool) \<Rightarrow>
    ws_event list \<Rightarrow> ('w manager \<times> 's) option \<Rightarrow> unit res option \<times> ws_action list \<times> ('w manager \<times> 's) option" where
  "feed_ws S jwt_decode now on_first on_last token ws close_ok events app_manager =
     (case authenticate_ws S jwt_decode now token of
        None \<Rightarrow> (Some (Inr ()), [Accept, SendJson (JObj [(''type'', JStr ''error''), (''code'', JStr ''AUTH_FAILED''),
                 (''message'', JStr ''Invalid token'')]), CloseWs WS_CLOSE_UNAUTHORIZED], app_manager)
      | Some user_id \<Rightarrow>
          (case app_manager of
             None \<Rightarrow> (Some (Inl (AttributeError ''connection_manager'')), [Accept], None)
           | Some st \<Rightarrow>
               let st1 = ConnectionManager_connect on_first user_id ws st in
               (case receive_loop close_ok events of
                  None \<Rightarrow> (None, [Accept], Some st1)
                | Some actions \<Rightarrow>
                    (Some (Inr ()), Accept # actions, Some (ConnectionManager_disconnect on_last user_id ws st1)))))"

section \<open>Properties\<close>

lemma connect_fst: "fst (ConnectionManager_connect cb u w st) = snd (cm_register u w (fst st))"
  by (simp add: ConnectionManager_connect_def split: prod.split)

lemma receive_loop_codes:
  "receive_loop close_ok es = Some acts \<Longrightarrow>
     acts \<in> {[], [CloseWs WS_CLOSE_IDLE], [CloseWs WS_CLOSE_INTERNAL]}"
  by (induction close_ok es rule: receive_loop.induct) (auto split: if_splits)


text \<open>a session without the registry, which the application creates for the RabbitMQ
  transport only, is accepted and then ends with an \<^verbatim>\<open>AttributeError\<close>; a token that is refused is
  answered and closed with 4401 and touches nothing.\<close>

theorem ws_needs_rabbitmq:
  "feed_ws S jwt_decode now on_first on_last token ws close_ok events None =
     (if authenticate_ws S jwt_decode now token = None
      then (Some (Inr ()), [Accept, SendJson (JObj [(''type'', JStr ''error''), (''code'', JStr ''AUTH_FAILED''),
              (''message'', JStr ''Invalid token'')]), CloseWs 4401], None)
      else (Some (Inl (AttributeError ''connection_manager'')), [Accept], None))"
  by (auto simp: feed_ws_def WS_CLOSE_UNAUTHORIZED_def split: option.split)


end
