(* ===== verification/Ws_Session.thy ===== *)
theory Ws_Session
  imports Ws_Feed
begin

text \<open>
  A session of \<^verbatim>\<open>app/routes/ws_feed.py\<close> in time: the heartbeat task beside the receive loop with its idle timeout.  Times are seconds since
  the socket was accepted; what the client does is a list of events with their times, after which it is silent.
\<close>

section \<open>The receive loop in time\<close>

text \<open>\<^verbatim>\<open>wait_for(receive_text(), timeout)\<close> again and again: an event in time is received and the timer starts anew, otherwise the timeout is
  the last thing the loop sees.\<close>

fun timeline :: "int \<Rightarrow> int \<Rightarrow> (int \<times> ws_event) list \<Rightarrow> (int \<times> ws_event) list" where
  "timeline timeout t [] = [(t + timeout, IdleTimeout)]"
| "timeline timeout t ((u, e) # es) =
     (if u < t + timeout then (u, e) # (case e of Received msg \<Rightarrow> timeline timeout u es | _ \<Rightarrow> [])
      else [(t + timeout, IdleTimeout)])"

definition session_events :: "settings \<Rightarrow> (int \<times> ws_event) list \<Rightarrow> (int \<times> ws_event) list" where
  "session_events S client = timeline (ws_idle_timeout_s S) 0 client"

definition session_end :: "settings \<Rightarrow> (int \<times> ws_event) list \<Rightarrow> int \<times> ws_event" where
  "session_end S client = last (session_events S client)"

section \<open>The heartbeat task\<close>

definition ping_message :: "string \<Rightarrow> json" where
  "ping_message ts = JObj [(''type'', JStr ''ping''), (''ts'', JStr ts)]"

text \<open>The first \<open>n\<close> rounds of \<^verbatim>\<open>_heartbeat\<close>: the times of the pings; \<open>send_ok\<close> tells when \<^verbatim>\<open>send_json\<close> returns.  An exception ends the task.\<close>

fun heartbeat :: "int \<Rightarrow> (int \<Rightarrow> bool) \<Rightarrow> nat \<Rightarrow> int \<Rightarrow> int list" where
  "heartbeat interval send_ok 0 t = []"
| "heartbeat interval send_ok (Suc n) t =
     (if send_ok (t + interval) then (t + interval) # heartbeat interval send_ok n (t + interval) else [])"

text \<open>The task is cancelled when the session ends; more than \<^verbatim>\<open>end / interval\<close> rounds do not fit in.\<close>

definition session_pings :: "settings \<Rightarrow> (int \<Rightarrow> bool) \<Rightarrow> int \<Rightarrow> int list" where
  "session_pings S send_ok end_time =
     takeWhile (\<lambda>t. t < end_time) (heartbeat (ws_heartbeat_interval_s S) send_ok (nat (end_time div ws_heartbeat_interval_s S)) 0)"

section \<open>Properties\<close>

lemma timeline_ends: "receive_loop close_ok (map snd (timeline T t es)) \<noteq> None"
  by (induction T t es rule: timeline.induct) (auto split: ws_event.splits)

lemma timeline_nonempty [simp]: "timeline T t es \<noteq> []"
  by (cases "(T, t, es)" rule: timeline.cases) auto

lemma heartbeat_live: "heartbeat interval (\<lambda>_. True) n t = map (\<lambda>k. t + (int k + 1) * interval) [0..<n]"
proof (induction n arbitrary: t)
  case (Suc n)
  have "[0..<Suc n] = 0 # map Suc [0..<n]" by (simp add: upt_conv_Cons map_Suc_upt del: upt_Suc)
  then show ?case using Suc [of "t + interval"] by (simp add: algebra_simps del: upt_Suc)
qed simp

text \<open>One ping that cannot be sent is the last one.\<close>

lemma heartbeat_stops: "heartbeat interval send_ok n t = takeWhile send_ok (heartbeat interval (\<lambda>_. True) n t)"
  by (induction n arbitrary: t) simp_all

text \<open>A client that answers: between two of its messages, or before the first, there is never the whole timeout.\<close>

lemma next_multiple:
  assumes "0 < interval" and "0 \<le> t" and "t < int n * interval"
  shows "\<exists>k \<le> n. t < int k * interval \<and> int k * interval \<le> t + interval"
proof (intro exI conjI)
  let ?k = "nat (t div interval) + 1"
  have k: "int ?k = t div interval + 1" using assms by (simp add: pos_imp_zdiv_nonneg_iff)
  have t: "t = t div interval * interval + t mod interval" "0 \<le> t mod interval" "t mod interval < interval" using assms(1) by simp_all
  have "t div interval < int n"
  proof (rule ccontr)
    assume "\<not> ?thesis"
    then have "int n * interval \<le> t div interval * interval" using assms(1) by (simp add: mult_right_mono)
    then show False using t assms(3) by linarith
  qed
  then show "?k \<le> n" using k by linarith
  show "t < int ?k * interval" "int ?k * interval \<le> t + interval" unfolding k distrib_right using t by linarith+
qed

lemma answering_client:
  assumes "0 < interval" and "interval + d < T" and "0 \<le> t" and "sorted (map fst es)" and "\<forall>x \<in> set es. t \<le> fst x \<and> (\<exists>msg. snd x = Received msg)"
    and "\<forall>k \<le> n. t < int k * interval \<longrightarrow> (\<exists>x \<in> set es. int k * interval \<le> fst x \<and> fst x \<le> int k * interval + d)"
  shows "\<exists>s. last (timeline T t es) = (s, IdleTimeout) \<and> int n * interval + T \<le> s"
  using assms(3-)
proof (induction es arbitrary: t)
  case Nil
  then show ?case by force
next
  case (Cons x es)
  obtain u e where x: "x = (u, e)" by fastforce
  show ?case
  proof (cases "u < t + T")
    case True
    obtain msg where e: "e = Received msg" using Cons.prems(3) x by auto
    have later: "\<exists>y \<in> set es. int k * interval \<le> fst y \<and> fst y \<le> int k * interval + d" if "k \<le> n" "u < int k * interval" for k
    proof -
      note k = that
      then have "t < int k * interval" using Cons.prems(3) x by simp
      then obtain y where "y \<in> set (x # es)" "int k * interval \<le> fst y" "fst y \<le> int k * interval + d" using Cons.prems(4) k(1) by blast
      then show ?thesis using k(2) x by auto
    qed
    have "\<forall>y \<in> set es. u \<le> fst y \<and> (\<exists>msg. snd y = Received msg)" using Cons.prems(2,3) x by simp
    moreover have "0 \<le> u" "sorted (map fst es)" using Cons.prems x by auto
    ultimately show ?thesis using Cons.IH [of u] later True e x by (auto simp: last_ConsR)
  next
    case False
    have "int n * interval \<le> t"
    proof (rule ccontr)
      assume "\<not> ?thesis"
      then obtain k where k: "k \<le> n" "t < int k * interval" "int k * interval \<le> t + interval"
        using next_multiple [OF assms(1) Cons.prems(1), of n] by auto
      then obtain y where "y \<in> set (x # es)" "fst y \<le> int k * interval + d" using k(1,2) Cons.prems(4) by blast
      moreover have "u \<le> fst y" using calculation(1) Cons.prems(2) x by auto
      ultimately show False using k(3) False assms(2) by linarith
    qed
    then show ?thesis using False x by simp
  qed
qed

lemma takeWhile_below: "sorted xs \<Longrightarrow> takeWhile (\<lambda>x. x < c) xs = filter (\<lambda>x. x < c) xs" for c :: int
  by (induction xs) (auto intro!: filter_False [symmetric])

lemma session_pings_live:
  assumes "0 < ws_heartbeat_interval_s S"
  shows "p \<in> set (session_pings S (\<lambda>_. True) e) \<longleftrightarrow> p < e \<and> (\<exists>k > 0. p = int k * ws_heartbeat_interval_s S)"
proof -
  let ?I = "ws_heartbeat_interval_s S"
  have sorted: "sorted (heartbeat ?I (\<lambda>_. True) n 0)" for n
    using assms by (auto simp: heartbeat_live sorted_iff_nth_mono intro: mult_right_mono)
  have "(\<exists>k. k < nat (e div ?I) \<and> p = (int k + 1) * ?I) \<longleftrightarrow> (\<exists>k > 0. p = int k * ?I)" if "p < e"
  proof
    assume "\<exists>k > 0. p = int k * ?I"
    then obtain k where k: "0 < k" "p = int k * ?I" by blast
    have "int k \<le> e div ?I" using k that assms by (metis less_imp_le nonzero_mult_div_cancel_right order_less_irrefl zdiv_mono1)
    then show "\<exists>k. k < nat (e div ?I) \<and> p = (int k + 1) * ?I" using k by (intro exI [of _ "k - 1"]) (auto simp: of_nat_diff)
  qed (metis Suc_eq_plus1 of_nat_Suc zero_less_Suc add.commute)
  moreover have "p \<in> set (session_pings S (\<lambda>_. True) e) \<longleftrightarrow> p < e \<and> p \<in> set (heartbeat ?I (\<lambda>_. True) (nat (e div ?I)) 0)"
    by (auto simp: session_pings_def takeWhile_below [OF sorted])
  moreover have "p \<in> set (heartbeat ?I (\<lambda>_. True) (nat (e div ?I)) 0) \<longleftrightarrow> (\<exists>k. k < nat (e div ?I) \<and> p = (int k + 1) * ?I)"
    by (simp add: heartbeat_live image_iff Bex_def)
  ultimately show ?thesis by blast
qed

lemma received_loop:
  "\<forall>x \<in> set es. \<exists>msg. snd x = Received msg \<Longrightarrow> receive_loop (\<lambda>_. True) (map snd (timeline T t es)) = Some [CloseWs WS_CLOSE_IDLE]"
  by (induction T t es rule: timeline.induct) auto


text \<open>A client that never says anything is closed when the timeout is over, after the pings that fit in.\<close>

lemma ws_silent_client_closed:
  assumes "0 < ws_heartbeat_interval_s S"
  shows "session_events S [] = [(ws_idle_timeout_s S, IdleTimeout)]"
    and "p \<in> set (session_pings S (\<lambda>_. True) (ws_idle_timeout_s S)) \<longleftrightarrow> p < ws_idle_timeout_s S \<and> (\<exists>k > 0. p = int k * ws_heartbeat_interval_s S)"
  using session_pings_live [OF assms] by (simp_all add: session_events_def)

text \<open>With the settings as they are, two pings are sent before a silent client is closed, and a client has less than 35 seconds to answer.\<close>

lemma default_pings: "session_pings default_settings (\<lambda>_. True) (fst (session_end default_settings [])) = [25, 50]"
  by (simp add: session_pings_def session_end_def session_events_def default_settings_def numeral_2_eq_2)


end
