(* ===== verification/Rabbit_Connect.thy ===== *)
theory Rabbit_Connect
  imports Rabbit_Client
begin

text \<open>
  \<^verbatim>\<open>RabbitClient.connect\<close> of \<^verbatim>\<open>app/rabbit_client.py\<close> called by several tasks of a process: the two tests of \<^verbatim>\<open>_connection\<close> and the
  lock between them.  A task runs without interruption from one \<^verbatim>\<open>await\<close> to the next; whatever a call of \<^verbatim>\<open>aio_pika\<close> returns or
  raises is possible.
\<close>

section \<open>Tasks\<close>

text \<open>Where a task is: before the first test, waiting for the lock, or waiting, with the lock, for \<^verbatim>\<open>connect_robust\<close>,
  \<^verbatim>\<open>connection.channel\<close>, \<^verbatim>\<open>set_qos\<close> or \<^verbatim>\<open>declare_exchange\<close>; or it has returned or raised.\<close>

datatype ('c, 'ch) connecting =
    Entering
  | Locking
  | Opening
  | Channelling 'c
  | Limiting 'c 'ch
  | Declaring 'c 'ch
  | Connected
  | Refused exn

fun inside :: "('c, 'ch) connecting \<Rightarrow> bool" where
  "inside Opening = True"
| "inside (Channelling c) = True"
| "inside (Limiting c ch) = True"
| "inside (Declaring c ch) = True"
| "inside _ = False"

text \<open>The attributes of the class, the holder of \<^verbatim>\<open>_lock\<close>, the tasks, and the connections that were opened.\<close>

record ('c, 'ch, 'x) connect_state =
  co_rabbit :: "('c, 'ch, 'x) rabbit"
  co_lock :: "nat option"
  co_tasks :: "nat \<Rightarrow> ('c, 'ch) connecting"
  co_opened :: "'c list"

definition moves :: "nat \<Rightarrow> ('c, 'ch) connecting \<Rightarrow> ('c, 'ch, 'x) connect_state \<Rightarrow> ('c, 'ch, 'x) connect_state" where
  "moves i t s = s\<lparr>co_tasks := (co_tasks s)(i := t)\<rparr>"

text \<open>Leaving the \<^verbatim>\<open>async with\<close> block.\<close>

definition leaves :: "nat \<Rightarrow> ('c, 'ch) connecting \<Rightarrow> ('c, 'ch, 'x) connect_state \<Rightarrow> ('c, 'ch, 'x) connect_state" where
  "leaves i t s = (moves i t s)\<lparr>co_lock := None\<rparr>"

inductive connect_step :: "('c, 'ch, 'x) connect_state \<Rightarrow> ('c, 'ch, 'x) connect_state \<Rightarrow> bool" where
  first_test: "connect_step s (moves i (if rb_connection (co_rabbit s) \<noteq> None then Connected else Locking) s)"
    if "co_tasks s i = Entering"
| second_test: "connect_step s (if rb_connection (co_rabbit s) \<noteq> None then moves i Connected s else (moves i Opening s)\<lparr>co_lock := Some i\<rparr>)"
    if "co_tasks s i = Locking" and "co_lock s = None"
| opens: "connect_step s ((moves i (Channelling c) s)\<lparr>co_rabbit := (co_rabbit s)\<lparr>rb_connection := Some c\<rparr>, co_opened := co_opened s @ [c]\<rparr>)"
    if "co_tasks s i = Opening"
| gets_channel: "connect_step s (moves i (Limiting c ch) s)" if "co_tasks s i = Channelling c"
| sets_qos: "connect_step s (moves i (Declaring c ch) s)" if "co_tasks s i = Limiting c ch"
| declares: "connect_step s ((leaves i Connected s)\<lparr>co_rabbit := (co_rabbit s)\<lparr>rb_publisher_channel := Some ch, rb_publisher_exchange := Some x\<rparr>\<rparr>)"
    if "co_tasks s i = Declaring c ch"
| raises: "connect_step s (leaves i (Refused e) s)" if "inside (co_tasks s i)"

definition no_connection :: "('c, 'ch, 'x) connect_state" where
  "no_connection = \<lparr>co_rabbit = initial_rabbit, co_lock = None, co_tasks = (\<lambda>_. Entering), co_opened = []\<rparr>"

abbreviation connect_reaches :: "('c, 'ch, 'x) connect_state \<Rightarrow> ('c, 'ch, 'x) connect_state \<Rightarrow> bool" where
  "connect_reaches \<equiv> connect_step\<^sup>*\<^sup>*"

section \<open>One connection\<close>

text \<open>A task inside the block is the holder of the lock, and what it knows of the connection is what the class holds.\<close>

fun knows :: "'c option \<Rightarrow> ('c, 'ch) connecting \<Rightarrow> bool" where
  "knows conn Opening = (conn = None)"
| "knows conn (Channelling c) = (conn = Some c)"
| "knows conn (Limiting c ch) = (conn = Some c)"
| "knows conn (Declaring c ch) = (conn = Some c)"
| "knows conn Connected = (conn \<noteq> None)"
| "knows conn _ = True"

definition connect_ok :: "('c, 'ch, 'x) connect_state \<Rightarrow> bool" where
  "connect_ok s \<longleftrightarrow> (\<forall>i. inside (co_tasks s i) \<longleftrightarrow> co_lock s = Some i) \<and> (\<forall>i. knows (rb_connection (co_rabbit s)) (co_tasks s i))
     \<and> co_opened s = (case rb_connection (co_rabbit s) of None \<Rightarrow> [] | Some c \<Rightarrow> [c])"

text \<open>The exchange is missing only while a task is inside or after one raised there.\<close>

definition exchange_due :: "('c, 'ch, 'x) connect_state \<Rightarrow> bool" where
  "exchange_due s \<longleftrightarrow> rb_connection (co_rabbit s) = None \<or> rb_publisher_exchange (co_rabbit s) \<noteq> None
     \<or> (\<exists>i. inside (co_tasks s i) \<or> (\<exists>e. co_tasks s i = Refused e))"

lemma connect_ok_initial: "connect_ok no_connection" and exchange_due_initial: "exchange_due no_connection"
  by (simp_all add: connect_ok_def exchange_due_def no_connection_def initial_rabbit_def)

lemma connect_okD:
  assumes "connect_ok s" and "co_tasks s i = t"
  shows "inside t \<longleftrightarrow> co_lock s = Some i" and "knows (rb_connection (co_rabbit s)) t"
  using assms by (auto simp: connect_ok_def)

lemma connect_ok_moves:
  assumes "connect_ok s" and "inside t = inside (co_tasks s i)" and "knows (rb_connection (co_rabbit s)) t"
  shows "connect_ok (moves i t s)"
  using assms by (auto simp: connect_ok_def moves_def)

lemma knows_outside: "\<not> inside t \<Longrightarrow> knows conn t \<Longrightarrow> knows (Some c) t"
  by (cases t) simp_all

lemma connect_step_ok: "connect_step s s' \<Longrightarrow> connect_ok s \<Longrightarrow> connect_ok s'"
proof (induction rule: connect_step.induct)
  case (first_test s i)
  then show ?case by (intro connect_ok_moves) auto
next
  case (second_test s i)
  then have "\<not> inside (co_tasks s j)" for j by (simp add: connect_ok_def)
  then show ?case using second_test by (auto simp: connect_ok_def moves_def)
next
  case (opens s i c)
  have "rb_connection (co_rabbit s) = None" "co_lock s = Some i" using connect_okD [OF opens(2,1)] by simp_all
  moreover have "knows (Some c) (co_tasks s j)" if "j \<noteq> i" for j
    using that opens(2) \<open>co_lock s = Some i\<close> by (intro knows_outside) (auto simp: connect_ok_def)
  ultimately show ?case using opens by (auto simp: connect_ok_def moves_def)
next
  case (gets_channel s i c ch)
  then show ?case using connect_okD [of s i] by (intro connect_ok_moves) auto
next
  case (sets_qos s i c ch)
  then show ?case using connect_okD [of s i] by (intro connect_ok_moves) auto
next
  case (declares s i c ch x)
  have "rb_connection (co_rabbit s) = Some c" "co_lock s = Some i" using connect_okD [OF declares(2,1)] by simp_all
  then show ?case using declares by (auto simp: connect_ok_def moves_def leaves_def)
next
  case (raises s i e)
  then have "co_lock s = Some i" by (simp add: connect_ok_def)
  then show ?case using raises by (auto simp: connect_ok_def moves_def leaves_def)
qed

lemma exchange_due_moves:
  "exchange_due s \<Longrightarrow> inside t \<or> \<not> inside (co_tasks s i) \<and> (\<forall>e. co_tasks s i \<noteq> Refused e) \<Longrightarrow> exchange_due (moves i t s)"
  unfolding exchange_due_def moves_def by (auto 0 4)

lemma connect_step_due: "connect_step s s' \<Longrightarrow> exchange_due s \<Longrightarrow> exchange_due s'"
proof (induction rule: connect_step.induct)
  case (second_test s i)
  then show ?case
    by (cases "rb_connection (co_rabbit s) = None") (auto intro!: exchange_due_moves, simp add: exchange_due_def moves_def)
next
  case (raises s i e)
  have "co_tasks (leaves i (Refused e) s) i = Refused e" by (simp add: leaves_def moves_def)
  then show ?case unfolding exchange_due_def by blast
next
  case (opens s i c)
  have "inside (co_tasks ((moves i (Channelling c) s)\<lparr>co_rabbit := (co_rabbit s)\<lparr>rb_connection := Some c\<rparr>, co_opened := co_opened s @ [c]\<rparr>) i)"
    by (simp add: moves_def)
  then show ?case unfolding exchange_due_def by blast
next
  case (declares s i c ch x)
  then show ?case by (simp add: exchange_due_def leaves_def moves_def)
qed (auto intro!: exchange_due_moves)

lemma connect_reaches_ok: "connect_reaches s s' \<Longrightarrow> connect_ok s \<and> exchange_due s \<Longrightarrow> connect_ok s' \<and> exchange_due s'"
  by (induction rule: rtranclp_induct) (auto intro: connect_step_ok connect_step_due)

text \<open>C35: However many tasks of a process call \<^verbatim>\<open>connect\<close> at the same time, and whatever calls of the library fail, at most one connection to
  the broker is opened, the one the class holds; a task that returned finds it there, and when no call failed and all tasks
  are through, it finds the exchange to publish to as well.\<close>

theorem rabbit_one_connection:
  assumes "connect_reaches no_connection s" and "co_tasks s i = Connected"
  shows "\<exists>c. RabbitClient_connection (co_rabbit s) = Inr c \<and> co_opened s = [c]
    \<and> ((\<forall>j. \<not> inside (co_tasks s j) \<and> (\<forall>e. co_tasks s j \<noteq> Refused e)) \<longrightarrow>
        (\<exists>x. \<forall>send key payload persistent b. RabbitClient_publish (co_rabbit s) send key payload persistent b = send x key (dumps payload) persistent b))"
proof -
  have ok: "connect_ok s" "exchange_due s" using connect_reaches_ok [OF assms(1)] connect_ok_initial exchange_due_initial by blast+
  obtain c where c: "rb_connection (co_rabbit s) = Some c" using connect_okD(2) [OF ok(1) assms(2)] by auto
  then have "co_opened s = [c]" using ok(1) by (simp add: connect_ok_def)
  then show ?thesis using c ok(2) by (auto simp: RabbitClient_connection_def RabbitClient_publish_def RabbitClient_exchange_def exchange_due_def)
qed

text \<open>The first test is made without the lock and the connection is stored before the exchange is declared: a task that comes meanwhile
  returns, and what it publishes raises.\<close>

definition early_state :: "'c \<Rightarrow> ('c, 'ch, 'x) connect_state" where
  "early_state c = \<lparr>co_rabbit = initial_rabbit\<lparr>rb_connection := Some c\<rparr>, co_lock = Some 0,
     co_tasks = (\<lambda>_. Entering)(0 := Channelling c, 1 := Connected), co_opened = [c]\<rparr>"

definition opened_state :: "'c \<Rightarrow> ('c, 'ch, 'x) connect_state" where
  "opened_state c = \<lparr>co_rabbit = initial_rabbit\<lparr>rb_connection := Some c\<rparr>, co_lock = Some 0,
     co_tasks = (\<lambda>_. Entering)(0 := Channelling c), co_opened = [c]\<rparr>"

lemma opened_reached: "connect_reaches no_connection (opened_state c)"
proof -
  let ?s1 = "moves 0 Locking no_connection :: ('a, 'b, 'c) connect_state"
  let ?s2 = "(moves 0 Opening ?s1)\<lparr>co_lock := Some 0\<rparr>"
  have "connect_reaches no_connection no_connection" by simp
  also have "connect_step no_connection ?s1"
    using connect_step.first_test [of no_connection 0] by (simp add: no_connection_def initial_rabbit_def)
  also have "connect_step ?s1 ?s2"
    using connect_step.second_test [of ?s1 0] by (simp add: no_connection_def initial_rabbit_def moves_def)
  also have "connect_step ?s2 (opened_state c)"
    using connect_step.opens [of ?s2 0 c] by (simp add: moves_def no_connection_def opened_state_def)
  finally show ?thesis .
qed

lemma early_reached: "connect_reaches no_connection (early_state c)"
proof -
  have "connect_step (opened_state c) (early_state c :: ('a, 'b, 'c) connect_state)"
    using connect_step.first_test [of "opened_state c :: ('a, 'b, 'c) connect_state" 1] by (simp add: opened_state_def early_state_def moves_def)
  then show ?thesis using opened_reached by (rule rtranclp.rtrancl_into_rtrancl [rotated])
qed

lemma connect_returns_early:
  "\<exists>s. connect_reaches no_connection s \<and> co_tasks s 1 = Connected
     \<and> RabbitClient_publish (co_rabbit s) send key payload persistent b = (Inl (RuntimeError ''RabbitClient is not connected''), b)"
proof (intro exI conjI)
  show "connect_reaches no_connection (early_state c)" for c by (rule early_reached)
qed (simp_all add: early_state_def initial_rabbit_def RabbitClient_publish_def RabbitClient_exchange_def)

lemma rabbit_one_connection_witness:
  "\<exists>c. RabbitClient_connection (co_rabbit (early_state True :: (bool, bool, bool) connect_state)) = Inr c
    \<and> co_opened (early_state True :: (bool, bool, bool) connect_state) = [c]"
proof -
  have "co_tasks (early_state True :: (bool, bool, bool) connect_state) 1 = Connected" by (simp add: early_state_def)
  from rabbit_one_connection [OF early_reached this] show ?thesis by blast
qed

text \<open>One task alone does what the definition of the connect in one step says.\<close>

lemma alone_connects:
  assumes "connect_robust (rabbitmq_url S) = Inr c" and "channel c = Inr ch" and "set_qos ch (rabbitmq_prefetch S) = Inr ()"
    and "declare_exchange ch (rabbitmq_exchange S) = Inr x"
  shows "\<exists>s. connect_reaches no_connection s \<and> co_tasks s 0 = Connected
    \<and> RabbitClient_connect S connect_robust channel set_qos declare_exchange initial_rabbit = (Inr (), co_rabbit s)"
proof -
  let ?s1 = "opened_state c" and ?s2 = "moves 0 (Limiting c ch) (opened_state c)" and ?s3 = "moves 0 (Declaring c ch) (opened_state c)"
  let ?s4 = "(leaves 0 Connected ?s3)\<lparr>co_rabbit := (co_rabbit ?s3)\<lparr>rb_publisher_channel := Some ch, rb_publisher_exchange := Some x\<rparr>\<rparr>"
  have "connect_reaches no_connection ?s1" by (rule opened_reached)
  also have "connect_step ?s1 ?s2" by (rule connect_step.gets_channel) (simp add: opened_state_def)
  also have "connect_step ?s2 ?s3"
    using connect_step.sets_qos [of ?s2 0 c ch] by (simp add: moves_def)
  also have "connect_step ?s3 ?s4" by (rule connect_step.declares) (simp add: moves_def)
  finally have "connect_reaches no_connection ?s4" .
  then show ?thesis
    using assms by (intro exI [of _ ?s4]) (simp add: RabbitClient_connect_def initial_rabbit_def leaves_def moves_def opened_state_def)
qed

end
