(* ===== verification/Redis_Server.thy ===== *)
theory Redis_Server
  imports Prelude "HOL-Library.Product_Lexorder" "HOL-Library.List_Lexorder" "HOL-Library.Char_ord"
begin

text \<open>
  The commands the sources send to Redis.  The server is not part of the repository: the functions
  of the feed take the execution of a command, \<open>exec\<close>, as a parameter.  What they rely on is the
  documented effect of each command, written down as the function \<open>redis_step\<close> on a key space; the
  locale \<open>redis_server\<close> says that a server simulates it.  Expiry and eviction are not effects of a
  command: they remove keys between commands.
\<close>

section \<open>Key space and commands\<close>

text \<open>A sorted set is the list of its members and scores in the order of the server, by score and
  then by member.  A stream has its entries, the next identifier and, for each consumer group, the
  last delivered identifier and the entries not yet acknowledged, with their consumers.\<close>

type_synonym zset = "(string \<times> int) list"
type_synonym fields = "(string \<times> string) list"

record group =
  gr_last :: nat
  gr_pending :: "(nat \<times> string) list"

record stream =
  st_entries :: "(nat \<times> fields) list"
  st_next :: nat
  st_groups :: "(string \<times> group) list"

datatype rvalue = ZSet zset | Hash fields | Str string | Stream stream

type_synonym redis = "string \<Rightarrow> rvalue option"

datatype cmd =
    ZADD string string int
  | ZREM string "string list"
  | ZREMRANGEBYRANK string int int
  | ZRANGE string int int
  | ZREVRANGE string int int
  | EXISTS string
  | DEL string
  | RENAME string string
  | HSET string fields
  | EXPIRE string int
  | HGET string string
  | HGETALL string
  | GET string
  | SETEX string string int
  | MGET "string list"
  | XADD string fields
  | XGROUP_CREATE string string
  | XREADGROUP string string string "nat option" nat  \<comment> \<open>stream, group, consumer, \<open>None\<close> for \<^verbatim>\<open>>\<close>, count\<close>
  | XACK string string nat

datatype reply =
    ROk
  | RInt int
  | RBulk "string option"
  | RBulks "string option list"
  | RMembers "string list"
  | RHash fields
  | REntries "(nat \<times> fields) list"

definition wrongtype :: "'a res" where
  "wrongtype = Inl (RedisError ''WRONGTYPE'')"

definition get_zset :: "redis \<Rightarrow> string \<Rightarrow> zset res" where
  "get_zset r k = (case r k of None \<Rightarrow> Inr [] | Some (ZSet z) \<Rightarrow> Inr z | Some _ \<Rightarrow> wrongtype)"

definition get_hash :: "redis \<Rightarrow> string \<Rightarrow> fields res" where
  "get_hash r k = (case r k of None \<Rightarrow> Inr [] | Some (Hash h) \<Rightarrow> Inr h | Some _ \<Rightarrow> wrongtype)"

definition get_str :: "redis \<Rightarrow> string \<Rightarrow> string option res" where
  "get_str r k = (case r k of None \<Rightarrow> Inr None | Some (Str s) \<Rightarrow> Inr (Some s) | Some _ \<Rightarrow> wrongtype)"

definition empty_stream :: stream where
  "empty_stream = \<lparr>st_entries = [], st_next = 1, st_groups = []\<rparr>"

definition get_stream :: "redis \<Rightarrow> string \<Rightarrow> stream option res" where
  "get_stream r k = (case r k of None \<Rightarrow> Inr None | Some (Stream s) \<Rightarrow> Inr (Some s) | Some _ \<Rightarrow> wrongtype)"

text \<open>A collection that becomes empty takes its key with it.\<close>

definition put_zset :: "string \<Rightarrow> zset \<Rightarrow> redis \<Rightarrow> redis" where
  "put_zset k z r = r(k := (if z = [] then None else Some (ZSet z)))"

abbreviation zkey :: "string \<times> int \<Rightarrow> int \<times> string" where
  "zkey ms \<equiv> (snd ms, fst ms)"

definition zadd :: "string \<Rightarrow> int \<Rightarrow> zset \<Rightarrow> zset" where
  "zadd m s z = insort_key zkey (m, s) (filter (\<lambda>ms. fst ms \<noteq> m) z)"

definition zrem :: "string list \<Rightarrow> zset \<Rightarrow> zset" where
  "zrem ms z = filter (\<lambda>p. fst p \<notin> set ms) z"

text \<open>Ranges with inclusive bounds, negative ones counted from the end.\<close>

definition range_bounds :: "int \<Rightarrow> int \<Rightarrow> nat \<Rightarrow> nat \<times> nat" where
  "range_bounds start stop n =
     (let a = (if start < 0 then max 0 (int n + start) else start);
          b = (if stop < 0 then int n + stop else min stop (int n - 1))
      in if a > b \<or> a \<ge> int n then (0, 0) else (nat a, nat (b - a + 1)))"

definition range_slice :: "int \<Rightarrow> int \<Rightarrow> 'a list \<Rightarrow> 'a list" where
  "range_slice start stop xs = (let (off, n) = range_bounds start stop (length xs) in take n (drop off xs))"

definition remove_slice :: "int \<Rightarrow> int \<Rightarrow> 'a list \<Rightarrow> 'a list" where
  "remove_slice start stop xs =
     (let (off, n) = range_bounds start stop (length xs) in take off xs @ drop (off + n) xs)"

definition hset :: "fields \<Rightarrow> fields \<Rightarrow> fields" where
  "hset kvs h = fold (\<lambda>(k, v) h. if k \<in> fst ` set h then map (\<lambda>(k', v'). (k', if k' = k then v else v')) h else h @ [(k, v)]) kvs h"

definition assoc_put :: "'k \<Rightarrow> 'v \<Rightarrow> ('k \<times> 'v) list \<Rightarrow> ('k \<times> 'v) list" where
  "assoc_put k v xs = (if k \<in> fst ` set xs then map (\<lambda>(k', v'). (k', if k' = k then v else v')) xs else xs @ [(k, v)])"

text \<open>\<^verbatim>\<open>XREADGROUP\<close>: with \<^verbatim>\<open>>\<close> the entries after the last delivered one, which become pending; with an
  identifier the consumer's own pending entries after it.\<close>

definition xreadgroup :: "string \<Rightarrow> string \<Rightarrow> nat option \<Rightarrow> nat \<Rightarrow> stream \<Rightarrow> reply res \<times> stream" where
  "xreadgroup grp consumer cursor cnt s =
     (case map_of (st_groups s) grp of
        None \<Rightarrow> (Inl (RedisError ''NOGROUP''), s)
      | Some g \<Rightarrow>
          (case cursor of
             None \<Rightarrow>
               let es = take cnt (filter (\<lambda>e. gr_last g < fst e) (st_entries s));
                   g' = \<lparr>gr_last = (if es = [] then gr_last g else fst (last es)),
                         gr_pending = gr_pending g @ map (\<lambda>e. (fst e, consumer)) es\<rparr>
               in (Inr (REntries es), s\<lparr>st_groups := assoc_put grp g' (st_groups s)\<rparr>)
           | Some c \<Rightarrow>
               let mine = filter (\<lambda>p. snd p = consumer \<and> c < fst p) (gr_pending g)
               in (Inr (REntries (filter (\<lambda>e. fst e \<in> fst ` set (take cnt mine)) (st_entries s))), s)))"

definition xack :: "string \<Rightarrow> nat \<Rightarrow> stream \<Rightarrow> stream" where
  "xack grp i s =
     (case map_of (st_groups s) grp of
        None \<Rightarrow> s
      | Some g \<Rightarrow> s\<lparr>st_groups := assoc_put grp (g\<lparr>gr_pending := filter (\<lambda>p. fst p \<noteq> i) (gr_pending g)\<rparr>) (st_groups s)\<rparr>)"

section \<open>The effect of a command\<close>

text \<open>Run \<open>f\<close> on what a key holds, or raise.\<close>

definition on_value :: "'v res \<Rightarrow> ('v \<Rightarrow> reply \<times> redis) \<Rightarrow> redis \<Rightarrow> reply res \<times> redis" where
  "on_value v f r = (case v of Inl e \<Rightarrow> (Inl e, r) | Inr x \<Rightarrow> (case f x of (rep, r') \<Rightarrow> (Inr rep, r')))"

fun redis_step :: "cmd \<Rightarrow> (redis, reply) prog" where
  "redis_step (ZADD k m s) r = on_value (get_zset r k) (\<lambda>z. (RInt (if m \<in> fst ` set z then 0 else 1), put_zset k (zadd m s z) r)) r"
| "redis_step (ZREM k ms) r = on_value (get_zset r k) (\<lambda>z. (RInt (int (length z) - int (length (zrem ms z))), put_zset k (zrem ms z) r)) r"
| "redis_step (ZREMRANGEBYRANK k a b) r = on_value (get_zset r k)
     (\<lambda>z. (RInt (int (length z) - int (length (remove_slice a b z))), put_zset k (remove_slice a b z) r)) r"
| "redis_step (ZRANGE k a b) r = on_value (get_zset r k) (\<lambda>z. (RMembers (range_slice a b (map fst z)), r)) r"
| "redis_step (ZREVRANGE k a b) r = on_value (get_zset r k) (\<lambda>z. (RMembers (range_slice a b (rev (map fst z))), r)) r"
| "redis_step (EXISTS k) r = (Inr (RInt (if r k = None then 0 else 1)), r)"
| "redis_step (DEL k) r = (Inr (RInt (if r k = None then 0 else 1)), r(k := None))"
| "redis_step (RENAME k k') r =
     (if r k = None then (Inl (RedisError ''no such key''), r) else (Inr ROk, (r(k := None))(k' := r k)))"
| "redis_step (HSET k kvs) r = on_value (get_hash r k) (\<lambda>h. (RInt (int (length (hset kvs h)) - int (length h)), r(k := Some (Hash (hset kvs h))))) r"
| "redis_step (EXPIRE k ttl) r = (Inr (RInt (if r k = None then 0 else 1)), r)"
| "redis_step (HGET k f) r = on_value (get_hash r k) (\<lambda>h. (RBulk (map_of h f), r)) r"
| "redis_step (HGETALL k) r = on_value (get_hash r k) (\<lambda>h. (RHash h, r)) r"
| "redis_step (GET k) r = on_value (get_str r k) (\<lambda>s. (RBulk s, r)) r"
| "redis_step (SETEX k v ttl) r =
     (if ttl \<le> 0 then (Inl (RedisError ''invalid expire time''), r) else (Inr ROk, r(k := Some (Str v))))"
| "redis_step (MGET ks) r = (Inr (RBulks (map (\<lambda>k. case r k of Some (Str s) \<Rightarrow> Some s | _ \<Rightarrow> None) ks)), r)"
| "redis_step (XADD k fs) r = on_value (get_stream r k)
     (\<lambda>so. let s = (case so of None \<Rightarrow> empty_stream | Some s \<Rightarrow> s) in
       (RInt (int (st_next s)), r(k := Some (Stream (s\<lparr>st_entries := st_entries s @ [(st_next s, fs)], st_next := Suc (st_next s)\<rparr>))))) r"
| "redis_step (XGROUP_CREATE k g) r =
     (case get_stream r k of
        Inl e \<Rightarrow> (Inl e, r)
      | Inr so \<Rightarrow> let s = (case so of None \<Rightarrow> empty_stream | Some s \<Rightarrow> s) in
          if g \<in> fst ` set (st_groups s) then (Inl (RedisError ''BUSYGROUP''), r)
          else (Inr ROk, r(k := Some (Stream (s\<lparr>st_groups := st_groups s @ [(g, \<lparr>gr_last = 0, gr_pending = []\<rparr>)]\<rparr>)))))"
| "redis_step (XREADGROUP k g c cur n) r =
     (case get_stream r k of
        Inl e \<Rightarrow> (Inl e, r)
      | Inr None \<Rightarrow> (Inl (RedisError ''NOGROUP''), r)
      | Inr (Some s) \<Rightarrow> (case xreadgroup g c cur n s of
            (Inl e, _) \<Rightarrow> (Inl e, r)
          | (Inr v, s') \<Rightarrow> (Inr v, r(k := Some (Stream s')))))"
| "redis_step (XACK k g i) r = on_value (get_stream r k)
     (\<lambda>so. case so of None \<Rightarrow> (RInt 0, r) | Some s \<Rightarrow> (RInt 1, r(k := Some (Stream (xack g i s))))) r"

section \<open>Pipelines and servers\<close>

text \<open>What a client method hands to its caller.  A reply of another shape cannot come from the documented
  server; here it is an error.\<close>

definition bad_reply :: "'a res" where
  "bad_reply = Inl (RedisError ''unexpected reply'')"

definition as_int :: "reply \<Rightarrow> int res" where
  "as_int v = (case v of RInt n \<Rightarrow> Inr n | _ \<Rightarrow> bad_reply)"

definition as_bulk :: "reply \<Rightarrow> string option res" where
  "as_bulk v = (case v of RBulk s \<Rightarrow> Inr s | _ \<Rightarrow> bad_reply)"

definition as_bulks :: "reply \<Rightarrow> string option list res" where
  "as_bulks v = (case v of RBulks s \<Rightarrow> Inr s | _ \<Rightarrow> bad_reply)"

definition as_members :: "reply \<Rightarrow> string list res" where
  "as_members v = (case v of RMembers s \<Rightarrow> Inr s | _ \<Rightarrow> bad_reply)"

definition as_hash :: "reply \<Rightarrow> fields res" where
  "as_hash v = (case v of RHash h \<Rightarrow> Inr h | _ \<Rightarrow> bad_reply)"

definition as_entries :: "reply \<Rightarrow> (nat \<times> fields) list res" where
  "as_entries v = (case v of REntries es \<Rightarrow> Inr es | _ \<Rightarrow> bad_reply)"

definition execute :: "(cmd \<Rightarrow> ('r, reply) prog) \<Rightarrow> (reply \<Rightarrow> 'a res) \<Rightarrow> cmd \<Rightarrow> ('r, 'a) prog" where
  "execute exec conv c = bindP (exec c) (\<lambda>v. liftP (conv v))"

text \<open>A pipeline without a transaction sends all its commands; the server executes each of them, and
  the first error is raised when all replies are in.\<close>

fun pipe :: "(cmd \<Rightarrow> ('r, reply) prog) \<Rightarrow> cmd list \<Rightarrow> ('r, reply list) prog" where
  "pipe exec [] r = (Inr [], r)"
| "pipe exec (c # cs) r =
     (case exec c r of (x, r') \<Rightarrow>
        (case pipe exec cs r' of (y, r'') \<Rightarrow>
           (case x of Inl e \<Rightarrow> Inl e | Inr v \<Rightarrow> (case y of Inl e \<Rightarrow> Inl e | Inr vs \<Rightarrow> Inr (v # vs)), r'')))"

text \<open>A program on a concrete state simulates one on the key space.\<close>

definition sim :: "('r \<Rightarrow> 's) \<Rightarrow> ('r, 'a) prog \<Rightarrow> ('s, 'a) prog \<Rightarrow> bool" where
  "sim view p q \<longleftrightarrow> (\<forall>r. fst (p r) = fst (q (view r)) \<and> view (snd (p r)) = snd (q (view r)))"

named_theorems sim_intros \<open>simulation of composed programs\<close>

lemma sim_result:
  assumes "sim view p q" and "p r = (x, r')"
  shows "q (view r) = (x, view r')"
proof -
  have "fst (p r) = fst (q (view r)) \<and> view (snd (p r)) = snd (q (view r))"
    using assms(1) by (simp add: sim_def)
  then show ?thesis using assms(2) by (simp add: prod_eq_iff)
qed

lemma sim_return [sim_intros]: "sim view (returnP x) (returnP x)"
  by (simp add: sim_def)

lemma sim_raise [sim_intros]: "sim view (raiseP e) (raiseP e)"
  by (simp add: sim_def)

lemma sim_bind [sim_intros]:
  assumes "sim view p q" and "\<And>x. sim view (f x) (g x)"
  shows "sim view (bindP p f) (bindP q g)"
  unfolding sim_def
proof
  fix r
  obtain x r' where p: "p r = (x, r')" by fastforce
  then have q: "q (view r) = (x, view r')" by (rule sim_result [OF assms(1)])
  show "fst (bindP p f r) = fst (bindP q g (view r)) \<and> view (snd (bindP p f r)) = snd (bindP q g (view r))"
    using p q assms(2) by (cases x) (auto simp: sim_def)
qed

lemma sim_finally [sim_intros]:
  assumes "sim view p q" and "sim view f g"
  shows "sim view (finallyP p f) (finallyP q g)"
  unfolding sim_def
proof
  fix r
  obtain x r' where p: "p r = (x, r')" by fastforce
  then have q: "q (view r) = (x, view r')" by (rule sim_result [OF assms(1)])
  obtain y r'' where f: "f r' = (y, r'')" by fastforce
  then have g: "g (view r') = (y, view r'')" by (rule sim_result [OF assms(2)])
  show "fst (finallyP p f r) = fst (finallyP q g (view r)) \<and> view (snd (finallyP p f r)) = snd (finallyP q g (view r))"
    by (cases y) (auto simp: finallyP_def p q f g)
qed

lemma sim_lift [sim_intros]: "sim view (liftP x) (liftP x)"
  by (simp add: sim_def)

lemma sim_if [sim_intros]: "(b \<Longrightarrow> sim view p q) \<Longrightarrow> (\<not> b \<Longrightarrow> sim view p' q') \<Longrightarrow> sim view (if b then p else p') (if b then q else q')"
  by simp

locale redis_server =
  fixes exec :: "cmd \<Rightarrow> ('r, reply) prog" and view :: "'r \<Rightarrow> redis"
  assumes exec_step: "sim view (exec c) (redis_step c)"
begin

lemma pipe_step: "sim view (pipe exec cs) (pipe redis_step cs)"
  unfolding sim_def
proof (induction cs)
  case (Cons c cs)
  show ?case
  proof
    fix r
    obtain x r' where p: "exec c r = (x, r')" by fastforce
    then have q: "redis_step c (view r) = (x, view r')" using sim_result [OF exec_step] by blast
    obtain y r'' where ps: "pipe exec cs r' = (y, r'')" by fastforce
    moreover have "fst (pipe exec cs r') = fst (pipe redis_step cs (view r'))
        \<and> view (snd (pipe exec cs r')) = snd (pipe redis_step cs (view r'))"
      using Cons.IH by blast
    ultimately have "pipe redis_step cs (view r') = (y, view r'')" by (simp add: prod_eq_iff)
    with ps show "fst (pipe exec (c # cs) r) = fst (pipe redis_step (c # cs) (view r))
        \<and> view (snd (pipe exec (c # cs) r)) = snd (pipe redis_step (c # cs) (view r))"
      by (simp add: p q)
  qed
qed simp

lemma execute_step: "sim view (execute exec conv c) (execute redis_step conv c)"
  unfolding execute_def by (intro sim_bind exec_step sim_lift)

lemmas server_sims = exec_step pipe_step execute_step sim_intros

end

text \<open>The documented behaviour is a server.\<close>

interpretation documented: redis_server redis_step "\<lambda>r. r"
  by unfold_locales (simp add: sim_def)

end
