(* ===== verification/Redis_Zset.thy ===== *)
theory Redis_Zset
  imports Redis_Server
begin

text \<open>
  Sorted sets of the server: the order they are kept in, insertion, removal and trimming, and a run of
  pipelined commands on different keys.
\<close>

section \<open>The order of a sorted set\<close>

definition zset_ok :: "zset \<Rightarrow> bool" where
  "zset_ok z \<longleftrightarrow> sorted (map zkey z) \<and> distinct (map fst z)"

lemma zset_ok_Nil [simp]: "zset_ok []"
  by (simp add: zset_ok_def)

lemma set_zadd: "set (zadd m s z) = insert (m, s) {p \<in> set z. fst p \<noteq> m}"
  by (auto simp: zadd_def set_insort_key)

lemma zkey_inj: "zkey p = zkey q \<longleftrightarrow> p = q"
  by (auto simp: prod_eq_iff)

lemma sorted_map_filter: "sorted (map f xs) \<Longrightarrow> sorted (map f (filter P xs))"
  by (simp add: sorted_filter)

lemma zset_ok_zadd [intro]: "zset_ok z \<Longrightarrow> zset_ok (zadd m s z)"
  by (auto simp: zset_ok_def zadd_def set_insort_key sorted_insort_key sorted_map_filter distinct_map
      distinct_insort inj_on_def prod_eq_iff)

lemma zset_ok_filter [intro]: "zset_ok z \<Longrightarrow> zset_ok (filter P z)"
  by (simp add: zset_ok_def sorted_map_filter distinct_map_filter)

lemma zset_ok_zrem [intro]: "zset_ok z \<Longrightarrow> zset_ok (zrem ms z)"
  by (simp add: zrem_def zset_ok_filter)

lemma zset_ok_drop [intro]: "zset_ok z \<Longrightarrow> zset_ok (drop n z)"
  by (simp add: zset_ok_def drop_map [symmetric] sorted_wrt_drop distinct_drop)

text \<open>A sorted set is determined by its members and scores.\<close>

lemma zset_unique:
  assumes "zset_ok a" and "zset_ok b" and "set a = set b"
  shows "a = b"
proof -
  have d: "distinct (map zkey z)" if "zset_ok z" for z
    using that by (auto simp: zset_ok_def distinct_map inj_on_def)
  have "map zkey a = map zkey b"
    using assms by (intro sorted_distinct_set_unique) (simp_all add: d zset_ok_def image_image [symmetric] flip: image_set)
  then show ?thesis by (intro map_injective [of zkey]) (auto simp: inj_on_def)
qed

lemma zset_ok_mem_unique: "zset_ok z \<Longrightarrow> (m, s) \<in> set z \<Longrightarrow> (m, t) \<in> set z \<Longrightarrow> s = t"
  by (fastforce simp: zset_ok_def distinct_map inj_on_def)

section \<open>Ranges\<close>

text \<open>\<^verbatim>\<open>ZREMRANGEBYRANK key 0 -(cap + 1)\<close> keeps the \<open>cap\<close> highest.\<close>

lemma trim_to_cap: "0 \<le> cap \<Longrightarrow> remove_slice 0 (- (cap + 1)) xs = drop (length xs - nat cap) xs"
  by (auto simp: remove_slice_def range_bounds_def Let_def nat_diff_distrib)

lemma range_slice_page:
  assumes "0 \<le> offset" and "0 < limit"
  shows "range_slice offset (offset + limit - 1) xs = take (nat limit) (drop (nat offset) xs)"
proof -
  have [simp]: "Suc (nat (limit - 1)) = nat limit" using assms by simp
  show ?thesis using assms
    by (auto simp: range_slice_def range_bounds_def Let_def min_def nat_add_distrib)
qed

lemma range_slice_all: "range_slice 0 (- 1) xs = xs"
  by (auto simp: range_slice_def range_bounds_def Let_def)

section \<open>Pipelines\<close>

text \<open>The effect of a pipeline is the effect of its commands in order.\<close>

lemma snd_pipe: "snd (pipe redis_step cs r) = fold (\<lambda>c r. snd (redis_step c r)) cs r"
proof (induction cs arbitrary: r)
  case (Cons c cs)
  show ?case using Cons.IH [of "snd (redis_step c r)"] by (simp add: split_def)
qed simp

lemma pipe_append:
  "pipe exec (cs @ ds) r =
     (case pipe exec cs r of (x, r') \<Rightarrow> (case pipe exec ds r' of (y, r'') \<Rightarrow>
        (case x of Inl e \<Rightarrow> Inl e | Inr v \<Rightarrow> (case y of Inl e \<Rightarrow> Inl e | Inr vs \<Rightarrow> Inr (v @ vs)), r'')))"
  by (induction cs arbitrary: r) (auto split: prod.splits sum.splits)

lemma length_pipe: "pipe exec cs r = (Inr vs, r') \<Longrightarrow> length vs = length cs"
  by (induction cs arbitrary: r vs) (auto split: prod.splits sum.splits)

text \<open>Commands that only read leave the key space, and their replies come in order.\<close>

lemma pipe_reads:
  assumes "\<And>c. c \<in> set cs \<Longrightarrow> redis_step c r = (Inr (f c), r)"
  shows "pipe redis_step cs r = (Inr (map f cs), r)"
  using assms by (induction cs) auto

end
