(* ===== verification/Datetime.thy ===== *)
theory Datetime
  imports Prelude "HOL-Library.Product_Lexorder" "HOL-Library.List_Lexorder" "HOL-Library.Char_ord"
begin

text \<open>
  Python's naive \<^verbatim>\<open>datetime\<close>: its fields, \<^verbatim>\<open>isoformat\<close>, \<^verbatim>\<open>fromisoformat\<close> on what \<^verbatim>\<open>isoformat\<close> prints, and
  \<^verbatim>\<open>timestamp\<close> in microseconds for a process whose local time is UTC, as in the containers of the
  repository.  The feed sorts by \<^verbatim>\<open>isoformat\<close> strings in one place and by timestamps in another; both
  orders are shown to be the chronological one.
\<close>

section \<open>Dates and times\<close>

datatype datetime = Datetime (year: int) (month: int) (day: int) (hour: int) (minute: int) (second: int)
  (microsecond: int)

text \<open>Chronological order is the lexicographic order of the fields.\<close>

definition dt_key :: "datetime \<Rightarrow> int \<times> int \<times> int \<times> int \<times> int \<times> int \<times> int" where
  "dt_key d = (year d, month d, day d, hour d, minute d, second d, microsecond d)"

lemma dt_key_inj: "dt_key a = dt_key b \<longleftrightarrow> a = b"
  by (cases a; cases b) (simp add: dt_key_def)

instantiation datetime :: linorder
begin

definition less_eq_datetime :: "datetime \<Rightarrow> datetime \<Rightarrow> bool" where
  "less_eq_datetime a b \<longleftrightarrow> dt_key a \<le> dt_key b"

definition less_datetime :: "datetime \<Rightarrow> datetime \<Rightarrow> bool" where
  "less_datetime a b \<longleftrightarrow> dt_key a < dt_key b"

instance
  by standard (auto simp: less_eq_datetime_def less_datetime_def less_le_not_le simp flip: dt_key_inj)

end

definition is_leap :: "int \<Rightarrow> bool" where
  "is_leap y \<longleftrightarrow> y mod 4 = 0 \<and> (y mod 100 \<noteq> 0 \<or> y mod 400 = 0)"

definition days_in_month :: "int \<Rightarrow> int \<Rightarrow> int" where
  "days_in_month y m =
     (if m = 2 then (if is_leap y then 29 else 28)
      else if m \<in> {4, 6, 9, 11} then 30 else 31)"

text \<open>The values a \<^verbatim>\<open>datetime\<close> can have.\<close>

definition dt_ok :: "datetime \<Rightarrow> bool" where
  "dt_ok d \<longleftrightarrow> 1 \<le> year d \<and> year d \<le> 9999 \<and> 1 \<le> month d \<and> month d \<le> 12
     \<and> 1 \<le> day d \<and> day d \<le> days_in_month (year d) (month d)
     \<and> 0 \<le> hour d \<and> hour d < 24 \<and> 0 \<le> minute d \<and> minute d < 60
     \<and> 0 \<le> second d \<and> second d < 60 \<and> 0 \<le> microsecond d \<and> microsecond d < 1000000"

section \<open>Printing and parsing\<close>

text \<open>\<open>n\<close> in decimal, padded with zeros to \<open>k\<close> digits.\<close>

definition padded :: "nat \<Rightarrow> int \<Rightarrow> string" where
  "padded k n = map (\<lambda>d. char_of (48 + nat d)) (be_digits 10 k n)"

definition iso_micro :: "datetime \<Rightarrow> string" where
  "iso_micro d = (if microsecond d = 0 then [] else ''.'' @ padded 6 (microsecond d))"

definition isoformat :: "datetime \<Rightarrow> string" where
  "isoformat d =
     padded 4 (year d) @ ''-'' @ padded 2 (month d) @ ''-'' @ padded 2 (day d) @ ''T''
       @ padded 2 (hour d) @ '':'' @ padded 2 (minute d) @ '':'' @ padded 2 (second d)
       @ iso_micro d"

definition digit_value :: "char \<Rightarrow> int option" where
  "digit_value c = (let n = of_char c :: int in if 48 \<le> n \<and> n \<le> 57 then Some (n - 48) else None)"

fun digit_values :: "string \<Rightarrow> int list option" where
  "digit_values [] = Some []"
| "digit_values (c # cs) =
     (case digit_value c of None \<Rightarrow> None | Some d \<Rightarrow> map_option (Cons d) (digit_values cs))"

definition read_padded :: "string \<Rightarrow> int option" where
  "read_padded s = map_option (be_value 10) (digit_values s)"

definition fromisoformat :: "string \<Rightarrow> datetime res" where
  "fromisoformat s =
     (let bad = Inl (ValueError ''Invalid isoformat string'') in
      if length s \<notin> {19, 26} \<or> s ! 4 \<noteq> CHR ''-'' \<or> s ! 7 \<noteq> CHR ''-'' \<or> s ! 10 \<noteq> CHR ''T''
         \<or> s ! 13 \<noteq> CHR '':'' \<or> s ! 16 \<noteq> CHR '':'' \<or> (length s = 26 \<and> s ! 19 \<noteq> CHR ''.'') then bad
      else case (read_padded (take 4 s), read_padded (py_slice 5 7 s), read_padded (py_slice 8 10 s),
                 read_padded (py_slice 11 13 s), read_padded (py_slice 14 16 s), read_padded (py_slice 17 19 s),
                 read_padded (drop 20 s)) of
          (Some y, Some mo, Some d, Some h, Some mi, Some se, Some us) \<Rightarrow>
            (let dt = Datetime y mo d h mi se us in if dt_ok dt then Inr dt else bad)
        | _ \<Rightarrow> bad)"

section \<open>Timestamps\<close>

text \<open>The proleptic Gregorian ordinal, as \<^verbatim>\<open>datetime.toordinal\<close> computes it.\<close>

definition days_before_year :: "int \<Rightarrow> int" where
  "days_before_year y = (let z = y - 1 in z * 365 + z div 4 - z div 100 + z div 400)"

definition days_before_month :: "int \<Rightarrow> int \<Rightarrow> int" where
  "days_before_month y m = (\<Sum>i \<leftarrow> [1..m - 1]. days_in_month y i)"

definition toordinal :: "datetime \<Rightarrow> int" where
  "toordinal d = days_before_year (year d) + days_before_month (year d) (month d) + day d"

text \<open>Microseconds since 1970-01-01T00:00:00.\<close>

definition timestamp :: "datetime \<Rightarrow> int" where
  "timestamp d =
     ((((toordinal d - 719163) * 24 + hour d) * 60 + minute d) * 60 + second d) * 1000000 + microsecond d"

section \<open>Round trip\<close>

lemma length_padded [simp]: "length (padded k n) = k"
  by (simp add: padded_def)

lemma digit_value_char: "0 \<le> d \<Longrightarrow> d < 10 \<Longrightarrow> digit_value (char_of (48 + nat d)) = Some d"
proof -
  assume "0 \<le> d" "d < 10"
  then have "d \<in> set [0..9]" by simp
  moreover have "list_all (\<lambda>d. digit_value (char_of (48 + nat d)) = Some d) [0..9]" by code_simp
  ultimately show ?thesis by (simp only: list_all_iff)
qed

lemma digit_values_chars:
  "\<forall>d \<in> set ds. 0 \<le> d \<and> d < 10 \<Longrightarrow> digit_values (map (\<lambda>d. char_of (48 + nat d)) ds) = Some ds"
  by (induction ds) (auto simp: digit_value_char)

lemma read_padded_padded: "0 \<le> n \<Longrightarrow> n < 10 ^ k \<Longrightarrow> read_padded (padded k n) = Some n"
  using digit_values_chars [of "be_digits 10 k n"] be_digits_range [of 10 _ k n] be_value_digits [of 10 k n]
  by (auto simp: read_padded_def padded_def)

lemma days_in_month_bound: "days_in_month y m \<le> 31"
  by (simp add: days_in_month_def)

lemma dt_ok_bounds:
  assumes "dt_ok d"
  shows "read_padded (padded 4 (year d)) = Some (year d)" "read_padded (padded 2 (month d)) = Some (month d)"
    "read_padded (padded 2 (day d)) = Some (day d)" "read_padded (padded 2 (hour d)) = Some (hour d)"
    "read_padded (padded 2 (minute d)) = Some (minute d)" "read_padded (padded 2 (second d)) = Some (second d)"
    "read_padded (padded 6 (microsecond d)) = Some (microsecond d)"
  using assms days_in_month_bound [of "year d" "month d"]
  by (auto simp: dt_ok_def intro!: read_padded_padded)

lemma fromisoformat_isoformat:
  assumes "dt_ok d"
  shows "fromisoformat (isoformat d) = Inr d"
  using dt_ok_bounds [OF assms] assms
  by (cases d) (auto simp: fromisoformat_def isoformat_def iso_micro_def nth_append py_slice_def read_padded_def Let_def)

section \<open>Both orders are chronological\<close>

lemma list_less_append:
  fixes xs ys :: "'a :: linorder list"
  assumes "length xs = length ys"
  shows "xs @ us < ys @ vs \<longleftrightarrow> xs < ys \<or> xs = ys \<and> us < vs"
  using assms by (induction xs ys rule: list_induct2) auto

lemma less_pair: "(a, x) < (b, y) \<longleftrightarrow> a < b \<or> a = b \<and> x < y"
  for a b :: "'a :: linorder" and x y :: "'b :: linorder"
  by auto

lemma digit_char_less:
  assumes "0 \<le> a" "a < 10" "0 \<le> b" "b < 10"
  shows "(char_of (48 + nat a) :: char) < char_of (48 + nat b) \<longleftrightarrow> a < b"
    and "(char_of (48 + nat a) :: char) = char_of (48 + nat b) \<longleftrightarrow> a = b"
proof -
  have "(of_char (char_of (48 + nat x) :: char) :: nat) = 48 + nat x" if "x < 10" for x
    using that by (simp add: of_char_of)
  then show "(char_of (48 + nat a) :: char) < char_of (48 + nat b) \<longleftrightarrow> a < b"
    and "(char_of (48 + nat a) :: char) = char_of (48 + nat b) \<longleftrightarrow> a = b"
    using assms by (auto simp: less_char_def simp flip: of_char_eq_iff [where ?'a = nat])
qed

lemma padded_Suc: "padded (Suc k) n = char_of (48 + nat (n div 10 ^ k mod 10)) # padded k n"
  by (simp add: padded_def be_digits_Suc)

lemma padded_mod: "padded k (n mod 10 ^ k) = padded k n"
proof -
  have "n mod 10 ^ k div 10 ^ i mod 10 = n div 10 ^ i mod 10" if "i < k" for i
  proof -
    have "(10 :: int) ^ k = 10 ^ i * 10 ^ (k - i)" using that by (simp flip: power_add)
    then have "n mod 10 ^ k div 10 ^ i = n div 10 ^ i mod 10 ^ (k - i)"
      by (simp add: zmod_zmult2_eq)
    moreover have "(10 :: int) dvd 10 ^ (k - i)" using that by simp
    ultimately show ?thesis by (simp add: mod_mod_cancel)
  qed
  then show ?thesis by (simp add: padded_def be_digits_def)
qed

lemma div_less_factor:
  fixes p n :: int
  assumes "0 < p" and "n < c * p"
  shows "n div p < c"
proof (rule ccontr)
  assume "\<not> n div p < c"
  then have "c * p \<le> n div p * p" using assms(1) by (intro mult_right_mono) auto
  also have "\<dots> \<le> n" using assms(1) div_mult_mod_eq [of n p] pos_mod_sign [of p n] by linarith
  finally show False using assms(2) by simp
qed

lemma div_eq_order:
  fixes n m p :: int
  assumes "n div p = m div p"
  shows "(n < m \<longleftrightarrow> n mod p < m mod p) \<and> (n = m \<longleftrightarrow> n mod p = m mod p)"
proof -
  have "n = m div p * p + n mod p" "m = m div p * p + m mod p"
    using div_mult_mod_eq [of n p] div_mult_mod_eq [of m p] assms by simp_all
  then show ?thesis by (intro conjI iffI) linarith+
qed

lemma padded_order:
  assumes "0 \<le> n" "n < 10 ^ k" "0 \<le> m" "m < 10 ^ k"
  shows "(padded k n < padded k m \<longleftrightarrow> n < m) \<and> (padded k n = padded k m \<longleftrightarrow> n = m)"
  using assms
proof (induction k arbitrary: n m)
  case (Suc k)
  let ?p = "(10 :: int) ^ k"
  have pos: "0 < ?p" by simp
  have q: "0 \<le> n div ?p" "n div ?p < 10" "0 \<le> m div ?p" "m div ?p < 10"
    using Suc.prems pos by (auto simp: pos_imp_zdiv_nonneg_iff intro!: div_less_factor)
  have IH: "(padded k n < padded k m \<longleftrightarrow> n mod ?p < m mod ?p) \<and> (padded k n = padded k m \<longleftrightarrow> n mod ?p = m mod ?p)"
    using Suc.IH [of "n mod ?p" "m mod ?p"] pos by (simp add: padded_mod)
  have "n div ?p < m div ?p \<Longrightarrow> n < m" "m div ?p < n div ?p \<Longrightarrow> m < n"
    using pos zdiv_mono1 [of m n ?p] zdiv_mono1 [of n m ?p] by linarith+
  moreover have "n div ?p = m div ?p \<Longrightarrow> (n < m \<longleftrightarrow> n mod ?p < m mod ?p) \<and> (n = m \<longleftrightarrow> n mod ?p = m mod ?p)"
    by (rule div_eq_order)
  ultimately show ?case
    using IH q digit_char_less [OF q(1,2) q(3,4)] by (auto simp: padded_Suc)
qed (simp add: padded_def be_digits_def)

lemmas padded_less = padded_order [THEN conjunct1]
lemmas padded_eq = padded_order [THEN conjunct2]

lemma dt_ok_ranges:
  assumes "dt_ok d"
  shows "0 \<le> year d \<and> year d < 10 ^ 4" "0 \<le> month d \<and> month d < 10 ^ 2" "0 \<le> day d \<and> day d < 10 ^ 2"
    "0 \<le> hour d \<and> hour d < 10 ^ 2" "0 \<le> minute d \<and> minute d < 10 ^ 2" "0 \<le> second d \<and> second d < 10 ^ 2"
    "0 \<le> microsecond d \<and> microsecond d < 10 ^ 6"
  using assms days_in_month_bound [of "year d" "month d"] by (auto simp: dt_ok_def)

lemma isoformat_less:
  assumes "dt_ok a" and "dt_ok b"
  shows "isoformat a < isoformat b \<longleftrightarrow> a < b"
proof -
  note ra = dt_ok_ranges [OF assms(1)] and rb = dt_ok_ranges [OF assms(2)]
  have us: "iso_micro a < iso_micro b \<longleftrightarrow> microsecond a < microsecond b"
    using ra(7) rb(7) padded_less [of "microsecond a" 6 "microsecond b"] by (auto simp: iso_micro_def)
  show ?thesis
    using ra rb us padded_order [of "year a" 4 "year b"] padded_order [of "month a" 2 "month b"]
      padded_order [of "day a" 2 "day b"] padded_order [of "hour a" 2 "hour b"]
      padded_order [of "minute a" 2 "minute b"] padded_order [of "second a" 2 "second b"]
    by (simp add: isoformat_def list_less_append less_datetime_def dt_key_def less_pair
        del: less_prod_simp)
qed

text \<open>The ordinal grows with the date: a day's offset stays below the next month's, and a year's
  below the next year's.\<close>

lemma months_of_year: "1 \<le> m \<Longrightarrow> m \<le> 12 \<Longrightarrow> m \<in> set [1..12 :: int]"
  by simp

lemma days_before_month_Suc: "1 \<le> m \<Longrightarrow> days_before_month y (m + 1) = days_before_month y m + days_in_month y m"
proof -
  assume "1 \<le> m"
  then have "[1..m] = [1..m - 1] @ [m]" using upto_split2 [of 1 m "m"] by (simp add: upto_rec2)
  then show ?thesis by (simp add: days_before_month_def)
qed

lemma days_before_month_mono:
  assumes "1 \<le> m" and "m \<le> n"
  shows "days_before_month y m \<le> days_before_month y n"
  using assms(2)
proof (induction n rule: int_ge_induct)
  case (step n)
  have "0 \<le> days_in_month y n" by (simp add: days_in_month_def)
  with step assms(1) show ?case by (simp add: days_before_month_Suc)
qed simp

lemma div_pred:
  fixes y p :: int
  assumes "0 < p"
  shows "y div p = (y - 1) div p + (if y mod p = 0 then 1 else 0)"
proof (cases "y mod p = 0")
  case True
  then have "y - 1 = p * (y div p - 1) + (p - 1)"
    using mult_div_mod_eq [of p y] by (simp add: algebra_simps)
  then have "(y - 1) div p = y div p - 1" by (rule int_div_pos_eq) (use assms in auto)
  with True show ?thesis by simp
next
  case False
  have "y - 1 = p * (y div p) + (y mod p - 1)" using mult_div_mod_eq [of p y] by simp
  then have "(y - 1) div p = y div p"
    by (rule int_div_pos_eq) (use assms False pos_mod_sign [of p y] pos_mod_bound [of p y] in linarith)+
  with False show ?thesis by simp
qed

lemma leap_day:
  fixes y q4 q100 q400 r4 r100 r400 :: int
  assumes "q4 = r4 + (if p4 then 1 else 0)" and "q100 = r100 + (if p100 then 1 else 0)"
    and "q400 = r400 + (if p400 then 1 else 0)" and "p400 \<Longrightarrow> p100" and "p100 \<Longrightarrow> p4"
  shows "y * 365 + q4 - q100 + q400
    = (y - 1) * 365 + r4 - r100 + r400 + 365 + (if p4 \<and> (\<not> p100 \<or> p400) then 1 else 0)"
  by (cases p4; cases p100; cases p400) (use assms in simp_all)

lemma days_before_year_Suc: "days_before_year (y + 1) = days_before_year y + 365 + (if is_leap y then 1 else 0)"
proof -
  have "y div 4 = (y - 1) div 4 + (if y mod 4 = 0 then 1 else 0)"
    and "y div 100 = (y - 1) div 100 + (if y mod 100 = 0 then 1 else 0)"
    and "y div 400 = (y - 1) div 400 + (if y mod 400 = 0 then 1 else 0)"
    by (rule div_pred; simp)+
  moreover have "y mod 400 = 0 \<Longrightarrow> y mod 100 = 0" "y mod 100 = 0 \<Longrightarrow> y mod 4 = 0"
    using dvd_trans [of 100 400 y] dvd_trans [of 4 100 y] by (simp_all add: mod_eq_0_iff_dvd)
  ultimately have "y * 365 + y div 4 - y div 100 + y div 400 = (y - 1) * 365 + (y - 1) div 4 - (y - 1) div 100
      + (y - 1) div 400 + 365 + (if y mod 4 = 0 \<and> (\<not> y mod 100 = 0 \<or> y mod 400 = 0) then 1 else 0)"
    by (rule leap_day)
  then show ?thesis unfolding days_before_year_def is_leap_def Let_def add_diff_cancel_right' .
qed

lemma days_before_year_mono: "y \<le> z \<Longrightarrow> days_before_year y \<le> days_before_year z"
  by (induction z rule: int_ge_induct) (auto simp: days_before_year_Suc)

lemma days_before_month_13: "days_before_month y 13 = 365 + (if is_leap y then 1 else 0)"
  by (simp add: days_before_month_def days_in_month_def upto_rec1)

lemma toordinal_less:
  assumes "dt_ok a" and "dt_ok b" and "(year a, month a, day a) < (year b, month b, day b)"
  shows "toordinal a < toordinal b"
proof -
  have m: "1 \<le> month a" "month a \<le> 12" "1 \<le> day a" "day a \<le> days_in_month (year a) (month a)"
    "1 \<le> month b" "1 \<le> day b" using assms(1,2) by (auto simp: dt_ok_def)
  have next_month: "days_before_month (year a) (month a) + day a \<le> days_before_month (year a) (month a + 1)"
    using m by (simp add: days_before_month_Suc)
  have next_year: "days_before_month (year a) (month a + 1) \<le> days_before_month (year a) 13"
    using m by (intro days_before_month_mono) auto
  have b1: "0 \<le> days_before_month (year b) (month b)"
    using days_before_month_mono [of 1 "month b" "year b"] m by (simp add: days_before_month_def)
  consider "year a < year b" | "year a = year b" "month a < month b" | "year a = year b" "month a = month b" "day a < day b"
    using assms(3) unfolding less_pair by blast
  then show ?thesis
  proof cases
    case 1
    then have "days_before_year (year a + 1) \<le> days_before_year (year b)" by (intro days_before_year_mono) simp
    then show ?thesis
      using next_month next_year b1 m(6) by (simp add: toordinal_def days_before_year_Suc days_before_month_13)
  next
    case 2
    then have "days_before_month (year b) (month a + 1) \<le> days_before_month (year b) (month b)"
      using m by (intro days_before_month_mono) auto
    with 2 next_month m(6) show ?thesis by (simp add: toordinal_def)
  qed (simp add: toordinal_def)
qed

lemma timestamp_mono:
  assumes "dt_ok a" and "dt_ok b" and "a < b"
  shows "timestamp a < timestamp b"
proof -
  have r: "0 \<le> hour a \<and> hour a < 24 \<and> 0 \<le> minute a \<and> minute a < 60 \<and> 0 \<le> second a \<and> second a < 60
      \<and> 0 \<le> microsecond a \<and> microsecond a < 1000000"
    "0 \<le> hour b \<and> hour b < 24 \<and> 0 \<le> minute b \<and> minute b < 60 \<and> 0 \<le> second b \<and> second b < 60
      \<and> 0 \<le> microsecond b \<and> microsecond b < 1000000"
    using assms(1,2) by (auto simp: dt_ok_def)
  show ?thesis
  proof (cases "(year a, month a, day a) < (year b, month b, day b)")
    case True
    from toordinal_less [OF assms(1,2) this] r show ?thesis by (simp add: timestamp_def)
  next
    case False
    with assms(3) have "year a = year b" "month a = month b" "day a = day b"
      and "(hour a, minute a, second a, microsecond a) < (hour b, minute b, second b, microsecond b)"
      by (auto simp: less_datetime_def dt_key_def)
    with r show ?thesis by (auto simp: timestamp_def toordinal_def)
  qed
qed

lemma timestamp_less:
  assumes "dt_ok a" and "dt_ok b"
  shows "timestamp a < timestamp b \<longleftrightarrow> a < b" and "timestamp a = timestamp b \<longleftrightarrow> a = b"
  using timestamp_mono [OF assms] timestamp_mono [OF assms(2,1)] by (metis less_irrefl linorder_less_linear not_less_iff_gr_or_eq)+

end
