(* ===== verification/Social_Db.thy ===== *)
theory Social_Db
  imports Uuid Datetime
begin

text \<open>
  The tables of the primary database, \<^verbatim>\<open>migrations/001_create_users.sql\<close> and
  \<^verbatim>\<open>migrations/004_create_posts_and_friends.sql\<close>, and the SQL statements of the Python sources on
  them.  A table is the list of its rows in physical order, which no statement may rely on:
  \<^verbatim>\<open>ORDER BY created_at DESC\<close> leaves rows with equal keys in that order.
\<close>

record user =
  us_id :: uuid
  us_email :: string
  us_password_hash :: string
  us_first_name :: string
  us_last_name :: string
  us_birthdate :: string
  us_gender :: string
  us_interests :: "string option"
  us_city :: string

record post =
  po_id :: uuid
  po_author :: uuid
  po_text :: string
  po_created :: datetime

record social =
  so_users :: "user list"
  so_posts :: "post list"
  so_friends :: "(uuid \<times> uuid) list"

text \<open>\<^verbatim>\<open>PRIMARY KEY\<close>, \<^verbatim>\<open>UNIQUE\<close>, \<^verbatim>\<open>REFERENCES\<close> and \<^verbatim>\<open>CHECK\<close> constraints, and that timestamps are dates.\<close>

definition social_ok :: "social \<Rightarrow> bool" where
  "social_ok db \<longleftrightarrow> distinct (map us_id (so_users db)) \<and> distinct (map us_email (so_users db))
     \<and> distinct (map po_id (so_posts db)) \<and> distinct (so_friends db)
     \<and> (\<forall>p \<in> set (so_posts db). po_author p \<in> us_id ` set (so_users db) \<and> dt_ok (po_created p))
     \<and> (\<forall>(u, f) \<in> set (so_friends db). u \<noteq> f \<and> u \<in> us_id ` set (so_users db) \<and> f \<in> us_id ` set (so_users db))"

section \<open>Queries\<close>

text \<open>\<^verbatim>\<open>SELECT user_id FROM friendships WHERE friend_id = $1\<close> and the converse.\<close>

definition sql_followers :: "social \<Rightarrow> uuid \<Rightarrow> uuid list" where
  "sql_followers db a = [u. (u, f) \<leftarrow> so_friends db, f = a]"

definition sql_friends :: "social \<Rightarrow> uuid \<Rightarrow> uuid list" where
  "sql_friends db u = [f. (u', f) \<leftarrow> so_friends db, u' = u]"

text \<open>\<^verbatim>\<open>ORDER BY created_at DESC LIMIT n\<close>.\<close>

definition newest_first :: "post list \<Rightarrow> post list" where
  "newest_first ps = rev (sort_key po_created (rev ps))"

definition sql_limit :: "int \<Rightarrow> 'a list \<Rightarrow> 'a list res" where
  "sql_limit n xs = (if n < 0 then Inl (PostgresError ''LIMIT must not be negative'') else Inr (take (nat n) xs))"

definition sql_posts_by_authors :: "social \<Rightarrow> uuid list \<Rightarrow> int \<Rightarrow> post list res" where
  "sql_posts_by_authors db as n = sql_limit n (newest_first (filter (\<lambda>p. po_author p \<in> set as) (so_posts db)))"

text \<open>\<^verbatim>\<open>posts p INNER JOIN friendships f ON f.friend_id = p.author_id WHERE f.user_id = $1\<close>.\<close>

definition friend_posts :: "social \<Rightarrow> uuid \<Rightarrow> post list" where
  "friend_posts db u = [p. p \<leftarrow> so_posts db, (u', f) \<leftarrow> so_friends db, u' = u \<and> f = po_author p]"

definition sql_friend_posts :: "social \<Rightarrow> uuid \<Rightarrow> int \<Rightarrow> post list res" where
  "sql_friend_posts db u n = sql_limit n (newest_first (friend_posts db u))"

text \<open>\<^verbatim>\<open>SELECT COUNT(*) FROM friendships WHERE friend_id = $1\<close>.\<close>

definition sql_count_followers :: "social \<Rightarrow> uuid \<Rightarrow> int" where
  "sql_count_followers db a = int (length (sql_followers db a))"

text \<open>\<^verbatim>\<open>SELECT friend_id, COUNT(*) .. WHERE friend_id = ANY($1) GROUP BY friend_id\<close>: a row per author that has
  followers.\<close>

definition sql_count_by_author :: "social \<Rightarrow> uuid list \<Rightarrow> (uuid \<times> int) list" where
  "sql_count_by_author db as =
     map (\<lambda>a. (a, sql_count_followers db a)) (filter (\<lambda>a. a \<in> set as) (remdups (map snd (so_friends db))))"

section \<open>Updates\<close>

text \<open>\<^verbatim>\<open>INSERT INTO posts\<close>, and \<^verbatim>\<open>UPDATE\<close> and \<^verbatim>\<open>DELETE\<close> of a post by its author, which return the row they
  touched.\<close>

definition sql_insert_post :: "post \<Rightarrow> social \<Rightarrow> social" where
  "sql_insert_post p db = db\<lparr>so_posts := so_posts db @ [p]\<rparr>"

definition owned :: "uuid \<Rightarrow> uuid \<Rightarrow> post \<Rightarrow> bool" where
  "owned i a p \<longleftrightarrow> po_id p = i \<and> po_author p = a"

definition sql_update_post :: "string \<Rightarrow> uuid \<Rightarrow> uuid \<Rightarrow> social \<Rightarrow> post option \<times> social" where
  "sql_update_post text i a db =
     (map_option (\<lambda>p. p\<lparr>po_text := text\<rparr>) (find (owned i a) (so_posts db)),
      db\<lparr>so_posts := map (\<lambda>p. if owned i a p then p\<lparr>po_text := text\<rparr> else p) (so_posts db)\<rparr>)"

definition sql_delete_post :: "uuid \<Rightarrow> uuid \<Rightarrow> social \<Rightarrow> post option \<times> social" where
  "sql_delete_post i a db =
     (find (owned i a) (so_posts db), db\<lparr>so_posts := filter (\<lambda>p. \<not> owned i a p) (so_posts db)\<rparr>)"

text \<open>\<^verbatim>\<open>INSERT INTO friendships .. ON CONFLICT DO NOTHING\<close> and \<^verbatim>\<open>DELETE FROM friendships\<close>.\<close>

definition sql_insert_friendship :: "uuid \<Rightarrow> uuid \<Rightarrow> social \<Rightarrow> social" where
  "sql_insert_friendship u f db =
     (if (u, f) \<in> set (so_friends db) then db else db\<lparr>so_friends := so_friends db @ [(u, f)]\<rparr>)"

definition sql_delete_friendship :: "uuid \<Rightarrow> uuid \<Rightarrow> social \<Rightarrow> social" where
  "sql_delete_friendship u f db = db\<lparr>so_friends := filter (\<lambda>p. p \<noteq> (u, f)) (so_friends db)\<rparr>"

section \<open>Facts\<close>

lemma set_sql_followers: "set (sql_followers db a) = {u. (u, a) \<in> set (so_friends db)}"
  by (auto simp: sql_followers_def)

lemma set_sql_friends: "set (sql_friends db u) = {f. (u, f) \<in> set (so_friends db)}"
  by (auto simp: sql_friends_def)

lemma select_column:
  "concat (map (\<lambda>p. if P p then [f p] else []) xs) = map f (filter P xs)"
  by (induction xs) auto

lemma sql_followers_eq: "sql_followers db a = map fst (filter (\<lambda>p. snd p = a) (so_friends db))"
  using select_column [of "\<lambda>p. snd p = a" fst] by (simp add: sql_followers_def split_def)

lemma sql_friends_eq: "sql_friends db u = map snd (filter (\<lambda>p. fst p = u) (so_friends db))"
  using select_column [of "\<lambda>p. fst p = u" snd] by (simp add: sql_friends_def split_def)

lemma distinct_sql_followers: "distinct (so_friends db) \<Longrightarrow> distinct (sql_followers db a)"
  by (auto simp: sql_followers_eq distinct_map inj_on_def prod_eq_iff)

lemma distinct_sql_friends: "distinct (so_friends db) \<Longrightarrow> distinct (sql_friends db u)"
  by (auto simp: sql_friends_eq distinct_map inj_on_def prod_eq_iff)

text \<open>Every friend is joined once, so the join is a selection.\<close>

lemma select_once:
  "distinct fs \<Longrightarrow> concat (map (\<lambda>g. if g = k then [p] else []) fs) = (if k \<in> set fs then [p] else [])"
  by (induction fs) (auto simp: concat_eq_Nil_conv)

lemma friend_posts_eq:
  assumes "distinct (so_friends db)"
  shows "friend_posts db u = filter (\<lambda>p. po_author p \<in> set (sql_friends db u)) (so_posts db)"
proof -
  have "friend_posts db u
      = concat (map (\<lambda>p. concat (map (\<lambda>g. if g = (u, po_author p) then [p] else []) (so_friends db))) (so_posts db))"
    by (simp add: friend_posts_def split_def prod_eq_iff)
  also have "\<dots> = concat (map (\<lambda>p. if (u, po_author p) \<in> set (so_friends db) then [p] else []) (so_posts db))"
    by (simp add: select_once [OF assms])
  also have "\<dots> = filter (\<lambda>p. (u, po_author p) \<in> set (so_friends db)) (so_posts db)"
    using select_column [of "\<lambda>p. (u, po_author p) \<in> set (so_friends db)" "\<lambda>p. p"] by simp
  finally show ?thesis by (simp add: set_sql_friends)
qed

lemma set_friend_posts: "set (friend_posts db u) = {p \<in> set (so_posts db). (u, po_author p) \<in> set (so_friends db)}"
  by (auto simp: friend_posts_def)

lemma set_newest_first [simp]: "set (newest_first ps) = set ps"
  by (simp add: newest_first_def)

lemma length_newest_first [simp]: "length (newest_first ps) = length ps"
  by (simp add: newest_first_def)

lemma mset_newest_first [simp]: "mset (newest_first ps) = mset ps"
  by (simp add: newest_first_def)

lemma newest_first_sorted: "sorted_wrt (\<lambda>x y. po_created y \<le> po_created x) (newest_first ps)"
proof -
  have "sorted (map po_created (sort_key po_created (rev ps)))" by simp
  then have "sorted_wrt (\<lambda>x y. po_created x \<le> po_created y) (sort_key po_created (rev ps))"
    by (simp add: sorted_wrt_map)
  then show ?thesis by (simp add: newest_first_def sorted_wrt_rev)
qed

end
