(* ===== verification/Feed_Cache.thy ===== *)
theory Feed_Cache
  imports Redis_Zset Social_Db Config
begin

text \<open>
  \<^verbatim>\<open>app/feed_cache.py\<close> and \<^verbatim>\<open>app/services/celebrity.py\<close>: the feed of a user as a sorted set of post
  identifiers, the bodies of posts as hashes, and the cached flag of authors with many followers.

  Every function is a program on the state of a Redis server: it takes the execution of a command,
  \<open>exec\<close>, and what a read of the primary database sees during the call, \<open>db\<close>, which is an exception
  when the primary cannot be read.  A score is the timestamp of the post in microseconds.
\<close>

section \<open>Keys and hashes\<close>

definition POST_HASH_TTL_SECONDS :: int where
  "POST_HASH_TTL_SECONDS = 30 * 24 * 3600"

definition feed_key :: "uuid \<Rightarrow> string" where
  "feed_key user_id = ''feed:'' @ uuid_str user_id"

definition post_key :: "uuid \<Rightarrow> string" where
  "post_key post_id = ''post:'' @ uuid_str post_id"

definition celebrity_key :: "uuid \<Rightarrow> string" where
  "celebrity_key author_id = ''celebrity:'' @ uuid_str author_id"

definition row_to_post_hash :: "post \<Rightarrow> fields" where
  "row_to_post_hash row =
     [(''text'', po_text row), (''author_id'', uuid_str (po_author row)), (''created_at'', isoformat (po_created row))]"

text \<open>An event carries a naive timestamp of the database or, for a deletion, an aware one in UTC.\<close>

datatype moment = Naive datetime | Utc datetime

definition moment_iso :: "moment \<Rightarrow> string" where
  "moment_iso t = (case t of Naive d \<Rightarrow> isoformat d | Utc d \<Rightarrow> isoformat d @ ''+00:00'')"

record feed_item =
  fi_id :: string
  fi_text :: string
  fi_author_user_id :: string
  fi_created_at :: "string option"

section \<open>Bodies of posts\<close>

type_synonym 'r server = "cmd \<Rightarrow> ('r, reply) prog"

definition fetch :: "social res \<Rightarrow> (social \<Rightarrow> 'a res) \<Rightarrow> ('r, 'a) prog" where
  "fetch db q = liftP (case db of Inl e \<Rightarrow> Inl e | Inr s \<Rightarrow> q s)"

definition voidP :: "('r, 'a) prog \<Rightarrow> ('r, unit) prog" where
  "voidP m = bindP m (\<lambda>_. returnP ())"

definition store_post_hash :: "'r server \<Rightarrow> uuid \<Rightarrow> string \<Rightarrow> uuid \<Rightarrow> datetime \<Rightarrow> ('r, unit) prog" where
  "store_post_hash exec post_id text author_id created_at =
     voidP (pipe exec
       [HSET (post_key post_id)
          [(''text'', text), (''author_id'', uuid_str author_id), (''created_at'', isoformat created_at)],
        EXPIRE (post_key post_id) POST_HASH_TTL_SECONDS])"

definition delete_post_hash :: "'r server \<Rightarrow> uuid \<Rightarrow> ('r, unit) prog" where
  "delete_post_hash exec post_id = voidP (exec (DEL (post_key post_id)))"

section \<open>Followers and celebrities\<close>

definition get_followers :: "social res \<Rightarrow> uuid \<Rightarrow> ('r, uuid list) prog" where
  "get_followers db author_id = fetch db (\<lambda>s. Inr (sql_followers s author_id))"

definition get_celebrity_friends :: "settings \<Rightarrow> 'r server \<Rightarrow> social res \<Rightarrow> uuid \<Rightarrow> ('r, uuid list) prog" where
  "get_celebrity_friends S exec db user_id =
     bindP (fetch db (\<lambda>s. Inr (sql_friends s user_id))) (\<lambda>friend_ids.
       if friend_ids = [] then returnP []
       else
         bindP (execute exec as_bulks (MGET (map celebrity_key friend_ids))) (\<lambda>cached.
         bindP (liftP (zip_strict friend_ids cached)) (\<lambda>pairs.
           let celebrity_ids = map fst (filter (\<lambda>(fid, val). val = Some ''1'') pairs);
               missing_in_cache = map fst (filter (\<lambda>(fid, val). val = None) pairs)
           in
           if missing_in_cache = [] then returnP celebrity_ids
           else
             bindP (fetch db (\<lambda>s. Inr (sql_count_by_author s missing_in_cache))) (\<lambda>cnt_by_id.
               let is_celeb = (\<lambda>fid. celebrity_followers_threshold S
                     \<le> (case map_of cnt_by_id fid of None \<Rightarrow> 0 | Some c \<Rightarrow> c))
               in bindP (pipe exec (map (\<lambda>fid. SETEX (celebrity_key fid) (if is_celeb fid then ''1'' else ''0'')
                        (celebrity_cache_ttl S)) missing_in_cache))
                    (\<lambda>_. returnP (celebrity_ids @ filter is_celeb missing_in_cache))))))"

definition followers_count :: "social res \<Rightarrow> uuid \<Rightarrow> ('r, int) prog" where
  "followers_count db author_id = fetch db (\<lambda>s. Inr (sql_count_followers s author_id))"

definition is_celebrity :: "settings \<Rightarrow> 'r server \<Rightarrow> social res \<Rightarrow> uuid \<Rightarrow> ('r, bool) prog" where
  "is_celebrity S exec db author_id =
     bindP (execute exec as_bulk (GET (celebrity_key author_id))) (\<lambda>cached.
       case cached of
         Some v \<Rightarrow> returnP (v = ''1'')
       | None \<Rightarrow>
           bindP (followers_count db author_id) (\<lambda>cnt.
             let flag = celebrity_followers_threshold S \<le> cnt in
             bindP (exec (SETEX (celebrity_key author_id) (if flag then ''1'' else ''0'') (celebrity_cache_ttl S)))
               (\<lambda>_. returnP flag)))"

definition invalidate_celebrity_cache :: "'r server \<Rightarrow> uuid \<Rightarrow> ('r, unit) prog" where
  "invalidate_celebrity_cache exec author_id = voidP (exec (DEL (celebrity_key author_id)))"

definition recent_item :: "post \<Rightarrow> feed_item" where
  "recent_item r = \<lparr>fi_id = uuid_str (po_id r), fi_text = po_text r, fi_author_user_id = uuid_str (po_author r),
     fi_created_at = Some (isoformat (po_created r))\<rparr>"

definition fetch_recent_posts_by_authors :: "social res \<Rightarrow> uuid list \<Rightarrow> int \<Rightarrow> ('r, feed_item list) prog" where
  "fetch_recent_posts_by_authors db author_ids limit =
     (if author_ids = [] then returnP []
      else bindP (fetch db (\<lambda>s. sql_posts_by_authors s author_ids limit)) (\<lambda>rows. returnP (map recent_item rows)))"

section \<open>Fan-out on write\<close>

definition fan_out_commands :: "int \<Rightarrow> string \<Rightarrow> int \<Rightarrow> uuid list \<Rightarrow> cmd list" where
  "fan_out_commands cap post_id_str score followers =
     concat (map (\<lambda>follower_id. [ZADD (feed_key follower_id) post_id_str score,
       ZREMRANGEBYRANK (feed_key follower_id) 0 (- (cap + 1))]) followers)"

definition fan_out_post :: "settings \<Rightarrow> 'r server \<Rightarrow> social res \<Rightarrow> uuid \<Rightarrow> uuid \<Rightarrow> datetime \<Rightarrow> ('r, unit) prog" where
  "fan_out_post S exec db post_id author_id created_at =
     bindP (get_followers db author_id) (\<lambda>followers.
       if followers = [] then returnP ()
       else voidP (pipe exec (fan_out_commands (feed_max_size S) (uuid_str post_id) (timestamp created_at) followers)))"

definition publish_post_event :: "settings \<Rightarrow> 'r server \<Rightarrow> string \<Rightarrow> uuid \<Rightarrow> uuid \<Rightarrow> moment \<Rightarrow> ('r, unit) prog" where
  "publish_post_event S exec event_type post_id author_id created_at =
     voidP (exec (XADD (feed_stream_key S)
       [(''event_type'', event_type), (''post_id'', uuid_str post_id), (''author_id'', uuid_str author_id),
        (''created_at'', moment_iso created_at)]))"

definition remove_post_from_all_feeds :: "'r server \<Rightarrow> social res \<Rightarrow> uuid \<Rightarrow> uuid \<Rightarrow> ('r, unit) prog" where
  "remove_post_from_all_feeds exec db post_id author_id =
     bindP (get_followers db author_id) (\<lambda>followers.
       if followers = [] then returnP ()
       else voidP (pipe exec (map (\<lambda>follower_id. ZREM (feed_key follower_id) [uuid_str post_id]) followers)))"

section \<open>Friendship changes\<close>

definition load_commands :: "string \<Rightarrow> post list \<Rightarrow> cmd list" where
  "load_commands key rows =
     concat (map (\<lambda>row. [ZADD key (uuid_str (po_id row)) (timestamp (po_created row)),
       HSET (post_key (po_id row)) (row_to_post_hash row),
       EXPIRE (post_key (po_id row)) POST_HASH_TTL_SECONDS]) rows)"

definition add_friend_posts_to_feed :: "settings \<Rightarrow> 'r server \<Rightarrow> social res \<Rightarrow> uuid \<Rightarrow> uuid \<Rightarrow> ('r, unit) prog" where
  "add_friend_posts_to_feed S exec db user_id friend_id =
     bindP (fetch db (\<lambda>s. sql_posts_by_authors s [friend_id] (feed_max_size S))) (\<lambda>rows.
       if rows = [] then returnP ()
       else voidP (pipe exec (load_commands (feed_key user_id) rows
              @ [ZREMRANGEBYRANK (feed_key user_id) 0 (- (feed_max_size S + 1))])))"

definition post_key_of :: "string \<Rightarrow> string res" where
  "post_key_of pid = (case UUID pid of Inl e \<Rightarrow> Inl e | Inr u \<Rightarrow> Inr (post_key u))"

definition remove_friend_posts_from_feed :: "'r server \<Rightarrow> uuid \<Rightarrow> uuid \<Rightarrow> ('r, unit) prog" where
  "remove_friend_posts_from_feed exec user_id friend_id =
     bindP (execute exec as_members (ZRANGE (feed_key user_id) 0 (- 1))) (\<lambda>post_ids.
       if post_ids = [] then returnP ()
       else
         bindP (liftP (map_res post_key_of post_ids)) (\<lambda>keys.
         bindP (pipe exec (map (\<lambda>k. HGET k ''author_id'') keys)) (\<lambda>replies.
         bindP (liftP (map_res as_bulk replies)) (\<lambda>authors.
         bindP (liftP (zip_strict post_ids authors)) (\<lambda>pairs.
           let to_remove = map fst (filter (\<lambda>(pid, author). author = Some (uuid_str friend_id)) pairs) in
           if to_remove = [] then returnP () else voidP (exec (ZREM (feed_key user_id) to_remove)))))))"

section \<open>Rebuild and read\<close>

text \<open>\<open>nonce\<close> is \<^verbatim>\<open>uuid4().hex\<close>.\<close>

definition tmp_key :: "uuid \<Rightarrow> string \<Rightarrow> string" where
  "tmp_key user_id nonce = feed_key user_id @ '':rebuild:'' @ nonce"

definition rebuild_feed_for_user :: "settings \<Rightarrow> 'r server \<Rightarrow> social res \<Rightarrow> string \<Rightarrow> uuid \<Rightarrow> ('r, int) prog" where
  "rebuild_feed_for_user S exec db nonce user_id =
     bindP (fetch db (\<lambda>s. sql_friend_posts s user_id (feed_max_size S))) (\<lambda>rows.
       if rows = [] then bindP (exec (DEL (feed_key user_id))) (\<lambda>_. returnP 0)
       else
         bindP (finallyP
           (bindP (pipe exec (load_commands (tmp_key user_id nonce) rows))
             (\<lambda>_. exec (RENAME (tmp_key user_id nonce) (feed_key user_id))))
           (voidP (exec (DEL (tmp_key user_id nonce)))))
         (\<lambda>_. returnP (int (length rows))))"

definition hash_field :: "fields \<Rightarrow> string \<Rightarrow> string res" where
  "hash_field h f = (case map_of h f of None \<Rightarrow> Inl (KeyError f) | Some v \<Rightarrow> Inr v)"

definition cached_item :: "string \<times> fields \<Rightarrow> feed_item res" where
  "cached_item = (\<lambda>(pid, h).
     case hash_field h ''text'' of
       Inl e \<Rightarrow> Inl e
     | Inr text \<Rightarrow>
         (case hash_field h ''author_id'' of
            Inl e \<Rightarrow> Inl e
          | Inr author \<Rightarrow> Inr \<lparr>fi_id = pid, fi_text = text, fi_author_user_id = author, fi_created_at = None\<rparr>))"

definition read_page :: "'r server \<Rightarrow> uuid \<Rightarrow> int \<Rightarrow> int \<Rightarrow> ('r, feed_item list) prog" where
  "read_page exec user_id offset limit =
     bindP (execute exec as_members (ZREVRANGE (feed_key user_id) offset (offset + limit - 1))) (\<lambda>post_ids.
       if post_ids = [] then returnP []
       else
         bindP (liftP (map_res post_key_of post_ids)) (\<lambda>keys.
         bindP (pipe exec (map HGETALL keys)) (\<lambda>replies.
         bindP (liftP (map_res as_hash replies)) (\<lambda>hashes.
         bindP (liftP (zip_strict post_ids hashes)) (\<lambda>pairs.
         bindP (liftP (map_res cached_item (filter (\<lambda>(pid, h). h \<noteq> []) pairs))) (\<lambda>result.
           let stale_ids = map fst (filter (\<lambda>(pid, h). h = []) pairs) in
           if stale_ids = [] then returnP result
           else bindP (exec (ZREM (feed_key user_id) stale_ids)) (\<lambda>_. returnP result)))))))"

definition read_feed :: "settings \<Rightarrow> 'r server \<Rightarrow> social res \<Rightarrow> string \<Rightarrow> uuid \<Rightarrow> int \<Rightarrow> int \<Rightarrow> ('r, feed_item list) prog" where
  "read_feed S exec db nonce user_id offset limit =
     bindP (execute exec as_int (EXISTS (feed_key user_id))) (\<lambda>exists.
     bindP (if exists = 0 then voidP (rebuild_feed_for_user S exec db nonce user_id) else returnP ()) (\<lambda>_.
     read_page exec user_id offset limit))"

text \<open>The first item of every identifier, in order.\<close>

fun unique_items :: "string set \<Rightarrow> feed_item list \<Rightarrow> feed_item list" where
  "unique_items seen [] = []"
| "unique_items seen (item # items) =
     (if fi_id item \<in> seen then unique_items seen items
      else item # unique_items (insert (fi_id item) seen) items)"

text \<open>\<^verbatim>\<open>xs[a:b]\<close> for any integers.\<close>

definition py_index :: "nat \<Rightarrow> int \<Rightarrow> nat" where
  "py_index n i = (if i < 0 then nat (int n + i) else min n (nat i))"

definition py_slice_int :: "int \<Rightarrow> int \<Rightarrow> 'a list \<Rightarrow> 'a list" where
  "py_slice_int a b xs = py_slice (py_index (length xs) a) (py_index (length xs) b) xs"

definition sort_recent :: "feed_item list \<Rightarrow> feed_item list" where
  "sort_recent items =
     rev (sort_key (\<lambda>i. case fi_created_at i of None \<Rightarrow> [] | Some t \<Rightarrow> t) (rev items))"

definition add_created_at :: "'r server \<Rightarrow> feed_item list \<Rightarrow> ('r, feed_item list) prog" where
  "add_created_at exec push_part =
     (if push_part = [] then returnP []
      else
        bindP (liftP (map_res (\<lambda>item. post_key_of (fi_id item)) push_part)) (\<lambda>keys.
        bindP (pipe exec (map (\<lambda>k. HGET k ''created_at'') keys)) (\<lambda>replies.
        bindP (liftP (map_res as_bulk replies)) (\<lambda>created_ats.
        bindP (liftP (zip_strict push_part created_ats)) (\<lambda>pairs.
          returnP (map (\<lambda>(item, ts). item\<lparr>fi_created_at := Some (case ts of None \<Rightarrow> [] | Some t \<Rightarrow> t)\<rparr>) pairs))))))"

definition read_feed_merged :: "settings \<Rightarrow> 'r server \<Rightarrow> social res \<Rightarrow> string \<Rightarrow> uuid \<Rightarrow> int \<Rightarrow> int \<Rightarrow> ('r, feed_item list) prog" where
  "read_feed_merged S exec db nonce user_id offset limit =
     bindP (read_feed S exec db nonce user_id 0 (offset + limit)) (\<lambda>push.
     bindP (get_celebrity_friends S exec db user_id) (\<lambda>celebrity_authors.
     bindP (fetch_recent_posts_by_authors db celebrity_authors (offset + limit)) (\<lambda>pull_part.
     bindP (add_created_at exec push) (\<lambda>push_part.
       returnP (map (\<lambda>i. i\<lparr>fi_created_at := None\<rparr>)
         (py_slice_int offset (offset + limit) (sort_recent (unique_items {} (push_part @ pull_part)))))))))"

section \<open>Any server behaves as documented\<close>

text \<open>A program of this theory run on a server simulates the same program on the documented one.\<close>

lemma sim_fetch [sim_intros]: "sim view (fetch db q) (fetch db q)"
  unfolding fetch_def by (intro sim_intros)

lemma sim_done [sim_intros]: "sim view p q \<Longrightarrow> sim view (voidP p) (voidP q)"
  unfolding voidP_def by (intro sim_intros)

lemma sim_case_option [sim_intros]:
  "sim view p q \<Longrightarrow> (\<And>v. sim view (f v) (g v)) \<Longrightarrow>
   sim view (case x of None \<Rightarrow> p | Some v \<Rightarrow> f v) (case x of None \<Rightarrow> q | Some v \<Rightarrow> g v)"
  by (cases x) auto

context redis_server
begin

lemma feed_sims:
  "sim view (store_post_hash exec i x a t) (store_post_hash redis_step i x a t)"
  "sim view (delete_post_hash exec i) (delete_post_hash redis_step i)"
  "sim view (fan_out_post S exec db i a t) (fan_out_post S redis_step db i a t)"
  "sim view (publish_post_event S exec ty i a m) (publish_post_event S redis_step ty i a m)"
  "sim view (remove_post_from_all_feeds exec db i a) (remove_post_from_all_feeds redis_step db i a)"
  "sim view (add_friend_posts_to_feed S exec db u f) (add_friend_posts_to_feed S redis_step db u f)"
  "sim view (remove_friend_posts_from_feed exec u f) (remove_friend_posts_from_feed redis_step u f)"
  "sim view (get_celebrity_friends S exec db u) (get_celebrity_friends S redis_step db u)"
  "sim view (is_celebrity S exec db a) (is_celebrity S redis_step db a)"
  unfolding store_post_hash_def delete_post_hash_def fan_out_post_def publish_post_event_def Let_def
    remove_post_from_all_feeds_def add_friend_posts_to_feed_def remove_friend_posts_from_feed_def
    get_celebrity_friends_def is_celebrity_def followers_count_def get_followers_def
  by - (intro server_sims sim_intros)+

lemma rebuild_sim: "sim view (rebuild_feed_for_user S exec db n u) (rebuild_feed_for_user S redis_step db n u)"
  unfolding rebuild_feed_for_user_def by (intro server_sims sim_intros)

lemma read_feed_sim: "sim view (read_feed S exec db n u off lim) (read_feed S redis_step db n u off lim)"
  unfolding read_feed_def read_page_def Let_def by (intro server_sims sim_intros rebuild_sim)

lemma read_feed_merged_sim:
  "sim view (read_feed_merged S exec db n u off lim) (read_feed_merged S redis_step db n u off lim)"
  unfolding read_feed_merged_def add_created_at_def fetch_recent_posts_by_authors_def
  by (intro server_sims sim_intros read_feed_sim feed_sims)

end

end
