(* ===== verification/Feed_Effects.thy ===== *)
theory Feed_Effects
  imports Feed_Cache
begin

text \<open>
  What the functions of the feed cache do to the key space of the documented server: the keys are
  disjoint, every pipeline succeeds on a key space whose keys hold the type the code gives them, and
  its effect is written out key by key.
\<close>

section \<open>Keys are disjoint\<close>

lemma feed_key_inj [simp]: "feed_key u = feed_key v \<longleftrightarrow> u = v"
  by (auto simp: feed_key_def uuid_str_inj)

lemma post_key_inj [simp]: "post_key u = post_key v \<longleftrightarrow> u = v"
  by (auto simp: post_key_def uuid_str_inj)

lemma celebrity_key_inj [simp]: "celebrity_key u = celebrity_key v \<longleftrightarrow> u = v"
  by (auto simp: celebrity_key_def uuid_str_inj)

lemma keys_differ [simp]:
  "feed_key u \<noteq> post_key p" "post_key p \<noteq> feed_key u" "feed_key u \<noteq> celebrity_key a" "celebrity_key a \<noteq> feed_key u"
  "post_key p \<noteq> celebrity_key a" "celebrity_key a \<noteq> post_key p" "tmp_key u n \<noteq> post_key p" "post_key p \<noteq> tmp_key u n"
  "tmp_key u n \<noteq> celebrity_key a" "celebrity_key a \<noteq> tmp_key u n"
  by (simp_all add: feed_key_def post_key_def celebrity_key_def tmp_key_def)

lemma tmp_key_feed_key [simp]: "tmp_key u n \<noteq> feed_key v" "feed_key v \<noteq> tmp_key u n"
proof -
  have "length (tmp_key u n) \<noteq> length (feed_key v)"
    by (simp add: tmp_key_def feed_key_def length_uuid_str)
  then show "tmp_key u n \<noteq> feed_key v" "feed_key v \<noteq> tmp_key u n" by metis+
qed

lemma post_key_of_str [simp]: "post_key_of (uuid_str p) = Inr (post_key p)"
  by (simp add: post_key_of_def UUID_str)

section \<open>The type of a key\<close>

definition zset_at :: "redis \<Rightarrow> string \<Rightarrow> zset" where
  "zset_at r k = (case r k of Some (ZSet z) \<Rightarrow> z | _ \<Rightarrow> [])"

definition zset_or_none :: "rvalue option \<Rightarrow> bool" where
  "zset_or_none v \<longleftrightarrow> (case v of None \<Rightarrow> True | Some (ZSet z) \<Rightarrow> zset_ok z \<and> z \<noteq> [] | _ \<Rightarrow> False)"

definition hash_or_none :: "rvalue option \<Rightarrow> bool" where
  "hash_or_none v \<longleftrightarrow> (case v of None \<Rightarrow> True | Some (Hash h) \<Rightarrow> \<exists>p. h = row_to_post_hash p | _ \<Rightarrow> False)"

definition str_or_none :: "rvalue option \<Rightarrow> bool" where
  "str_or_none v \<longleftrightarrow> (case v of None \<Rightarrow> True | Some (Str s) \<Rightarrow> True | _ \<Rightarrow> False)"

definition post_members :: "zset \<Rightarrow> bool" where
  "post_members z \<longleftrightarrow> fst ` set z \<subseteq> range uuid_str"

text \<open>Feeds are sorted sets of post identifiers, posts are hashes of the three fields, flags are
  strings.\<close>

definition cache_ok :: "redis \<Rightarrow> bool" where
  "cache_ok r \<longleftrightarrow>
     (\<forall>u. zset_or_none (r (feed_key u)) \<and> post_members (zset_at r (feed_key u)))
     \<and> (\<forall>p. hash_or_none (r (post_key p))) \<and> (\<forall>a. str_or_none (r (celebrity_key a)))"

lemma zset_or_none_get: "zset_or_none (r k) \<Longrightarrow> get_zset r k = Inr (zset_at r k)"
  by (auto simp: zset_or_none_def get_zset_def zset_at_def split: option.splits rvalue.splits)

lemma zset_or_none_ok: "zset_or_none (r k) \<Longrightarrow> zset_ok (zset_at r k)"
  by (auto simp: zset_or_none_def zset_at_def split: option.splits rvalue.splits)

lemma zset_at_put [simp]: "zset_at (put_zset k z r) k' = (if k' = k then z else zset_at r k')"
  by (simp add: zset_at_def put_zset_def)

lemma put_zset_other [simp]: "k' \<noteq> k \<Longrightarrow> put_zset k z r k' = r k'"
  by (simp add: put_zset_def)

lemma put_zset_same: "put_zset k z r k = (if z = [] then None else Some (ZSet z))"
  by (simp add: put_zset_def)

lemma put_zset_typed: "zset_ok z \<Longrightarrow> zset_or_none (put_zset k z r k)"
  by (simp add: put_zset_def zset_or_none_def)

lemma put_zset_id: "zset_or_none (r k) \<Longrightarrow> put_zset k (zset_at r k) r = r"
  by (auto simp: put_zset_def zset_or_none_def zset_at_def fun_eq_iff split: option.splits rvalue.splits)

lemma put_zset_put [simp]: "put_zset k z (put_zset k z' r) = put_zset k z r"
  by (simp add: put_zset_def fun_eq_iff)

lemma hset_post_hash: "hash_or_none (r k) \<Longrightarrow> get_hash r k = Inr h \<Longrightarrow> hset (row_to_post_hash p) h = row_to_post_hash p"
  by (auto simp: hash_or_none_def get_hash_def hset_def row_to_post_hash_def split: option.splits rvalue.splits)

section \<open>Runs of programs\<close>

text \<open>The program returns and leaves the key space \<open>r'\<close>.\<close>

definition runs :: "(redis, 'a) prog \<Rightarrow> redis \<Rightarrow> redis \<Rightarrow> bool" where
  "runs m r r' \<longleftrightarrow> (\<exists>v. m r = (Inr v, r'))"

lemma runs_voidP: "runs m r r' \<Longrightarrow> voidP m r = (Inr (), r')"
  by (auto simp: runs_def voidP_def)

named_theorems run_intros \<open>runs of pipelined commands\<close>

lemma pipe_Nil_runs [run_intros]: "runs (pipe redis_step []) r r"
  by (simp add: runs_def)

lemma pipe_Cons_runs [run_intros]:
  "runs (redis_step c) r r1 \<Longrightarrow> runs (pipe redis_step cs) r1 r2 \<Longrightarrow> runs (pipe redis_step (c # cs)) r r2"
  by (auto simp: runs_def)

lemma pipe_append_runs:
  "runs (pipe redis_step cs) r r1 \<Longrightarrow> runs (pipe redis_step ds) r1 r2 \<Longrightarrow> runs (pipe redis_step (cs @ ds)) r r2"
  by (auto simp: runs_def pipe_append)

text \<open>A pipeline made of one group of commands per element is a fold of the effects of the groups.\<close>

lemma pipe_concat_runs:
  assumes "P r" and "\<And>x r. x \<in> set xs \<Longrightarrow> P r \<Longrightarrow> runs (pipe redis_step (cs x)) r (f x r) \<and> P (f x r)"
  shows "runs (pipe redis_step (concat (map cs xs))) r (fold f xs r)"
  using assms by (induction xs arbitrary: r) (auto intro: pipe_append_runs pipe_Nil_runs)

lemma zadd_runs [run_intros]:
  "zset_or_none (r k) \<Longrightarrow> runs (redis_step (ZADD k m s)) r (put_zset k (zadd m s (zset_at r k)) r)"
  by (simp add: runs_def on_value_def zset_or_none_get)

lemma zrem_runs [run_intros]:
  "zset_or_none (r k) \<Longrightarrow> runs (redis_step (ZREM k ms)) r (put_zset k (zrem ms (zset_at r k)) r)"
  by (simp add: runs_def on_value_def zset_or_none_get)

lemma trim_runs [run_intros]:
  "zset_or_none (r k) \<Longrightarrow> runs (redis_step (ZREMRANGEBYRANK k a b)) r (put_zset k (remove_slice a b (zset_at r k)) r)"
  by (simp add: runs_def on_value_def zset_or_none_get)

lemma expire_runs [run_intros]: "runs (redis_step (EXPIRE k n)) r r"
  by (simp add: runs_def)

lemma hset_runs [run_intros]:
  assumes "hash_or_none (r k)"
  shows "runs (redis_step (HSET k (row_to_post_hash p))) r (r(k \<mapsto> Hash (row_to_post_hash p)))"
proof -
  obtain h where h: "get_hash r k = Inr h"
    using assms by (auto simp: hash_or_none_def get_hash_def split: option.splits rvalue.splits)
  show ?thesis using hset_post_hash [OF assms h] by (simp add: runs_def on_value_def h)
qed

lemma setex_runs [run_intros]: "0 < ttl \<Longrightarrow> runs (redis_step (SETEX k v ttl)) r (r(k \<mapsto> Str v))"
  by (simp add: runs_def)

section \<open>Changing the feeds of several users\<close>

text \<open>Apply \<open>f\<close> to the feeds of the users in \<open>us\<close>.\<close>

definition map_feeds :: "uuid set \<Rightarrow> (zset \<Rightarrow> zset) \<Rightarrow> redis \<Rightarrow> redis" where
  "map_feeds us f r = (\<lambda>k. if k \<in> feed_key ` us then put_zset k (f (zset_at r k)) r k else r k)"

lemma map_feeds_other [simp]: "k \<notin> feed_key ` us \<Longrightarrow> map_feeds us f r k = r k"
  by (simp add: map_feeds_def)

lemma zset_at_map_feeds: "zset_at (map_feeds us f r) (feed_key u) = (if u \<in> us then f (zset_at r (feed_key u)) else zset_at r (feed_key u))"
  by (auto simp: map_feeds_def zset_at_def put_zset_def)

lemma fold_map_feeds:
  "distinct us \<Longrightarrow> fold (\<lambda>u r. put_zset (feed_key u) (f (zset_at r (feed_key u))) r) us r = map_feeds (set us) f r"
proof (induction us arbitrary: r)
  case Nil
  then show ?case by (simp add: map_feeds_def)
next
  case (Cons u us)
  then show ?case by (auto simp: map_feeds_def fun_eq_iff image_iff put_zset_same)
qed

lemma cache_ok_map_feeds:
  assumes "cache_ok r" and "\<And>z. zset_ok z \<Longrightarrow> post_members z \<Longrightarrow> zset_ok (f z) \<and> post_members (f z)"
  shows "cache_ok (map_feeds us f r)"
proof -
  have z: "zset_ok (zset_at r (feed_key u))" "post_members (zset_at r (feed_key u))" for u
    using assms(1) by (auto simp: cache_ok_def zset_or_none_ok)
  have "zset_or_none (map_feeds us f r (feed_key u))" for u
    using assms z [of u] by (cases "u \<in> us") (auto simp: map_feeds_def put_zset_typed cache_ok_def)
  moreover have "post_members (zset_at (map_feeds us f r) (feed_key u))" for u
    using assms(2) z [of u] by (simp add: zset_at_map_feeds)
  ultimately show ?thesis using assms(1) by (auto simp: cache_ok_def map_feeds_def image_iff)
qed

text \<open>The \<open>n\<close> highest of a sorted set.\<close>

definition keep :: "int \<Rightarrow> zset \<Rightarrow> zset" where
  "keep cap z = drop (length z - nat cap) z"

lemma keep_ok [intro]: "zset_ok z \<Longrightarrow> zset_ok (keep cap z)"
  by (auto simp: keep_def)

lemma set_keep: "set (keep cap z) \<subseteq> set z"
  by (simp add: keep_def set_drop_subset)

lemma post_members_mono: "post_members z \<Longrightarrow> set z' \<subseteq> set z \<Longrightarrow> post_members z'"
  by (auto simp: post_members_def)

lemma post_members_keep [intro]: "post_members z \<Longrightarrow> post_members (keep cap z)"
  using set_keep post_members_mono by blast

lemma post_members_zadd [intro]: "post_members z \<Longrightarrow> post_members (zadd (uuid_str p) s z)"
  by (auto simp: post_members_def set_zadd)

lemma post_members_zrem [intro]: "post_members z \<Longrightarrow> post_members (zrem ms z)"
  by (auto simp: post_members_def zrem_def)

section \<open>Fan-out and removal\<close>

definition entry :: "post \<Rightarrow> string \<times> int" where
  "entry p = (uuid_str (po_id p), timestamp (po_created p))"

lemma cache_ok_feed [simp]: "cache_ok r \<Longrightarrow> zset_or_none (r (feed_key u))"
  by (simp add: cache_ok_def)

lemma cache_ok_put_feed:
  "cache_ok r \<Longrightarrow> zset_ok z \<Longrightarrow> post_members z \<Longrightarrow> cache_ok (put_zset (feed_key u) z r)"
  unfolding cache_ok_def by (metis keys_differ(2,4) put_zset_other put_zset_typed zset_at_put)

lemma cache_ok_zset: "cache_ok r \<Longrightarrow> zset_ok (zset_at r (feed_key u)) \<and> post_members (zset_at r (feed_key u))"
  by (simp add: cache_ok_def zset_or_none_ok)

lemma fan_out_group:
  assumes "cache_ok r" and "0 \<le> cap"
    and z_def: "z = keep cap (zadd (uuid_str p) t (zset_at r (feed_key u)))"
  shows "runs (pipe redis_step [ZADD (feed_key u) (uuid_str p) t, ZREMRANGEBYRANK (feed_key u) 0 (- (cap + 1))]) r
      (put_zset (feed_key u) z r) \<and> cache_ok (put_zset (feed_key u) z r)"
proof
  have z: "zset_ok (zadd (uuid_str p) t (zset_at r (feed_key u)))" "post_members (zadd (uuid_str p) t (zset_at r (feed_key u)))"
    using cache_ok_zset [OF assms(1), of u] by auto
  let ?r = "put_zset (feed_key u) (zadd (uuid_str p) t (zset_at r (feed_key u))) r"
  have "runs (redis_step (ZREMRANGEBYRANK (feed_key u) 0 (- (cap + 1)))) ?r (put_zset (feed_key u) z r)"
    using trim_runs [of ?r "feed_key u" 0 "- (cap + 1)"] z(1) assms(2)
    by (simp add: put_zset_typed trim_to_cap [simplified] z_def keep_def)
  from pipe_Cons_runs [OF zadd_runs pipe_Cons_runs [OF this pipe_Nil_runs]]
  show "runs (pipe redis_step [ZADD (feed_key u) (uuid_str p) t, ZREMRANGEBYRANK (feed_key u) 0 (- (cap + 1))]) r
      (put_zset (feed_key u) z r)"
    using assms(1) by simp
  show "cache_ok (put_zset (feed_key u) z r)"
    using assms(1) z unfolding z_def by (intro cache_ok_put_feed) auto
qed

lemma fan_out_effect:
  assumes "cache_ok r" and "distinct (so_friends s)" and "0 \<le> feed_max_size S"
  shows "fan_out_post S redis_step (Inr s) p a t r =
    (Inr (), map_feeds (set (sql_followers s a)) (\<lambda>z. keep (feed_max_size S) (zadd (uuid_str p) (timestamp t) z)) r)"
proof -
  have "runs (pipe redis_step (fan_out_commands (feed_max_size S) (uuid_str p) (timestamp t) (sql_followers s a))) r
      (fold (\<lambda>u r. put_zset (feed_key u) (keep (feed_max_size S) (zadd (uuid_str p) (timestamp t) (zset_at r (feed_key u)))) r)
        (sql_followers s a) r)"
    unfolding fan_out_commands_def using assms(1,3) fan_out_group
    by (intro pipe_concat_runs [where P = cache_ok]) auto
  then show ?thesis
    using fold_map_feeds [OF distinct_sql_followers [OF assms(2)], of "\<lambda>z. keep (feed_max_size S) (zadd (uuid_str p) (timestamp t) z)"]
    by (auto simp: fan_out_post_def get_followers_def fetch_def runs_voidP map_feeds_def)
qed

lemma remove_post_effect:
  assumes "cache_ok r" and "distinct (so_friends s)"
  shows "remove_post_from_all_feeds redis_step (Inr s) p a r =
    (Inr (), map_feeds (set (sql_followers s a)) (zrem [uuid_str p]) r)"
proof -
  have "runs (pipe redis_step [ZREM (feed_key u) [uuid_str p]]) r (put_zset (feed_key u) (zrem [uuid_str p] (zset_at r (feed_key u))) r)
      \<and> cache_ok (put_zset (feed_key u) (zrem [uuid_str p] (zset_at r (feed_key u))) r)" if "cache_ok r" for r u
    using that cache_ok_zset [OF that, of u] by (auto intro!: run_intros cache_ok_put_feed)
  then have "runs (pipe redis_step (concat (map (\<lambda>u. [ZREM (feed_key u) [uuid_str p]]) (sql_followers s a)))) r
      (fold (\<lambda>u r. put_zset (feed_key u) (zrem [uuid_str p] (zset_at r (feed_key u))) r) (sql_followers s a) r)"
    using assms(1) by (intro pipe_concat_runs [where P = cache_ok]) auto
  then show ?thesis
    using fold_map_feeds [OF distinct_sql_followers [OF assms(2)], of "zrem [uuid_str p]"]
    by (auto simp: remove_post_from_all_feeds_def get_followers_def fetch_def runs_voidP map_feeds_def
        concat_map_singleton)
qed

section \<open>Loading rows\<close>

definition add_rows :: "post list \<Rightarrow> zset \<Rightarrow> zset" where
  "add_rows rows z = fold (\<lambda>row. zadd (uuid_str (po_id row)) (timestamp (po_created row))) rows z"

definition with_bodies :: "post list \<Rightarrow> redis \<Rightarrow> redis" where
  "with_bodies rows r = fold (\<lambda>row r. r(post_key (po_id row) \<mapsto> Hash (row_to_post_hash row))) rows r"

lemma with_bodies_other [simp]: "k \<notin> post_key ` po_id ` set rows \<Longrightarrow> with_bodies rows r k = r k"
  unfolding with_bodies_def by (induction rows arbitrary: r) auto

lemma with_bodies_put: "key \<notin> range post_key \<Longrightarrow> with_bodies rows (put_zset key z r) = put_zset key z (with_bodies rows r)"
proof (induction rows arbitrary: r)
  case (Cons x rows)
  have "(put_zset key z r)(post_key (po_id x) \<mapsto> Hash (row_to_post_hash x))
      = put_zset key z (r(post_key (po_id x) \<mapsto> Hash (row_to_post_hash x)))"
    using Cons.prems by (auto simp: put_zset_def fun_eq_iff)
  then show ?case using Cons by (simp add: with_bodies_def)
qed (simp add: with_bodies_def)

lemma with_bodies_post:
  "distinct (map po_id rows) \<Longrightarrow> row \<in> set rows \<Longrightarrow> with_bodies rows r (post_key (po_id row)) = Some (Hash (row_to_post_hash row))"
proof (induction rows arbitrary: r)
  case (Cons x rows)
  let ?r = "r(post_key (po_id x) \<mapsto> Hash (row_to_post_hash x))"
  have "with_bodies (x # rows) r = with_bodies rows ?r" by (simp add: with_bodies_def)
  moreover have "with_bodies rows ?r (post_key (po_id x)) = Some (Hash (row_to_post_hash x))"
    using Cons.prems(1) by (subst with_bodies_other) (auto simp: image_iff)
  moreover have "row \<in> set rows \<Longrightarrow> with_bodies rows ?r (post_key (po_id row)) = Some (Hash (row_to_post_hash row))"
    using Cons.prems(1) by (intro Cons.IH) simp_all
  ultimately show ?case using Cons.prems(2) by auto
qed simp

lemma add_rows_ok: "zset_ok z \<Longrightarrow> zset_ok (add_rows rows z)"
  unfolding add_rows_def by (induction rows arbitrary: z) auto

lemma post_members_add_rows: "post_members z \<Longrightarrow> post_members (add_rows rows z)"
  unfolding add_rows_def by (induction rows arbitrary: z) auto

lemma set_add_rows:
  "distinct (map po_id rows) \<Longrightarrow>
   set (add_rows rows z) = entry ` set rows \<union> {e \<in> set z. fst e \<notin> uuid_str ` po_id ` set rows}"
proof (induction rows arbitrary: z)
  case (Cons x rows)
  have "add_rows (x # rows) z = add_rows rows (zadd (uuid_str (po_id x)) (timestamp (po_created x)) z)"
    by (simp add: add_rows_def)
  then show ?case using Cons by (auto simp: set_zadd entry_def uuid_str_inj image_iff)
qed (simp add: add_rows_def)

text \<open>Members that are identifiers of rows already carry the score of the row.\<close>

lemma set_add_rows_agree:
  assumes "distinct (map po_id rows)" and "set z \<subseteq> entry ` set ps" and "set rows \<subseteq> set ps" and "distinct (map po_id ps)"
  shows "set (add_rows rows z) = entry ` set rows \<union> set z"
proof -
  have "e \<in> entry ` set rows" if e: "e \<in> set z" and m: "fst e \<in> uuid_str ` po_id ` set rows" for e
  proof -
    obtain p where "p \<in> set ps" "e = entry p" using e assms(2) by blast
    moreover obtain row where "row \<in> set rows" "po_id p = po_id row"
      using m \<open>e = entry p\<close> by (auto simp: entry_def uuid_str_inj)
    ultimately show ?thesis using filter_map_fst_unique [OF assms(4), of p row] assms(3) by auto
  qed
  then show ?thesis unfolding set_add_rows [OF assms(1)] by auto
qed

lemma load_runs:
  assumes "zset_or_none (r key)" and "\<And>p. hash_or_none (r (post_key p))" and "key \<notin> range post_key"
  shows "runs (pipe redis_step (load_commands key rows)) r (put_zset key (add_rows rows (zset_at r key)) (with_bodies rows r))"
  using assms
proof (induction rows arbitrary: r)
  case Nil
  then show ?case by (simp add: load_commands_def add_rows_def with_bodies_def put_zset_id runs_def)
next
  case (Cons x rows)
  let ?z = "zadd (uuid_str (po_id x)) (timestamp (po_created x)) (zset_at r key)"
  let ?r = "(put_zset key ?z r)(post_key (po_id x) \<mapsto> Hash (row_to_post_hash x))"
  have key: "post_key p \<noteq> key" for p using Cons.prems(3) by auto
  have "zset_ok ?z" using Cons.prems(1) zset_or_none_ok by blast
  then have "runs (pipe redis_step (load_commands key rows)) ?r
      (put_zset key (add_rows rows (zset_at ?r key)) (with_bodies rows ?r))"
    using Cons.prems key by (intro Cons.IH) (auto simp: put_zset_typed hash_or_none_def dest: not_sym)
  moreover have "zset_at ?r key = ?z" using key by (auto simp: zset_at_def put_zset_def dest: not_sym)
  moreover have "?r = put_zset key ?z (r(post_key (po_id x) \<mapsto> Hash (row_to_post_hash x)))"
    using key by (auto simp: put_zset_def fun_eq_iff)
  then have "put_zset key z (with_bodies rows ?r)
      = put_zset key z (with_bodies rows (r(post_key (po_id x) \<mapsto> Hash (row_to_post_hash x))))" for z
    by (simp add: with_bodies_put Cons.prems(3))
  moreover have "runs (pipe redis_step (load_commands key [x])) r ?r"
    using Cons.prems key unfolding load_commands_def by (auto intro!: run_intros)
  moreover have "load_commands key (x # rows) = load_commands key [x] @ load_commands key rows"
    by (simp add: load_commands_def)
  ultimately show ?case
    using pipe_append_runs by (fastforce simp: add_rows_def with_bodies_def)
qed

lemma add_rows_nonempty: "rows \<noteq> [] \<Longrightarrow> add_rows rows z \<noteq> []"
proof (induction rows arbitrary: z)
  case (Cons x rows)
  have "zadd m t z \<noteq> []" for m t z using set_zadd [of m t z] by auto
  then show ?case using Cons.IH by (cases "rows = []") (auto simp: add_rows_def)
qed simp

lemma cache_ok_with_bodies:
  assumes "cache_ok r"
  shows "cache_ok (with_bodies rows r)"
  using assms unfolding with_bodies_def
  by (intro fold_invariant [where P = cache_ok]) (auto simp: cache_ok_def zset_at_def hash_or_none_def)

text \<open>What a rebuild leaves, when the name of the temporary key is fresh.\<close>

lemma rebuild_effect:
  assumes "cache_ok r" and "r (tmp_key u n) = None" and "0 \<le> feed_max_size S"
    and rows: "rows = take (nat (feed_max_size S)) (newest_first (friend_posts s u))"
  shows "rebuild_feed_for_user S redis_step (Inr s) n u r =
    (Inr (int (length rows)), put_zset (feed_key u) (add_rows rows []) (with_bodies rows r))"
proof (cases "rows = []")
  case True
  then have "put_zset (feed_key u) (add_rows rows []) (with_bodies rows r) = r(feed_key u := None)"
    by (simp add: add_rows_def with_bodies_def put_zset_def)
  moreover have "sql_friend_posts s u (feed_max_size S) = Inr []"
    using rows True assms(3) by (simp add: sql_friend_posts_def sql_limit_def)
  ultimately show ?thesis using True by (simp add: rebuild_feed_for_user_def fetch_def)
next
  case False
  let ?t = "tmp_key u n"
  let ?b = "with_bodies rows r"
  have t: "?t \<notin> range post_key" by (auto dest: sym)
  have "runs (pipe redis_step (load_commands ?t rows)) r (put_zset ?t (add_rows rows []) ?b)"
    using load_runs [of r ?t rows] assms(1,2) t by (auto simp: zset_or_none_def zset_at_def cache_ok_def)
  then obtain vs where vs: "pipe redis_step (load_commands ?t rows) r = (Inr vs, put_zset ?t (add_rows rows []) ?b)"
    by (auto simp: runs_def)
  have bt: "?b ?t = None" using assms(2) by (subst with_bodies_other) auto
  have "redis_step (RENAME ?t (feed_key u)) (put_zset ?t (add_rows rows []) ?b)
      = (Inr ROk, put_zset (feed_key u) (add_rows rows []) ?b)"
    using add_rows_nonempty [OF False, of "[]"] bt by (auto simp: put_zset_def fun_eq_iff)
  moreover have "redis_step (DEL ?t) (put_zset (feed_key u) (add_rows rows []) ?b)
      = (Inr (RInt 0), put_zset (feed_key u) (add_rows rows []) ?b)"
    using bt by (auto simp: fun_eq_iff)
  moreover have "sql_friend_posts s u (feed_max_size S) = Inr rows"
    using rows assms(3) by (simp add: sql_friend_posts_def sql_limit_def)
  ultimately show ?thesis
    using False vs by (simp add: rebuild_feed_for_user_def fetch_def bindP_def finallyP_def voidP_def)
qed

lemma add_friend_effect:
  assumes "cache_ok r" and "0 \<le> feed_max_size S"
    and rows: "rows = take (nat (feed_max_size S)) (newest_first (filter (\<lambda>p. po_author p = f) (so_posts s)))"
  shows "add_friend_posts_to_feed S redis_step (Inr s) u f r =
    (Inr (), if rows = [] then r
      else put_zset (feed_key u) (keep (feed_max_size S) (add_rows rows (zset_at r (feed_key u)))) (with_bodies rows r))"
proof -
  let ?z = "add_rows rows (zset_at r (feed_key u))"
  let ?r = "put_zset (feed_key u) ?z (with_bodies rows r)"
  have "sql_posts_by_authors s [f] (feed_max_size S) = Inr rows"
    using rows assms(2) by (simp add: sql_posts_by_authors_def sql_limit_def)
  moreover have "runs (pipe redis_step (load_commands (feed_key u) rows)) r ?r"
    using assms(1) by (intro load_runs) (auto simp: cache_ok_def dest: sym)
  moreover have "zset_or_none (?r (feed_key u))"
    using cache_ok_zset [OF assms(1)] by (intro put_zset_typed add_rows_ok) auto
  from pipe_Cons_runs [OF trim_runs [of ?r "feed_key u", OF this, of 0 "- (feed_max_size S + 1)"] pipe_Nil_runs]
  have "runs (pipe redis_step [ZREMRANGEBYRANK (feed_key u) 0 (- (feed_max_size S + 1))]) ?r
      (put_zset (feed_key u) (keep (feed_max_size S) ?z) (with_bodies rows r))"
    using assms(2) by (simp add: trim_to_cap [simplified] keep_def)
  ultimately show ?thesis
    using runs_voidP [OF pipe_append_runs] by (auto simp: add_friend_posts_to_feed_def fetch_def)
qed

section \<open>Reading bodies\<close>

definition body_at :: "redis \<Rightarrow> string \<Rightarrow> fields" where
  "body_at r m = (case UUID m of Inl _ \<Rightarrow> [] | Inr p \<Rightarrow> (case r (post_key p) of Some (Hash h) \<Rightarrow> h | _ \<Rightarrow> []))"

lemma get_hash_body:
  assumes "cache_ok r"
  shows "get_hash r (post_key p) = Inr (body_at r (uuid_str p))"
proof -
  have "hash_or_none (r (post_key p))" using assms by (simp add: cache_ok_def)
  then show ?thesis
    by (auto simp: get_hash_def body_at_def UUID_str hash_or_none_def split: option.splits rvalue.splits)
qed

lemma body_at_cases: "cache_ok r \<Longrightarrow> body_at r m = [] \<or> (\<exists>p. body_at r m = row_to_post_hash p)"
  unfolding cache_ok_def hash_or_none_def body_at_def by (auto split: sum.splits option.splits rvalue.splits)

lemma post_keys_of_members:
  "set ms \<subseteq> range uuid_str \<Longrightarrow> \<exists>ps. ms = map uuid_str ps \<and> map_res post_key_of ms = Inr (map post_key ps)"
proof (induction ms)
  case (Cons m ms)
  then obtain p ps where "m = uuid_str p" "ms = map uuid_str ps" "map_res post_key_of ms = Inr (map post_key ps)"
    by auto
  then show ?case by (intro exI [of _ "p # ps"]) simp
qed simp

lemma pipe_bodies:
  assumes "cache_ok r"
  shows "pipe redis_step (map HGETALL (map post_key ps)) r = (Inr (map (RHash \<circ> body_at r \<circ> uuid_str) ps), r)"
    "pipe redis_step (map (\<lambda>k. HGET k f) (map post_key ps)) r
      = (Inr (map (RBulk \<circ> (\<lambda>h. map_of h f) \<circ> body_at r \<circ> uuid_str) ps), r)"
  by (induction ps) (simp_all add: on_value_def get_hash_body assms)

lemma map_res_replies:
  "map_res as_hash (map (RHash \<circ> g \<circ> h) xs) = Inr (map (g \<circ> h) xs)"
  "map_res as_bulk (map (RBulk \<circ> f \<circ> g \<circ> h) xs) = Inr (map (f \<circ> g \<circ> h) xs)"
  by (induction xs) (simp_all add: as_hash_def as_bulk_def)

lemma zip_map_same: "zip_strict (map f xs) (map (g \<circ> f) xs) = Inr (map (\<lambda>m. (m, g m)) (map f xs))"
  by (simp add: zip_strict_def zip_map_map zip_same_conv_map comp_def)

lemma untag: "map fst (map (\<lambda>m. (m, g m)) ms) = ms"
  by (induction ms) auto

lemma filter_tagged_pairs:
  "filter (\<lambda>(m, a). P a) (map (\<lambda>m. (m, g m)) ms) = map (\<lambda>m. (m, g m)) (filter (\<lambda>m. P (g m)) ms)"
  by (induction ms) auto

text \<open>Every post of the feed whose cached author is the former friend goes.\<close>

lemma remove_friend_effect:
  assumes "cache_ok r"
  shows "remove_friend_posts_from_feed redis_step u f r =
    (Inr (), put_zset (feed_key u)
       (filter (\<lambda>e. map_of (body_at r (fst e)) ''author_id'' \<noteq> Some (uuid_str f)) (zset_at r (feed_key u))) r)"
proof -
  let ?z = "zset_at r (feed_key u)"
  let ?old = "\<lambda>m. map_of (body_at r m) ''author_id'' = Some (uuid_str f)"
  have z: "zset_or_none (r (feed_key u))" "post_members ?z" using assms by (auto simp: cache_ok_def)
  have range: "execute redis_step as_members (ZRANGE (feed_key u) 0 (- 1)) r = (Inr (map fst ?z), r)"
    using zset_or_none_get [of r "feed_key u", OF z(1)] by (simp add: execute_def on_value_def range_slice_all as_members_def)
  obtain ps where ps: "map fst ?z = map uuid_str ps" "map_res post_key_of (map fst ?z) = Inr (map post_key ps)"
    using post_keys_of_members [of "map fst ?z"] z(2) by (auto simp: post_members_def)
  have keep_old: "zrem (filter ?old (map fst ?z)) ?z = filter (\<lambda>e. \<not> ?old (fst e)) ?z"
    unfolding zrem_def by (rule filter_cong) auto
  have "filter (\<lambda>e. \<not> ?old (fst e)) ?z = ?z" if "filter ?old (map fst ?z) = []"
    using that by (auto simp: filter_empty_conv filter_id_conv)
  then have none: "put_zset (feed_key u) (filter (\<lambda>e. \<not> ?old (fst e)) ?z) r = r" if "filter ?old (map fst ?z) = []"
    using that put_zset_id [of r "feed_key u", OF z(1)] by simp
  have rem: "filter (\<lambda>(pid, author). author = Some (uuid_str f)) (map (\<lambda>m. (m, map_of (body_at r m) ''author_id'')) (map fst ?z))
      = map (\<lambda>m. (m, map_of (body_at r m) ''author_id'')) (filter ?old (map fst ?z))"
    by (rule filter_tagged_pairs)
  show ?thesis
  proof (cases "?z = []")
    case True
    then show ?thesis using range none by (simp add: remove_friend_posts_from_feed_def)
  next
    case False
    have zip: "zip_strict (map fst ?z) (map ((\<lambda>h. map_of h ''author_id'') \<circ> body_at r \<circ> uuid_str) ps)
        = Inr (map (\<lambda>m. (m, map_of (body_at r m) ''author_id'')) (map fst ?z))"
      using zip_map_same [of uuid_str ps "\<lambda>m. map_of (body_at r m) ''author_id''"] by (simp add: ps(1) comp_def)
    show ?thesis
      using False none runs_voidP [OF zrem_runs [of r "feed_key u", OF z(1), of "filter ?old (map fst ?z)"]]
      by (auto simp: remove_friend_posts_from_feed_def range ps(2) pipe_bodies [OF assms] map_res_replies zip rem untag keep_old
          simp del: map_map)
  qed
qed

text \<open>A page of the feed: the members with a body are shown, the others are removed from the feed.\<close>

definition item_at :: "redis \<Rightarrow> string \<Rightarrow> feed_item" where
  "item_at r m = \<lparr>fi_id = m, fi_text = the (map_of (body_at r m) ''text''),
     fi_author_user_id = the (map_of (body_at r m) ''author_id''), fi_created_at = None\<rparr>"

definition page_ids :: "int \<Rightarrow> int \<Rightarrow> zset \<Rightarrow> string list" where
  "page_ids offset limit z = take (nat limit) (drop (nat offset) (rev (map fst z)))"

lemma cached_items:
  assumes "cache_ok r"
  shows "map_res cached_item (map (\<lambda>m. (m, body_at r m)) (filter (\<lambda>m. body_at r m \<noteq> []) ms))
    = Inr (map (item_at r) (filter (\<lambda>m. body_at r m \<noteq> []) ms))"
proof (induction ms)
  case (Cons m ms)
  have "body_at r m = row_to_post_hash p \<Longrightarrow> cached_item (m, body_at r m) = Inr (item_at r m)" for p
    by (simp add: cached_item_def hash_field_def item_at_def row_to_post_hash_def)
  then show ?case using Cons body_at_cases [OF assms, of m] by auto
qed simp

lemma read_page_effect:
  assumes "cache_ok r" and "0 \<le> offset" and "0 < limit"
    and ms: "ms = page_ids offset limit (zset_at r (feed_key u))"
  shows "read_page redis_step u offset limit r =
    (Inr (map (item_at r) (filter (\<lambda>m. body_at r m \<noteq> []) ms)),
     put_zset (feed_key u) (zrem (filter (\<lambda>m. body_at r m = []) ms) (zset_at r (feed_key u))) r)"
proof -
  let ?z = "zset_at r (feed_key u)"
  let ?stale = "filter (\<lambda>m. body_at r m = []) ms"
  have z: "zset_or_none (r (feed_key u))" "post_members ?z" using assms(1) by (auto simp: cache_ok_def)
  have range: "execute redis_step as_members (ZREVRANGE (feed_key u) offset (offset + limit - 1)) r = (Inr ms, r)"
    using zset_or_none_get [of r "feed_key u", OF z(1)] range_slice_page [OF assms(2,3)]
    by (simp add: execute_def on_value_def as_members_def ms page_ids_def)
  have "set ms \<subseteq> fst ` set ?z"
    unfolding ms page_ids_def by (auto dest!: in_set_takeD in_set_dropD)
  then have "set ms \<subseteq> range uuid_str" using z(2) unfolding post_members_def by (rule subset_trans)
  then obtain ps where ps: "ms = map uuid_str ps" "map_res post_key_of ms = Inr (map post_key ps)"
    using post_keys_of_members by metis
  have none: "put_zset (feed_key u) (zrem [] ?z) r = r"
    using put_zset_id [of r "feed_key u", OF z(1)] by (simp add: zrem_def)
  have zip: "zip_strict ms (map (body_at r \<circ> uuid_str) ps) = Inr (map (\<lambda>m. (m, body_at r m)) ms)"
    using zip_map_same [of uuid_str ps "body_at r"] by (simp add: ps(1) comp_def)
  have pairs: "filter (\<lambda>(pid, h). h \<noteq> []) (map (\<lambda>m. (m, body_at r m)) ms)
      = map (\<lambda>m. (m, body_at r m)) (filter (\<lambda>m. body_at r m \<noteq> []) ms)"
    by (rule filter_tagged_pairs)
  have stale: "filter (\<lambda>(pid, h). h = []) (map (\<lambda>m. (m, body_at r m)) ms) = map (\<lambda>m. (m, body_at r m)) ?stale"
    by (rule filter_tagged_pairs)
  obtain v where v: "redis_step (ZREM (feed_key u) ?stale) r = (Inr v, put_zset (feed_key u) (zrem ?stale ?z) r)"
    using zrem_runs [of r "feed_key u", OF z(1), of ?stale] by (auto simp: runs_def)
  show ?thesis
  proof (cases "ms = []")
    case True
    then show ?thesis using range none by (simp add: read_page_def)
  next
    case False
    then show ?thesis
      using none v
      by (cases "?stale = []") (simp_all add: read_page_def range ps(2) pipe_bodies [OF assms(1)] map_res_replies zip
          pairs stale untag cached_items [OF assms(1)] del: map_map redis_step.simps)
  qed
qed

end
