(* ===== verification/Feed_Spec.thy ===== *)
theory Feed_Spec
  imports Feed_Effects
begin

text \<open>
  What a feed promises, independently of how it is kept: it holds the newest posts of the user's
  friends, as many as the limit allows.  Selections that keep the newest elements compose, and every
  operation of the cache that adds posts refines the change of the tables it follows.
\<close>

section \<open>The newest elements of a set\<close>

definition top_n :: "nat \<Rightarrow> ('a \<times> int) set \<Rightarrow> ('a \<times> int) set \<Rightarrow> bool" where
  "top_n n E Z \<longleftrightarrow> Z \<subseteq> E \<and> card Z = min n (card E) \<and> (\<forall>e \<in> E - Z. \<forall>q \<in> Z. snd e \<le> snd q)"

lemma top_n_whole: "finite E \<Longrightarrow> card E \<le> n \<Longrightarrow> top_n n E Z \<longleftrightarrow> Z = E"
  by (auto simp: top_n_def dest: card_subset_eq)

lemma top_n_singleton: "top_n n {x} (if n = 0 then {} else {x})"
  by (auto simp: top_n_def)

text \<open>Less than \<open>n\<close> elements are all of them.\<close>

lemma top_n_short: "finite E \<Longrightarrow> top_n n E Z \<Longrightarrow> card Z < n \<Longrightarrow> Z = E"
  by (auto simp: top_n_def card_subset_eq min_def split: if_splits)

text \<open>The newest of a set that holds the newest of its parts are the newest of all.\<close>

lemma top_n_merge:
  assumes fin: "finite E" "finite A" and E: "top_n n E Z" and A: "top_n n A B"
    and Y: "Z \<union> B \<subseteq> Y" "Y \<subseteq> E \<union> A" and top: "top_n n Y W"
  shows "top_n n (E \<union> A) W"
proof -
  have finY: "finite Y" using fin Y(2) finite_subset by blast
  have W: "W \<subseteq> Y" "card W = min n (card Y)" using top by (auto simp: top_n_def)
  have full: "card W = n" if "X \<subseteq> Y" "card X = n" for X
    using W(2) card_mono [OF finY that(1)] that(2) by simp
  have below: "snd e \<le> snd q"
    if e: "e \<in> F - X" and X: "top_n n F X" "finite F" "X \<subseteq> Y" and q: "q \<in> W" for e q F X
  proof (cases "q \<in> X")
    case True
    then show ?thesis using e X(1) by (auto simp: top_n_def)
  next
    case False
    have "\<not> card X < n" using top_n_short [OF X(2,1)] e by blast
    then have cX: "card X = n" using X(1) by (simp add: top_n_def)
    have "\<not> X \<subseteq> W"
    proof
      assume "X \<subseteq> W"
      then have "X = W" using card_subset_eq [OF finite_subset [OF W(1) finY], of X] full [OF X(3) cX] cX by simp
      then show False using False q by simp
    qed
    then obtain z where "z \<in> X" "z \<notin> W" by blast
    have "snd e \<le> snd z" using e X(1) \<open>z \<in> X\<close> unfolding top_n_def by blast
    also have "\<dots> \<le> snd q" using top q \<open>z \<in> X\<close> \<open>z \<notin> W\<close> X(3) unfolding top_n_def by blast
    finally show ?thesis .
  qed
  have "card W = min n (card (E \<union> A))"
  proof (cases "card Z = n \<or> card B = n")
    case True
    then have "card W = n" using full Y(1) by blast
    moreover have "n \<le> card (E \<union> A)"
      using True E A card_mono [of "E \<union> A" E] card_mono [of "E \<union> A" A] fin by (auto simp: top_n_def)
    ultimately show ?thesis by simp
  next
    case False
    moreover have "card Z \<le> n" "card B \<le> n" using E A by (simp_all add: top_n_def)
    ultimately have "Z = E" "B = A" using top_n_short [OF fin(1) E] top_n_short [OF fin(2) A] by simp_all
    then have "Y = E \<union> A" using Y by blast
    then show ?thesis using W(2) by simp
  qed
  moreover have "snd e \<le> snd q" if e: "e \<in> E \<union> A - W" and q: "q \<in> W" for e q
  proof -
    consider "e \<in> Y" | "e \<in> E - Z" | "e \<in> A - B" using e Y by blast
    then show ?thesis
    proof cases
      case 1
      then show ?thesis using e q top unfolding top_n_def by blast
    qed (use below E A fin Y(1) q in blast)+
  qed
  ultimately show ?thesis using W(1) Y(2) unfolding top_n_def by blast
qed

text \<open>Trimming a sorted set keeps its newest elements.\<close>

lemma top_n_keep:
  assumes "zset_ok z"
  shows "top_n (nat cap) (set z) (set (keep cap z))"
proof -
  let ?k = "length z - nat cap"
  have z: "z = take ?k z @ keep cap z" by (simp add: keep_def)
  have d: "distinct z" using assms by (auto simp: zset_ok_def distinct_map)
  have "sorted (map zkey (take ?k z @ keep cap z))" using assms z by (simp add: zset_ok_def)
  then have "zkey e \<le> zkey q" if "e \<in> set (take ?k z)" "q \<in> set (keep cap z)" for e q
    using that unfolding map_append sorted_append by fastforce
  then have "snd e \<le> snd q" if "e \<in> set (take ?k z)" "q \<in> set (keep cap z)" for e q
    using that by (fastforce simp: less_eq_prod_def)
  moreover have "e \<in> set (take ?k z)" if "e \<in> set z - set (keep cap z)" for e
    using that arg_cong [OF z, of set] by auto
  moreover have "card (set (keep cap z)) = min (nat cap) (card (set z))"
    using d by (simp add: distinct_card keep_def)
  ultimately show ?thesis using set_keep by (auto simp: top_n_def)
qed

section \<open>The newest rows of a query\<close>

definition posts_ok :: "post list \<Rightarrow> bool" where
  "posts_ok ps \<longleftrightarrow> distinct (map po_id ps) \<and> (\<forall>p \<in> set ps. dt_ok (po_created p))"

lemma posts_ok_filter: "posts_ok ps \<Longrightarrow> posts_ok (filter P ps)"
  by (simp add: posts_ok_def distinct_map_filter)

lemma social_ok_posts: "social_ok s \<Longrightarrow> posts_ok (so_posts s)"
  by (simp add: social_ok_def posts_ok_def)

lemma inj_on_entry: "posts_ok ps \<Longrightarrow> inj_on entry (set ps)"
  by (auto simp: posts_ok_def inj_on_def entry_def uuid_str_inj distinct_map)

lemma posts_ok_newest: "posts_ok ps \<Longrightarrow> posts_ok (take n (newest_first ps))"
proof -
  assume ps: "posts_ok ps"
  have "mset (map po_id (newest_first ps)) = mset (map po_id ps)" by simp
  from mset_eq_imp_distinct_iff [OF this] have "distinct (map po_id (newest_first ps))" using ps by (simp add: posts_ok_def)
  then show ?thesis using ps by (auto simp: posts_ok_def take_map [symmetric] dest: in_set_takeD)
qed

lemma top_n_query:
  assumes "posts_ok ps"
  shows "top_n n (entry ` set ps) (entry ` set (take n (newest_first ps)))"
proof -
  let ?t = "take n (newest_first ps)" and ?d = "drop n (newest_first ps)"
  have ok: "posts_ok ?t" by (rule posts_ok_newest [OF assms])
  have card: "card (entry ` set qs) = length qs" if "posts_ok qs" for qs
    using that by (simp add: card_image [OF inj_on_entry] distinct_card posts_ok_def distinct_map)
  have sub: "set ?t \<subseteq> set ps" using set_take_subset [of n "newest_first ps"] by simp
  have "sorted_wrt (\<lambda>x y. po_created y \<le> po_created x) (?t @ ?d)" using newest_first_sorted by simp
  then have "po_created e \<le> po_created q" if "q \<in> set ?t" "e \<in> set ?d" for e q
    using that unfolding sorted_wrt_append by blast
  moreover have "e \<in> set ?d" if "e \<in> set ps" "e \<notin> set ?t" for e
    using that append_take_drop_id [of n "newest_first ps"] by (metis Un_iff set_append set_newest_first)
  moreover have "dt_ok (po_created p)" if "p \<in> set ps" for p using that assms by (simp add: posts_ok_def)
  moreover have "timestamp a \<le> timestamp b \<longleftrightarrow> a \<le> b" if "dt_ok a" "dt_ok b" for a b
    using timestamp_less [OF that] timestamp_less [OF that(2,1)] by (metis linorder_not_le)
  ultimately have "snd (entry e) \<le> snd (entry q)" if "e \<in> set ps" "e \<notin> set ?t" "q \<in> set ?t" for e q
    using that sub by (auto simp: entry_def)
  then have "\<forall>e \<in> entry ` set ps - entry ` set ?t. \<forall>q \<in> entry ` set ?t. snd e \<le> snd q" by blast
  then show ?thesis
    using sub card [OF assms] card [OF ok] unfolding top_n_def by (simp add: image_mono min.commute)
qed

section \<open>Feeds mirror the tables\<close>

abbreviation friend_entries :: "social \<Rightarrow> uuid \<Rightarrow> (string \<times> int) set" where
  "friend_entries s u \<equiv> entry ` set (friend_posts s u)"

definition feed_mirror :: "int \<Rightarrow> social \<Rightarrow> redis \<Rightarrow> uuid \<Rightarrow> bool" where
  "feed_mirror cap s r u \<longleftrightarrow> top_n (nat cap) (friend_entries s u) (set (zset_at r (feed_key u)))"

definition bodies_ok :: "social \<Rightarrow> redis \<Rightarrow> bool" where
  "bodies_ok s r \<longleftrightarrow> (\<forall>p \<in> set (so_posts s). r (post_key (po_id p)) = Some (Hash (row_to_post_hash p)))"

lemma social_ok_distinct: "social_ok s \<Longrightarrow> distinct (so_friends s)"
  by (simp add: social_ok_def)

lemma posts_ok_friend_posts: "social_ok s \<Longrightarrow> posts_ok (friend_posts s u)"
  by (simp add: friend_posts_eq social_ok_distinct posts_ok_filter social_ok_posts)

lemma friend_entries_insert:
  "friend_entries (sql_insert_post p s) u
     = (if (u, po_author p) \<in> set (so_friends s) then insert (entry p) (friend_entries s u) else friend_entries s u)"
  by (auto simp: set_friend_posts sql_insert_post_def)

text \<open>A new post reaches the feeds of the followers.\<close>

lemma mirror_fan_out:
  assumes "social_ok (sql_insert_post p s)" and "cache_ok r" and "feed_mirror cap s r u"
  defines "r' \<equiv> map_feeds (set (sql_followers s (po_author p)))
    (\<lambda>z. keep cap (zadd (uuid_str (po_id p)) (timestamp (po_created p)) z)) r"
  shows "feed_mirror cap (sql_insert_post p s) r' u"
proof (cases "(u, po_author p) \<in> set (so_friends s)")
  case False
  then show ?thesis using assms(3)
    by (simp add: feed_mirror_def friend_entries_insert r'_def zset_at_map_feeds set_sql_followers)
next
  case True
  let ?z = "zset_at r (feed_key u)"
  let ?y = "zadd (uuid_str (po_id p)) (timestamp (po_created p)) ?z"
  have top: "top_n (nat cap) (friend_entries s u) (set ?z)" using assms(3) by (simp add: feed_mirror_def)
  have "po_id p \<notin> po_id ` set (so_posts s)" using assms(1) by (simp add: social_ok_def sql_insert_post_def)
  then have new: "po_id q \<noteq> po_id p" if "q \<in> set (so_posts s)" for q
    using that by (metis imageI)
  have "fst e \<noteq> uuid_str (po_id p)" if e: "e \<in> set ?z" for e
  proof -
    have "set ?z \<subseteq> friend_entries s u" using top by (simp add: top_n_def)
    then obtain q where "q \<in> set (so_posts s)" "e = entry q"
      using e unfolding set_friend_posts by blast
    then show ?thesis using new [of q] by (simp add: entry_def uuid_str_inj)
  qed
  then have y: "set ?y = insert (entry p) (set ?z)" by (auto simp: set_zadd entry_def)
  have "top_n (nat cap) (friend_entries s u \<union> {entry p}) (set (keep cap ?y))"
  proof (rule top_n_merge [OF _ _ top top_n_singleton])
    show "top_n (nat cap) (set ?y) (set (keep cap ?y))"
      using cache_ok_zset [OF assms(2)] by (intro top_n_keep) auto
  qed (use y top in \<open>auto simp: top_n_def\<close>)
  then show ?thesis
    using True by (simp add: feed_mirror_def friend_entries_insert r'_def zset_at_map_feeds set_sql_followers)
qed

text \<open>The posts of a new friend are merged into the feed.\<close>

lemma mirror_add_friend:
  assumes "social_ok s" and "cache_ok r" and "feed_mirror cap s r u"
    and rows: "rows = take (nat cap) (newest_first (filter (\<lambda>p. po_author p = f) (so_posts s)))"
  shows "top_n (nat cap) (friend_entries (sql_insert_friendship u f s) u)
    (set (if rows = [] then zset_at r (feed_key u) else keep cap (add_rows rows (zset_at r (feed_key u)))))"
proof -
  let ?ps = "filter (\<lambda>p. po_author p = f) (so_posts s)"
  let ?z = "zset_at r (feed_key u)"
  let ?y = "add_rows rows ?z"
  have top: "top_n (nat cap) (friend_entries s u) (set ?z)" using assms(3) by (simp add: feed_mirror_def)
  have ps: "posts_ok ?ps" by (intro posts_ok_filter social_ok_posts assms(1))
  have new: "top_n (nat cap) (entry ` set ?ps) (entry ` set rows)" using top_n_query [OF ps] rows by simp
  have E: "friend_entries (sql_insert_friendship u f s) u = friend_entries s u \<union> entry ` set ?ps"
    by (auto simp: set_friend_posts sql_insert_friendship_def)
  have rows_sub: "set rows \<subseteq> set (so_posts s)" unfolding rows by (auto dest!: in_set_takeD)
  have "set ?y = entry ` set rows \<union> set ?z"
  proof (rule set_add_rows_agree)
    show "distinct (map po_id rows)" using posts_ok_newest [OF ps] rows by (simp add: posts_ok_def)
    show "set ?z \<subseteq> entry ` set (so_posts s)" using top by (fastforce simp: top_n_def set_friend_posts)
    show "distinct (map po_id (so_posts s))" using assms(1) by (simp add: social_ok_def)
  qed (rule rows_sub)
  moreover have "top_n (nat cap) (set ?y) (set (if rows = [] then ?z else keep cap ?y))"
  proof (cases "rows = []")
    case True
    have "card (set ?z) \<le> nat cap" using top by (simp add: top_n_def)
    then show ?thesis using True top_n_whole [of "set ?z" "nat cap"] by (simp add: add_rows_def)
  next
    case False
    then show ?thesis using cache_ok_zset [OF assms(2)] top_n_keep [OF add_rows_ok] by simp
  qed
  moreover have "set ?z \<subseteq> friend_entries s u" "entry ` set rows \<subseteq> entry ` set ?ps"
    using top new by (simp_all add: top_n_def)
  ultimately show ?thesis unfolding E by (intro top_n_merge [OF _ _ top new]) (simp_all add: le_supI1 le_supI2)
qed

text \<open>A rebuild takes the newest posts of the friends from the tables.\<close>

lemma mirror_rebuild:
  assumes "social_ok s" and rows: "rows = take (nat cap) (newest_first (friend_posts s u))"
  shows "top_n (nat cap) (friend_entries s u) (set (add_rows rows []))"
proof -
  have ps: "posts_ok (friend_posts s u)" by (rule posts_ok_friend_posts [OF assms(1)])
  have "set (add_rows rows []) = entry ` set rows"
    using posts_ok_newest [OF ps] rows by (subst set_add_rows) (auto simp: posts_ok_def)
  then show ?thesis using top_n_query [OF ps] rows by simp
qed

end
