(* ===== verification/Database.thy ===== *)
theory Database
  imports Config Uuid
begin

text \<open>
  \<^verbatim>\<open>app/database.py\<close>: the pools of the primary database and its replicas.  Reads go round the
  replicas that answered at start-up, or to the primary when none did.  The outcome of
  \<^verbatim>\<open>asyncpg.create_pool\<close> for a host and a port is the parameter \<open>create_pool\<close>.
\<close>

section \<open>Parsing the list of replicas\<close>

text \<open>\<^verbatim>\<open>int(s)\<close> of a string: blanks around, a sign, decimal digits with single underscores between
  them.\<close>

fun dec_digits_us :: "bool \<Rightarrow> string \<Rightarrow> int list option" where
  "dec_digits_us after_us [] = (if after_us then None else Some [])"
| "dec_digits_us after_us (c # s) =
     (let n = of_char c :: int in
      if 48 \<le> n \<and> n \<le> 57 then map_option (Cons (n - 48)) (dec_digits_us False s)
      else if c = CHR ''_'' \<and> \<not> after_us then dec_digits_us True s
      else None)"

definition py_int :: "string \<Rightarrow> int res" where
  "py_int s =
     (let t = py_strip s;
          (sign, ds) = (case t of
             c # r \<Rightarrow> if c = CHR ''-'' then (-1, r) else if c = CHR ''+'' then (1, r) else (1, t)
           | [] \<Rightarrow> (1, []))
      in if ds = [] then Inl (ValueError ''invalid literal for int()'')
         else case dec_digits_us True ds of
             None \<Rightarrow> Inl (ValueError ''invalid literal for int()'')
           | Some digits \<Rightarrow> Inr (sign * be_value 10 digits))"

text \<open>\<^verbatim>\<open>s.rsplit(":", 1)\<close> of a string that holds a colon.\<close>

definition rsplit_colon :: "string \<Rightarrow> string \<times> string" where
  "rsplit_colon s =
     (let r = rev s in (rev (tl (dropWhile (\<lambda>c. c \<noteq> CHR '':'') r)), rev (takeWhile (\<lambda>c. c \<noteq> CHR '':'') r)))"

fun parse_slave_entries :: "string list \<Rightarrow> (string \<times> int) list res" where
  "parse_slave_entries [] = Inr []"
| "parse_slave_entries (raw # rest) =
     (let entry = py_strip raw in
      if entry = [] then parse_slave_entries rest
      else
        (case (if CHR '':'' \<in> set entry then
                 (let (host, port_str) = rsplit_colon entry in
                  case py_int (py_strip port_str) of
                    Inl e \<Rightarrow> Inl e
                  | Inr port \<Rightarrow> Inr (py_strip host, port))
               else Inr (entry, 5432)) of
           Inl e \<Rightarrow> Inl e
         | Inr hp \<Rightarrow> (case parse_slave_entries rest of Inl e \<Rightarrow> Inl e | Inr hps \<Rightarrow> Inr (hp # hps))))"

definition parse_slave_hosts :: "string \<Rightarrow> (string \<times> int) list res" where
  "parse_slave_hosts raw = parse_slave_entries (py_split (CHR '','') raw)"

section \<open>State and operations\<close>

text \<open>\<^verbatim>\<open>itertools.cycle\<close> is its list and the position of the next element.\<close>

record 'p database =
  db_master_pool :: "'p option"
  db_slave_pools :: "'p list"
  db_slave_cycle :: "('p list \<times> nat) option"

definition initial_database :: "'p database" where
  "initial_database = \<lparr>db_master_pool = None, db_slave_pools = [], db_slave_cycle = None\<rparr>"

fun open_slaves :: "(string \<Rightarrow> int \<Rightarrow> 'p res) \<Rightarrow> (string \<times> int) list \<Rightarrow> 'p list" where
  "open_slaves create_pool [] = []"
| "open_slaves create_pool ((host, port) # hps) =
     (case create_pool host port of
        Inl exc \<Rightarrow> open_slaves create_pool hps
      | Inr p \<Rightarrow> p # open_slaves create_pool hps)"

definition Database_connect :: "settings \<Rightarrow> (string \<Rightarrow> int \<Rightarrow> 'p res) \<Rightarrow> ('p database, unit) prog" where
  "Database_connect S create_pool db =
     (case create_pool (database_host S) (database_port S) of
        Inl e \<Rightarrow> (Inl e, db)
      | Inr master \<Rightarrow>
          let db1 = db\<lparr>db_master_pool := Some master, db_slave_pools := []\<rparr> in
          (case parse_slave_hosts (database_slave_hosts S) of
             Inl e \<Rightarrow> (Inl e, db1)
           | Inr hosts \<Rightarrow>
               let slaves = open_slaves create_pool hosts; db2 = db1\<lparr>db_slave_pools := slaves\<rparr> in
               (Inr (), if slaves \<noteq> [] then db2\<lparr>db_slave_cycle := Some (slaves, 0)\<rparr> else db2)))"

definition Database_disconnect :: "('p database, 'p list) prog" where
  "Database_disconnect db =
     (Inr ((case db_master_pool db of None \<Rightarrow> [] | Some p \<Rightarrow> [p]) @ db_slave_pools db), initial_database)"

definition get_next_slave_pool :: "('p database, 'p) prog" where
  "get_next_slave_pool db =
     (case db_slave_cycle db of
        None \<Rightarrow> (Inl (RuntimeError ''slave pools not initialised''), db)
      | Some (ps, i) \<Rightarrow> (Inr (ps ! i), db\<lparr>db_slave_cycle := Some (ps, Suc i mod length ps)\<rparr>))"

text \<open>The pool a connection is acquired from.\<close>

definition master_connection :: "('p database, 'p) prog" where
  "master_connection db =
     (case db_master_pool db of
        None \<Rightarrow> (Inl (RuntimeError ''master pool not initialised''), db)
      | Some p \<Rightarrow> (Inr p, db))"

definition slave_connection :: "('p database, 'p) prog" where
  "slave_connection db =
     (if db_slave_pools db = [] then master_connection db else get_next_slave_pool db)"

definition Database_connection :: "('p database, 'p) prog" where
  "Database_connection = master_connection"

section \<open>Reads go round the replicas\<close>

fun read_pools :: "nat \<Rightarrow> ('p database, 'p list) prog" where
  "read_pools 0 db = (Inr [], db)"
| "read_pools (Suc n) db = bindP slave_connection (\<lambda>p. bindP (read_pools n) (\<lambda>ps. returnP (p # ps))) db"

lemma open_slaves_eq:
  "open_slaves mk hps = concat (map (\<lambda>(h, p). case mk h p of Inl _ \<Rightarrow> [] | Inr x \<Rightarrow> [x]) hps)"
  by (induction hps) (auto split: sum.splits)

lemma read_pools_cycle:
  assumes "db_slave_pools db = ps" and "db_slave_cycle db = Some (ps, i)" and "i < length ps"
  shows "\<exists>db'. read_pools n db = (Inr (map (\<lambda>j. ps ! ((i + j) mod length ps)) [0..<n]), db')"
  using assms
proof (induction n arbitrary: db i)
  case (Suc n)
  let ?db = "db\<lparr>db_slave_cycle := Some (ps, Suc i mod length ps)\<rparr>"
  have "0 < length ps" using Suc.prems(3) by linarith
  have "\<exists>db'. read_pools n ?db = (Inr (map (\<lambda>j. ps ! ((Suc i mod length ps + j) mod length ps)) [0..<n]), db')"
    using Suc.prems \<open>0 < length ps\<close> by (intro Suc.IH) simp_all
  then obtain db' where "read_pools n ?db = (Inr (map (\<lambda>j. ps ! ((Suc i mod length ps + j) mod length ps)) [0..<n]), db')"
    by blast
  moreover have "slave_connection db = (Inr (ps ! i), ?db)"
    using Suc.prems by (auto simp: slave_connection_def get_next_slave_pool_def)
  moreover have "map (\<lambda>j. ps ! ((i + j) mod length ps)) [0..<Suc n]
      = ps ! i # map (\<lambda>j. ps ! ((Suc i mod length ps + j) mod length ps)) [0..<n]"
    using Suc.prems(3) by (subst upt_conv_Cons) (auto simp: mod_add_left_eq map_Suc_upt [symmetric] simp del: upt_Suc)
  ultimately show ?case by (simp del: upt_Suc)
qed simp

text \<open>after a connect that returns, writes go to the primary; when no replica
  answered every read goes to the primary, otherwise the \<open>j\<close>-th read goes to replica \<open>j mod n\<close> of the
  \<open>n\<close> replicas that answered, in the order of the settings.\<close>

theorem reads_round_robin:
  assumes "Database_connect S mk initial_database = (Inr (), db)"
  shows "\<exists>m hosts. mk (database_host S) (database_port S) = Inr m \<and> master_connection db = (Inr m, db)
    \<and> parse_slave_hosts (database_slave_hosts S) = Inr hosts
    \<and> (let up = open_slaves mk hosts in
       fst (read_pools n db) = Inr (if up = [] then replicate n m else map (\<lambda>j. up ! (j mod length up)) [0..<n]))"
proof -
  from assms obtain m hosts where m: "mk (database_host S) (database_port S) = Inr m"
    and hosts: "parse_slave_hosts (database_slave_hosts S) = Inr hosts"
    by (auto simp: Database_connect_def Let_def split: sum.splits)
  let ?up = "open_slaves mk hosts"
  from assms m hosts have db: "db_master_pool db = Some m" "db_slave_pools db = ?up"
    "?up \<noteq> [] \<Longrightarrow> db_slave_cycle db = Some (?up, 0)"
    by (auto simp: Database_connect_def initial_database_def Let_def)
  have master: "master_connection db = (Inr m, db)" by (simp add: master_connection_def db(1))
  have "fst (read_pools n db) = Inr (replicate n m)" if "?up = []"
  proof -
    have "read_pools n db = (Inr (replicate n m), db)"
      using that master db(2) by (induction n) (simp_all add: slave_connection_def)
    then show ?thesis by simp
  qed
  moreover have "fst (read_pools n db) = Inr (map (\<lambda>j. ?up ! (j mod length ?up)) [0..<n])" if "?up \<noteq> []"
    using read_pools_cycle [of db ?up 0 n] db that by auto
  ultimately show ?thesis using m hosts master by (auto simp: Let_def)
qed

lemma reads_round_robin_witness:
  "fst (bindP (Database_connect default_settings (\<lambda>h p. Inr p)) (\<lambda>_. read_pools 3) initial_database)
     = Inr [5433, 5434, 5433]"
proof -
  have hosts: "parse_slave_hosts (database_slave_hosts default_settings) = Inr [(''localhost'', 5433), (''localhost'', 5434)]"
    by code_simp
  obtain db where db: "Database_connect default_settings (\<lambda>h p. Inr p) initial_database = (Inr (), db)"
    using hosts by (auto simp: Database_connect_def Let_def)
  from reads_round_robin [OF db, of 3] hosts show ?thesis
    by (simp add: db Let_def upt_rec numeral_3_eq_3)
qed

end
