(* ===== verification/Redis_Client.thy ===== *)
theory Redis_Client
  imports Config
begin

text \<open>
  \<^verbatim>\<open>app/redis_client.py\<close>: the process-wide Redis client.  The client that \<^verbatim>\<open>from_url\<close> builds, the outcome of
  its \<^verbatim>\<open>ping\<close> and of its \<^verbatim>\<open>aclose\<close> are parameters.
\<close>

record 'c redis_client =
  rc_client :: "'c option"

definition initial_redis_client :: "'c redis_client" where
  "initial_redis_client = \<lparr>rc_client = None\<rparr>"

definition RedisClient_connect :: "settings \<Rightarrow> (string \<Rightarrow> 'c) \<Rightarrow> ('c \<Rightarrow> unit res) \<Rightarrow> ('c redis_client, unit) prog" where
  "RedisClient_connect S from_url ping =
     (\<lambda>cls. case ping (from_url (redis_url S)) of
        Inl e \<Rightarrow> (Inl e, cls)
      | Inr _ \<Rightarrow> (Inr (), cls\<lparr>rc_client := Some (from_url (redis_url S))\<rparr>))"

definition RedisClient_disconnect :: "('c \<Rightarrow> unit res) \<Rightarrow> ('c redis_client, unit) prog" where
  "RedisClient_disconnect aclose =
     (\<lambda>cls. case rc_client cls of
        None \<Rightarrow> (Inr (), cls)
      | Some c \<Rightarrow> (case aclose c of Inl e \<Rightarrow> (Inl e, cls) | Inr _ \<Rightarrow> (Inr (), cls\<lparr>rc_client := None\<rparr>)))"

definition RedisClient_get :: "('c redis_client, 'c) prog" where
  "RedisClient_get =
     (\<lambda>cls. case rc_client cls of
        None \<Rightarrow> (Inl (RuntimeError ''Redis client is not initialised''), cls)
      | Some c \<Rightarrow> (Inr c, cls))"

end
