(* ===== verification/Web_State.thy ===== *)
theory Web_State
  imports Feed_Cache Database Redis_Client Rabbit_Client
begin

text \<open>
  The state a request handler works on: the pools, the contents of the database behind each pool, the
  Redis client and server, and the message broker.  A write goes to the contents of the primary; what a
  replica holds may lag behind, so the contents of the pools are independent.  Every statement or call
  on one of them is a program on the whole state.
\<close>

record ('p, 'c, 'r, 'b) world =
  wo_database :: "'p database"
  wo_tables :: "'p \<Rightarrow> social"
  wo_redis_client :: "'c redis_client"
  wo_redis :: 'r
  wo_broker :: 'b

text \<open>A statement on \<^verbatim>\<open>Database.master_connection()\<close> and one on \<^verbatim>\<open>Database.slave_connection()\<close>.\<close>

definition on_master :: "(social \<Rightarrow> 'a res \<times> social) \<Rightarrow> (('p, 'c, 'r, 'b) world, 'a) prog" where
  "on_master q w =
     (case fst (master_connection (wo_database w)) of
        Inl e \<Rightarrow> (Inl e, w)
      | Inr p \<Rightarrow> (case q (wo_tables w p) of (x, t) \<Rightarrow> (x, w\<lparr>wo_tables := (wo_tables w)(p := t)\<rparr>)))"

definition on_slave :: "(social \<Rightarrow> 'a res) \<Rightarrow> (('p, 'c, 'r, 'b) world, 'a) prog" where
  "on_slave q w =
     (case slave_connection (wo_database w) of
        (Inl e, d) \<Rightarrow> (Inl e, w\<lparr>wo_database := d\<rparr>)
      | (Inr p, d) \<Rightarrow> (q (wo_tables w p), w\<lparr>wo_database := d\<rparr>))"

text \<open>What a function of the feed cache sees when it reads from the primary.\<close>

definition master_view :: "('p, 'c, 'r, 'b) world \<Rightarrow> social res" where
  "master_view w = (case fst (master_connection (wo_database w)) of Inl e \<Rightarrow> Inl e | Inr p \<Rightarrow> Inr (wo_tables w p))"

definition get_redis :: "(('p, 'c, 'r, 'b) world, unit) prog" where
  "get_redis w = (case fst (RedisClient_get (wo_redis_client w)) of Inl e \<Rightarrow> (Inl e, w) | Inr _ \<Rightarrow> (Inr (), w))"

definition on_redis :: "(social res \<Rightarrow> ('r, 'a) prog) \<Rightarrow> (('p, 'c, 'r, 'b) world, 'a) prog" where
  "on_redis m w = (case m (master_view w) (wo_redis w) of (x, r) \<Rightarrow> (x, w\<lparr>wo_redis := r\<rparr>))"

definition on_broker :: "('b, 'a) prog \<Rightarrow> (('p, 'c, 'r, 'b) world, 'a) prog" where
  "on_broker m w = (case m (wo_broker w) of (x, b) \<Rightarrow> (x, w\<lparr>wo_broker := b\<rparr>))"

text \<open>\<^verbatim>\<open>RabbitClient.publish(routing_key, payload, persistent)\<close>.\<close>

type_synonym 'b publisher = "string \<Rightarrow> json \<Rightarrow> bool \<Rightarrow> ('b, unit) prog"

section \<open>Any server behaves as documented\<close>

definition view_world :: "('r \<Rightarrow> 's) \<Rightarrow> ('p, 'c, 'r, 'b) world \<Rightarrow> ('p, 'c, 's, 'b) world" where
  "view_world view w = \<lparr>wo_database = wo_database w, wo_tables = wo_tables w, wo_redis_client = wo_redis_client w,
     wo_redis = view (wo_redis w), wo_broker = wo_broker w\<rparr>"

lemma view_world_simps [simp]:
  "wo_database (view_world view w) = wo_database w" "wo_tables (view_world view w) = wo_tables w"
  "wo_redis_client (view_world view w) = wo_redis_client w" "wo_redis (view_world view w) = view (wo_redis w)"
  "wo_broker (view_world view w) = wo_broker w" "master_view (view_world view w) = master_view w"
  by (simp_all add: view_world_def master_view_def split: sum.split)

lemma sim_on_master [sim_intros]: "sim (view_world view) (on_master q) (on_master q)"
  by (auto simp: sim_def on_master_def view_world_def split: sum.splits prod.splits)

lemma sim_on_slave [sim_intros]: "sim (view_world view) (on_slave q) (on_slave q)"
  by (auto simp: sim_def on_slave_def view_world_def split: sum.splits prod.splits)

lemma sim_get_redis [sim_intros]: "sim (view_world view) get_redis get_redis"
  by (auto simp: sim_def get_redis_def view_world_def split: sum.splits prod.splits)

lemma sim_on_broker [sim_intros]: "sim (view_world view) (on_broker m) (on_broker m)"
  by (auto simp: sim_def on_broker_def view_world_def split: sum.splits prod.splits)

lemma sim_on_redis [sim_intros]:
  assumes "\<And>db. sim view (m db) (m' db)"
  shows "sim (view_world view) (on_redis m) (on_redis m')"
  unfolding sim_def
proof
  fix w
  obtain x r where m: "m (master_view w) (wo_redis w) = (x, r)" by fastforce
  then have m': "m' (master_view w) (view (wo_redis w)) = (x, view r)" by (rule sim_result [OF assms])
  show "fst (on_redis m w) = fst (on_redis m' (view_world view w))
      \<and> view_world view (snd (on_redis m w)) = snd (on_redis m' (view_world view w))"
    unfolding on_redis_def view_world_simps m m' by (simp add: view_world_def)
qed

end
