(* ===== verification/Routes_Posts.thy ===== *)
theory Routes_Posts
  imports Web_State
begin

text \<open>
  \<^verbatim>\<open>app/routes/posts.py\<close> and \<^verbatim>\<open>app/routes/friends.py\<close>.  A handler takes the authenticated user, as the
  dependency \<^verbatim>\<open>get_current_user\<close> hands it over, and the request; identifiers and times the database
  generates are arguments.  A status 422 is the framework's answer to a query parameter out of its
  declared range.
\<close>

section \<open>Statements\<close>

text \<open>\<^verbatim>\<open>INSERT INTO posts .. RETURNING\<close>: the author has to exist and the identifier has to be new.\<close>

definition stmt_insert_post :: "post \<Rightarrow> social \<Rightarrow> post option res \<times> social" where
  "stmt_insert_post p s =
     (if po_author p \<notin> us_id ` set (so_users s) then (Inl (PostgresError ''foreign key violation''), s)
      else if po_id p \<in> po_id ` set (so_posts s) then (Inl (PostgresError ''unique violation''), s)
      else (Inr (Some p), sql_insert_post p s))"

definition stmt_update_post :: "string \<Rightarrow> uuid \<Rightarrow> uuid \<Rightarrow> social \<Rightarrow> post option res \<times> social" where
  "stmt_update_post text i a s = (case sql_update_post text i a s of (row, s') \<Rightarrow> (Inr row, s'))"

definition stmt_delete_post :: "uuid \<Rightarrow> uuid \<Rightarrow> social \<Rightarrow> post option res \<times> social" where
  "stmt_delete_post i a s = (case sql_delete_post i a s of (row, s') \<Rightarrow> (Inr row, s'))"

definition stmt_select_post :: "uuid \<Rightarrow> social \<Rightarrow> post option res" where
  "stmt_select_post i s = Inr (find (\<lambda>p. po_id p = i) (so_posts s))"

definition stmt_user_exists :: "uuid \<Rightarrow> social \<Rightarrow> bool res \<times> social" where
  "stmt_user_exists u s = (Inr (u \<in> us_id ` set (so_users s)), s)"

definition stmt_insert_friendship :: "uuid \<Rightarrow> uuid \<Rightarrow> social \<Rightarrow> unit res \<times> social" where
  "stmt_insert_friendship u f s =
     (if u = f then (Inl (PostgresError ''check violation''), s)
      else if u \<notin> us_id ` set (so_users s) \<or> f \<notin> us_id ` set (so_users s)
      then (Inl (PostgresError ''foreign key violation''), s)
      else (Inr (), sql_insert_friendship u f s))"

definition stmt_delete_friendship :: "uuid \<Rightarrow> uuid \<Rightarrow> social \<Rightarrow> unit res \<times> social" where
  "stmt_delete_friendship u f s = (Inr (), sql_delete_friendship u f s)"

section \<open>Posts\<close>

record post_response =
  pr_id :: uuid
  pr_text :: string
  pr_author_user_id :: uuid

definition create_post :: "settings \<Rightarrow> 'r server \<Rightarrow> 'b publisher \<Rightarrow> uuid \<Rightarrow> datetime \<Rightarrow> string \<Rightarrow> uuid \<Rightarrow>
    (('p, 'c, 'r, 'b) world, uuid) prog" where
  "create_post S exec publish new_id now text current_user =
     bindP (on_master (stmt_insert_post \<lparr>po_id = new_id, po_author = current_user, po_text = text, po_created = now\<rparr>)) (\<lambda>row.
       case row of
         None \<Rightarrow> raiseP (HTTPException 500 ''Failed to create post'')
       | Some p \<Rightarrow>
           bindP get_redis (\<lambda>_.
           bindP (on_redis (\<lambda>_. store_post_hash exec (po_id p) text current_user (po_created p))) (\<lambda>_.
           bindP
             (if feed_transport S = ''rabbitmq'' then
                on_broker (publish (rabbitmq_materialize_routing_key S)
                  (JObj [(''event_type'', JStr ''created''), (''post_id'', JStr (uuid_str (po_id p))),
                    (''author_id'', JStr (uuid_str current_user)), (''text'', JStr text),
                    (''created_at'', JStr (isoformat (po_created p)))]) True)
              else if feed_fanout_async S then
                on_redis (\<lambda>_. publish_post_event S exec ''created'' (po_id p) current_user (Naive (po_created p)))
              else on_redis (\<lambda>db. fan_out_post S exec db (po_id p) current_user (po_created p)))
             (\<lambda>_. returnP (po_id p)))))"

definition update_post :: "'r server \<Rightarrow> uuid \<Rightarrow> string \<Rightarrow> uuid \<Rightarrow> (('p, 'c, 'r, 'b) world, unit) prog" where
  "update_post exec i text current_user =
     bindP (on_master (stmt_update_post text i current_user)) (\<lambda>row.
       case row of
         None \<Rightarrow> raiseP (HTTPException 404 ''Post not found or not owned by user'')
       | Some p \<Rightarrow>
           bindP get_redis (\<lambda>_.
             on_redis (\<lambda>_. store_post_hash exec i text current_user (po_created p))))"

text \<open>\<open>now\<close> is \<^verbatim>\<open>datetime.now(timezone.utc)\<close>.\<close>

definition delete_post :: "settings \<Rightarrow> 'r server \<Rightarrow> 'b publisher \<Rightarrow> datetime \<Rightarrow> uuid \<Rightarrow> uuid \<Rightarrow>
    (('p, 'c, 'r, 'b) world, unit) prog" where
  "delete_post S exec publish now i current_user =
     bindP (on_master (stmt_delete_post i current_user)) (\<lambda>row.
       case row of
         None \<Rightarrow> raiseP (HTTPException 404 ''Post not found or not owned by user'')
       | Some _ \<Rightarrow>
           bindP get_redis (\<lambda>_.
           bindP (on_redis (\<lambda>_. delete_post_hash exec i)) (\<lambda>_.
             if feed_transport S = ''rabbitmq'' then
               on_broker (publish (rabbitmq_materialize_routing_key S)
                 (JObj [(''event_type'', JStr ''deleted''), (''post_id'', JStr (uuid_str i)),
                   (''author_id'', JStr (uuid_str current_user)), (''created_at'', JStr (moment_iso (Utc now)))]) True)
             else if feed_fanout_async S then
               on_redis (\<lambda>_. publish_post_event S exec ''deleted'' i current_user (Utc now))
             else on_redis (\<lambda>db. remove_post_from_all_feeds exec db i current_user))))"

definition get_post :: "uuid \<Rightarrow> (('p, 'c, 'r, 'b) world, post_response) prog" where
  "get_post i =
     bindP (on_slave (stmt_select_post i)) (\<lambda>row.
       case row of
         None \<Rightarrow> raiseP (HTTPException 404 ''Post not found'')
       | Some p \<Rightarrow> returnP \<lparr>pr_id = po_id p, pr_text = po_text p, pr_author_user_id = po_author p\<rparr>)"

definition item_post :: "feed_item \<Rightarrow> post_response res" where
  "item_post item =
     (case UUID (fi_id item) of
        Inl e \<Rightarrow> Inl e
      | Inr i \<Rightarrow>
          (case UUID (fi_author_user_id item) of
             Inl e \<Rightarrow> Inl e
           | Inr a \<Rightarrow> Inr \<lparr>pr_id = i, pr_text = fi_text item, pr_author_user_id = a\<rparr>))"

definition get_feed :: "settings \<Rightarrow> 'r server \<Rightarrow> string \<Rightarrow> int \<Rightarrow> int \<Rightarrow> uuid \<Rightarrow>
    (('p, 'c, 'r, 'b) world, post_response list) prog" where
  "get_feed S exec nonce offset limit current_user =
     (if offset < 0 \<or> limit < 1 \<or> 1000 < limit then raiseP (HTTPException 422 ''query parameter out of range'')
      else
        bindP get_redis (\<lambda>_.
        bindP (on_redis (\<lambda>db.
            if feed_transport S = ''rabbitmq'' then read_feed_merged S exec db nonce current_user offset limit
            else read_feed S exec db nonce current_user offset limit)) (\<lambda>items.
          liftP (map_res item_post items))))"

definition rebuild_feed :: "settings \<Rightarrow> 'r server \<Rightarrow> string \<Rightarrow> uuid \<Rightarrow> (('p, 'c, 'r, 'b) world, int) prog" where
  "rebuild_feed S exec nonce current_user =
     bindP get_redis (\<lambda>_. on_redis (\<lambda>db. rebuild_feed_for_user S exec db nonce current_user))"

section \<open>Friends\<close>

definition set_friend :: "settings \<Rightarrow> 'r server \<Rightarrow> uuid \<Rightarrow> uuid \<Rightarrow> (('p, 'c, 'r, 'b) world, unit) prog" where
  "set_friend S exec user_id current_user =
     (if user_id = current_user then raiseP (HTTPException 400 ''Cannot befriend yourself'')
      else
        bindP (on_master (stmt_user_exists user_id)) (\<lambda>exists.
          if \<not> exists then raiseP (HTTPException 404 ''Target user not found'')
          else
            bindP (on_master (stmt_insert_friendship current_user user_id)) (\<lambda>_.
            bindP get_redis (\<lambda>_.
              on_redis (\<lambda>db. add_friend_posts_to_feed S exec db current_user user_id)))))"

definition delete_friend :: "'r server \<Rightarrow> uuid \<Rightarrow> uuid \<Rightarrow> (('p, 'c, 'r, 'b) world, unit) prog" where
  "delete_friend exec user_id current_user =
     bindP (on_master (stmt_delete_friendship current_user user_id)) (\<lambda>_.
     bindP get_redis (\<lambda>_.
       on_redis (\<lambda>_. remove_friend_posts_from_feed exec current_user user_id)))"

section \<open>Any server behaves as documented\<close>

context redis_server
begin

lemma route_sims:
  "sim (view_world view) (create_post S exec publish i t x u) (create_post S redis_step publish i t x u)"
  "sim (view_world view) (update_post exec i x u) (update_post redis_step i x u)"
  "sim (view_world view) (delete_post S exec publish t i u) (delete_post S redis_step publish t i u)"
  "sim (view_world view) (get_feed S exec n off lim u) (get_feed S redis_step n off lim u)"
  "sim (view_world view) (rebuild_feed S exec n u) (rebuild_feed S redis_step n u)"
  "sim (view_world view) (set_friend S exec f u) (set_friend S redis_step f u)"
  "sim (view_world view) (delete_friend exec f u) (delete_friend redis_step f u)"
  unfolding create_post_def update_post_def delete_post_def get_feed_def rebuild_feed_def set_friend_def delete_friend_def
  by - (intro sim_intros feed_sims rebuild_sim read_feed_sim read_feed_merged_sim)+

end

end
