(* ===== verification/Routes_Users.thy ===== *)
theory Routes_Users
  imports Web_State Auth
begin

text \<open>
  \<^verbatim>\<open>app/routes/users.py\<close> with the request and response classes of \<^verbatim>\<open>app/models.py\<close> it uses.  A request holds
  what \<^verbatim>\<open>pydantic\<close> has validated; \<^verbatim>\<open>bcrypt\<close> and \<^verbatim>\<open>jwt\<close> are parameters, as in the theory \<open>Auth\<close>, and a date is
  the text of its ISO form.
\<close>

section \<open>Requests, responses and statements\<close>

record user_register =
  ur_email :: string
  ur_password :: string
  ur_first_name :: string
  ur_last_name :: string
  ur_birthdate :: string
  ur_gender :: string
  ur_interests :: "string option"
  ur_city :: string

record user_login =
  ul_email :: string
  ul_password :: string

record user_response =
  ures_id :: uuid
  ures_email :: string
  ures_first_name :: string
  ures_last_name :: string
  ures_birthdate :: string
  ures_gender :: string
  ures_interests :: "string option"
  ures_city :: string

record user_search_result =
  usr_id :: uuid
  usr_first_name :: string
  usr_second_name :: string
  usr_birthdate :: string
  usr_biography :: "string option"
  usr_city :: string

definition stmt_user_by_email :: "string \<Rightarrow> social \<Rightarrow> user option res \<times> social" where
  "stmt_user_by_email email s = (Inr (find (\<lambda>u. us_email u = email) (so_users s)), s)"

text \<open>A value for a column of type \<^verbatim>\<open>VARCHAR(n)\<close>: blanks beyond the limit are cut off, anything else beyond
  it is an error.\<close>

definition varchar :: "nat \<Rightarrow> string \<Rightarrow> string res" where
  "varchar n s = (if list_all (\<lambda>c. c = CHR '' '') (drop n s) then Inr (take n s) else Inl (PostgresError ''value too long''))"

definition fit_user :: "user \<Rightarrow> user res" where
  "fit_user u =
     bindR (varchar 255 (us_email u)) (\<lambda>email.
     bindR (varchar 255 (us_password_hash u)) (\<lambda>password_hash.
     bindR (varchar 100 (us_first_name u)) (\<lambda>first_name.
     bindR (varchar 100 (us_last_name u)) (\<lambda>last_name.
     bindR (varchar 20 (us_gender u)) (\<lambda>gender.
     bindR (varchar 100 (us_city u)) (\<lambda>city.
       Inr (u\<lparr>us_email := email, us_password_hash := password_hash, us_first_name := first_name,
         us_last_name := last_name, us_gender := gender, us_city := city\<rparr>)))))))"

text \<open>\<^verbatim>\<open>INSERT INTO users .. RETURNING id\<close>: the column types, the primary key and the \<^verbatim>\<open>UNIQUE\<close> constraint on the
  address.\<close>

definition stmt_insert_user :: "user \<Rightarrow> social \<Rightarrow> uuid option res \<times> social" where
  "stmt_insert_user row s =
     (case fit_user row of
        Inl e \<Rightarrow> (Inl e, s)
      | Inr u \<Rightarrow>
          if us_id u \<in> us_id ` set (so_users s) \<or> us_email u \<in> us_email ` set (so_users s)
          then (Inl (PostgresError ''unique violation''), s)
          else (Inr (Some (us_id u)), s\<lparr>so_users := so_users s @ [u]\<rparr>))"

definition stmt_user_by_id :: "uuid \<Rightarrow> social \<Rightarrow> user option res" where
  "stmt_user_by_id i s = Inr (find (\<lambda>u. us_id u = i) (so_users s))"

text \<open>\<^verbatim>\<open>LIKE\<close>: a percent sign stands for any text, an underscore for one character, and a backslash takes the next
  character literally.\<close>

fun sql_like :: "string \<Rightarrow> string \<Rightarrow> bool" where
  "sql_like [] s = (s = [])"
| "sql_like (c # p) s =
     (if c = CHR 0x25 then sql_like p s \<or> (case s of [] \<Rightarrow> False | _ # t \<Rightarrow> sql_like (c # p) t)
      else if c = CHR 0x5F then (case s of [] \<Rightarrow> False | _ # t \<Rightarrow> sql_like p t)
      else if c = CHR 0x5C then
        (case p of [] \<Rightarrow> False | d # q \<Rightarrow> (case s of [] \<Rightarrow> False | x # t \<Rightarrow> x = d \<and> sql_like q t))
      else (case s of [] \<Rightarrow> False | x # t \<Rightarrow> x = c \<and> sql_like p t))"

definition stmt_search :: "string \<Rightarrow> string \<Rightarrow> social \<Rightarrow> user list res" where
  "stmt_search p q s =
     Inr (sort_key us_id (filter (\<lambda>u. sql_like p (us_first_name u) \<and> sql_like q (us_last_name u)) (so_users s)))"

section \<open>Handlers\<close>

definition register_user :: "(string \<Rightarrow> string \<Rightarrow> string) \<Rightarrow> string \<Rightarrow> uuid \<Rightarrow> user_register \<Rightarrow> (('p, 'c, 'r, 'b) world, uuid) prog" where
  "register_user hashpw salt new_id user =
     bindP (on_master (stmt_user_by_email (ur_email user))) (\<lambda>existing.
       if existing \<noteq> None then raiseP (HTTPException 400 ''Email already registered'')
       else
         let password_hash = hash_password hashpw salt (ur_password user) in
         bindP (on_master (stmt_insert_user \<lparr>us_id = new_id, us_email = ur_email user, us_password_hash = password_hash,
             us_first_name = ur_first_name user, us_last_name = ur_last_name user, us_birthdate = ur_birthdate user,
             us_gender = ur_gender user, us_interests = ur_interests user, us_city = ur_city user\<rparr>)) (\<lambda>row.
           case row of
             None \<Rightarrow> raiseP (HTTPException 500 ''Failed to create user'')
           | Some i \<Rightarrow> returnP i))"

definition login :: "settings \<Rightarrow> (string \<Rightarrow> string \<Rightarrow> bool) \<Rightarrow> jwt_encoder \<Rightarrow> int \<Rightarrow> user_login \<Rightarrow>
    (('p, 'c, 'r, 'b) world, string) prog" where
  "login S checkpw jwt_encode now credentials =
     bindP (on_master (stmt_user_by_email (ul_email credentials))) (\<lambda>row.
       case row of
         None \<Rightarrow> raiseP (HTTPException 401 ''Invalid email or password'')
       | Some u \<Rightarrow>
           if \<not> verify_password checkpw (ul_password credentials) (us_password_hash u)
           then raiseP (HTTPException 401 ''Invalid email or password'')
           else returnP (create_access_token S jwt_encode now (uuid_str (us_id u))))"

definition get_user :: "uuid \<Rightarrow> (('p, 'c, 'r, 'b) world, user_response) prog" where
  "get_user user_id =
     bindP (on_slave (stmt_user_by_id user_id)) (\<lambda>row.
       case row of
         None \<Rightarrow> raiseP (HTTPException 404 ''User not found'')
       | Some u \<Rightarrow> returnP \<lparr>ures_id = us_id u, ures_email = us_email u, ures_first_name = us_first_name u,
           ures_last_name = us_last_name u, ures_birthdate = us_birthdate u, ures_gender = us_gender u,
           ures_interests = us_interests u, ures_city = us_city u\<rparr>)"

definition search_result :: "user \<Rightarrow> user_search_result" where
  "search_result u = \<lparr>usr_id = us_id u, usr_first_name = us_first_name u, usr_second_name = us_last_name u,
     usr_birthdate = us_birthdate u, usr_biography = us_interests u, usr_city = us_city u\<rparr>"

definition search_users :: "string \<Rightarrow> string \<Rightarrow> (('p, 'c, 'r, 'b) world, user_search_result list) prog" where
  "search_users first_name last_name =
     bindP (on_slave (stmt_search (first_name @ [CHR 0x25]) (last_name @ [CHR 0x25]))) (\<lambda>rows.
       returnP (map search_result rows))"

section \<open>Searching\<close>

definition like_literal :: "string \<Rightarrow> bool" where
  "like_literal s \<longleftrightarrow> CHR 0x25 \<notin> set s \<and> CHR 0x5F \<notin> set s \<and> CHR 0x5C \<notin> set s"

lemma like_any: "sql_like [CHR 0x25] s"
  by (induction s) auto

lemma like_prefix: "like_literal p \<Longrightarrow> sql_like (p @ [CHR 0x25]) s \<longleftrightarrow> take (length p) s = p"
proof (induction p arbitrary: s)
  case Nil
  then show ?case by (simp only: append_Nil like_any) simp
next
  case (Cons c p)
  then show ?case by (cases s) (auto simp: like_literal_def)
qed

text \<open>when the two search texts hold no wildcard and no backslash, the search answers with exactly
  the users of the replica it reads whose first and last names start with them, ordered by identifier,
  and changes no table.\<close>

theorem search_by_prefix:
  assumes "like_literal first_name" and "like_literal last_name"
    and "slave_connection (wo_database w) = (Inr p, d)"
  shows "\<exists>us. search_users first_name last_name w = (Inr (map search_result us), w\<lparr>wo_database := d\<rparr>)
    \<and> sorted (map us_id us)
    \<and> set us = {u \<in> set (so_users (wo_tables w p)). take (length first_name) (us_first_name u) = first_name
        \<and> take (length last_name) (us_last_name u) = last_name}"
proof -
  let ?us = "sort_key us_id (filter (\<lambda>u. sql_like (first_name @ [CHR 0x25]) (us_first_name u)
    \<and> sql_like (last_name @ [CHR 0x25]) (us_last_name u)) (so_users (wo_tables w p)))"
  have "search_users first_name last_name w = (Inr (map search_result ?us), w\<lparr>wo_database := d\<rparr>)"
    using assms(3) by (simp add: search_users_def on_slave_def stmt_search_def bindP_def)
  moreover have "set ?us = {u \<in> set (so_users (wo_tables w p)). take (length first_name) (us_first_name u) = first_name
      \<and> take (length last_name) (us_last_name u) = last_name}"
    using like_prefix [OF assms(1)] like_prefix [OF assms(2)] by auto
  ultimately show ?thesis by (intro exI [of _ ?us]) simp
qed

definition demo_user :: "uuid \<Rightarrow> string \<Rightarrow> user" where
  "demo_user i name = \<lparr>us_id = i, us_email = name @ ''@example.com'', us_password_hash = ''x'', us_first_name = name,
     us_last_name = ''Ivanov'', us_birthdate = ''1990-01-01'', us_gender = ''m'', us_interests = None, us_city = ''Omsk''\<rparr>"

definition demo_world :: "user list \<Rightarrow> (nat, unit, redis, broker) world" where
  "demo_world us = \<lparr>wo_database = \<lparr>db_master_pool = Some 0, db_slave_pools = [1], db_slave_cycle = Some ([1], 0)\<rparr>,
     wo_tables = (\<lambda>_. \<lparr>so_users = us, so_posts = [], so_friends = []\<rparr>), wo_redis_client = \<lparr>rc_client = Some ()\<rparr>,
     wo_redis = Map.empty, wo_broker = demo_broker\<rparr>"

lemma search_by_prefix_witness:
  "\<exists>us. fst (search_users ''Iv'' ''I'' (demo_world [demo_user 7 ''Ivan'', demo_user 3 ''Oleg'', demo_user 2 ''Ivo''])) = Inr (map search_result us)
    \<and> sorted (map us_id us) \<and> set us = {demo_user 7 ''Ivan'', demo_user 2 ''Ivo''}"
proof -
  let ?w = "demo_world [demo_user 7 ''Ivan'', demo_user 3 ''Oleg'', demo_user 2 ''Ivo'']"
  have "slave_connection (wo_database ?w) = (Inr 1, wo_database ?w)"
    by (simp add: slave_connection_def get_next_slave_pool_def demo_world_def)
  from search_by_prefix [of "''Iv''" "''I''", OF _ _ this] obtain us where
    "search_users ''Iv'' ''I'' ?w = (Inr (map search_result us), ?w)" "sorted (map us_id us)"
    "set us = {u \<in> set (so_users (wo_tables ?w 1)). take 2 (us_first_name u) = ''Iv'' \<and> take 1 (us_last_name u) = ''I''}"
    by (auto simp: like_literal_def numeral_2_eq_2)
  moreover from this(3) have "set us = {demo_user 7 ''Ivan'', demo_user 2 ''Ivo''}"
    unfolding set_filter [symmetric] by (simp add: demo_world_def demo_user_def)
  ultimately show ?thesis by (intro exI [of _ us]) simp
qed

text \<open>The search texts go into the \<^verbatim>\<open>LIKE\<close> patterns as they are: an underscore matches any
  character, so a search for names that start with an underscore finds a name that does not.\<close>

theorem search_wildcards_leak:
  "fst (search_users ''_v'' '''' (demo_world [demo_user 7 ''Ivan''])) = Inr [search_result (demo_user 7 ''Ivan'')]"
  by (simp add: search_users_def on_slave_def stmt_search_def demo_world_def demo_user_def slave_connection_def
      get_next_slave_pool_def bindP_def like_any)

section \<open>Registration and login\<close>

text \<open>\<^verbatim>\<open>bcrypt\<close>: a hash serves as its own salt, a password is checked by hashing it again, and a hash fits
  its column.\<close>

locale password_library =
  fixes hashpw :: "string \<Rightarrow> string \<Rightarrow> string" and checkpw :: "string \<Rightarrow> string \<Rightarrow> bool"
  assumes check_hash: "checkpw q h \<longleftrightarrow> hashpw q h = h"
    and hash_as_salt: "hashpw q (hashpw p salt) = hashpw q salt"
    and hash_length: "length (hashpw p salt) \<le> 255"
begin

lemma verify_hashed: "verify_password checkpw q (hash_password hashpw salt p) \<longleftrightarrow> hashpw q salt = hashpw p salt"
  by (simp add: verify_password_def hash_password_def check_hash hash_as_salt)

end

text \<open>Salted SHA-256, with the first 16 characters for the salt.\<close>

definition salt16 :: "string \<Rightarrow> string" where
  "salt16 salt = take 16 (salt @ replicate 16 CHR ''0'')"

definition salted_hash :: "string \<Rightarrow> string \<Rightarrow> string" where
  "salted_hash p salt = salt16 salt @ bytes_hex (sha256 (str_bytes (salt16 salt @ p)))"

definition salted_check :: "string \<Rightarrow> string \<Rightarrow> bool" where
  "salted_check q h \<longleftrightarrow> salted_hash q h = h"

lemma length_bytes_hex: "length (bytes_hex bs) = 2 * length bs"
  unfolding bytes_hex_def by (induction bs) auto

lemma length_salt16 [simp]: "length (salt16 salt) = 16"
  by (simp add: salt16_def)

lemma salt16_again [simp]: "salt16 (salt16 salt @ x) = salt16 salt"
  by (simp add: salt16_def [of "salt16 salt @ x"])

interpretation salted: password_library salted_hash salted_check
  by unfold_locales (simp_all add: salted_check_def salted_hash_def length_bytes_hex)

definition fits_columns :: "user_register \<Rightarrow> bool" where
  "fits_columns user \<longleftrightarrow> length (ur_email user) \<le> 255 \<and> length (ur_first_name user) \<le> 100
     \<and> length (ur_last_name user) \<le> 100 \<and> length (ur_gender user) \<le> 20 \<and> length (ur_city user) \<le> 100"

lemma varchar_fits [simp]: "length s \<le> n \<Longrightarrow> varchar n s = Inr s"
  by (simp add: varchar_def)

lemma find_email_None: "find (\<lambda>u. us_email u = e) us = None \<longleftrightarrow> e \<notin> us_email ` set us"
  by (auto simp: find_None_iff)

lemma find_last: "\<not> (\<exists>x \<in> set xs. P x) \<Longrightarrow> P y \<Longrightarrow> find P (xs @ [y]) = Some y"
  by (induction xs) auto

text \<open>C22: a registration with a new address and a new identifier succeeds; afterwards a login with
  this address and a password whose hash agrees with the registered one returns a token that
  authenticates exactly the new user until it expires, a login with another password is refused with
  401, and a second registration of the address is refused with 400.\<close>

theorem register_then_login:
  assumes "password_library hashpw checkpw" and "token_library jwt_encode jwt_decode"
    and "db_master_pool (wo_database w) = Some p"
    and "ur_email user \<notin> us_email ` set (so_users (wo_tables w p))" and "i \<notin> us_id ` set (so_users (wo_tables w p))"
    and "fits_columns user"
  shows "\<exists>w'. register_user hashpw salt i user w = (Inr i, w')
    \<and> (\<exists>token. login S checkpw jwt_encode now \<lparr>ul_email = ur_email user, ul_password = ur_password user\<rparr> w' = (Inr token, w')
        \<and> get_current_user S jwt_decode later token
            = (if later < now + 60 * jwt_expire_minutes S then Inr i else Inl (HTTPException 401 ''Invalid or expired token'')))
    \<and> (hashpw q salt \<noteq> hashpw (ur_password user) salt \<longrightarrow>
        login S checkpw jwt_encode now \<lparr>ul_email = ur_email user, ul_password = q\<rparr> w'
          = (Inl (HTTPException 401 ''Invalid email or password''), w'))
    \<and> register_user hashpw salt' j (user'\<lparr>ur_email := ur_email user\<rparr>) w'
        = (Inl (HTTPException 400 ''Email already registered''), w')"
proof -
  let ?u = "\<lparr>us_id = i, us_email = ur_email user, us_password_hash = hash_password hashpw salt (ur_password user),
             us_first_name = ur_first_name user, us_last_name = ur_last_name user, us_birthdate = ur_birthdate user,
             us_gender = ur_gender user, us_interests = ur_interests user, us_city = ur_city user\<rparr>"
  let ?s = "(wo_tables w p)\<lparr>so_users := so_users (wo_tables w p) @ [?u]\<rparr>"
  let ?w = "w\<lparr>wo_tables := (wo_tables w)(p := ?s)\<rparr>"
  have fit: "fit_user ?u = Inr ?u"
    using assms(6) password_library.hash_length [OF assms(1)]
    by (simp add: fit_user_def bindR_def fits_columns_def hash_password_def)
  have "find (\<lambda>u. us_email u = ur_email user) (so_users (wo_tables w p)) = None"
    using assms(4) find_email_None by metis
  then have reg: "register_user hashpw salt i user w = (Inr i, ?w)"
    using assms(3,4,5) fit
    by (simp add: register_user_def on_master_def master_connection_def stmt_user_by_email_def stmt_insert_user_def bindP_def Let_def)
  have found: "find (\<lambda>u. us_email u = ur_email user) (so_users (wo_tables w p) @ [?u]) = Some ?u"
    using assms(4) by (intro find_last) (auto simp: image_iff)
  have verify: "verify_password checkpw q (us_password_hash ?u) \<longleftrightarrow> hashpw q salt = hashpw (ur_password user) salt" for q
    using password_library.verify_hashed [OF assms(1)] by simp
  have login: "login S checkpw jwt_encode now \<lparr>ul_email = ur_email user, ul_password = q\<rparr> ?w
      = (if hashpw q salt = hashpw (ur_password user) salt then Inr (create_access_token S jwt_encode now (uuid_str i))
         else Inl (HTTPException 401 ''Invalid email or password''), ?w)" for q
    using assms(3) found verify [of q]
    by (simp add: login_def on_master_def master_connection_def stmt_user_by_email_def bindP_def)
  have "register_user hashpw salt' j (user'\<lparr>ur_email := ur_email user\<rparr>) ?w
      = (Inl (HTTPException 400 ''Email already registered''), ?w)"
    using assms(3) found by (simp add: register_user_def on_master_def master_connection_def stmt_user_by_email_def bindP_def)
  then show ?thesis
    using reg login token_library.current_user_created [OF assms(2)] by (intro exI [of _ ?w]) simp
qed

definition demo_register :: user_register where
  "demo_register = \<lparr>ur_email = ''ann@example.com'', ur_password = ''secret'', ur_first_name = ''Ann'', ur_last_name = ''Lee'',
     ur_birthdate = ''1990-01-01'', ur_gender = ''f'', ur_interests = None, ur_city = ''Omsk''\<rparr>"

lemma register_then_login_witness:
  "\<exists>w' token. register_user salted_hash ''salt'' 5 demo_register (demo_world []) = (Inr 5, w')
    \<and> login default_settings salted_check signed_encode 0 \<lparr>ul_email = ''ann@example.com'', ul_password = ''secret''\<rparr> w' = (Inr token, w')
    \<and> get_current_user default_settings signed_decode 3599 token = Inr 5"
proof -
  have "fits_columns demo_register" by (simp add: fits_columns_def demo_register_def)
  from register_then_login [OF salted.password_library_axioms signed.token_library_axioms _ _ _ this,
      of "demo_world []" 0 5 "''salt''" default_settings 0 3599 "[]" "[]" 6 demo_register]
  show ?thesis by (auto simp: demo_world_def demo_register_def default_settings_def)
qed

end
