(* ===== verification/Feed_Invariant.thy ===== *)
theory Feed_Invariant
  imports Feed_Spec Routes_Posts Routes_Users
begin

text \<open>
  The state of tables and cache between two requests when posts are fanned out synchronously: every
  post has its body in the cache and the feed of every user holds exactly the posts of the friends.
  Each change of the tables together with the cache operation that follows it keeps this.
\<close>

section \<open>The invariant\<close>

definition feeds_ok :: "social \<Rightarrow> redis \<Rightarrow> bool" where
  "feeds_ok s r \<longleftrightarrow> social_ok s \<and> cache_ok r \<and> bodies_ok s r \<and> (\<forall>u n. r (tmp_key u n) = None)
     \<and> (\<forall>u. set (zset_at r (feed_key u)) = friend_entries s u)"

text \<open>No user has more posts of friends than a feed holds.\<close>

definition small_feeds :: "settings \<Rightarrow> social \<Rightarrow> bool" where
  "small_feeds S s \<longleftrightarrow> (\<forall>u. length (friend_posts s u) \<le> nat (feed_max_size S))"

lemma mirror_exact:
  assumes "small_feeds S s"
  shows "top_n (nat (feed_max_size S)) (friend_entries s u) Z \<longleftrightarrow> Z = friend_entries s u"
proof (rule top_n_whole)
  have "card (friend_entries s u) \<le> length (friend_posts s u)"
    using card_image_le [of "set (friend_posts s u)" entry] card_length [of "friend_posts s u"] by simp
  also have "\<dots> \<le> nat (feed_max_size S)" using assms by (simp add: small_feeds_def)
  finally show "card (friend_entries s u) \<le> nat (feed_max_size S)" .
qed simp

lemma feeds_ok_mirror: "feeds_ok s r \<Longrightarrow> top_n (card (friend_entries s u)) (friend_entries s u) (set (zset_at r (feed_key u)))"
  by (simp add: feeds_ok_def top_n_def)

lemma feeds_ok_cache: "feeds_ok s r \<Longrightarrow> cache_ok r"
  by (simp add: feeds_ok_def)

lemma feeds_ok_social: "feeds_ok s r \<Longrightarrow> social_ok s"
  by (simp add: feeds_ok_def)

section \<open>Bodies\<close>

lemma store_effect:
  assumes "cache_ok r"
  shows "store_post_hash redis_step i x a t r
    = (Inr (), r(post_key i \<mapsto> Hash (row_to_post_hash \<lparr>po_id = i, po_author = a, po_text = x, po_created = t\<rparr>)))"
proof -
  let ?p = "\<lparr>po_id = i, po_author = a, po_text = x, po_created = t\<rparr>"
  have "hash_or_none (r (post_key i))" using assms by (simp add: cache_ok_def)
  from pipe_Cons_runs [OF hset_runs [of r "post_key i" ?p, OF this] pipe_Cons_runs [OF expire_runs pipe_Nil_runs]]
  show ?thesis by (simp add: store_post_hash_def runs_voidP row_to_post_hash_def)
qed

lemma cache_ok_store: "cache_ok r \<Longrightarrow> cache_ok (r(post_key i \<mapsto> Hash (row_to_post_hash p)))"
  by (auto simp: cache_ok_def zset_at_def hash_or_none_def)

lemma cache_ok_delete: "cache_ok r \<Longrightarrow> cache_ok (r(post_key i := None))"
  by (auto simp: cache_ok_def zset_at_def hash_or_none_def)

lemma zset_at_store [simp]: "zset_at (r(post_key i := v)) (feed_key u) = zset_at r (feed_key u)"
  by (simp add: zset_at_def)

section \<open>A new post\<close>

lemma feeds_ok_create:
  assumes ok: "feeds_ok s r" and new: "po_author p \<in> us_id ` set (so_users s)" "po_id p \<notin> po_id ` set (so_posts s)" "dt_ok (po_created p)"
    and small: "small_feeds S (sql_insert_post p s)"
  defines "r1 \<equiv> r(post_key (po_id p) \<mapsto> Hash (row_to_post_hash p))"
  defines "r2 \<equiv> map_feeds (set (sql_followers s (po_author p)))
      (\<lambda>z. keep (feed_max_size S) (zadd (uuid_str (po_id p)) (timestamp (po_created p)) z)) r1"
  shows "feeds_ok (sql_insert_post p s) r2"
proof -
  have social: "social_ok (sql_insert_post p s)"
    using ok new by (auto simp: feeds_ok_def social_ok_def sql_insert_post_def)
  have c1: "cache_ok r1" using ok by (simp add: r1_def feeds_ok_def cache_ok_store)
  have c2: "cache_ok r2" unfolding r2_def by (rule cache_ok_map_feeds [OF c1]) auto
  have small0: "small_feeds S s"
    unfolding small_feeds_def
  proof
    fix u
    have "length (friend_posts s u) \<le> length (friend_posts (sql_insert_post p s) u)"
      using ok social by (simp add: friend_posts_eq social_ok_distinct feeds_ok_def)
        (simp add: sql_insert_post_def sql_friends_def)
    also have "\<dots> \<le> nat (feed_max_size S)" using small by (simp add: small_feeds_def)
    finally show "length (friend_posts s u) \<le> nat (feed_max_size S)" .
  qed
  have "set (zset_at r2 (feed_key u)) = friend_entries (sql_insert_post p s) u" for u
  proof -
    have "feed_mirror (feed_max_size S) s r1 u"
      using ok small0 by (simp add: feed_mirror_def r1_def feeds_ok_def mirror_exact)
    from mirror_fan_out [OF social c1 this] show ?thesis
      using mirror_exact [OF small] by (simp add: r2_def feed_mirror_def)
  qed
  moreover have "bodies_ok (sql_insert_post p s) r2"
    using ok new(2) by (auto simp: bodies_ok_def feeds_ok_def r2_def r1_def map_feeds_def sql_insert_post_def image_iff)
  moreover have "r2 (tmp_key u n) = None" for u n
    using ok by (auto simp: feeds_ok_def r2_def r1_def map_feeds_def image_iff)
  ultimately show ?thesis using social c2 by (simp add: feeds_ok_def)
qed

section \<open>A changed and a deleted post\<close>

lemma find_owned:
  assumes "find (owned i a) ps = Some p"
  shows "p \<in> set ps" and "po_id p = i" and "po_author p = a"
  using assms by (auto simp: find_Some_iff owned_def)

lemma feeds_ok_update:
  assumes ok: "feeds_ok s r" and row: "sql_update_post x i a s = (Some p, s')"
  shows "feeds_ok s' (r(post_key i \<mapsto> Hash (row_to_post_hash p)))"
proof -
  let ?f = "\<lambda>q. if owned i a q then q\<lparr>po_text := x\<rparr> else q"
  obtain p0 where p0: "find (owned i a) (so_posts s) = Some p0" "p = p0\<lparr>po_text := x\<rparr>"
    and s': "s' = s\<lparr>so_posts := map ?f (so_posts s)\<rparr>"
    using row by (auto simp: sql_update_post_def)
  have keeps: "po_id (?f q) = po_id q" "po_author (?f q) = po_author q" "po_created (?f q) = po_created q" for q by auto
  have ids: "map po_id (so_posts s') = map po_id (so_posts s)" unfolding s' by (simp add: o_def keeps)
  have us: "so_users s' = so_users s" "so_friends s' = so_friends s" by (simp_all add: s')
  have dates: "po_author q \<in> us_id ` set (so_users s) \<and> dt_ok (po_created q)" if q: "q \<in> set (so_posts s')" for q
  proof -
    obtain q0 where "q0 \<in> set (so_posts s)" "q = ?f q0" using q unfolding s' by auto
    then show ?thesis using ok keeps [of q0] by (simp add: feeds_ok_def social_ok_def)
  qed
  then have social: "social_ok s'" using ok unfolding feeds_ok_def social_ok_def us ids by blast
  have entries: "friend_entries s' u = friend_entries s u" for u
  proof -
    have "entry (?f q) = entry q" for q by (simp add: entry_def keeps)
    moreover have "set (friend_posts s' u) = ?f ` set (friend_posts s u)"
      by (auto simp: set_friend_posts s' keeps)
    ultimately show ?thesis by (simp only: image_image)
  qed
  have hit: "?f q = p" if "q \<in> set (so_posts s)" "po_id q = i" for q
  proof -
    have "q = p0" using filter_map_fst_unique [of po_id "so_posts s" q p0] that find_owned [OF p0(1)] ok
      by (simp add: feeds_ok_def social_ok_def)
    then show ?thesis using find_owned [OF p0(1)] p0(2) by (simp add: owned_def)
  qed
  have "bodies_ok s' (r(post_key i \<mapsto> Hash (row_to_post_hash p)))"
    unfolding bodies_ok_def
  proof
    fix q'
    assume "q' \<in> set (so_posts s')"
    then obtain q where q: "q \<in> set (so_posts s)" "q' = ?f q" unfolding s' by auto
    show "(r(post_key i \<mapsto> Hash (row_to_post_hash p))) (post_key (po_id q')) = Some (Hash (row_to_post_hash q'))"
    proof (cases "po_id q = i")
      case True
      then show ?thesis using hit [OF q(1)] q(2) keeps(1) [of q] by simp
    next
      case False
      then have "q' = q" using q(2) by (simp add: owned_def)
      then show ?thesis using ok q(1) False by (simp add: feeds_ok_def bodies_ok_def)
    qed
  qed
  then show ?thesis using ok social entries by (auto simp: feeds_ok_def cache_ok_store)
qed

lemma feeds_ok_delete:
  assumes ok: "feeds_ok s r" and row: "sql_delete_post i a s = (Some p, s')"
  shows "feeds_ok s' (map_feeds (set (sql_followers s' a)) (zrem [uuid_str i]) (r(post_key i := None)))"
proof -
  let ?r = "map_feeds (set (sql_followers s' a)) (zrem [uuid_str i]) (r(post_key i := None))"
  have p: "p \<in> set (so_posts s)" "po_id p = i" "po_author p = a"
    and s': "s' = s\<lparr>so_posts := filter (\<lambda>q. \<not> owned i a q) (so_posts s)\<rparr>"
    using row find_owned by (auto simp: sql_delete_post_def)
  have same: "q = p" if "q \<in> set (so_posts s)" "po_id q = i" for q
    using filter_map_fst_unique [of po_id "so_posts s" q p] that p ok by (simp add: feeds_ok_def social_ok_def)
  have social: "social_ok s'"
    using ok by (auto simp: feeds_ok_def social_ok_def s' distinct_map_filter)
  have "cache_ok ?r"
    using ok by (intro cache_ok_map_feeds cache_ok_delete) (auto simp: feeds_ok_def)
  moreover have "bodies_ok s' ?r"
    unfolding bodies_ok_def
  proof
    fix q
    assume q: "q \<in> set (so_posts s')"
    then have q: "q \<in> set (so_posts s)" "\<not> owned i a q" by (simp_all add: s')
    then have "po_id q \<noteq> i" using same [of q] p by (metis owned_def)
    with q show "?r (post_key (po_id q)) = Some (Hash (row_to_post_hash q))"
      using ok by (simp add: map_feeds_def image_iff feeds_ok_def bodies_ok_def)
  qed
  moreover have "?r (tmp_key u n) = None" for u n using ok by (auto simp: feeds_ok_def map_feeds_def image_iff)
  moreover have "set (zset_at ?r (feed_key u)) = friend_entries s' u" for u
  proof -
    have E: "friend_entries s' u = {e \<in> friend_entries s u. fst e \<noteq> uuid_str i}"
    proof -
      have "owned i a q \<longleftrightarrow> fst (entry q) = uuid_str i" if "q \<in> set (so_posts s)" for q
        using same [OF that] p by (auto simp: owned_def entry_def uuid_str_inj)
      then show ?thesis by (auto simp: set_friend_posts s')
    qed
    have no: "{e \<in> friend_entries s u. fst e \<noteq> uuid_str i} = friend_entries s u" if "(u, a) \<notin> set (so_friends s)"
    proof -
      have "fst (entry q) \<noteq> uuid_str i" if "q \<in> set (friend_posts s u)" for q
        using that same [of q] p \<open>(u, a) \<notin> set (so_friends s)\<close>
        by (auto simp: set_friend_posts entry_def uuid_str_inj)
      then show ?thesis by auto
    qed
    have "set (zrem [uuid_str i] (zset_at r (feed_key u))) = {e \<in> friend_entries s u. fst e \<noteq> uuid_str i}"
      using ok by (auto simp: zrem_def feeds_ok_def)
    moreover have "set (zset_at r (feed_key u)) = friend_entries s u" using ok by (simp add: feeds_ok_def)
    moreover have "u \<in> set (sql_followers s' a) \<longleftrightarrow> (u, a) \<in> set (so_friends s)" by (simp add: set_sql_followers s')
    ultimately show ?thesis unfolding E using no by (simp add: zset_at_map_feeds)
  qed
  ultimately show ?thesis using social by (simp add: feeds_ok_def)
qed

section \<open>Friends\<close>

lemma with_bodies_agree:
  assumes "bodies_ok s r" and "set rows \<subseteq> set (so_posts s)"
  shows "with_bodies rows r = r"
  using assms(2)
proof (induction rows)
  case (Cons x rows)
  have "r(post_key (po_id x) \<mapsto> Hash (row_to_post_hash x)) = r"
    using assms(1) Cons.prems by (auto simp: bodies_ok_def)
  then show ?case using Cons by (simp add: with_bodies_def)
qed (simp add: with_bodies_def)

lemma feeds_ok_put:
  assumes ok: "feeds_ok s r" and social: "social_ok s'" and posts: "so_posts s' = so_posts s"
    and z: "zset_ok z" "set z = friend_entries s' u"
    and others: "\<And>v. v \<noteq> u \<Longrightarrow> friend_entries s' v = friend_entries s v"
  shows "feeds_ok s' (put_zset (feed_key u) z r)"
proof -
  have "fst ` set z \<subseteq> range uuid_str" unfolding z(2) by (auto simp: entry_def)
  then have "cache_ok (put_zset (feed_key u) z r)"
    using ok z(1) by (intro cache_ok_put_feed) (auto simp: feeds_ok_def post_members_def)
  then show ?thesis using ok social z(2) others by (auto simp: feeds_ok_def bodies_ok_def posts)
qed

lemma feeds_ok_befriend:
  assumes ok: "feeds_ok s r" and u: "u \<noteq> f" "u \<in> us_id ` set (so_users s)" "f \<in> us_id ` set (so_users s)"
    and small: "small_feeds S (sql_insert_friendship u f s)"
    and rows: "rows = take (nat (feed_max_size S)) (newest_first (filter (\<lambda>p. po_author p = f) (so_posts s)))"
  shows "feeds_ok (sql_insert_friendship u f s) (if rows = [] then r
      else put_zset (feed_key u) (keep (feed_max_size S) (add_rows rows (zset_at r (feed_key u)))) (with_bodies rows r))"
proof -
  let ?s = "sql_insert_friendship u f s"
  let ?z = "if rows = [] then zset_at r (feed_key u) else keep (feed_max_size S) (add_rows rows (zset_at r (feed_key u)))"
  have social: "social_ok ?s" using ok u by (auto simp: feeds_ok_def social_ok_def sql_insert_friendship_def)
  have rows_sub: "set rows \<subseteq> set (so_posts s)" unfolding rows by (auto dest!: in_set_takeD)
  have wb: "with_bodies rows r = r" using with_bodies_agree [OF _ rows_sub] ok by (simp add: feeds_ok_def)
  have sub: "friend_entries s u \<subseteq> friend_entries ?s u" by (auto simp: set_friend_posts sql_insert_friendship_def)
  have "card (friend_entries s u) \<le> card (friend_entries ?s u)" by (rule card_mono [OF _ sub]) simp
  also have "\<dots> \<le> nat (feed_max_size S)"
    using mirror_exact [OF small, of u "friend_entries ?s u"] by (simp add: top_n_def)
  finally have "top_n (nat (feed_max_size S)) (friend_entries s u) (set (zset_at r (feed_key u)))"
    using ok by (subst top_n_whole) (simp_all add: feeds_ok_def)
  then have "set ?z = friend_entries ?s u"
    using mirror_add_friend [of s r "feed_max_size S" u rows f] ok rows mirror_exact [OF small]
    by (simp add: feed_mirror_def feeds_ok_def)
  moreover have "zset_ok ?z" using cache_ok_zset [of r u] ok by (auto simp: feeds_ok_def intro!: add_rows_ok)
  moreover have "friend_entries ?s v = friend_entries s v" if "v \<noteq> u" for v
    using that by (auto simp: set_friend_posts sql_insert_friendship_def)
  ultimately have "feeds_ok ?s (put_zset (feed_key u) ?z r)"
    using ok social by (intro feeds_ok_put) (auto simp: sql_insert_friendship_def)
  moreover have "put_zset (feed_key u) (zset_at r (feed_key u)) r = r"
    using ok by (intro put_zset_id) (simp add: feeds_ok_def)
  ultimately show ?thesis unfolding wb by (cases "rows = []") simp_all
qed

lemma body_at_post: "bodies_ok s r \<Longrightarrow> p \<in> set (so_posts s) \<Longrightarrow> body_at r (uuid_str (po_id p)) = row_to_post_hash p"
  by (simp add: body_at_def UUID_str bodies_ok_def)

lemma feeds_ok_unfriend:
  assumes ok: "feeds_ok s r"
  shows "feeds_ok (sql_delete_friendship u f s) (put_zset (feed_key u)
    (filter (\<lambda>e. map_of (body_at r (fst e)) ''author_id'' \<noteq> Some (uuid_str f)) (zset_at r (feed_key u))) r)"
proof -
  let ?s = "sql_delete_friendship u f s"
  let ?keep = "\<lambda>e. map_of (body_at r (fst e)) ''author_id'' \<noteq> Some (uuid_str f)"
  have social: "social_ok ?s" using ok by (auto simp: feeds_ok_def social_ok_def sql_delete_friendship_def)
  have author: "?keep (entry p) \<longleftrightarrow> po_author p \<noteq> f" if "p \<in> set (so_posts s)" for p
    using body_at_post [OF _ that, of r] ok by (simp add: feeds_ok_def entry_def row_to_post_hash_def uuid_str_inj)
  have "set (filter ?keep (zset_at r (feed_key u))) = {e \<in> friend_entries s u. ?keep e}"
    using ok by (auto simp: feeds_ok_def)
  also have "\<dots> = entry ` {p \<in> set (friend_posts s u). po_author p \<noteq> f}"
    using author by (auto simp: set_friend_posts)
  also have "\<dots> = friend_entries ?s u"
    by (rule arg_cong [of _ _ "image entry"]) (auto simp: set_friend_posts sql_delete_friendship_def)
  finally have "set (filter ?keep (zset_at r (feed_key u))) = friend_entries ?s u" .
  moreover have "zset_ok (filter ?keep (zset_at r (feed_key u)))"
    using cache_ok_zset [of r u] ok by (auto simp: feeds_ok_def)
  moreover have "friend_entries ?s v = friend_entries s v" if "v \<noteq> u" for v
    by (rule arg_cong [of _ _ "image entry"]) (use that in \<open>auto simp: set_friend_posts sql_delete_friendship_def\<close>)
  ultimately show ?thesis
    using ok social by (intro feeds_ok_put) (auto simp: sql_delete_friendship_def)
qed

section \<open>Rebuild and read\<close>

lemma rebuild_keeps:
  assumes ok: "feeds_ok s r" and small: "small_feeds S s" and cap: "0 \<le> feed_max_size S"
  shows "rebuild_feed_for_user S redis_step (Inr s) n u r = (Inr (int (length (friend_posts s u))), r)"
proof -
  let ?rows = "take (nat (feed_max_size S)) (newest_first (friend_posts s u))"
  have len: "length ?rows = length (friend_posts s u)" using small by (simp add: small_feeds_def)
  have sub: "set ?rows \<subseteq> set (so_posts s)" by (auto dest!: in_set_takeD simp: set_friend_posts)
  have z: "set (add_rows ?rows []) = friend_entries s u"
    using mirror_rebuild [of s ?rows "feed_max_size S" u] ok mirror_exact [OF small] by (simp add: feeds_ok_def)
  have "add_rows ?rows [] = zset_at r (feed_key u)"
    using ok z cache_ok_zset [of r u] by (intro zset_unique add_rows_ok) (auto simp: feeds_ok_def)
  moreover have "with_bodies ?rows r = r" using with_bodies_agree [OF _ sub] ok by (simp add: feeds_ok_def)
  ultimately have "put_zset (feed_key u) (add_rows ?rows []) (with_bodies ?rows r) = r"
    using ok by (simp add: put_zset_id feeds_ok_def)
  then show ?thesis
    using rebuild_effect [of r u n S ?rows s] ok cap len by (simp add: feeds_ok_def)
qed

text \<open>The posts of the friends, newest first, equal times by identifier.\<close>

definition newest_friend_posts :: "social \<Rightarrow> uuid \<Rightarrow> post list" where
  "newest_friend_posts s u = rev (sort_key (\<lambda>p. (po_created p, uuid_str (po_id p))) (friend_posts s u))"

definition post_reply :: "post \<Rightarrow> post_response" where
  "post_reply p = \<lparr>pr_id = po_id p, pr_text = po_text p, pr_author_user_id = po_author p\<rparr>"

lemma sorted_entries:
  assumes "posts_ok ps"
  shows "zset_ok (map entry (sort_key (\<lambda>p. (po_created p, uuid_str (po_id p))) ps))"
proof -
  let ?k = "\<lambda>p. (po_created p, uuid_str (po_id p))"
  let ?qs = "sort_key ?k ps"
  have ok: "dt_ok (po_created p)" if "p \<in> set ?qs" for p using that assms by (simp add: posts_ok_def)
  have le: "zkey (entry p) \<le> zkey (entry q)" if "?k p \<le> ?k q" "p \<in> set ?qs" "q \<in> set ?qs" for p q
    using that timestamp_less [OF ok ok, OF that(2,3)] by (auto simp: less_eq_prod_def entry_def)
  have "sorted_wrt (\<lambda>p q. ?k p \<le> ?k q) ?qs"
    using sorted_sort_key [of ?k ps] by (simp add: sorted_wrt_map)
  then have "sorted_wrt (\<lambda>p q. zkey (entry p) \<le> zkey (entry q)) ?qs"
    by (rule sorted_wrt_mono_rel [rotated]) (rule le)
  moreover have "mset (map po_id ?qs) = mset (map po_id ps)" by simp
  from mset_eq_imp_distinct_iff [OF this] have "distinct (map (fst \<circ> entry) ?qs)"
    using assms by (auto simp: posts_ok_def entry_def distinct_map inj_on_def uuid_str_inj)
  ultimately show ?thesis by (simp add: zset_ok_def sorted_wrt_map o_def)
qed

lemma feed_zset:
  assumes "feeds_ok s r"
  shows "rev (map fst (zset_at r (feed_key u))) = map (uuid_str \<circ> po_id) (newest_friend_posts s u)"
proof -
  let ?qs = "sort_key (\<lambda>p. (po_created p, uuid_str (po_id p))) (friend_posts s u)"
  have "zset_at r (feed_key u) = map entry ?qs"
    using assms sorted_entries [OF posts_ok_friend_posts, of s u] cache_ok_zset [of r u]
    by (intro zset_unique) (auto simp: feeds_ok_def)
  then show ?thesis by (simp add: newest_friend_posts_def rev_map o_def entry_def)
qed

lemma set_newest_friend_posts: "set (newest_friend_posts s u) = set (friend_posts s u)"
  by (simp add: newest_friend_posts_def)

text \<open>A page of the feed holds the newest posts of the friends, and reading it changes nothing.\<close>

lemma read_feed_keeps:
  assumes ok: "feeds_ok s r" and small: "small_feeds S s" and cap: "0 \<le> feed_max_size S"
    and page: "0 \<le> offset" "0 < limit"
  shows "\<exists>items. read_feed S redis_step (Inr s) n u offset limit r = (Inr items, r)
    \<and> map_res item_post items = Inr (take (nat limit) (drop (nat offset) (map post_reply (newest_friend_posts s u))))"
proof -
  let ?ps = "take (nat limit) (drop (nat offset) (newest_friend_posts s u))"
  let ?ms = "map (uuid_str \<circ> po_id) ?ps"
  have ps: "p \<in> set (so_posts s)" if "p \<in> set ?ps" for p
    using that by (auto simp: set_newest_friend_posts set_friend_posts dest!: in_set_takeD in_set_dropD)
  have ms: "?ms = page_ids offset limit (zset_at r (feed_key u))"
    by (simp add: page_ids_def feed_zset [OF ok] take_map drop_map)
  have body: "body_at r (uuid_str (po_id p)) = row_to_post_hash p" if "p \<in> set ?ps" for p
    using body_at_post [OF _ ps [OF that]] ok by (simp add: feeds_ok_def)
  have "filter (\<lambda>m. body_at r m \<noteq> []) ?ms = ?ms" "filter (\<lambda>m. body_at r m = []) ?ms = []"
    using body by (auto simp: filter_id_conv filter_empty_conv row_to_post_hash_def)
  then have "read_page redis_step u offset limit r = (Inr (map (item_at r) ?ms), r)"
    using read_page_effect [OF feeds_ok_cache [OF ok] page ms] put_zset_id [of r "feed_key u"] ok
    by (simp add: zrem_def feeds_ok_def)
  then have "read_feed S redis_step (Inr s) n u offset limit r = (Inr (map (item_at r) ?ms), r)"
    using rebuild_keeps [OF ok small cap, of n u]
    by (simp add: read_feed_def execute_def as_int_def bindP_def voidP_def)
  moreover have "item_post (item_at r (uuid_str (po_id p))) = Inr (post_reply p)" if "p \<in> set ?ps" for p
    using body [OF that] by (simp add: item_post_def item_at_def row_to_post_hash_def UUID_str post_reply_def)
  then have "map_res item_post (map (item_at r) ?ms) = Inr (map post_reply ?ps)"
    unfolding map_map by (intro map_res_map_Inr) simp
  ultimately show ?thesis by (auto simp: take_map drop_map)
qed

end
