(* ===== verification/Feed_System.thy ===== *)
theory Feed_System
  imports Feed_Invariant
begin

text \<open>
  Requests one after another: a state machine whose steps are whole runs of the handlers, with every
  outcome, under the default transport with synchronous fan-out.  Every reachable state keeps the feeds
  equal to what the tables say, so a page of the feed is computed from the tables alone.
\<close>

section \<open>The state machine\<close>

inductive sync_step :: "settings \<Rightarrow> 'r server \<Rightarrow> 'b publisher \<Rightarrow> ('p, 'c, 'r, 'b) world \<Rightarrow> ('p, 'c, 'r, 'b) world \<Rightarrow> bool"
  for S exec publish where
  Register: "register_user hashpw salt i user w = (x1, w') \<Longrightarrow> sync_step S exec publish w w'"
| Create: "dt_ok now \<Longrightarrow> create_post S exec publish i now tx u w = (x2, w') \<Longrightarrow> sync_step S exec publish w w'"
| Update: "update_post exec i tx u w = (x3, w') \<Longrightarrow> sync_step S exec publish w w'"
| Delete: "delete_post S exec publish now i u w = (x4, w') \<Longrightarrow> sync_step S exec publish w w'"
| Befriend: "set_friend S exec f u w = (x5, w') \<Longrightarrow> sync_step S exec publish w w'"
| Unfriend: "delete_friend exec f u w = (x6, w') \<Longrightarrow> sync_step S exec publish w w'"
| Read: "get_feed S exec n offset limit u w = (x7, w') \<Longrightarrow> sync_step S exec publish w w'"
| Rebuild: "rebuild_feed S exec n u w = (x8, w') \<Longrightarrow> sync_step S exec publish w w'"

text \<open>Runs in which no user ever has more posts of friends than a feed holds; \<open>p\<close> is the primary.\<close>

inductive sync_run :: "settings \<Rightarrow> 'r server \<Rightarrow> 'b publisher \<Rightarrow> 'p \<Rightarrow> ('p, 'c, 'r, 'b) world \<Rightarrow> ('p, 'c, 'r, 'b) world \<Rightarrow> bool"
  for S exec publish p w0 where
  start: "sync_run S exec publish p w0 w0"
| step: "sync_run S exec publish p w0 w \<Longrightarrow> sync_step S exec publish w w' \<Longrightarrow> small_feeds S (wo_tables w' p)
    \<Longrightarrow> sync_run S exec publish p w0 w'"

definition sync_ok :: "settings \<Rightarrow> 'p \<Rightarrow> ('p, 'c, redis, 'b) world \<Rightarrow> bool" where
  "sync_ok S p w \<longleftrightarrow> db_master_pool (wo_database w) = Some p \<and> rc_client (wo_redis_client w) \<noteq> None
     \<and> feeds_ok (wo_tables w p) (wo_redis w) \<and> small_feeds S (wo_tables w p)"

definition sync_settings :: "settings \<Rightarrow> bool" where
  "sync_settings S \<longleftrightarrow> feed_transport S \<noteq> ''rabbitmq'' \<and> \<not> feed_fanout_async S \<and> 0 \<le> feed_max_size S"

section \<open>Every step keeps the feeds\<close>

text \<open>Statements and cache calls on a state with a primary and a Redis client.\<close>

lemma on_master_ok: "db_master_pool (wo_database w) = Some p \<Longrightarrow>
    on_master q w = (fst (q (wo_tables w p)), w\<lparr>wo_tables := (wo_tables w)(p := snd (q (wo_tables w p)))\<rparr>)"
  by (simp add: on_master_def master_connection_def split_def)

lemma get_redis_ok: "rc_client (wo_redis_client w) \<noteq> None \<Longrightarrow> get_redis w = (Inr (), w)"
  by (auto simp: get_redis_def RedisClient_get_def)

lemma on_redis_ok: "db_master_pool (wo_database w) = Some p \<Longrightarrow>
    on_redis m w = (fst (m (Inr (wo_tables w p)) (wo_redis w)), w\<lparr>wo_redis := snd (m (Inr (wo_tables w p)) (wo_redis w))\<rparr>)"
  by (simp add: on_redis_def master_view_def master_connection_def split_def)

lemmas web_simps = on_master_ok get_redis_ok on_redis_ok bindP_def

lemma feeds_ok_register:
  assumes "feeds_ok s r" and "stmt_insert_user u s = (x, s')"
  shows "feeds_ok s' r"
proof (cases "s' = s")
  case False
  then obtain v where v: "s' = s\<lparr>so_users := so_users s @ [v]\<rparr>" "us_id v \<notin> us_id ` set (so_users s)"
      "us_email v \<notin> us_email ` set (so_users s)"
    using assms(2) by (auto simp: stmt_insert_user_def split: sum.splits if_splits)
  have "friend_posts s' w = friend_posts s w" for w by (simp add: v(1) friend_posts_def)
  then show ?thesis using assms(1) v(2,3) by (auto simp: feeds_ok_def social_ok_def bodies_ok_def v(1))
qed (use assms(1) in simp)

lemma register_keeps:
  assumes "sync_ok S p w" and "register_user hashpw salt i user w = (x, w')" and "small_feeds S (wo_tables w' p)"
  shows "sync_ok S p w'"
proof -
  have w: "db_master_pool (wo_database w) = Some p" using assms(1) by (simp add: sync_ok_def)
  from assms(2) have "w' = w \<or> (\<exists>u. w' = w\<lparr>wo_tables := (wo_tables w)(p := snd (stmt_insert_user u (wo_tables w p)))\<rparr>)"
    by (auto simp: register_user_def web_simps w stmt_user_by_email_def Let_def split: sum.splits option.splits if_splits)
  then show ?thesis
  proof
    assume "\<exists>u. w' = w\<lparr>wo_tables := (wo_tables w)(p := snd (stmt_insert_user u (wo_tables w p)))\<rparr>"
    then obtain u where w': "w' = w\<lparr>wo_tables := (wo_tables w)(p := snd (stmt_insert_user u (wo_tables w p)))\<rparr>" ..
    have "feeds_ok (wo_tables w p) (wo_redis w)" using assms(1) by (simp add: sync_ok_def)
    from feeds_ok_register [OF this prod.collapse [symmetric], of u] show ?thesis
      using assms(1,3) by (simp add: sync_ok_def w')
  qed (use assms(1) in simp)
qed

lemma create_keeps:
  assumes S: "sync_settings S" and ok: "sync_ok S p w" and now: "dt_ok now"
    and run: "create_post S redis_step publish i now tx u w = (x, w')" and small: "small_feeds S (wo_tables w' p)"
  shows "sync_ok S p w'"
proof -
  let ?p = "\<lparr>po_id = i, po_author = u, po_text = tx, po_created = now\<rparr>"
  let ?s = "wo_tables w p"
  have w: "db_master_pool (wo_database w) = Some p" "rc_client (wo_redis_client w) \<noteq> None"
    and f: "feeds_ok ?s (wo_redis w)" using ok by (simp_all add: sync_ok_def)
  show ?thesis
  proof (cases "u \<in> us_id ` set (so_users ?s) \<and> i \<notin> po_id ` set (so_posts ?s)")
    case False
    then obtain e where "stmt_insert_post ?p ?s = (Inl e, ?s)"
      by (cases "u \<in> us_id ` set (so_users ?s)") (simp_all add: stmt_insert_post_def)
    then have "w' = w" using run w by (simp add: create_post_def web_simps)
    then show ?thesis using ok by simp
  next
    case True
    let ?s' = "sql_insert_post ?p ?s"
    let ?r = "(wo_redis w)(post_key i \<mapsto> Hash (row_to_post_hash ?p))"
    have "distinct (so_friends ?s')" "cache_ok ?r"
      using f by (auto simp: feeds_ok_def social_ok_def sql_insert_post_def cache_ok_store)
    note fan = fan_out_effect [OF this(2,1), of S i u now]
    have "w' = w\<lparr>wo_tables := (wo_tables w)(p := ?s'), wo_redis := map_feeds (set (sql_followers ?s' u))
        (\<lambda>z. keep (feed_max_size S) (zadd (uuid_str i) (timestamp now) z)) ?r\<rparr>"
      using run w S True fan store_effect [of "wo_redis w"] f
      by (simp add: create_post_def web_simps stmt_insert_post_def sync_settings_def feeds_ok_def)
    moreover have "feeds_ok ?s' (map_feeds (set (sql_followers ?s u))
        (\<lambda>z. keep (feed_max_size S) (zadd (uuid_str i) (timestamp now) z)) ?r)"
      using feeds_ok_create [of ?s "wo_redis w" ?p S] f True now small \<open>w' = _\<close> by simp
    moreover have "sql_followers ?s' u = sql_followers ?s u" by (simp add: sql_followers_def sql_insert_post_def)
    ultimately show ?thesis using ok small by (simp add: sync_ok_def)
  qed
qed

lemma update_keeps:
  assumes ok: "sync_ok S p w" and run: "update_post redis_step i tx u w = (x, w')" and small: "small_feeds S (wo_tables w' p)"
  shows "sync_ok S p w'"
proof -
  let ?s = "wo_tables w p"
  have w: "db_master_pool (wo_database w) = Some p" "rc_client (wo_redis_client w) \<noteq> None"
    and f: "feeds_ok ?s (wo_redis w)" using ok by (simp_all add: sync_ok_def)
  obtain row s' where row: "sql_update_post tx i u ?s = (row, s')" by fastforce
  show ?thesis
  proof (cases row)
    case None
    then have "find (owned i u) (so_posts ?s) = None" using row by (simp add: sql_update_post_def)
    then have "map (\<lambda>p. if owned i u p then p\<lparr>po_text := tx\<rparr> else p) (so_posts ?s) = so_posts ?s"
      by (intro map_idI) (auto simp: find_None_iff)
    then have "s' = ?s" using row by (simp add: sql_update_post_def)
    then have "w' = w" using run w row None by (simp add: update_post_def web_simps stmt_update_post_def)
    then show ?thesis using ok by simp
  next
    case (Some q)
    have q: "po_id q = i" "po_author q = u" "po_text q = tx"
      using row Some by (auto simp: sql_update_post_def dest: find_owned)
    then have "q = \<lparr>po_id = i, po_author = u, po_text = tx, po_created = po_created q\<rparr>" by simp
    then have st: "store_post_hash redis_step i tx u (po_created q) (wo_redis w)
        = (Inr (), (wo_redis w)(post_key i \<mapsto> Hash (row_to_post_hash q)))"
      using store_effect [of "wo_redis w" i tx u "po_created q"] f by (simp add: feeds_ok_def)
    then have "w' = w\<lparr>wo_tables := (wo_tables w)(p := s'), wo_redis := (wo_redis w)(post_key i \<mapsto> Hash (row_to_post_hash q))\<rparr>"
      using run w row Some by (simp add: update_post_def web_simps stmt_update_post_def)
    then show ?thesis
      using feeds_ok_update [OF f, of tx i u q s'] row Some ok small by (simp add: sync_ok_def)
  qed
qed

lemma delete_keeps:
  assumes S: "sync_settings S" and ok: "sync_ok S p w" and run: "delete_post S redis_step publish now i u w = (x, w')"
    and small: "small_feeds S (wo_tables w' p)"
  shows "sync_ok S p w'"
proof -
  let ?s = "wo_tables w p"
  have w: "db_master_pool (wo_database w) = Some p" "rc_client (wo_redis_client w) \<noteq> None"
    and f: "feeds_ok ?s (wo_redis w)" using ok by (simp_all add: sync_ok_def)
  obtain row s' where row: "sql_delete_post i u ?s = (row, s')" by fastforce
  show ?thesis
  proof (cases row)
    case None
    then have "filter (\<lambda>q. \<not> owned i u q) (so_posts ?s) = so_posts ?s"
      using row by (auto simp: sql_delete_post_def find_None_iff filter_id_conv)
    then have "s' = ?s" using row by (simp add: sql_delete_post_def)
    then have "w' = w" using run w row None by (simp add: delete_post_def web_simps stmt_delete_post_def)
    then show ?thesis using ok by simp
  next
    case (Some q)
    let ?r = "(wo_redis w)(post_key i := None)"
    have "cache_ok ?r" "distinct (so_friends s')"
      using f row by (auto simp: feeds_ok_def social_ok_def sql_delete_post_def cache_ok_delete)
    note removed = remove_post_effect [OF this, of i u]
    have "w' = w\<lparr>wo_tables := (wo_tables w)(p := s'), wo_redis := map_feeds (set (sql_followers s' u)) (zrem [uuid_str i]) ?r\<rparr>"
      using run w row Some S removed
      by (simp add: delete_post_def web_simps stmt_delete_post_def sync_settings_def delete_post_hash_def voidP_def)
    then show ?thesis
      using feeds_ok_delete [OF f, of i u q s'] row Some ok small by (simp add: sync_ok_def)
  qed
qed

lemma befriend_keeps:
  assumes S: "sync_settings S" and ok: "sync_ok S p w" and run: "set_friend S redis_step f u w = (x, w')"
    and small: "small_feeds S (wo_tables w' p)"
  shows "sync_ok S p w'"
proof -
  let ?s = "wo_tables w p"
  let ?s' = "sql_insert_friendship u f ?s"
  have w: "db_master_pool (wo_database w) = Some p" "rc_client (wo_redis_client w) \<noteq> None"
    and ok': "feeds_ok ?s (wo_redis w)" using ok by (simp_all add: sync_ok_def)
  show ?thesis
  proof (cases "f \<noteq> u \<and> f \<in> us_id ` set (so_users ?s) \<and> u \<in> us_id ` set (so_users ?s)")
    case False
    then consider "f = u" | "f \<noteq> u" "f \<notin> us_id ` set (so_users ?s)"
      | "f \<noteq> u" "f \<in> us_id ` set (so_users ?s)" "u \<notin> us_id ` set (so_users ?s)" by blast
    then have "w' = w"
      using run w by cases (simp_all add: set_friend_def web_simps stmt_user_exists_def stmt_insert_friendship_def)
    then show ?thesis using ok by simp
  next
    case True
    define rows where "rows = take (nat (feed_max_size S)) (newest_first (filter (\<lambda>p. po_author p = f) (so_posts ?s)))"
    define r' where "r' = (if rows = [] then wo_redis w
        else put_zset (feed_key u) (keep (feed_max_size S) (add_rows rows (zset_at (wo_redis w) (feed_key u))))
          (with_bodies rows (wo_redis w)))"
    have posts: "so_posts ?s' = so_posts ?s" by (simp add: sql_insert_friendship_def)
    have added: "add_friend_posts_to_feed S redis_step (Inr ?s') u f (wo_redis w) = (Inr (), r')"
      unfolding r'_def using add_friend_effect [of "wo_redis w" S rows f ?s' u] ok' S
      by (simp add: posts feeds_ok_def sync_settings_def rows_def)
    have "stmt_insert_friendship u f ?s = (Inr (), ?s')" using True by (auto simp: stmt_insert_friendship_def)
    then have "w' = w\<lparr>wo_tables := (wo_tables w)(p := ?s'), wo_redis := r'\<rparr>"
      using run w True added by (simp add: set_friend_def web_simps stmt_user_exists_def)
    moreover have "feeds_ok ?s' r'" if "small_feeds S ?s'"
      unfolding r'_def using True that by (intro feeds_ok_befriend [OF ok' _ _ _ _ rows_def]) auto
    ultimately show ?thesis using ok small by (simp add: sync_ok_def)
  qed
qed

lemma unfriend_keeps:
  assumes ok: "sync_ok S p w" and run: "delete_friend redis_step f u w = (x, w')" and small: "small_feeds S (wo_tables w' p)"
  shows "sync_ok S p w'"
proof -
  have "cache_ok (wo_redis w)" "feeds_ok (wo_tables w p) (wo_redis w)" using ok by (simp_all add: sync_ok_def feeds_ok_def)
  then show ?thesis
    using remove_friend_effect [of "wo_redis w" u f] feeds_ok_unfriend [of "wo_tables w p" "wo_redis w" u f] run ok small
    by (auto simp: delete_friend_def web_simps stmt_delete_friendship_def sync_ok_def)
qed

lemma read_keeps:
  assumes S: "sync_settings S" and ok: "sync_ok S p w" and run: "get_feed S redis_step n offset limit u w = (x, w')"
  shows "w' = w \<and> (0 \<le> offset \<and> 1 \<le> limit \<and> limit \<le> 1000 \<longrightarrow>
    x = Inr (take (nat limit) (drop (nat offset) (map post_reply (newest_friend_posts (wo_tables w p) u)))))"
proof (cases "0 \<le> offset \<and> 1 \<le> limit \<and> limit \<le> 1000")
  case True
  have w: "db_master_pool (wo_database w) = Some p" "rc_client (wo_redis_client w) \<noteq> None"
    and f: "feeds_ok (wo_tables w p) (wo_redis w)" "small_feeds S (wo_tables w p)" using ok by (simp_all add: sync_ok_def)
  have S': "0 \<le> feed_max_size S" "feed_transport S \<noteq> ''rabbitmq''" using S by (simp_all add: sync_settings_def)
  have "0 \<le> offset" "0 < limit" using True by simp_all
  then obtain items where items: "read_feed S redis_step (Inr (wo_tables w p)) n u offset limit (wo_redis w) = (Inr items, wo_redis w)"
    "map_res item_post items = Inr (take (nat limit) (drop (nat offset) (map post_reply (newest_friend_posts (wo_tables w p) u))))"
    using read_feed_keeps [OF f S'(1), of offset limit n u] by blast
  have "get_feed S redis_step n offset limit u w
      = (Inr (take (nat limit) (drop (nat offset) (map post_reply (newest_friend_posts (wo_tables w p) u)))), w)"
    using w True S'(2) items by (simp add: get_feed_def web_simps)
  then show ?thesis using run by simp
next
  case False
  then have "offset < 0 \<or> limit < 1 \<or> 1000 < limit" by linarith
  then have "get_feed S redis_step n offset limit u w = (Inl (HTTPException 422 ''query parameter out of range''), w)"
    by (simp add: get_feed_def)
  then show ?thesis using run False by auto
qed

lemma rebuild_world_keeps:
  assumes S: "sync_settings S" and ok: "sync_ok S p w" and run: "rebuild_feed S redis_step n u w = (x, w')"
  shows "w' = w"
  using run rebuild_keeps [of "wo_tables w p" "wo_redis w" S n u] S ok
  by (auto simp: rebuild_feed_def web_simps sync_ok_def sync_settings_def)

lemma sync_step_keeps:
  assumes "sync_step S redis_step publish w w'" and "sync_settings S" and "sync_ok S p w" and "small_feeds S (wo_tables w' p)"
  shows "sync_ok S p w'"
  using assms
proof (induction rule: sync_step.induct)
  case (Read n offset limit u w x7 w')
  then show ?case using read_keeps [of S p w n offset limit u x7 w'] by simp
next
  case (Rebuild n u w x8 w')
  then show ?case using rebuild_world_keeps [of S p w n u x8 w'] by simp
qed (blast intro: register_keeps create_keeps update_keeps delete_keeps befriend_keeps unfriend_keeps)+

section \<open>On any server\<close>

lemma sync_step_view:
  assumes "redis_server exec view" and "sync_step S exec publish w w'"
  shows "sync_step S redis_step publish (view_world view w) (view_world view w')"
  using assms(2)
proof (induction rule: sync_step.induct)
  case (Register hashpw salt i user w x1 w')
  have "sim (view_world view) (register_user hashpw salt i user) (register_user hashpw salt i user)"
    unfolding register_user_def Let_def by (intro sim_intros)
  from sim_result [OF this Register] show ?case by (rule sync_step.Register)
next
  case (Create now i tx u w x2 w')
  then show ?case using sim_result [OF redis_server.route_sims(1) [OF assms(1)]] by (blast intro: sync_step.Create)
next
  case (Update i tx u w x3 w')
  then show ?case using sim_result [OF redis_server.route_sims(2) [OF assms(1)]] by (blast intro: sync_step.Update)
next
  case (Delete now i u w x4 w')
  then show ?case using sim_result [OF redis_server.route_sims(3) [OF assms(1)]] by (blast intro: sync_step.Delete)
next
  case (Read n offset limit u w x7 w')
  then show ?case using sim_result [OF redis_server.route_sims(4) [OF assms(1)]] by (blast intro: sync_step.Read)
next
  case (Rebuild n u w x8 w')
  then show ?case using sim_result [OF redis_server.route_sims(5) [OF assms(1)]] by (blast intro: sync_step.Rebuild)
next
  case (Befriend f u w x5 w')
  then show ?case using sim_result [OF redis_server.route_sims(6) [OF assms(1)]] by (blast intro: sync_step.Befriend)
next
  case (Unfriend f u w x6 w')
  then show ?case using sim_result [OF redis_server.route_sims(7) [OF assms(1)]] by (blast intro: sync_step.Unfriend)
qed

text \<open>An installation with no posts yet and an empty cache.\<close>

definition fresh_world :: "('r \<Rightarrow> redis) \<Rightarrow> 'p \<Rightarrow> ('p, 'c, 'r, 'b) world \<Rightarrow> bool" where
  "fresh_world view p w \<longleftrightarrow> db_master_pool (wo_database w) = Some p \<and> rc_client (wo_redis_client w) \<noteq> None
     \<and> social_ok (wo_tables w p) \<and> so_posts (wo_tables w p) = [] \<and> view (wo_redis w) = Map.empty"

lemma fresh_sync_ok: "fresh_world view p w \<Longrightarrow> sync_ok S p (view_world view w)"
  by (auto simp: fresh_world_def sync_ok_def feeds_ok_def small_feeds_def cache_ok_def bodies_ok_def zset_at_def
      zset_or_none_def hash_or_none_def str_or_none_def post_members_def friend_posts_def)

lemma sync_run_ok:
  assumes "redis_server exec view" and "sync_settings S" and "fresh_world view p w0" and "sync_run S exec publish p w0 w"
  shows "sync_ok S p (view_world view w)"
  using assms(4)
proof (induction rule: sync_run.induct)
  case start
  then show ?case by (rule fresh_sync_ok [OF assms(3)])
next
  case (step w w')
  then show ?case
    using sync_step_keeps [OF sync_step_view [OF assms(1)] assms(2)] by simp
qed


text \<open>A run of two requests: one user befriends another, who then publishes a post.\<close>

abbreviation demo_users :: "(nat, unit, redis, broker) world" where
  "demo_users \<equiv> demo_world [demo_user 1 ''ann'', demo_user 2 ''bob'']"

abbreviation no_publish :: "broker publisher" where
  "no_publish \<equiv> \<lambda>_ _ _. returnP ()"

definition demo_post :: post where
  "demo_post = \<lparr>po_id = 5, po_author = 2, po_text = ''hi'', po_created = Datetime 2024 3 1 12 0 0 0\<rparr>"

definition demo_befriended :: "(nat, unit, redis, broker) world" where
  "demo_befriended = snd (set_friend default_settings redis_step 2 1 demo_users)"

definition demo_published :: "(nat, unit, redis, broker) world" where
  "demo_published = snd (create_post default_settings redis_step no_publish 5 (Datetime 2024 3 1 12 0 0 0) ''hi'' 2 demo_befriended)"

lemma demo_befriended_tables:
  "wo_tables demo_befriended 0 = \<lparr>so_users = [demo_user 1 ''ann'', demo_user 2 ''bob''], so_posts = [], so_friends = [(1, 2)]\<rparr>"
  "wo_database demo_befriended = wo_database demo_users" "wo_redis_client demo_befriended = wo_redis_client demo_users"
  by (simp_all add: demo_befriended_def set_friend_def on_master_def master_connection_def on_redis_def get_redis_def
      RedisClient_get_def bindP_def demo_world_def demo_user_def stmt_user_exists_def stmt_insert_friendship_def
      sql_insert_friendship_def split_def)

lemma demo_published_tables:
  "wo_tables demo_published 0 = \<lparr>so_users = [demo_user 1 ''ann'', demo_user 2 ''bob''], so_posts = [demo_post], so_friends = [(1, 2)]\<rparr>"
proof -
  have "stmt_insert_post demo_post (wo_tables demo_befriended 0)
      = (Inr (Some demo_post), \<lparr>so_users = [demo_user 1 ''ann'', demo_user 2 ''bob''], so_posts = [demo_post], so_friends = [(1, 2)]\<rparr>)"
    by (simp add: demo_befriended_tables stmt_insert_post_def sql_insert_post_def demo_post_def demo_user_def)
  moreover have "db_master_pool (wo_database demo_befriended) = Some 0" "rc_client (wo_redis_client demo_befriended) = Some ()"
    by (simp_all add: demo_befriended_tables demo_world_def)
  ultimately show ?thesis
    unfolding demo_published_def demo_post_def create_post_def
    by (simp add: bindP_def on_master_def master_connection_def get_redis_def RedisClient_get_def on_redis_def
        default_settings_def split_def split: sum.split)
qed

lemma demo_run: "sync_run default_settings redis_step no_publish 0 demo_users demo_published"
proof -
  have "sync_step default_settings redis_step no_publish demo_users demo_befriended"
    unfolding demo_befriended_def by (rule sync_step.Befriend [OF prod.collapse [symmetric]])
  moreover have "small_feeds default_settings (wo_tables demo_befriended 0)"
    by (simp add: small_feeds_def friend_posts_def demo_befriended_tables)
  moreover have "dt_ok (Datetime 2024 3 1 12 0 0 0)" by (simp add: dt_ok_def days_in_month_def)
  then have "sync_step default_settings redis_step no_publish demo_befriended demo_published"
    unfolding demo_published_def by (rule sync_step.Create [OF _ prod.collapse [symmetric]])
  moreover have "small_feeds default_settings (wo_tables demo_published 0)"
    by (simp add: small_feeds_def friend_posts_def demo_published_tables default_settings_def)
  ultimately show ?thesis by (blast intro: sync_run.intros)
qed


end
