(* ===== verification/Feed_Props.thy ===== *)
theory Feed_Props
  imports Feed_System
begin

text \<open>
  Single operations of the feed cache on any server that behaves as documented, beyond the size of a
  feed: what a rebuild, a fan-out and a new friendship make of a feed, what a read removes, and what
  happens to a feed that the server evicted.
\<close>

section \<open>Small tables\<close>

text \<open>One post, with and without the friendship that makes it part of a feed.\<close>

definition demo_tables :: "post list \<Rightarrow> (uuid \<times> uuid) list \<Rightarrow> social" where
  "demo_tables ps fs = \<lparr>so_users = [demo_user 1 ''ann'', demo_user 2 ''bob''], so_posts = ps, so_friends = fs\<rparr>"

lemma demo_tables_ok:
  "social_ok (demo_tables [demo_post] [(1, 2)])" "social_ok (demo_tables [demo_post] [])"
  by (simp_all add: demo_tables_def social_ok_def demo_user_def demo_post_def dt_ok_def days_in_month_def)

lemma cache_ok_empty: "cache_ok Map.empty"
  by (simp add: cache_ok_def zset_at_def zset_or_none_def hash_or_none_def str_or_none_def post_members_def)

lemma demo_insert: "sql_insert_post demo_post (demo_tables [] [(1, 2)]) = demo_tables [demo_post] [(1, 2)]"
  by (simp add: demo_tables_def sql_insert_post_def)

lemma demo_friendship: "sql_insert_friendship 1 2 (demo_tables [demo_post] []) = demo_tables [demo_post] [(1, 2)]"
  by (simp add: demo_tables_def sql_insert_friendship_def)

lemma demo_mirror_empty: "friend_posts s u = [] \<Longrightarrow> feed_mirror cap s Map.empty u"
  by (simp add: feed_mirror_def top_n_def zset_at_def)

lemma demo_friend_posts:
  "friend_posts (demo_tables [demo_post] [(1, 2)]) 1 = [demo_post]" "friend_posts (demo_tables [] fs) u = []"
  "friend_posts (demo_tables ps []) u = []"
  by (simp_all add: friend_posts_def demo_tables_def demo_post_def)

lemma mirror_single: "feed_mirror 1000 s r u \<Longrightarrow> friend_posts s u = [p] \<Longrightarrow> set (zset_at r (feed_key u)) = {entry p}"
  using top_n_whole [of "{entry p}" 1000] by (simp add: feed_mirror_def)

section \<open>Rebuild, fan-out and friendship\<close>



text \<open>C18: when every feed holds the newest posts of the friends and a post is added to the tables, its
  fan-out returns and again every feed holds the newest posts of the friends; the feeds of users who do not
  follow the author, the bodies and the flags are untouched.\<close>

theorem fan_out_mirrors:
  assumes "redis_server exec view" and "social_ok (sql_insert_post p s)" and "cache_ok (view r)"
    and "0 \<le> feed_max_size S" and "\<forall>u. feed_mirror (feed_max_size S) s (view r) u"
  shows "\<exists>r'. fan_out_post S exec (Inr (sql_insert_post p s)) (po_id p) (po_author p) (po_created p) r = (Inr (), r')
    \<and> cache_ok (view r') \<and> (\<forall>u. feed_mirror (feed_max_size S) (sql_insert_post p s) (view r') u)
    \<and> (\<forall>k. k \<notin> feed_key ` {u. (u, po_author p) \<in> set (so_friends s)} \<longrightarrow> view r' k = view r k)"
proof -
  let ?s = "sql_insert_post p s"
  obtain x r' where run: "fan_out_post S exec (Inr ?s) (po_id p) (po_author p) (po_created p) r = (x, r')" by fastforce
  have d: "distinct (so_friends ?s)" using assms(2) by (simp add: social_ok_def)
  have fo: "set (sql_followers ?s (po_author p)) = {u. (u, po_author p) \<in> set (so_friends s)}"
    by (simp add: set_sql_followers sql_insert_post_def)
  from sim_result [OF redis_server.feed_sims(3) [OF assms(1)] run] fan_out_effect [OF assms(3) d assms(4), of "po_id p" "po_author p" "po_created p"]
  have x: "x = Inr ()" and v: "view r' = map_feeds {u. (u, po_author p) \<in> set (so_friends s)}
      (\<lambda>z. keep (feed_max_size S) (zadd (uuid_str (po_id p)) (timestamp (po_created p)) z)) (view r)"
    by (simp_all add: fo)
  have "cache_ok (view r')" unfolding v by (rule cache_ok_map_feeds [OF assms(3)]) auto
  moreover have "feed_mirror (feed_max_size S) ?s (view r') u" for u
    using mirror_fan_out [OF assms(2,3), of "feed_max_size S" u] assms(5) by (simp add: v set_sql_followers)
  ultimately show ?thesis using run x by (auto simp: v)
qed

lemma fan_out_mirrors_witness:
  "\<exists>r'. fan_out_post default_settings redis_step (Inr (demo_tables [demo_post] [(1, 2)])) 5 2 (po_created demo_post) Map.empty = (Inr (), r')
    \<and> set (zset_at r' (feed_key 1)) = {entry demo_post} \<and> r' (feed_key 2) = None"
proof -
  have S: "feed_max_size default_settings = 1000" by (simp add: default_settings_def)
  have "\<forall>u. feed_mirror 1000 (demo_tables [] [(1, 2)]) Map.empty u" by (simp add: demo_mirror_empty demo_friend_posts)
  then obtain r' where "fan_out_post default_settings redis_step (Inr (demo_tables [demo_post] [(1, 2)]))
      (po_id demo_post) (po_author demo_post) (po_created demo_post) Map.empty = (Inr (), r')"
    "feed_mirror 1000 (demo_tables [demo_post] [(1, 2)]) r' 1" "feed_key 2 \<notin> feed_key ` {u. (u, 2) \<in> {(1, 2)}} \<longrightarrow> r' (feed_key 2) = None"
    using fan_out_mirrors [OF documented.redis_server_axioms, of demo_post "demo_tables [] [(1, 2)]" Map.empty default_settings]
    by (auto simp: S cache_ok_empty demo_insert demo_tables_ok) (auto simp: demo_tables_def demo_post_def)
  then show ?thesis using mirror_single [OF _ demo_friend_posts(1)] by (auto simp: demo_post_def)
qed

text \<open>When the feed of a user holds the newest posts of the friends and a friendship is added to the
  tables, the merge of the new friend's posts returns and the feed again holds the newest posts of the
  friends, now with the new one; feeds of other users are untouched.\<close>

theorem befriend_mirrors:
  assumes "redis_server exec view" and "social_ok s" and "cache_ok (view r)" and "0 \<le> feed_max_size S"
    and "feed_mirror (feed_max_size S) s (view r) u"
  shows "\<exists>r'. add_friend_posts_to_feed S exec (Inr (sql_insert_friendship u f s)) u f r = (Inr (), r')
    \<and> feed_mirror (feed_max_size S) (sql_insert_friendship u f s) (view r') u
    \<and> (\<forall>v. v \<noteq> u \<longrightarrow> view r' (feed_key v) = view r (feed_key v))"
proof -
  let ?s = "sql_insert_friendship u f s"
  define rows where "rows = take (nat (feed_max_size S)) (newest_first (filter (\<lambda>p. po_author p = f) (so_posts s)))"
  have posts: "so_posts ?s = so_posts s" by (simp add: sql_insert_friendship_def)
  obtain x r' where run: "add_friend_posts_to_feed S exec (Inr ?s) u f r = (x, r')" by fastforce
  from sim_result [OF redis_server.feed_sims(6) [OF assms(1)] run] add_friend_effect [OF assms(3,4), of rows f ?s u]
  have x: "x = Inr ()" and v: "view r' = (if rows = [] then view r
      else put_zset (feed_key u) (keep (feed_max_size S) (add_rows rows (zset_at (view r) (feed_key u)))) (with_bodies rows (view r)))"
    by (simp_all add: posts rows_def)
  have "zset_at (view r') (feed_key u) = (if rows = [] then zset_at (view r) (feed_key u)
      else keep (feed_max_size S) (add_rows rows (zset_at (view r) (feed_key u))))"
    unfolding v by simp
  then have "feed_mirror (feed_max_size S) ?s (view r') u"
    using mirror_add_friend [OF assms(2,3,5) rows_def] by (simp add: feed_mirror_def)
  moreover have "view r' (feed_key w) = view r (feed_key w)" if "w \<noteq> u" for w
    using that unfolding v by (simp add: image_iff)
  ultimately show ?thesis using run x by auto
qed

lemma befriend_mirrors_witness:
  "\<exists>r'. add_friend_posts_to_feed default_settings redis_step (Inr (demo_tables [demo_post] [(1, 2)])) 1 2 Map.empty = (Inr (), r')
    \<and> set (zset_at r' (feed_key 1)) = {entry demo_post}"
proof -
  have S: "feed_max_size default_settings = 1000" by (simp add: default_settings_def)
  obtain r' where "add_friend_posts_to_feed default_settings redis_step (Inr (demo_tables [demo_post] [(1, 2)])) 1 2 Map.empty = (Inr (), r')"
    "feed_mirror 1000 (demo_tables [demo_post] [(1, 2)]) r' 1"
    using befriend_mirrors [OF documented.redis_server_axioms demo_tables_ok(2), of Map.empty default_settings 1 2]
    by (auto simp: S cache_ok_empty demo_friendship demo_mirror_empty demo_friend_posts)
  then show ?thesis using mirror_single [OF _ demo_friend_posts(1)] by auto
qed

section \<open>Reading\<close>

text \<open>C20: a page of an existing feed shows, newest first, the members in its range that have a body, with the
  text and the author of the body; the members in its range without a body are removed from the feed and
  nothing else changes.\<close>

theorem read_prunes_ghosts:
  assumes "redis_server exec view" and "cache_ok (view r)" and "view r (feed_key u) \<noteq> None"
    and "0 \<le> offset" and "0 < limit"
    and ms: "ms = take (nat limit) (drop (nat offset) (rev (map fst (zset_at (view r) (feed_key u)))))"
  shows "\<exists>r'. read_feed S exec db n u offset limit r
      = (Inr (map (item_at (view r)) (filter (\<lambda>m. body_at (view r) m \<noteq> []) ms)), r')
    \<and> zset_at (view r') (feed_key u)
        = filter (\<lambda>e. fst e \<notin> set ms \<or> body_at (view r) (fst e) \<noteq> []) (zset_at (view r) (feed_key u))
    \<and> (\<forall>k. k \<noteq> feed_key u \<longrightarrow> view r' k = view r k)"
proof -
  obtain x r' where run: "read_feed S exec db n u offset limit r = (x, r')" by fastforce
  have "read_feed S redis_step db n u offset limit (view r) = read_page redis_step u offset limit (view r)"
    using assms(3) by (auto simp: read_feed_def execute_def as_int_def bindP_def)
  with sim_result [OF redis_server.read_feed_sim [OF assms(1)] run]
    read_page_effect [OF assms(2,4,5), of ms u]
  have x: "x = Inr (map (item_at (view r)) (filter (\<lambda>m. body_at (view r) m \<noteq> []) ms))"
    and v: "view r' = put_zset (feed_key u) (zrem (filter (\<lambda>m. body_at (view r) m = []) ms) (zset_at (view r) (feed_key u))) (view r)"
    using ms by (simp_all add: page_ids_def)
  have "zset_at (view r') (feed_key u)
      = filter (\<lambda>e. fst e \<notin> set ms \<or> body_at (view r) (fst e) \<noteq> []) (zset_at (view r) (feed_key u))"
    unfolding v by (simp add: zrem_def)
  then show ?thesis using run x by (auto simp: v)
qed

lemma read_prunes_ghosts_witness:
  "\<exists>r'. read_feed default_settings redis_step (Inr (demo_tables [] [])) ''n'' 1 0 10 [feed_key 1 \<mapsto> ZSet [(uuid_str 5, 7)]] = (Inr [], r')
    \<and> zset_at r' (feed_key 1) = []"
proof -
  let ?r = "[feed_key 1 \<mapsto> ZSet [(uuid_str 5, 7)]]"
  have z: "zset_at ?r (feed_key 1) = [(uuid_str 5, 7)]" by (simp add: zset_at_def)
  have b: "body_at ?r (uuid_str 5) = []" by (simp add: body_at_def UUID_str)
  have c: "cache_ok ?r"
    using cache_ok_put_feed [OF cache_ok_empty, of "[(uuid_str 5, 7)]" 1] by (simp add: put_zset_def zset_ok_def post_members_def)
  show ?thesis
    using read_prunes_ghosts [OF documented.redis_server_axioms, of ?r 1 0 10 "[uuid_str 5]" default_settings "Inr (demo_tables [] [])" "''n''"]
    by (auto simp: z b c)
qed

text \<open>C40: when the feed of a follower is missing, as after an eviction, and an author the user follows
  publishes, the fan-out creates a feed that holds only the new post; later reads find this feed and show
  nothing of the older posts of the friends, because only a missing feed is rebuilt.\<close>

theorem evicted_feed_stays_partial:
  assumes "redis_server exec view" and "cache_ok (view r)" and "distinct (so_friends s)" and "1 \<le> feed_max_size S"
    and "(u, po_author p) \<in> set (so_friends s)" and "view r (feed_key u) = None"
    and "view r (post_key (po_id p)) = Some (Hash (row_to_post_hash p))"
    and "fan_out_post S exec (Inr s) (po_id p) (po_author p) (po_created p) r = (x, r')"
    and "0 < limit"
  shows "\<exists>r''. read_feed S exec db n u 0 limit r'
    = (Inr [\<lparr>fi_id = uuid_str (po_id p), fi_text = po_text p, fi_author_user_id = uuid_str (po_author p), fi_created_at = None\<rparr>], r'')"
proof -
  let ?m = "uuid_str (po_id p)"
  have cap: "0 \<le> feed_max_size S" using assms(4) by simp
  have v: "view r' = map_feeds (set (sql_followers s (po_author p)))
      (\<lambda>z. keep (feed_max_size S) (zadd ?m (timestamp (po_created p)) z)) (view r)"
    using sim_result [OF redis_server.feed_sims(3) [OF assms(1)] assms(8)] fan_out_effect [OF assms(2,3) cap, of "po_id p" "po_author p" "po_created p"]
    by simp
  have c: "cache_ok (view r')" unfolding v by (rule cache_ok_map_feeds [OF assms(2)]) auto
  have "zset_at (view r) (feed_key u) = []" using assms(6) by (simp add: zset_at_def)
  then have z: "zset_at (view r') (feed_key u) = [entry p]"
    using assms(4,5) by (simp add: v zset_at_map_feeds set_sql_followers zadd_def keep_def entry_def)
  then have some: "view r' (feed_key u) \<noteq> None" by (auto simp: zset_at_def split: option.splits)
  have b: "body_at (view r') ?m = row_to_post_hash p"
    using assms(7) by (simp add: v body_at_def UUID_str map_feeds_def image_iff)
  have "read_feed S redis_step db n u 0 limit (view r') = read_page redis_step u 0 limit (view r')"
    using some by (auto simp: read_feed_def execute_def as_int_def bindP_def)
  then have page: "fst (read_feed S redis_step db n u 0 limit (view r'))
      = Inr (map (item_at (view r')) (filter (\<lambda>m. body_at (view r') m \<noteq> []) [?m]))"
    using read_page_effect [OF c _ assms(9), of 0 "[?m]" u] z assms(9) by (simp add: page_ids_def entry_def)
  obtain y r'' where run: "read_feed S exec db n u 0 limit r' = (y, r'')" by fastforce
  from sim_result [OF redis_server.read_feed_sim [OF assms(1)] run] page show ?thesis
    using b run by (simp add: item_at_def row_to_post_hash_def)
qed

lemma evicted_feed_stays_partial_witness:
  "\<exists>r' r''. fan_out_post default_settings redis_step (Inr (demo_tables [demo_post] [(1, 2)])) 5 2 (po_created demo_post)
      [post_key 5 \<mapsto> Hash (row_to_post_hash demo_post)] = (Inr (), r')
    \<and> read_feed default_settings redis_step (Inr (demo_tables [] [])) ''n'' 1 0 10 r'
      = (Inr [\<lparr>fi_id = uuid_str 5, fi_text = ''hi'', fi_author_user_id = uuid_str 2, fi_created_at = None\<rparr>], r'')"
proof -
  let ?r = "[post_key 5 \<mapsto> Hash (row_to_post_hash demo_post)]"
  have c: "cache_ok ?r" using cache_ok_store [OF cache_ok_empty, of 5 demo_post] by simp
  have d: "distinct (so_friends (demo_tables [demo_post] [(1, 2)]))" by (simp add: demo_tables_def)
  obtain r' where r': "fan_out_post default_settings redis_step (Inr (demo_tables [demo_post] [(1, 2)]))
      (po_id demo_post) (po_author demo_post) (po_created demo_post) ?r = (Inr (), r')"
    using fan_out_effect [OF c d, of default_settings] by (simp add: default_settings_def)
  have "\<exists>r''. read_feed default_settings redis_step (Inr (demo_tables [] [])) ''n'' 1 0 10 r'
      = (Inr [\<lparr>fi_id = uuid_str (po_id demo_post), fi_text = po_text demo_post, fi_author_user_id = uuid_str (po_author demo_post),
          fi_created_at = None\<rparr>], r'')"
    by (rule evicted_feed_stays_partial [OF documented.redis_server_axioms c d _ _ _ _ r'])
      (simp_all add: default_settings_def demo_tables_def demo_post_def)
  then show ?thesis using r' by (simp add: demo_post_def)
qed

end
