(* ===== verification/Feed_Faults.thy ===== *)
theory Feed_Faults
  imports Feed_Props
begin

text \<open>
  A rebuild while the server may fail and while others look and write.  A command of a faulty server
  either takes effect or not; when the client gets a reply, it took effect.  The states after every
  command are what another client can observe during the rebuild.
\<close>

section \<open>Faulty servers\<close>

locale faulty_server =
  fixes exec :: "'r server" and view :: "'r \<Rightarrow> redis"
  assumes exec_reply: "exec c r = (Inr v, r') \<Longrightarrow> redis_step c (view r) = (Inr v, view r')"
    and exec_error: "exec c r = (Inl e, r') \<Longrightarrow> view r' = view r \<or> view r' = snd (redis_step c (view r))"
begin

lemma pipe_reply: "pipe exec cs r = (Inr vs, r') \<Longrightarrow> pipe redis_step cs (view r) = (Inr vs, view r')"
proof (induction cs arbitrary: r vs)
  case (Cons c cs)
  then obtain v r1 ws where "exec c r = (Inr v, r1)" "pipe exec cs r1 = (Inr ws, r')" "vs = v # ws"
    by (auto split: prod.splits sum.splits)
  then show ?case using Cons.IH exec_reply by simp
qed simp

lemma exec_view: "exec c r = (x, r') \<Longrightarrow> view r' = snd (redis_step c (view r)) \<or> ((\<exists>e. x = Inl e) \<and> view r' = view r)"
  by (cases x) (auto dest: exec_reply exec_error)

lemma exec_keeps: "exec c r = (x, r') \<Longrightarrow> snd (redis_step c (view r)) k = view r k \<Longrightarrow> view r' k = view r k"
  by (auto dest: exec_view)

end

sublocale redis_server \<subseteq> faulty: faulty_server exec view
proof
  show "exec c r = (Inr v, r') \<Longrightarrow> redis_step c (view r) = (Inr v, view r')" for c r v r'
    by (rule sim_result [OF exec_step])
  show "exec c r = (Inl e, r') \<Longrightarrow> view r' = view r \<or> view r' = snd (redis_step c (view r))" for c r e r'
    by (auto dest: sim_result [OF exec_step])
qed

text \<open>A server whose connection breaks after a number of commands.\<close>

definition flaky :: "(redis \<times> nat) server" where
  "flaky c = (\<lambda>(r, n). case n of 0 \<Rightarrow> (Inl (ConnectionError ''connection lost''), (r, 0))
     | Suc m \<Rightarrow> (case redis_step c r of (x, r') \<Rightarrow> (x, (r', m))))"

interpretation flaky: faulty_server flaky fst
  by unfold_locales (auto simp: flaky_def split: prod.splits nat.splits)

text \<open>A server that records the state after every command.\<close>

definition traced :: "'r server \<Rightarrow> ('r \<times> 'r list) server" where
  "traced exec c = (\<lambda>(r, h). case exec c r of (x, r') \<Rightarrow> (x, (r', h @ [r'])))"

context faulty_server
begin

lemma traced_faulty: "faulty_server (traced exec) (\<lambda>q. view (fst q))"
proof
  show "traced exec c r = (Inr v, r') \<Longrightarrow> redis_step c (view (fst r)) = (Inr v, view (fst r'))" for c r v r'
    by (auto simp: traced_def split: prod.splits dest: exec_reply)
  show "traced exec c r = (Inl e, r') \<Longrightarrow> view (fst r') = view (fst r) \<or> view (fst r') = snd (redis_step c (view (fst r)))" for c r e r'
    by (auto simp: traced_def split: prod.splits dest: exec_error)
qed

text \<open>Commands that do not write a key leave it alone in every state on the way.\<close>

lemma pipe_traced_keeps:
  assumes "\<And>c s. c \<in> set cs \<Longrightarrow> snd (redis_step c s) k = s k" and "pipe (traced exec) cs (r, h) = (x, (r', h'))"
  shows "view r' k = view r k \<and> (\<forall>q \<in> set h'. q \<in> set h \<or> view q k = view r k)"
  using assms
proof (induction cs arbitrary: r h x)
  case (Cons c cs)
  obtain y r1 where c: "exec c r = (y, r1)" by fastforce
  obtain z q where cs: "pipe (traced exec) cs (r1, h @ [r1]) = (z, q)" by (metis surj_pair)
  have "traced exec c (r, h) = (y, (r1, h @ [r1]))" by (simp add: traced_def c)
  with Cons.prems(2) cs have q: "q = (r', h')" by (auto split: sum.splits)
  have k: "view r1 k = view r k" using exec_keeps [OF c] Cons.prems(1) by simp
  have "view r' k = view r1 k \<and> (\<forall>q \<in> set h'. q \<in> set (h @ [r1]) \<or> view q k = view r1 k)"
    using Cons.prems(1) cs q by (intro Cons.IH) auto
  then show ?case using k by auto
qed simp

end

section \<open>A rebuild is atomic\<close>

text \<open>The feed that a rebuild installs.\<close>

definition rebuilt_feed :: "settings \<Rightarrow> social \<Rightarrow> uuid \<Rightarrow> rvalue option" where
  "rebuilt_feed S s u = put_zset (feed_key u)
     (add_rows (take (nat (feed_max_size S)) (newest_first (friend_posts s u))) []) Map.empty (feed_key u)"

lemma load_keeps_feed: "c \<in> set (load_commands (tmp_key v n) rows) \<Longrightarrow> snd (redis_step c s) (feed_key u) = s (feed_key u)"
  by (auto simp: load_commands_def on_value_def split: sum.splits)

lemma rename_feed:
  assumes "s (tmp_key u n) = Some z"
  shows "snd (redis_step (RENAME (tmp_key u n) (feed_key u)) s) (feed_key u) = Some z"
  using assms by simp

context faulty_server
begin

lemma rebuild_traced:
  assumes c: "cache_ok (view r)" "view r (tmp_key u n) = None" and cap: "0 \<le> feed_max_size S"
    and run: "rebuild_feed_for_user S (traced exec) (Inr s) n u (r, []) = (x, (r', h))"
  shows "\<forall>q \<in> set h. view q (feed_key u) = view r (feed_key u) \<or> view q (feed_key u) = rebuilt_feed S s u"
    and "\<forall>m. x = Inr m \<longrightarrow> view r' (feed_key u) = rebuilt_feed S s u"
proof -
  let ?k = "feed_key u" and ?t = "tmp_key u n"
  define rows where "rows = take (nat (feed_max_size S)) (newest_first (friend_posts s u))"
  have sql: "sql_friend_posts s u (feed_max_size S) = Inr rows"
    using cap by (simp add: sql_friend_posts_def sql_limit_def rows_def)
  have new: "rebuilt_feed S s u = (if rows = [] then None else Some (ZSet (add_rows rows [])))"
    using add_rows_nonempty [of rows "[]"] by (auto simp: rebuilt_feed_def rows_def [symmetric] put_zset_def add_rows_def)
  show "\<forall>q \<in> set h. view q ?k = view r ?k \<or> view q ?k = rebuilt_feed S s u"
    and "\<forall>m. x = Inr m \<longrightarrow> view r' ?k = rebuilt_feed S s u"
  proof (atomize (full), cases "rows = []")
    case True
    obtain y where "exec (DEL ?k) r = (y, r')" "h = [r']" "\<forall>m. x = Inr m \<longrightarrow> (\<exists>v. y = Inr v)"
      using run True by (auto simp: rebuild_feed_for_user_def fetch_def sql bindP_def traced_def split: prod.splits sum.splits)
    then show "(\<forall>q \<in> set h. view q ?k = view r ?k \<or> view q ?k = rebuilt_feed S s u)
        \<and> (\<forall>m. x = Inr m \<longrightarrow> view r' ?k = rebuilt_feed S s u)"
      using True by (auto simp: new dest: exec_view)
  next
    case False
    obtain y r1 h1 where load: "pipe (traced exec) (load_commands ?t rows) (r, []) = (y, (r1, h1))" by (metis prod.exhaust)
    have before: "view r1 ?k = view r ?k" "\<forall>q \<in> set h1. view q ?k = view r ?k"
      using pipe_traced_keeps [OF load_keeps_feed load] by auto
    have del: "view q' ?k = view q ?k" if "exec (DEL ?t) q = (z, q')" for q q' z
      using exec_keeps [OF that, of ?k] by simp
    show "(\<forall>q \<in> set h. view q ?k = view r ?k \<or> view q ?k = rebuilt_feed S s u)
        \<and> (\<forall>m. x = Inr m \<longrightarrow> view r' ?k = rebuilt_feed S s u)"
    proof (cases y)
      case (Inl e)
      obtain z where "exec (DEL ?t) r1 = (z, r')" "h = h1 @ [r']" "\<forall>m. x \<noteq> Inr m"
        using run False load Inl
        by (auto simp: rebuild_feed_for_user_def fetch_def sql bindP_def finallyP_def voidP_def traced_def split: prod.splits sum.splits)
      then show ?thesis using before del by auto
    next
      case (Inr vs)
      have t: "?t \<notin> range post_key" by (auto dest: sym)
      have "runs (pipe redis_step (load_commands ?t rows)) (view r) (put_zset ?t (add_rows rows []) (with_bodies rows (view r)))"
        using load_runs [of "view r" ?t rows] c t by (auto simp: zset_or_none_def zset_at_def cache_ok_def)
      moreover have "pipe redis_step (load_commands ?t rows) (view r) = (Inr vs, view r1)"
        using faulty_server.pipe_reply [OF traced_faulty] load Inr by fastforce
      ultimately have "view r1 ?t = Some (ZSet (add_rows rows []))"
        using add_rows_nonempty [OF False] by (simp add: runs_def put_zset_def)
      from rename_feed [of "view r1", OF this] have ren: "snd (redis_step (RENAME ?t ?k) (view r1)) ?k = rebuilt_feed S s u"
        using False by (simp add: new)
      obtain w r2 where rename: "exec (RENAME ?t ?k) r1 = (w, r2)" by fastforce
      have r2: "view r2 ?k = view r ?k \<or> view r2 ?k = rebuilt_feed S s u"
        "\<forall>v. w = Inr v \<longrightarrow> view r2 ?k = rebuilt_feed S s u"
        using exec_view [OF rename] ren before(1) by auto
      obtain z where "exec (DEL ?t) r2 = (z, r')" "h = h1 @ [r2, r']" "\<forall>m. x = Inr m \<longrightarrow> (\<exists>v. w = Inr v)"
        using run False load Inr rename
        by (auto simp: rebuild_feed_for_user_def fetch_def sql bindP_def finallyP_def voidP_def traced_def split: prod.splits sum.splits)
      then show ?thesis using before r2 del by auto
    qed
  qed
qed

end

text \<open>C7: on a server that may fail at any command, in every state another client can observe during a rebuild
  and at its end the feed is either what it was before or the complete new feed, and it is the new feed
  when the rebuild returns; so no reader sees a partial or wrongly empty feed.\<close>

theorem rebuild_atomic:
  assumes "faulty_server exec view" and "cache_ok (view r)" and "view r (tmp_key u n) = None" and "0 \<le> feed_max_size S"
    and "rebuild_feed_for_user S (traced exec) (Inr s) n u (r, []) = (x, (r', h))"
  shows "(\<forall>q \<in> set h. view q (feed_key u) = view r (feed_key u) \<or> view q (feed_key u) = rebuilt_feed S s u)
    \<and> (\<forall>m. x = Inr m \<longrightarrow> view r' (feed_key u) = rebuilt_feed S s u)"
  using faulty_server.rebuild_traced [OF assms] by blast

lemma rebuild_atomic_witness:
  "\<exists>x r' h. rebuild_feed_for_user default_settings (traced flaky) (Inr (demo_tables [demo_post] [(1, 2)])) ''n'' 1 ((Map.empty, 2), []) = (x, (r', h))
    \<and> (\<forall>q \<in> set h. fst q (feed_key 1) = None
        \<or> fst q (feed_key 1) = rebuilt_feed default_settings (demo_tables [demo_post] [(1, 2)]) 1)"
proof -
  obtain x r' h where run: "rebuild_feed_for_user default_settings (traced flaky) (Inr (demo_tables [demo_post] [(1, 2)])) ''n'' 1
      ((Map.empty, 2), []) = (x, (r', h))" by (metis surj_pair)
  have "0 \<le> feed_max_size default_settings" by (simp add: default_settings_def)
  from rebuild_atomic [OF flaky.faulty_server_axioms _ _ this run] run show ?thesis by (auto simp: cache_ok_empty)
qed

section \<open>A fan-out during a rebuild\<close>

text \<open>Another client is served just before a rename.\<close>

definition interrupted :: "('r \<Rightarrow> 'r) \<Rightarrow> 'r server \<Rightarrow> 'r server" where
  "interrupted other exec c r = (case c of RENAME _ _ \<Rightarrow> exec c (other r) | _ \<Rightarrow> exec c r)"

lemma pipe_interrupted: "\<forall>c \<in> set cs. \<forall>a b. c \<noteq> RENAME a b \<Longrightarrow> pipe (interrupted other exec) cs r = pipe exec cs r"
proof (induction cs arbitrary: r)
  case (Cons c cs)
  then have "interrupted other exec c r = exec c r" by (cases c) (auto simp: interrupted_def)
  then show ?case using Cons by (simp add: split_def)
qed simp

text \<open>C38: a post that is published after a rebuild has read the tables and fanned out before the rebuild
  renames its temporary key is not in the feed afterwards, although the fan-out returned and the tables have
  the post: the rename overwrites the feed the fan-out wrote to.\<close>

theorem rebuild_loses_fan_out:
  assumes "social_ok (sql_insert_post p s)" and "cache_ok r" and "r (tmp_key u n) = None" and "0 \<le> feed_max_size S"
    and "(u, po_author p) \<in> set (so_friends s)" and "friend_posts s u \<noteq> []" and "1 \<le> feed_max_size S"
    and other: "other = (\<lambda>r. snd (fan_out_post S redis_step (Inr (sql_insert_post p s)) (po_id p) (po_author p) (po_created p) r))"
  shows "\<exists>m r'. rebuild_feed_for_user S (interrupted other redis_step) (Inr s) n u r = (Inr m, r')
    \<and> entry p \<in> friend_entries (sql_insert_post p s) u \<and> entry p \<notin> set (zset_at r' (feed_key u))"
proof -
  let ?t = "tmp_key u n" and ?k = "feed_key u"
  define rows where "rows = take (nat (feed_max_size S)) (newest_first (friend_posts s u))"
  let ?r = "put_zset ?t (add_rows rows []) (with_bodies rows r)"
  have social: "social_ok s" using assms(1) by (auto simp: social_ok_def sql_insert_post_def)
  have "length rows > 0" unfolding rows_def using assms(6,7) by simp
  then have ne: "rows \<noteq> []" by simp
  have t: "?t \<notin> range post_key" by (auto dest: sym)
  have "runs (pipe redis_step (load_commands ?t rows)) r ?r"
    using load_runs [of r ?t rows] assms(2,3) t by (auto simp: zset_or_none_def zset_at_def cache_ok_def)
  moreover have "\<forall>c \<in> set (load_commands ?t rows). \<forall>a b. c \<noteq> RENAME a b" by (auto simp: load_commands_def)
  ultimately obtain vs where load: "pipe (interrupted other redis_step) (load_commands ?t rows) r = (Inr vs, ?r)"
    by (auto simp: runs_def pipe_interrupted)
  have "cache_ok ?r" using cache_ok_with_bodies [OF assms(2), of rows]
    by (auto simp: cache_ok_def)
  moreover have "distinct (so_friends (sql_insert_post p s))" using assms(1) by (simp add: social_ok_def)
  ultimately have "other ?r = map_feeds (set (sql_followers (sql_insert_post p s) (po_author p)))
      (\<lambda>z. keep (feed_max_size S) (zadd (uuid_str (po_id p)) (timestamp (po_created p)) z)) ?r"
    using fan_out_effect assms(4) by (simp add: other)
  then have ot: "other ?r ?t = Some (ZSet (add_rows rows []))"
    using add_rows_nonempty [OF ne] by (simp add: image_iff put_zset_same)
  let ?r2 = "((other ?r)(?t := None))(?k \<mapsto> ZSet (add_rows rows []))"
  have ren: "interrupted other redis_step (RENAME ?t ?k) ?r = (Inr ROk, ?r2)" using ot by (simp add: interrupted_def)
  have del: "interrupted other redis_step (DEL ?t) q = redis_step (DEL ?t) q" for q by (simp add: interrupted_def)
  have "sql_friend_posts s u (feed_max_size S) = Inr rows"
    using assms(4) by (simp add: sql_friend_posts_def sql_limit_def rows_def)
  then have "rebuild_feed_for_user S (interrupted other redis_step) (Inr s) n u r = (Inr (int (length rows)), ?r2(?t := None))"
    using ne load ren by (simp add: rebuild_feed_for_user_def fetch_def bindP_def finallyP_def voidP_def del)
  moreover have "zset_at (?r2(?t := None)) ?k = add_rows rows []" by (simp add: zset_at_def)
  moreover have "set (add_rows rows []) = entry ` set rows"
    using posts_ok_newest [OF posts_ok_friend_posts [OF social]] by (subst set_add_rows) (auto simp: posts_ok_def rows_def)
  moreover have "entry p \<notin> entry ` set rows"
  proof
    assume "entry p \<in> entry ` set rows"
    then obtain q where "q \<in> set rows" "po_id q = po_id p" by (auto simp: entry_def uuid_str_inj)
    then have "po_id p \<in> po_id ` set (so_posts s)" by (auto simp: rows_def set_friend_posts dest!: in_set_takeD intro: rev_image_eqI)
    then show False using assms(1) by (simp add: social_ok_def sql_insert_post_def)
  qed
  moreover have "entry p \<in> friend_entries (sql_insert_post p s) u" using assms(5) by (simp add: friend_entries_insert)
  ultimately show ?thesis by simp
qed

definition demo_later_post :: post where
  "demo_later_post = \<lparr>po_id = 6, po_author = 2, po_text = ''again'', po_created = Datetime 2024 3 1 13 0 0 0\<rparr>"

lemma rebuild_loses_fan_out_witness:
  "\<exists>other m r'. rebuild_feed_for_user default_settings (interrupted other redis_step) (Inr (demo_tables [demo_post] [(1, 2)])) ''n'' 1 Map.empty = (Inr m, r')
    \<and> entry demo_later_post \<in> friend_entries (sql_insert_post demo_later_post (demo_tables [demo_post] [(1, 2)])) 1
    \<and> entry demo_later_post \<notin> set (zset_at r' (feed_key 1))"
proof -
  let ?s = "demo_tables [demo_post] [(1, 2)]"
  let ?other = "\<lambda>r. snd (fan_out_post default_settings redis_step (Inr (sql_insert_post demo_later_post ?s)) (po_id demo_later_post)
    (po_author demo_later_post) (po_created demo_later_post) r)"
  have "social_ok (sql_insert_post demo_later_post ?s)"
    by (simp add: sql_insert_post_def demo_tables_def social_ok_def demo_user_def demo_post_def demo_later_post_def dt_ok_def days_in_month_def)
  moreover have "(1, po_author demo_later_post) \<in> set (so_friends ?s)" by (simp add: demo_tables_def demo_later_post_def)
  ultimately have "\<exists>m r'. rebuild_feed_for_user default_settings (interrupted ?other redis_step) (Inr ?s) ''n'' 1 Map.empty = (Inr m, r')
      \<and> entry demo_later_post \<in> friend_entries (sql_insert_post demo_later_post ?s) 1
      \<and> entry demo_later_post \<notin> set (zset_at r' (feed_key 1))"
    by (intro rebuild_loses_fan_out) (simp_all add: cache_ok_empty default_settings_def demo_friend_posts)
  then show ?thesis by blast
qed

end
