(* ===== verification/Feed_Worker.thy ===== *)
theory Feed_Worker
  imports Feed_Faults
begin

text \<open>
  \<^verbatim>\<open>app/workers/feed_worker.py\<close>: the worker that takes events of posts from a Redis stream in a consumer group
  and materialises the feeds.  An entry is acknowledged only after it was handled; the entries a crashed
  worker left unacknowledged are taken up again at the start.
\<close>

section \<open>Operations\<close>

definition exn_str :: "exn \<Rightarrow> string" where
  "exn_str e = (case e of RuntimeError s \<Rightarrow> s | ValueError s \<Rightarrow> s | KeyError s \<Rightarrow> s | TypeError s \<Rightarrow> s | IndexError \<Rightarrow> [] | AttributeError s \<Rightarrow> s
     | SystemExit s \<Rightarrow> s | HTTPException _ s \<Rightarrow> s | PostgresError s \<Rightarrow> s | RedisError s \<Rightarrow> s | AmqpError s \<Rightarrow> s | ConnectionError s \<Rightarrow> s
     | FileNotFoundError s \<Rightarrow> s | CsvError s \<Rightarrow> s | OverflowError s \<Rightarrow> s)"

text \<open>\<^verbatim>\<open>sub in s\<close>.\<close>

fun py_in :: "string \<Rightarrow> string \<Rightarrow> bool" where
  "py_in sub [] = (sub = [])"
| "py_in sub (c # s) = (take (length sub) (c # s) = sub \<or> py_in sub s)"

definition ensure_group :: "settings \<Rightarrow> 'r server \<Rightarrow> ('r, unit) prog" where
  "ensure_group S exec =
     exceptP (voidP (exec (XGROUP_CREATE (feed_stream_key S) (feed_stream_group S))))
       (\<lambda>exc. if py_in ''BUSYGROUP'' (exn_str exc) then returnP () else raiseP exc)"

text \<open>\<^verbatim>\<open>datetime.fromisoformat\<close> on the texts that the producers print; an aware time in UTC has the timestamp of
  its fields.\<close>

definition parse_moment :: "string \<Rightarrow> datetime res" where
  "parse_moment t =
     (if drop (length t - 6) t = ''+00:00'' then fromisoformat (take (length t - 6) t) else fromisoformat t)"

definition event_ids :: "fields \<Rightarrow> (uuid \<times> uuid) res" where
  "event_ids ev =
     bindR (hash_field ev ''post_id'') (\<lambda>p.
     bindR (UUID p) (\<lambda>post_id.
     bindR (hash_field ev ''author_id'') (\<lambda>a.
     bindR (UUID a) (\<lambda>author_id. Inr (post_id, author_id)))))"

definition handle_event :: "settings \<Rightarrow> 'r server \<Rightarrow> social res \<Rightarrow> fields \<Rightarrow> ('r, unit) prog" where
  "handle_event S exec db ev =
     (let event_type = (case map_of ev ''event_type'' of None \<Rightarrow> [] | Some t \<Rightarrow> t) in
      case event_ids ev of
        Inl exc \<Rightarrow> returnP ()
      | Inr (post_id, author_id) \<Rightarrow>
          if event_type = ''created'' then
            bindP (liftP (bindR (hash_field ev ''created_at'') parse_moment)) (\<lambda>created_at.
              fan_out_post S exec db post_id author_id created_at)
          else if event_type = ''deleted'' then remove_post_from_all_feeds exec db post_id author_id
          else returnP ())"

definition drain_entry :: "settings \<Rightarrow> 'r server \<Rightarrow> social res \<Rightarrow> string \<Rightarrow> string \<Rightarrow> nat \<times> fields \<Rightarrow> ('r, unit) prog" where
  "drain_entry S exec db stream grp = (\<lambda>(msg_id, ev).
     exceptP (bindP (handle_event S exec db ev) (\<lambda>_. voidP (exec (XACK stream grp msg_id)))) (\<lambda>exc. returnP ()))"

definition drain_entries :: "settings \<Rightarrow> 'r server \<Rightarrow> social res \<Rightarrow> string \<Rightarrow> string \<Rightarrow> (nat \<times> fields) list \<Rightarrow> ('r, unit) prog" where
  "drain_entries S exec db stream grp entries = forP entries (drain_entry S exec db stream grp)"

text \<open>The loop of \<^verbatim>\<open>_recover_pending\<close>; \<open>None\<close> when the fuel is used up.\<close>

fun recover_pending :: "nat \<Rightarrow> settings \<Rightarrow> 'r server \<Rightarrow> social res \<Rightarrow> string \<Rightarrow> string \<Rightarrow> string \<Rightarrow> nat \<Rightarrow> nat \<Rightarrow> 'r \<Rightarrow> 'r option" where
  "recover_pending 0 S exec db stream grp consumer batch cursor r = None"
| "recover_pending (Suc fuel) S exec db stream grp consumer batch cursor r =
     (case execute exec as_entries (XREADGROUP stream grp consumer (Some cursor) batch) r of
        (Inl exc, r') \<Rightarrow> Some r'
      | (Inr entries, r') \<Rightarrow>
          if entries = [] then Some r'
          else recover_pending fuel S exec db stream grp consumer batch (fst (last entries))
                 (snd (drain_entries S exec db stream grp entries r')))"

text \<open>One round of the loop of \<^verbatim>\<open>_process_loop\<close>: read new entries and drain them; a failed read is retried.\<close>

definition process_round :: "settings \<Rightarrow> 'r server \<Rightarrow> social res \<Rightarrow> ('r, unit) prog" where
  "process_round S exec db =
     exceptP
       (bindP (execute exec as_entries (XREADGROUP (feed_stream_key S) (feed_stream_group S) (feed_stream_consumer S) None
            (nat (feed_stream_batch S)))) (\<lambda>entries.
         drain_entries S exec db (feed_stream_key S) (feed_stream_group S) entries))
       (\<lambda>exc. returnP ())"

text \<open>The whole loop, with what the primary holds in each round until the shutdown.\<close>

definition process_loop :: "nat \<Rightarrow> settings \<Rightarrow> 'r server \<Rightarrow> social res \<Rightarrow> social res list \<Rightarrow> ('r, unit) prog" where
  "process_loop fuel S exec db0 dbs =
     bindP (ensure_group S exec) (\<lambda>_ r.
       case recover_pending fuel S exec db0 (feed_stream_key S) (feed_stream_group S) (feed_stream_consumer S)
           (nat (feed_stream_batch S)) 0 r of
         None \<Rightarrow> (Inl (RuntimeError ''recovery did not end''), r)
       | Some r' \<Rightarrow> forP dbs (process_round S exec) r')"

section \<open>Programs that leave a key alone\<close>

definition keeps :: "('r \<Rightarrow> redis) \<Rightarrow> string \<Rightarrow> ('r, 'a) prog \<Rightarrow> bool" where
  "keeps view k m \<longleftrightarrow> (\<forall>r. view (snd (m r)) k = view r k)"

named_theorems keeps_intros \<open>composed programs that leave a key alone\<close>

lemma keeps_return [keeps_intros]: "keeps view k (returnP x)"
  by (simp add: keeps_def)

lemma keeps_lift [keeps_intros]: "keeps view k (liftP x)"
  by (simp add: keeps_def)

lemma keeps_fetch [keeps_intros]: "keeps view k (fetch db q)"
  by (simp add: keeps_def fetch_def)

lemma keeps_bind [keeps_intros]:
  assumes "keeps view k m" and "\<And>x. keeps view k (f x)"
  shows "keeps view k (bindP m f)"
  unfolding keeps_def
proof
  fix r
  obtain x r' where m: "m r = (x, r')" by fastforce
  then have "view r' k = view r k" using assms(1) by (metis keeps_def snd_conv)
  then show "view (snd (bindP m f r)) k = view r k"
    using assms(2) m by (cases x) (auto simp: keeps_def)
qed

lemma keeps_void [keeps_intros]: "keeps view k m \<Longrightarrow> keeps view k (voidP m)"
  unfolding voidP_def by (intro keeps_intros)

lemma keeps_if [keeps_intros]: "keeps view k m \<Longrightarrow> keeps view k m' \<Longrightarrow> keeps view k (if b then m else m')"
  by simp

context faulty_server
begin

lemma exec_keeps_key: "(\<And>s. snd (redis_step c s) k = s k) \<Longrightarrow> keeps view k (exec c)"
  unfolding keeps_def by (metis exec_keeps prod.collapse)

lemma pipe_keeps_key:
  assumes "\<And>c s. c \<in> set cs \<Longrightarrow> snd (redis_step c s) k = s k"
  shows "keeps view k (pipe exec cs)"
  using assms
proof (induction cs)
  case (Cons c cs)
  have "keeps view k (exec c)" "keeps view k (pipe exec cs)" using Cons exec_keeps_key by simp_all
  then have "view (snd (pipe exec cs (snd (exec c r)))) k = view r k" for r unfolding keeps_def by simp
  then show ?case by (simp add: keeps_def split_def)
qed (simp add: keeps_def)

lemma handle_event_keeps:
  assumes "k \<notin> range feed_key"
  shows "keeps view k (handle_event S exec db ev)"
proof -
  have "keeps view k (pipe exec (fan_out_commands cap i t us))" for cap i t us
    using assms by (intro pipe_keeps_key) (auto simp: fan_out_commands_def on_value_def put_zset_def split: sum.splits)
  moreover have "keeps view k (pipe exec (map (\<lambda>u. ZREM (feed_key u) ms) us))" for ms us
    using assms by (intro pipe_keeps_key) (auto simp: on_value_def put_zset_def split: sum.splits)
  ultimately show ?thesis
    unfolding handle_event_def fan_out_post_def remove_post_from_all_feeds_def get_followers_def Let_def
    by (auto split: sum.splits intro!: keeps_intros)
qed

end

section \<open>Pending entries\<close>

definition pending :: "redis \<Rightarrow> string \<Rightarrow> string \<Rightarrow> (nat \<times> string) list" where
  "pending s k g = (case s k of Some (Stream st) \<Rightarrow> (case map_of (st_groups st) g of Some gr \<Rightarrow> gr_pending gr | None \<Rightarrow> []) | _ \<Rightarrow> [])"

lemma pending_cong: "s k = s' k \<Longrightarrow> pending s k g = pending s' k g"
  by (simp add: pending_def)

lemma map_of_assoc_put [simp]: "map_of (assoc_put k v xs) k = Some v"
proof -
  have "map_of (map (\<lambda>(k', v'). (k', if k' = k then v else v')) xs) k = Some v" if "k \<in> fst ` set xs"
    using that by (induction xs) auto
  moreover have "map_of (xs @ [(k, v)]) k = Some v" if "k \<notin> fst ` set xs"
    using that by (simp add: map_add_def map_of_eq_None_iff [symmetric])
  ultimately show ?thesis by (simp add: assoc_put_def)
qed

lemma xack_pending: "pending (snd (redis_step (XACK k g i) s)) k g = filter (\<lambda>p. fst p \<noteq> i) (pending s k g)"
  by (auto simp: pending_def on_value_def get_stream_def xack_def wrongtype_def split: option.splits rvalue.splits)

context faulty_server
begin

lemma drain_entry_pending:
  assumes "k \<notin> range feed_key" and "drain_entry S exec db k g (i, ev) r = (x, r')"
  shows "x = Inr () \<and> (pending (view r') k g = pending (view r) k g
    \<or> (pending (view r') k g = filter (\<lambda>p. fst p \<noteq> i) (pending (view r) k g) \<and> (\<exists>r2. handle_event S exec db ev r = (Inr (), r2))))"
proof -
  obtain y r1 where h: "handle_event S exec db ev r = (y, r1)" by fastforce
  then have k: "view r1 k = view r k" using handle_event_keeps [OF assms(1)] by (metis keeps_def snd_conv)
  then have p1: "pending (view r1) k g = pending (view r) k g" by (rule pending_cong)
  show ?thesis
  proof (cases y)
    case (Inl e)
    then show ?thesis using assms(2) h p1 by (simp add: drain_entry_def exceptP_def)
  next
    case (Inr u)
    obtain z r2 where a: "exec (XACK k g i) r1 = (z, r2)" by fastforce
    then have "x = Inr ()" "r' = r2" using assms(2) h Inr
      by (auto simp: drain_entry_def exceptP_def voidP_def bindP_def split: sum.splits)
    moreover have "pending (view r2) k g = filter (\<lambda>p. fst p \<noteq> i) (pending (view r1) k g) \<or> pending (view r2) k g = pending (view r1) k g"
      using exec_view [OF a] xack_pending by auto
    ultimately show ?thesis using p1 h Inr by auto
  qed
qed

lemma drain_pending:
  assumes "k \<notin> range feed_key" and "drain_entries S exec db k g entries r = (x, r')"
  shows "x = Inr () \<and> set (pending (view r') k g) \<subseteq> set (pending (view r) k g)
    \<and> (\<forall>p \<in> set (pending (view r) k g). p \<in> set (pending (view r') k g)
        \<or> (\<exists>ev r1 r2. (fst p, ev) \<in> set entries \<and> handle_event S exec db ev r1 = (Inr (), r2)))"
  using assms(2) unfolding drain_entries_def
proof (induction entries arbitrary: r)
  case (Cons e entries)
  obtain i ev where e: "e = (i, ev)" by fastforce
  obtain y r1 where d: "drain_entry S exec db k g (i, ev) r = (y, r1)" by fastforce
  note one = drain_entry_pending [OF assms(1) d]
  then have "forP entries (drain_entry S exec db k g) r1 = (x, r')" using Cons.prems d e by simp
  from Cons.IH [OF this] one show ?case unfolding e by fastforce
qed simp

text \<open>Every round of the recovery moves the cursor past an entry of the consumer.\<close>

lemma read_pending:
  assumes "execute exec as_entries (XREADGROUP k g c (Some cursor) n) r = (Inr entries, r')"
  shows "pending (view r') k g = pending (view r) k g
    \<and> (\<forall>e \<in> set entries. cursor < fst e \<and> (fst e, c) \<in> set (pending (view r) k g))"
proof -
  obtain v where v: "exec (XREADGROUP k g c (Some cursor) n) r = (Inr v, r')" "as_entries v = Inr entries"
    using assms by (auto simp: execute_def bindP_def split: prod.splits sum.splits)
  from exec_reply [OF v(1)] obtain st where st: "view r k = Some (Stream st)" "view r' = (view r)(k \<mapsto> Stream st)"
      "xreadgroup g c (Some cursor) n st = (Inr v, st)"
    by (auto simp: get_stream_def wrongtype_def xreadgroup_def Let_def split: option.splits rvalue.splits sum.splits prod.splits)
  obtain gr where gr: "map_of (st_groups st) g = Some gr" using st(3) by (auto simp: xreadgroup_def split: option.splits)
  have es: "entries = filter (\<lambda>e. fst e \<in> fst ` set (take n (filter (\<lambda>p. snd p = c \<and> cursor < fst p) (gr_pending gr)))) (st_entries st)"
    using st(3) gr v(2) by (auto simp: xreadgroup_def Let_def as_entries_def)
  have "cursor < fst e \<and> (fst e, c) \<in> set (gr_pending gr)" if "e \<in> set entries" for e
    using that unfolding es by (auto dest!: in_set_takeD)
  then show ?thesis using st gr by (simp add: pending_def)
qed

end

definition unread :: "string \<Rightarrow> nat \<Rightarrow> (nat \<times> string) list \<Rightarrow> (nat \<times> string) set" where
  "unread c cursor ps = {p \<in> set ps. snd p = c \<and> cursor < fst p}"

context faulty_server
begin

lemma recover_total:
  assumes "k \<notin> range feed_key" and "card (unread c cursor (pending (view r) k g)) < fuel"
  shows "\<exists>r'. recover_pending fuel S exec db k g c n cursor r = Some r'"
  using assms(2)
proof (induction fuel arbitrary: cursor r)
  case (Suc fuel)
  obtain y r1 where x: "execute exec as_entries (XREADGROUP k g c (Some cursor) n) r = (y, r1)" by fastforce
  show ?case
  proof (cases "\<exists>entries. y = Inr entries \<and> entries \<noteq> []")
    case False
    then show ?thesis using x by (cases y) auto
  next
    case True
    then obtain entries where y: "y = Inr entries" "entries \<noteq> []" by blast
    let ?r2 = "snd (drain_entries S exec db k g entries r1)"
    let ?last = "fst (last entries)"
    let ?old = "unread c cursor (pending (view r) k g)"
    note rp = read_pending [OF x [unfolded y(1)]]
    have l: "cursor < ?last" "(?last, c) \<in> ?old" using rp y(2) by (simp_all add: unread_def)
    have "set (pending (view ?r2) k g) \<subseteq> set (pending (view r) k g)"
      using drain_pending [OF assms(1) prod.collapse [symmetric], of S db g entries r1] rp by simp
    then have "unread c ?last (pending (view ?r2) k g) \<subseteq> ?old - {(?last, c)}"
      using l(1) by (auto simp: unread_def)
    then have "unread c ?last (pending (view ?r2) k g) \<subset> ?old" using l(2) by blast
    then have "card (unread c ?last (pending (view ?r2) k g)) < card ?old"
      by (intro psubset_card_mono) (simp_all add: unread_def)
    then show ?thesis using Suc.IH [of ?last ?r2] Suc.prems x y by simp
  qed
qed simp

end

section \<open>Entries that still have to be handled\<close>

text \<open>A stream whose identifiers grow, as the server hands them out.\<close>

definition stream_ok :: "stream \<Rightarrow> bool" where
  "stream_ok st \<longleftrightarrow> sorted_wrt (<) (map fst (st_entries st)) \<and> (\<forall>e \<in> set (st_entries st). fst e < st_next st)"

definition stream_of :: "redis \<Rightarrow> string \<Rightarrow> stream" where
  "stream_of s k = (case s k of Some (Stream st) \<Rightarrow> st | _ \<Rightarrow> empty_stream)"

definition group_of :: "stream \<Rightarrow> string \<Rightarrow> group" where
  "group_of st g = (case map_of (st_groups st) g of Some gr \<Rightarrow> gr | None \<Rightarrow> \<lparr>gr_last = 0, gr_pending = []\<rparr>)"

text \<open>The entries that the group has not been given yet or has not acknowledged.\<close>

definition waiting :: "stream \<Rightarrow> group \<Rightarrow> (nat \<times> fields) set" where
  "waiting st gr = {e \<in> set (st_entries st). gr_last gr < fst e \<or> fst e \<in> fst ` set (gr_pending gr)}"

definition outstanding :: "redis \<Rightarrow> string \<Rightarrow> string \<Rightarrow> (nat \<times> fields) set" where
  "outstanding s k g = waiting (stream_of s k) (group_of (stream_of s k) g)"

text \<open>The identifiers of the entries whose event is handled without an error while the list is drained, and while
  a round runs.\<close>

fun handled_in :: "settings \<Rightarrow> 'r server \<Rightarrow> social res \<Rightarrow> string \<Rightarrow> string \<Rightarrow> (nat \<times> fields) list \<Rightarrow> 'r \<Rightarrow> nat set" where
  "handled_in S exec db k g [] r = {}"
| "handled_in S exec db k g (e # es) r =
     (case handle_event S exec db (snd e) r of (Inr _, _) \<Rightarrow> {fst e} | (Inl _, _) \<Rightarrow> {})
     \<union> handled_in S exec db k g es (snd (drain_entry S exec db k g e r))"

definition handled_by_round :: "settings \<Rightarrow> 'r server \<Rightarrow> social res \<Rightarrow> 'r \<Rightarrow> nat set" where
  "handled_by_round S exec db r =
     (case execute exec as_entries (XREADGROUP (feed_stream_key S) (feed_stream_group S) (feed_stream_consumer S) None
           (nat (feed_stream_batch S))) r of
        (Inl _, _) \<Rightarrow> {}
      | (Inr entries, r') \<Rightarrow> handled_in S exec db (feed_stream_key S) (feed_stream_group S) entries r')"

lemma outstanding_cong: "s k = s' k \<Longrightarrow> outstanding s k g = outstanding s' k g"
  by (simp add: outstanding_def stream_of_def)

lemma xack_outstanding: "{e \<in> outstanding s k g. fst e \<noteq> i} \<subseteq> outstanding (snd (redis_step (XACK k g i) s)) k g"
  by (auto simp: outstanding_def waiting_def stream_of_def group_of_def on_value_def get_stream_def xack_def wrongtype_def
      split: option.splits rvalue.splits)

lemma waiting_read:
  assumes "stream_ok st" and "es = take n (filter (\<lambda>e. gr_last gr < fst e) (st_entries st))"
  shows "waiting st \<lparr>gr_last = (if es = [] then gr_last gr else fst (last es)),
      gr_pending = gr_pending gr @ map (\<lambda>e. (fst e, c)) es\<rparr> = waiting st gr"
proof -
  define new where "new = filter (\<lambda>e. gr_last gr < fst e) (st_entries st)"
  have "sorted_wrt (\<lambda>e e'. fst e < fst e') (st_entries st)"
    using assms(1) by (simp add: stream_ok_def sorted_wrt_map)
  then have "sorted_wrt (\<lambda>e e'. fst e < fst e') (es @ drop n new)"
    by (simp add: assms(2) new_def sorted_wrt_filter)
  then have later: "\<forall>e \<in> set (drop n new). es \<noteq> [] \<longrightarrow> fst (last es) < fst e"
    by (auto simp: sorted_wrt_append)
  have split: "set new = set es \<union> set (drop n new)"
    using assms(2) unfolding new_def by (metis append_take_drop_id set_append)
  have new: "set new = {e \<in> set (st_entries st). gr_last gr < fst e}" by (auto simp: new_def)
  have last: "es \<noteq> [] \<Longrightarrow> gr_last gr < fst (last es)" using split new last_in_set by blast
  show ?thesis
  proof (cases "es = []")
    case False
    have "gr_last gr < fst e" if "fst (last es) < fst e" for e :: "nat \<times> fields" using last [OF False] that by simp
    moreover have "gr_last gr < fst e" if "e \<in> set es" for e using that split new by blast
    moreover have "fst (last es) < fst e \<or> fst e \<in> fst ` set es" if "e \<in> set (st_entries st)" "gr_last gr < fst e" for e
      using that split new later False by (metis (no_types, lifting) Un_iff imageI mem_Collect_eq)
    ultimately show ?thesis using False
      by (auto simp: waiting_def image_Un image_image simp del: split_paired_All) (use last in blast)+
  qed (simp add: waiting_def)
qed

context faulty_server
begin

lemma read_outstanding:
  assumes "stream_ok (stream_of (view r) k)" and "execute exec conv (XREADGROUP k g c None n) r = (x, r')"
  shows "outstanding (view r') k g = outstanding (view r) k g"
proof -
  have step: "outstanding (snd (redis_step (XREADGROUP k g c None n) s)) k g = outstanding s k g"
    if "stream_ok (stream_of s k)" for s
  proof (cases "\<exists>st gr. s k = Some (Stream st) \<and> map_of (st_groups st) g = Some gr")
    case True
    then obtain st gr where s: "s k = Some (Stream st)" "map_of (st_groups st) g = Some gr" by blast
    then have "stream_ok st" using that by (simp add: stream_of_def)
    note w = waiting_read [OF this refl, of n gr c]
    show ?thesis using w s
      by (auto simp: get_stream_def xreadgroup_def Let_def outstanding_def stream_of_def group_of_def waiting_def)
  next
    case False
    then have "snd (redis_step (XREADGROUP k g c None n) s) = s"
      by (auto simp: get_stream_def xreadgroup_def wrongtype_def split: option.splits rvalue.splits)
    then show ?thesis by simp
  qed
  obtain y where "exec (XREADGROUP k g c None n) r = (y, r')"
    using assms(2) by (auto simp: execute_def bindP_def split: prod.splits sum.splits)
  from exec_view [OF this] step [OF assms(1)] show ?thesis by metis
qed

lemma drain_entry_outstanding:
  assumes "k \<notin> range feed_key"
  shows "{e \<in> outstanding (view r) k g. fst e \<notin> handled_in S exec db k g [(i, ev)] r}
    \<subseteq> outstanding (view (snd (drain_entry S exec db k g (i, ev) r))) k g"
proof -
  obtain y r1 where h: "handle_event S exec db ev r = (y, r1)" by fastforce
  then have "view r1 k = view r k" using handle_event_keeps [OF assms(1)] by (metis keeps_def snd_conv)
  then have o1: "outstanding (view r1) k g = outstanding (view r) k g" by (rule outstanding_cong)
  obtain z r2 where a: "exec (XACK k g i) r1 = (z, r2)" by fastforce
  have "{e \<in> outstanding (view r) k g. fst e \<noteq> i} \<subseteq> outstanding (view r2) k g"
    using exec_view [OF a]
  proof
    assume "view r2 = snd (redis_step (XACK k g i) (view r1))"
    then show ?thesis using xack_outstanding [of "view r1" k g i] unfolding o1 by (simp only:)
  qed (use o1 in auto)
  then show ?thesis using h o1 a
    by (cases y) (auto simp: drain_entry_def exceptP_def voidP_def bindP_def split: sum.splits)
qed

lemma drain_outstanding:
  assumes "k \<notin> range feed_key"
  shows "{e \<in> outstanding (view r) k g. fst e \<notin> handled_in S exec db k g entries r}
    \<subseteq> outstanding (view (snd (drain_entries S exec db k g entries r))) k g"
  unfolding drain_entries_def
proof (induction entries arbitrary: r)
  case (Cons e entries)
  obtain i ev where e: "e = (i, ev)" by fastforce
  obtain y r1 where d: "drain_entry S exec db k g e r = (y, r1)" by fastforce
  have y: "y = Inr ()" using drain_entry_pending [OF assms, of S db g i ev r y r1] d e by simp
  have "{e' \<in> outstanding (view r) k g. fst e' \<notin> handled_in S exec db k g [e] r} \<subseteq> outstanding (view r1) k g"
    using drain_entry_outstanding [OF assms, of r g S db i ev] d e by simp
  then show ?case using Cons.IH [of r1] d y by auto
qed simp

end

section \<open>At least once\<close>

text \<open>C10: Whatever commands or replies get lost, a round of the worker returns normally and
  drops no event: an entry of the stream that the group had not acknowledged before the round is acknowledged only if
  its event was handled in this round without an error; otherwise it is still undelivered or pending
  afterwards.\<close>

theorem worker_at_least_once:
  assumes "faulty_server exec view" and "feed_stream_key S \<notin> range feed_key"
    and "stream_ok (stream_of (view r) (feed_stream_key S))" and "process_round S exec db r = (x, r')"
  shows "x = Inr () \<and> {e \<in> outstanding (view r) (feed_stream_key S) (feed_stream_group S). fst e \<notin> handled_by_round S exec db r}
      \<subseteq> outstanding (view r') (feed_stream_key S) (feed_stream_group S)"
proof -
  let ?k = "feed_stream_key S" and ?g = "feed_stream_group S"
  obtain y r1 where read: "execute exec as_entries (XREADGROUP ?k ?g (feed_stream_consumer S) None (nat (feed_stream_batch S))) r = (y, r1)"
    by fastforce
  note same = faulty_server.read_outstanding [OF assms(1,3) read]
  show ?thesis
  proof (cases y)
    case (Inl exc)
    then show ?thesis using assms(4) read same by (simp add: process_round_def exceptP_def)
  next
    case (Inr entries)
    obtain z r2 where drain: "drain_entries S exec db ?k ?g entries r1 = (z, r2)" by fastforce
    have "z = Inr ()" using faulty_server.drain_pending [OF assms(1,2) drain] by simp
    then have r: "x = Inr ()" "r' = r2" using assms(4) read Inr drain by (simp_all add: process_round_def exceptP_def)
    show ?thesis using faulty_server.drain_outstanding [OF assms(1,2), of r1 ?g S db entries] same drain r read Inr
      by (simp add: handled_by_round_def)
  qed
qed

end
