(* ===== verification/Feed_Async.thy ===== *)
theory Feed_Async
  imports Feed_Worker
begin

text \<open>
  The asynchronous path of the feed against the synchronous one: publishing events to the stream
  (\<^verbatim>\<open>publish_post_event\<close> of \<^verbatim>\<open>app/feed_cache.py\<close>) and letting the worker (\<^verbatim>\<open>app/workers/feed_worker.py\<close>) run a
  round leaves the feeds exactly as the synchronous fan-outs and removals do.
\<close>

section \<open>What an event stands for\<close>

type_synonym event = "string \<times> uuid \<times> uuid \<times> moment"

fun moment_dt :: "moment \<Rightarrow> datetime" where
  "moment_dt (Naive d) = d"
| "moment_dt (Utc d) = d"

definition publish :: "settings \<Rightarrow> 'r server \<Rightarrow> event \<Rightarrow> ('r, unit) prog" where
  "publish S exec = (\<lambda>(ty, p, a, t). publish_post_event S exec ty p a t)"

definition event_fields :: "event \<Rightarrow> fields" where
  "event_fields = (\<lambda>(ty, p, a, t). [(''event_type'', ty), (''post_id'', uuid_str p), (''author_id'', uuid_str a),
     (''created_at'', moment_iso t)])"

text \<open>What the handlers of \<^verbatim>\<open>app/routes/posts.py\<close> do themselves when the stream is switched off.\<close>

definition apply_event :: "settings \<Rightarrow> 'r server \<Rightarrow> social res \<Rightarrow> event \<Rightarrow> ('r, unit) prog" where
  "apply_event S exec db = (\<lambda>(ty, p, a, t).
     if ty = ''created'' then fan_out_post S exec db p a (moment_dt t)
     else if ty = ''deleted'' then remove_post_from_all_feeds exec db p a
     else returnP ())"

definition event_ok :: "event \<Rightarrow> bool" where
  "event_ok = (\<lambda>(ty, p, a, t). dt_ok (moment_dt t))"

section \<open>An event survives the stream\<close>

lemma isoformat_no_zone: "dt_ok d \<Longrightarrow> drop (length (isoformat d) - 6) (isoformat d) \<noteq> ''+00:00''"
proof
  assume d: "dt_ok d" and zone: "drop (length (isoformat d) - 6) (isoformat d) = ''+00:00''"
  have len: "length (isoformat d) = (if microsecond d = 0 then 19 else 26)" by (simp add: isoformat_def iso_micro_def)
  have "isoformat d ! (length (isoformat d) - 6) = CHR ''+''" using zone len nth_drop [of "length (isoformat d) - 6" "isoformat d" 0] by (simp split: if_splits)
  moreover have "isoformat d ! 13 = CHR '':''" by (simp add: isoformat_def nth_append)
  moreover have "isoformat d ! 20 \<noteq> CHR ''+''" if "microsecond d \<noteq> 0"
  proof -
    have "isoformat d ! 20 = padded 6 (microsecond d) ! 0" using that by (simp add: isoformat_def iso_micro_def nth_append)
    also have "\<dots> = char_of (48 + nat (microsecond d div 10 ^ 5 mod 10))" using padded_Suc [of 5 "microsecond d"] by (simp add: eval_nat_numeral)
    finally show ?thesis
      using digit_value_char [of "microsecond d div 10 ^ 5 mod 10"] by (auto simp: digit_value_def)
  qed
  ultimately show False using len by (simp split: if_splits)
qed

lemma parse_moment_iso: "dt_ok (moment_dt t) \<Longrightarrow> parse_moment (moment_iso t) = Inr (moment_dt t)"
  by (cases t) (simp_all add: parse_moment_def moment_iso_def isoformat_no_zone fromisoformat_isoformat)

lemma handle_published: "event_ok ev \<Longrightarrow> handle_event S exec db (event_fields ev) = apply_event S exec db ev"
  by (cases ev) (auto simp: fun_eq_iff handle_event_def event_fields_def event_ids_def hash_field_def bindR_def UUID_str
      apply_event_def event_ok_def parse_moment_iso bindP_def)

section \<open>The feeds do not see the stream\<close>

definition off :: "string \<Rightarrow> redis \<Rightarrow> redis" where
  "off k s = s(k := None)"

lemma pipe_sim: "(\<And>c. c \<in> set cs \<Longrightarrow> sim view (exec c) (exec' c)) \<Longrightarrow> sim view (pipe exec cs) (pipe exec' cs)"
proof (induction cs)
  case (Cons c cs)
  have c: "sim view (exec c) (exec' c)" and cs: "sim view (pipe exec cs) (pipe exec' cs)" using Cons by simp_all
  show ?case
    unfolding sim_def
  proof
    fix r
    obtain x r1 where 1: "exec c r = (x, r1)" by fastforce
    obtain y r2 where 2: "pipe exec cs r1 = (y, r2)" by fastforce
    show "fst (pipe exec (c # cs) r) = fst (pipe exec' (c # cs) (view r))
        \<and> view (snd (pipe exec (c # cs) r)) = snd (pipe exec' (c # cs) (view r))"
      using 1 2 sim_result [OF c 1] sim_result [OF cs 2] by simp
  qed
qed (simp add: sim_def)

lemma zset_cmd_sims:
  assumes "key \<noteq> k"
  shows "sim (off k) (redis_step (ZADD key m v)) (redis_step (ZADD key m v))"
    and "sim (off k) (redis_step (ZREM key ms)) (redis_step (ZREM key ms))"
    and "sim (off k) (redis_step (ZREMRANGEBYRANK key a b)) (redis_step (ZREMRANGEBYRANK key a b))"
  using assms by (auto simp: sim_def off_def on_value_def get_zset_def put_zset_def wrongtype_def split: option.splits rvalue.splits)

lemma apply_event_sim:
  assumes "k \<notin> range feed_key"
  shows "sim (off k) (apply_event S redis_step db ev) (apply_event S redis_step db ev)"
proof -
  obtain ty p a t where ev: "ev = (ty, p, a, t)" by (metis prod_cases4)
  have "sim (off k) (pipe redis_step (fan_out_commands cap i v us)) (pipe redis_step (fan_out_commands cap i v us))" for cap i v us
    using assms by (intro pipe_sim) (auto simp only: fan_out_commands_def set_concat set_map UN_iff list.set insert_iff image_iff intro!: zset_cmd_sims)
  moreover have "sim (off k) (pipe redis_step (map (\<lambda>u. ZREM (feed_key u) ms) us)) (pipe redis_step (map (\<lambda>u. ZREM (feed_key u) ms) us))" for ms us
    using assms by (intro pipe_sim) (auto simp only: set_map image_iff intro!: zset_cmd_sims)
  ultimately show ?thesis
    unfolding ev apply_event_def fan_out_post_def remove_post_from_all_feeds_def get_followers_def prod.case
    by (intro sim_intros)
qed

section \<open>A round of the worker\<close>

text \<open>The group has been given every entry of the stream and has acknowledged all of them.\<close>

definition idle :: "stream \<Rightarrow> string \<Rightarrow> (nat \<times> string) list \<Rightarrow> bool" where
  "idle st g ps \<longleftrightarrow> (case map_of (st_groups st) g of None \<Rightarrow> False
     | Some gr \<Rightarrow> gr_pending gr = ps \<and> gr_last gr < st_next st \<and> (\<forall>e \<in> set (st_entries st). fst e \<le> gr_last gr))"

definition caught_up :: "redis \<Rightarrow> string \<Rightarrow> string \<Rightarrow> bool" where
  "caught_up s k g \<longleftrightarrow> (case s k of Some (Stream st) \<Rightarrow> idle st g [] | _ \<Rightarrow> False)"

definition numbered :: "nat \<Rightarrow> event list \<Rightarrow> (nat \<times> fields) list" where
  "numbered n evs = zip [n..<n + length evs] (map event_fields evs)"

lemma numbered_Cons: "numbered n (ev # evs) = (n, event_fields ev) # numbered (Suc n) evs"
  by (simp add: numbered_def upt_rec [of n] Suc_le_eq)

lemma fst_numbered: "map fst (numbered n evs) = [n..<n + length evs]"
  by (simp add: numbered_def)

lemma publish_all:
  assumes "s (feed_stream_key S) = Some (Stream st)"
  shows "forP evs (publish S redis_step) s = (Inr (), s(feed_stream_key S \<mapsto> Stream
    (st\<lparr>st_entries := st_entries st @ numbered (st_next st) evs, st_next := st_next st + length evs\<rparr>)))"
  using assms
proof (induction evs arbitrary: s st)
  case Nil
  then show ?case by (simp add: numbered_def fun_upd_idem)
next
  case (Cons ev evs)
  let ?st = "st\<lparr>st_entries := st_entries st @ [(st_next st, event_fields ev)], st_next := Suc (st_next st)\<rparr>"
  have "publish S redis_step ev s = (Inr (), s(feed_stream_key S \<mapsto> Stream ?st))"
    using Cons.prems by (cases ev) (simp add: publish_def publish_post_event_def voidP_def event_fields_def on_value_def get_stream_def)
  moreover have "forP evs (publish S redis_step) (s(feed_stream_key S \<mapsto> Stream ?st)) = (Inr (), s(feed_stream_key S \<mapsto> Stream
      (?st\<lparr>st_entries := st_entries ?st @ numbered (st_next ?st) evs, st_next := st_next ?st + length evs\<rparr>)))"
    by (rule trans [OF Cons.IH]) (rule fun_upd_same, simp only: fun_upd_upd)
  ultimately show ?case by (simp add: numbered_Cons del: fun_upd_apply)
qed

lemma read_new:
  assumes "idle st g []" and "length evs \<le> n"
    and "st' = st\<lparr>st_entries := st_entries st @ numbered (st_next st) evs, st_next := st_next st + length evs\<rparr>"
  shows "\<exists>st''. xreadgroup g c None n st' = (Inr (REntries (numbered (st_next st) evs)), st'')
    \<and> idle st'' g (map (\<lambda>e. (fst e, c)) (numbered (st_next st) evs))"
proof -
  obtain gr where gr: "map_of (st_groups st) g = Some gr" "gr_pending gr = []" "gr_last gr < st_next st"
      "\<forall>e \<in> set (st_entries st). fst e \<le> gr_last gr"
    using assms(1) by (auto simp: idle_def split: option.splits)
  let ?new = "numbered (st_next st) evs"
  have ids: "fst e \<in> {st_next st..<st_next st + length evs}" if "e \<in> set ?new" for e
    using that fst_numbered [of "st_next st" evs] by (metis imageI image_set set_upt)
  then have "filter (\<lambda>e. gr_last gr < fst e) ?new = ?new" using gr(3) by (fastforce simp: filter_id_conv)
  moreover have "filter (\<lambda>e. gr_last gr < fst e) (st_entries st) = []" using gr(4) by (auto simp: filter_empty_conv)
  ultimately have es: "take n (filter (\<lambda>e. gr_last gr < fst e) (st_entries st')) = ?new"
    using assms(2,3) by (simp add: numbered_def)
  have last: "?new \<noteq> [] \<Longrightarrow> fst (last ?new) = st_next st + length evs - 1"
    using last_map [of ?new fst] by (cases "evs = []") (auto simp: fst_numbered numbered_def last_upt)
  let ?gr = "\<lparr>gr_last = (if ?new = [] then gr_last gr else fst (last ?new)), gr_pending = map (\<lambda>e. (fst e, c)) ?new\<rparr>"
  let ?st = "st'\<lparr>st_groups := assoc_put g ?gr (st_groups st)\<rparr>"
  have "xreadgroup g c None n st' = (Inr (REntries ?new), ?st)"
    using gr es assms(3) by (simp add: xreadgroup_def Let_def)
  moreover have "gr_last ?gr < st_next ?st" using gr(3) last assms(3) by auto
  moreover have "fst e \<le> gr_last ?gr" if "e \<in> set (st_entries ?st)" for e
  proof (cases "?new = []")
    case False
    have "e \<in> set (st_entries st) \<or> e \<in> set ?new" using that assms(3) by simp
    then have "fst e < st_next st + length evs" using gr(3,4) ids [of e] by force
    then show ?thesis using False last by simp
  qed (use that gr(4) assms(3) in simp)
  ultimately show ?thesis by (auto simp: idle_def)
qed

lemma drain_all:
  assumes "k \<notin> range feed_key" and "\<forall>ev \<in> set evs. event_ok ev"
    and "s k = Some (Stream st)" and "idle st g (map (\<lambda>e. (fst e, c)) (numbered n evs))"
    and "forP evs (apply_event S redis_step db) t = (Inr (), t')" and "off k s = off k t"
  shows "\<exists>s'. drain_entries S redis_step db k g (numbered n evs) s = (Inr (), s') \<and> off k s' = off k t' \<and> caught_up s' k g"
  using assms(2-)
proof (induction evs arbitrary: n s st t)
  case Nil
  then show ?case by (auto simp: drain_entries_def caught_up_def numbered_def)
next
  case (Cons ev evs)
  obtain t1 where t1: "apply_event S redis_step db ev t = (Inr (), t1)" "forP evs (apply_event S redis_step db) t1 = (Inr (), t')"
    using Cons.prems(4) by (auto split: prod.splits sum.splits)
  have sim: "sim (off k) (apply_event S redis_step db ev) (apply_event S redis_step db ev)" by (rule apply_event_sim [OF assms(1)])
  obtain x s1 where s1: "apply_event S redis_step db ev s = (x, s1)" by fastforce
  have x: "x = Inr ()" "off k s1 = off k t1"
    using sim_result [OF sim s1] sim_result [OF sim t1(1)] Cons.prems(5) by auto
  have ev: "handle_event S redis_step db (event_fields ev) = apply_event S redis_step db ev"
    using Cons.prems(1) by (simp add: handle_published)
  have "s1 k = s k" using documented.faulty.handle_event_keeps [OF assms(1), of S db "event_fields ev"] s1 ev
    by (metis keeps_def snd_conv)
  then have k1: "s1 k = Some (Stream st)" using Cons.prems(2) by simp
  let ?s2 = "s1(k \<mapsto> Stream (xack g n st))"
  have d: "drain_entry S redis_step db k g (n, event_fields ev) s = (Inr (), ?s2)"
    using s1 x(1) k1 ev by (simp add: drain_entry_def exceptP_def voidP_def on_value_def get_stream_def)
  have "n \<notin> set [Suc n..<Suc n + length evs]" by auto
  then have "\<forall>e \<in> set (numbered (Suc n) evs). fst e \<noteq> n" by (metis fst_numbered image_eqI image_set)
  then have "filter (\<lambda>p. fst p \<noteq> n) (map (\<lambda>e. (fst e, c)) (numbered n (ev # evs))) = map (\<lambda>e. (fst e, c)) (numbered (Suc n) evs)"
    by (simp add: numbered_Cons filter_id_conv)
  then have "idle (xack g n st) g (map (\<lambda>e. (fst e, c)) (numbered (Suc n) evs))"
    using Cons.prems(3) by (auto simp: idle_def xack_def split: option.splits)
  moreover have "off k ?s2 = off k t1" using x(2) by (simp add: off_def)
  ultimately have "\<exists>s'. drain_entries S redis_step db k g (numbered (Suc n) evs) ?s2 = (Inr (), s') \<and> off k s' = off k t' \<and> caught_up s' k g"
    using Cons.prems(1) t1(2) by (intro Cons.IH [where st = "xack g n st" and t = t1]) (simp_all add: off_def fun_upd_def)
  then show ?case using d by (simp add: drain_entries_def numbered_Cons)
qed

lemma sim_except [sim_intros]:
  assumes "sim view p q" and "\<And>e. sim view (f e) (g e)"
  shows "sim view (exceptP p f) (exceptP q g)"
  unfolding sim_def
proof
  fix r
  obtain x r' where p: "p r = (x, r')" by fastforce
  show "fst (exceptP p f r) = fst (exceptP q g (view r)) \<and> view (snd (exceptP p f r)) = snd (exceptP q g (view r))"
    using p sim_result [OF assms(1) p] assms(2) by (cases x) (auto simp: exceptP_def sim_def)
qed

lemma sim_for [sim_intros]:
  assumes "\<And>x. sim view (f x) (g x)"
  shows "sim view (forP xs f) (forP xs g)"
proof (induction xs)
  case (Cons x xs)
  have "forP (x # xs) f = bindP (f x) (\<lambda>_. forP xs f)" for f :: "'a \<Rightarrow> ('s, unit) prog"
    by (auto simp: fun_eq_iff bindP_def split: prod.splits sum.splits)
  then show ?case using Cons assms by (metis sim_bind)
qed (simp add: sim_def)

context redis_server
begin

lemma publish_sim: "sim view (publish S exec ev) (publish S redis_step ev)"
  unfolding publish_def by (cases ev) (simp add: feed_sims)

lemma apply_sim: "sim view (apply_event S exec db ev) (apply_event S redis_step db ev)"
  unfolding apply_event_def by (cases ev) (auto intro!: sim_intros feed_sims)

lemma handle_event_sim: "sim view (handle_event S exec db ev) (handle_event S redis_step db ev)"
  unfolding handle_event_def Let_def by (cases "event_ids ev") (auto intro!: sim_intros feed_sims)

lemma drain_sim: "sim view (drain_entries S exec db k g es) (drain_entries S redis_step db k g es)"
  unfolding drain_entries_def drain_entry_def by (auto intro!: sim_intros server_sims handle_event_sim)

lemma process_round_sim: "sim view (process_round S exec db) (process_round S redis_step db)"
  unfolding process_round_def by (intro sim_intros server_sims drain_sim)

end

text \<open>C8: When the worker is idle, publishing a list of events that fits into one batch and
  running a round leaves every key but the stream as the synchronous fan-outs and removals, in the order of the
  events, would; the worker has acknowledged all of them and is idle again.\<close>

theorem async_equals_sync:
  assumes "redis_server exec view" and "feed_stream_key S \<notin> range feed_key" and "\<forall>ev \<in> set evs. event_ok ev"
    and "length evs \<le> nat (feed_stream_batch S)" and "caught_up (view r) (feed_stream_key S) (feed_stream_group S)"
    and "forP evs (apply_event S exec db) r = (Inr (), r1)"
  shows "\<exists>r'. bindP (forP evs (publish S exec)) (\<lambda>_. process_round S exec db) r = (Inr (), r')
    \<and> (\<forall>k. k \<noteq> feed_stream_key S \<longrightarrow> view r' k = view r1 k)
    \<and> caught_up (view r') (feed_stream_key S) (feed_stream_group S)"
proof -
  let ?k = "feed_stream_key S" and ?g = "feed_stream_group S" and ?c = "feed_stream_consumer S"
  have sync: "forP evs (apply_event S redis_step db) (view r) = (Inr (), view r1)"
    using sim_result [OF sim_for [OF redis_server.apply_sim [OF assms(1)]] assms(6)] .
  obtain st where st: "view r ?k = Some (Stream st)" "idle st ?g []"
    using assms(5) by (auto simp: caught_up_def split: option.splits rvalue.splits)
  let ?st = "st\<lparr>st_entries := st_entries st @ numbered (st_next st) evs, st_next := st_next st + length evs\<rparr>"
  obtain st2 where st2: "xreadgroup ?g ?c None (nat (feed_stream_batch S)) ?st = (Inr (REntries (numbered (st_next st) evs)), st2)"
      "idle st2 ?g (map (\<lambda>e. (fst e, ?c)) (numbered (st_next st) evs))"
    using read_new [OF st(2) assms(4) refl] by blast
  obtain s' where s': "drain_entries S redis_step db ?k ?g (numbered (st_next st) evs) ((view r)(?k \<mapsto> Stream st2)) = (Inr (), s')"
      "off ?k s' = off ?k (view r1)" "caught_up s' ?k ?g"
    using drain_all [OF assms(2,3) _ st2(2) sync, of "(view r)(?k \<mapsto> Stream st2)"] by (auto simp: off_def)
  let ?run = "\<lambda>exec. bindP (forP evs (publish S exec)) (\<lambda>_. process_round S exec db)"
  have "?run redis_step (view r) = (Inr (), s')"
    using publish_all [of "view r" S st evs, OF st(1)] st2(1) s'(1)
    by (simp add: process_round_def exceptP_def execute_def as_entries_def get_stream_def)
  moreover have "sim view (?run exec) (?run redis_step)" 
    by (intro sim_intros redis_server.publish_sim [OF assms(1)] redis_server.process_round_sim [OF assms(1)])
  moreover obtain x r' where r': "?run exec r = (x, r')" by fastforce
  ultimately have "x = Inr ()" "view r' = s'" using sim_result by fastforce+
  moreover have "s' k = view r1 k" if "k \<noteq> ?k" for k using fun_cong [OF s'(2), of k] that by (simp add: off_def)
  ultimately show ?thesis using r' s'(3) by auto
qed

section \<open>Concrete runs\<close>

definition demo_stream :: "(nat \<times> fields) list \<Rightarrow> (nat \<times> string) list \<Rightarrow> nat \<Rightarrow> stream" where
  "demo_stream es ps n = \<lparr>st_entries = es, st_next = 2, st_groups = [(''feed_workers'', \<lparr>gr_last = n, gr_pending = ps\<rparr>)]\<rparr>"

definition demo_cache :: "(nat \<times> fields) list \<Rightarrow> (nat \<times> string) list \<Rightarrow> nat \<Rightarrow> redis" where
  "demo_cache es ps n = [''post_events'' \<mapsto> Stream (demo_stream es ps n)]"

definition demo_event :: event where
  "demo_event = (''created'', 5, 2, Naive (po_created demo_post))"

lemma stream_key_apart: "''post_events'' \<noteq> feed_key u" "''post_events'' \<noteq> post_key u" "''post_events'' \<noteq> celebrity_key u"
  by (simp_all add: feed_key_def post_key_def celebrity_key_def)

lemma default_stream [simp]:
  "feed_stream_key default_settings = ''post_events''" "feed_stream_group default_settings = ''feed_workers''"
  "feed_stream_consumer default_settings = ''worker-1''" "feed_stream_batch default_settings = 100"
  by (simp_all add: default_settings_def)

lemma demo_cache_ok: "cache_ok (demo_cache es ps n)"
  using cache_ok_empty stream_key_apart by (simp add: cache_ok_def demo_cache_def zset_at_def fun_upd_def) metis

lemma async_equals_sync_witness:
  "\<exists>r'. bindP (forP [demo_event] (publish default_settings redis_step))
      (\<lambda>_. process_round default_settings redis_step (Inr (demo_tables [demo_post] [(1, 2)]))) (demo_cache [] [] 1) = (Inr (), r')
    \<and> zset_at r' (feed_key 1) = [entry demo_post] \<and> caught_up r' ''post_events'' ''feed_workers''"
proof -
  let ?s = "demo_tables [demo_post] [(1, 2)]"
  define r1 where "r1 = map_feeds (set (sql_followers ?s 2)) (\<lambda>z. keep 1000 (zadd (uuid_str 5) (timestamp (po_created demo_post)) z)) (demo_cache [] [] 1)"
  have S: "feed_max_size default_settings = 1000" by (simp add: default_settings_def)
  have r1: "fan_out_post default_settings redis_step (Inr ?s) 5 2 (po_created demo_post) (demo_cache [] [] 1) = (Inr (), r1)"
    using fan_out_effect [OF demo_cache_ok social_ok_distinct [OF demo_tables_ok(1)], of default_settings] by (simp add: S r1_def)
  have z: "zset_at r1 (feed_key 1) = [entry demo_post]"
    using stream_key_apart by (simp add: r1_def zset_at_map_feeds sql_followers_def demo_tables_def zadd_def keep_def entry_def demo_post_def)
      (simp add: demo_cache_def zset_at_def)
  have "forP [demo_event] (apply_event default_settings redis_step (Inr ?s)) (demo_cache [] [] 1) = (Inr (), r1)"
    using r1 by (simp add: demo_event_def apply_event_def)
  moreover have "event_ok demo_event" by (simp add: event_ok_def demo_event_def demo_post_def dt_ok_def days_in_month_def)
  moreover have "caught_up (demo_cache [] [] 1) ''post_events'' ''feed_workers''"
    by (simp add: caught_up_def demo_cache_def demo_stream_def idle_def)
  ultimately obtain r' where "bindP (forP [demo_event] (publish default_settings redis_step))
      (\<lambda>_. process_round default_settings redis_step (Inr ?s)) (demo_cache [] [] 1) = (Inr (), r')"
      "\<forall>k. k \<noteq> ''post_events'' \<longrightarrow> r' k = r1 k" "caught_up r' ''post_events'' ''feed_workers''"
    using async_equals_sync [OF documented.redis_server_axioms, of default_settings "[demo_event]" "demo_cache [] [] 1" "Inr ?s" r1]
      stream_key_apart by (auto simp del: forP.simps)
  moreover from this have "r' (feed_key 1) = r1 (feed_key 1)" using stream_key_apart(1) by metis
  ultimately show ?thesis using z by (intro exI [of _ r']) (auto simp: zset_at_def)
qed

lemma worker_at_least_once_witness:
  "\<exists>r'. process_round default_settings flaky (Inr (demo_tables [demo_post] [(1, 2)])) (demo_cache [(1, event_fields demo_event)] [] 0, 1) = (Inr (), r')
    \<and> (1, event_fields demo_event) \<in> outstanding (fst r') ''post_events'' ''feed_workers''"
proof -
  let ?s = "demo_tables [demo_post] [(1, 2)]" and ?r = "(demo_cache [(1, event_fields demo_event)] [] 0, 1)"
  obtain x r' where run: "process_round default_settings flaky (Inr ?s) ?r = (x, r')" by (metis prod.collapse)
  have key: "''post_events'' \<notin> range feed_key" using stream_key_apart(1) by blast
  have ok: "stream_ok (stream_of (fst ?r) ''post_events'')"
    by (simp add: demo_cache_def demo_stream_def stream_of_def stream_ok_def)
  have ev: "event_ok demo_event" by (simp add: event_ok_def demo_event_def demo_post_def dt_ok_def days_in_month_def)
  have "\<exists>e. handle_event default_settings flaky (Inr ?s) (event_fields demo_event) (c, 0) = (Inl e, (c, 0))" for c
    unfolding handle_published [OF ev]
    by (simp add: demo_event_def apply_event_def fan_out_post_def get_followers_def fetch_def sql_followers_def
        demo_tables_def voidP_def fan_out_commands_def flaky_def bindP_def)
  then have "handled_in default_settings flaky (Inr ?s) k g [(1, event_fields demo_event)] (c, 0) = {}" for k g c
    by (metis (mono_tags, lifting) Un_empty fst_conv handled_in.simps old.prod.case snd_conv sum.case(1))
  then have "handled_by_round default_settings flaky (Inr ?s) ?r = {}"
    by (simp add: handled_by_round_def execute_def flaky_def demo_cache_def demo_stream_def get_stream_def xreadgroup_def as_entries_def
        bindP_def Let_def)
  moreover have "(1, event_fields demo_event) \<in> outstanding (fst ?r) ''post_events'' ''feed_workers''"
    by (simp add: outstanding_def demo_cache_def demo_stream_def stream_of_def group_of_def waiting_def)
  ultimately show ?thesis
    using worker_at_least_once [OF flaky.faulty_server_axioms, of default_settings ?r "Inr ?s" x r'] run key ok by auto
qed

end
