(* ===== verification/Feed_Recovery.thy ===== *)
theory Feed_Recovery
  imports Feed_Async
begin

text \<open>
  The recovery of \<^verbatim>\<open>app/workers/feed_worker.py\<close> after a restart: \<^verbatim>\<open>_recover_pending\<close> ends, and on a server that answers it
  works off every entry that a crash left unacknowledged.
\<close>

section \<open>Draining\<close>

text \<open>Every event of the list is one the producers publish.\<close>

definition published :: "(nat \<times> fields) list \<Rightarrow> bool" where
  "published es \<longleftrightarrow> (\<forall>e \<in> set es. \<exists>ev. event_ok ev \<and> snd e = event_fields ev)"

definition cache_key :: "string \<Rightarrow> bool" where
  "cache_key k \<longleftrightarrow> k \<in> range feed_key \<union> range post_key \<union> range celebrity_key"

lemma cache_ok_other:
  assumes "\<not> cache_key k"
  shows "cache_ok (s(k := v)) \<longleftrightarrow> cache_ok s"
proof -
  have "feed_key u \<noteq> k" "post_key u \<noteq> k" "celebrity_key u \<noteq> k" for u using assms by (auto simp: cache_key_def)
  then show ?thesis by (simp add: cache_ok_def zset_at_def)
qed

lemma apply_event_runs:
  assumes "cache_ok s" and "social_ok tabs" and "0 \<le> feed_max_size S"
  shows "\<exists>s'. apply_event S redis_step (Inr tabs) ev s = (Inr (), s') \<and> cache_ok s'"
proof -
  obtain ty p a t where ev: "ev = (ty, p, a, t)" by (metis prod_cases4)
  note d = social_ok_distinct [OF assms(2)]
  show ?thesis
    using assms(1) fan_out_effect [OF assms(1) d assms(3), of p a "moment_dt t"] remove_post_effect [OF assms(1) d, of p a]
    by (auto simp: ev apply_event_def intro!: cache_ok_map_feeds)
qed

lemma drain_acks:
  assumes k: "\<not> cache_key k" and "social_ok tabs" and "0 \<le> feed_max_size S"
    and "published es" and "cache_ok s" and "s k = Some (Stream st)" and "map_of (st_groups st) g = Some gr"
  shows "\<exists>s' st'. drain_entries S redis_step (Inr tabs) k g es s = (Inr (), s') \<and> cache_ok s'
    \<and> s' k = Some (Stream st') \<and> st_entries st' = st_entries st \<and> st_next st' = st_next st
    \<and> map_of (st_groups st') g = Some (gr\<lparr>gr_pending := filter (\<lambda>p. fst p \<notin> fst ` set es) (gr_pending gr)\<rparr>)"
  using assms(4-)
proof (induction es arbitrary: s st gr)
  case Nil
  then show ?case by (auto simp: drain_entries_def)
next
  case (Cons e es)
  obtain ev where ev: "event_ok ev" "snd e = event_fields ev" using Cons.prems(1) by (auto simp: published_def)
  obtain s1 where s1: "apply_event S redis_step (Inr tabs) ev s = (Inr (), s1)" "cache_ok s1"
    using apply_event_runs [OF Cons.prems(2) assms(2,3)] by blast
  have h: "handle_event S redis_step (Inr tabs) (snd e) = apply_event S redis_step (Inr tabs) ev"
    using ev by (simp add: handle_published)
  have "k \<notin> range feed_key" using k by (simp add: cache_key_def)
  then have "s1 k = s k" using documented.faulty.handle_event_keeps [of k S "Inr tabs" "snd e"] s1 h
    by (metis keeps_def snd_conv)
  then have k1: "s1 k = Some (Stream st)" using Cons.prems(3) by simp
  let ?st = "xack g (fst e) st" and ?gr = "gr\<lparr>gr_pending := filter (\<lambda>p. fst p \<noteq> fst e) (gr_pending gr)\<rparr>"
  have d: "drain_entry S redis_step (Inr tabs) k g e s = (Inr (), s1(k \<mapsto> Stream ?st))"
    using s1 k1 h by (cases e) (simp add: drain_entry_def exceptP_def voidP_def on_value_def get_stream_def)
  have st: "st_entries ?st = st_entries st" "st_next ?st = st_next st" "map_of (st_groups ?st) g = Some ?gr"
    using Cons.prems(4) by (simp_all add: xack_def)
  have "\<exists>s' st'. drain_entries S redis_step (Inr tabs) k g es (s1(k \<mapsto> Stream ?st)) = (Inr (), s') \<and> cache_ok s'
      \<and> s' k = Some (Stream st') \<and> st_entries st' = st_entries ?st \<and> st_next st' = st_next ?st
      \<and> map_of (st_groups st') g = Some (?gr\<lparr>gr_pending := filter (\<lambda>p. fst p \<notin> fst ` set es) (gr_pending ?gr)\<rparr>)"
    using Cons.prems(1) s1(2) cache_ok_other [OF k] st
    by (intro Cons.IH) (simp_all add: published_def fun_upd_same del: fun_upd_apply)
  then show ?case using d st(1,2) by (auto simp: drain_entries_def conj_commute)
qed


section \<open>The loop\<close>

text \<open>The pending entries of a group, in the order of their identifiers, are entries of the stream.\<close>

definition pel_ok :: "stream \<Rightarrow> (nat \<times> string) list \<Rightarrow> bool" where
  "pel_ok st ps \<longleftrightarrow> stream_ok st \<and> sorted_wrt (<) (map fst ps) \<and> fst ` set ps \<subseteq> fst ` set (st_entries st)"

lemma last_of_selected:
  fixes es :: "(nat \<times> fields) list"
  assumes "sorted_wrt (<) (map fst es)" and "I \<subseteq> fst ` set es" and "sel = filter (\<lambda>e. fst e \<in> I) es"
  shows "fst ` set sel = I" and "i \<in> I \<Longrightarrow> i \<le> fst (last sel)"
proof -
  show I: "fst ` set sel = I" using assms(2,3) by auto
  assume "i \<in> I"
  then obtain e where e: "e \<in> set sel" "i = fst e" using I by auto
  then have split: "sel = butlast sel @ [last sel]" by (metis append_butlast_last_id list.set_cases list.discI)
  have "sorted_wrt (\<lambda>x y. fst x < fst y) sel"
    using assms(1,3) by (simp add: sorted_wrt_map sorted_wrt_filter)
  then have "sorted_wrt (\<lambda>x y. fst x < fst y) (butlast sel @ [last sel])" using split by simp
  then have "\<forall>x \<in> set (butlast sel). fst x < fst (last sel)" unfolding sorted_wrt_append by simp
  moreover have "e \<in> set (butlast sel) \<or> e = last sel" using e(1) split by (metis Un_iff set_append set_ConsD empty_iff list.set(1))
  ultimately show "i \<le> fst (last sel)" using e(2) by auto
qed

lemma recover_step:
  assumes st: "s k = Some (Stream st)" "map_of (st_groups st) g = Some gr" and ok: "pel_ok st (gr_pending gr)"
    and cur: "\<forall>p \<in> set (gr_pending gr). snd p = c \<longrightarrow> cursor < fst p"
    and n: "0 < n" and some: "\<exists>p \<in> set (gr_pending gr). snd p = c"
  shows "\<exists>es. execute redis_step as_entries (XREADGROUP k g c (Some cursor) n) s = (Inr es, s) \<and> es \<noteq> [] \<and> set es \<subseteq> set (st_entries st)
    \<and> fst ` set es \<subseteq> {i. (i, c) \<in> set (gr_pending gr)}
    \<and> (\<forall>p \<in> set (gr_pending gr). snd p = c \<longrightarrow> fst p \<in> fst ` set es \<or> fst (last es) < fst p)"
proof -
  define mine where "mine = filter (\<lambda>p. snd p = c \<and> cursor < fst p) (gr_pending gr)"
  define ids where "ids = fst ` set (take n mine)"
  define es where "es = filter (\<lambda>e. fst e \<in> ids) (st_entries st)"
  have sorted: "sorted_wrt (<) (map fst (st_entries st))" using ok by (simp add: pel_ok_def stream_ok_def)
  have mine: "set mine = {p \<in> set (gr_pending gr). snd p = c}" using cur by (auto simp: mine_def)
  have "ids \<subseteq> fst ` set mine" unfolding ids_def by (auto dest: in_set_takeD)
  then have sub: "ids \<subseteq> {i. (i, c) \<in> set (gr_pending gr)}" using mine by auto
  then have "ids \<subseteq> fst ` set (st_entries st)" using ok by (force simp: pel_ok_def)
  note sel = last_of_selected [OF sorted this es_def]
  have "mine \<noteq> []" using some mine by force
  then have "take n mine \<noteq> []" using n by simp
  then have ne: "es \<noteq> []" using sel(1) by (auto simp: ids_def)
  have "sorted_wrt (\<lambda>x y. fst x < fst y) (take n mine @ drop n mine)"
    using ok by (simp add: mine_def pel_ok_def sorted_wrt_map sorted_wrt_filter)
  then have later: "\<forall>x \<in> set (take n mine). \<forall>y \<in> set (drop n mine). fst x < fst y" unfolding sorted_wrt_append by simp
  have "fst (last es) \<in> ids" using sel(1) ne by (metis imageI last_in_set)
  then have "fst (last es) < fst p" if "p \<in> set (drop n mine)" for p using later that by (auto simp: ids_def)
  moreover have "p \<in> set (take n mine) \<or> p \<in> set (drop n mine)" if "p \<in> set (gr_pending gr)" "snd p = c" for p
    using that mine by (metis (mono_tags, lifting) Un_iff append_take_drop_id mem_Collect_eq set_append)
  ultimately have "\<forall>p \<in> set (gr_pending gr). snd p = c \<longrightarrow> fst p \<in> fst ` set es \<or> fst (last es) < fst p"
    unfolding sel(1) ids_def by blast
  moreover have "execute redis_step as_entries (XREADGROUP k g c (Some cursor) n) s = (Inr es, s)"
    using st by (simp add: execute_def get_stream_def xreadgroup_def Let_def as_entries_def fun_upd_idem es_def ids_def mine_def)
  ultimately show ?thesis using ne sub sel(1) by (auto simp: es_def)
qed

lemma pel_ids_unique:
  assumes "pel_ok st ps" and "p \<in> set ps" and "q \<in> set ps" and "fst p = fst q"
  shows "p = q"
  using assms by (auto simp: pel_ok_def strict_sorted_iff distinct_map inj_on_def)

lemma recover_all:
  assumes k: "\<not> cache_key k" and tabs: "social_ok tabs" and cap: "0 \<le> feed_max_size S" and n: "0 < n"
    and "cache_ok s" and "s k = Some (Stream st)" and "map_of (st_groups st) g = Some gr" and "pel_ok st (gr_pending gr)"
    and "published (st_entries st)" and "\<forall>p \<in> set (gr_pending gr). snd p = c \<longrightarrow> cursor < fst p"
    and "length (filter (\<lambda>p. snd p = c) (gr_pending gr)) < fuel"
  shows "\<exists>s'. recover_pending fuel S redis_step (Inr tabs) k g c n cursor s = Some s'
    \<and> pending s' k g = filter (\<lambda>p. snd p \<noteq> c) (gr_pending gr)"
  using assms(5-)
proof (induction fuel arbitrary: cursor s st gr)
  case (Suc fuel)
  show ?case
  proof (cases "\<exists>p \<in> set (gr_pending gr). snd p = c")
    case False
    then have "filter (\<lambda>p. snd p = c \<and> cursor < fst p) (gr_pending gr) = []" by (auto simp: filter_empty_conv)
    then have "execute redis_step as_entries (XREADGROUP k g c (Some cursor) n) s = (Inr [], s)"
      using Suc.prems(2,3) by (simp add: execute_def get_stream_def xreadgroup_def Let_def as_entries_def fun_upd_idem)
    moreover have "filter (\<lambda>p. snd p \<noteq> c) (gr_pending gr) = gr_pending gr" using False by (auto simp: filter_id_conv)
    ultimately show ?thesis using Suc.prems(2,3) by (simp add: pending_def)
  next
    case True
    obtain es where es: "execute redis_step as_entries (XREADGROUP k g c (Some cursor) n) s = (Inr es, s)" "es \<noteq> []"
        "set es \<subseteq> set (st_entries st)" "fst ` set es \<subseteq> {i. (i, c) \<in> set (gr_pending gr)}"
        "\<forall>p \<in> set (gr_pending gr). snd p = c \<longrightarrow> fst p \<in> fst ` set es \<or> fst (last es) < fst p"
      using recover_step [of s k st g gr c cursor n, OF Suc.prems(2-4,6) n True] by blast
    let ?ps = "filter (\<lambda>p. fst p \<notin> fst ` set es) (gr_pending gr)"
    have "published es" using Suc.prems(5) es(3) by (auto simp: published_def)
    from drain_acks [OF k tabs cap this Suc.prems(1-3)]
    obtain s1 st1 where s1: "drain_entries S redis_step (Inr tabs) k g es s = (Inr (), s1)" "cache_ok s1"
        "s1 k = Some (Stream st1)" "st_entries st1 = st_entries st" "map_of (st_groups st1) g = Some (gr\<lparr>gr_pending := ?ps\<rparr>)"
        "st_next st1 = st_next st"
      by blast
    have "pel_ok st1 ?ps"
      using Suc.prems(4) s1(4,6) by (auto simp: pel_ok_def stream_ok_def sorted_wrt_map sorted_wrt_filter)
    moreover have "\<forall>p \<in> set ?ps. snd p = c \<longrightarrow> fst (last es) < fst p" using es(5) by (simp only: set_filter mem_Collect_eq) blast
    moreover have "length (filter (\<lambda>p. snd p = c) ?ps) < length (filter (\<lambda>p. snd p = c) (gr_pending gr))"
    proof -
      obtain e where e: "e \<in> set es" "(fst e, c) \<in> set (gr_pending gr)" using es(2,4) by (cases es) auto
      have "filter (\<lambda>p. snd p = c) ?ps = filter (\<lambda>p. fst p \<notin> fst ` set es) (filter (\<lambda>p. snd p = c) (gr_pending gr))"
        by (simp add: conj_commute)
      moreover have "length \<dots> < length (filter (\<lambda>p. snd p = c) (gr_pending gr))"
        using e by (intro length_filter_less [of "(fst e, c)"]) simp_all
      ultimately show ?thesis by simp
    qed
    ultimately have "\<exists>s'. recover_pending fuel S redis_step (Inr tabs) k g c n (fst (last es)) s1 = Some s'
        \<and> pending s' k g = filter (\<lambda>p. snd p \<noteq> c) (gr_pending (gr\<lparr>gr_pending := ?ps\<rparr>))"
      using s1 Suc.prems(5,7) by (intro Suc.IH [where st = st1]) auto
    moreover have "filter (\<lambda>p. snd p \<noteq> c) ?ps = filter (\<lambda>p. snd p \<noteq> c) (gr_pending gr)"
      using es(4) pel_ids_unique [OF Suc.prems(4)] by (force intro!: filter_cong)
    ultimately show ?thesis using es(1,2) s1(1) by simp
  qed
qed simp

context redis_server
begin

lemma recover_sim:
  "recover_pending fuel S redis_step db k g c n cursor (view r) = map_option view (recover_pending fuel S exec db k g c n cursor r)"
proof (induction fuel arbitrary: cursor r)
  case (Suc fuel)
  obtain y r1 where x: "execute exec as_entries (XREADGROUP k g c (Some cursor) n) r = (y, r1)" by fastforce
  note x' = sim_result [OF execute_step x]
  show ?case
  proof (cases y)
    case (Inr es)
    obtain z r2 where d: "drain_entries S exec db k g es r1 = (z, r2)" by fastforce
    show ?thesis using x x' Inr d sim_result [OF drain_sim d] Suc.IH by simp
  qed (use x x' in simp)
qed simp

end

text \<open>C14: After a restart, on a server that answers, the recovery ends (with fuel for one round more than
  the consumer has pending entries) and has worked off everything the crash left behind: no entry is pending for the
  consumer any more, and the pending entries of the other workers are untouched.\<close>

theorem recovery_acks_all:
  assumes "redis_server exec view" and "\<not> cache_key k" and "social_ok tabs" and "0 \<le> feed_max_size S" and "0 < n"
    and "cache_ok (view r)" and "view r k = Some (Stream st)" and "map_of (st_groups st) g = Some gr"
    and "pel_ok st (gr_pending gr)" and "published (st_entries st)" and "\<forall>p \<in> set (gr_pending gr). 0 < fst p"
    and "length (filter (\<lambda>p. snd p = c) (gr_pending gr)) < fuel"
  shows "\<exists>r'. recover_pending fuel S exec (Inr tabs) k g c n 0 r = Some r'
    \<and> pending (view r') k g = filter (\<lambda>p. snd p \<noteq> c) (pending (view r) k g)"
proof -
  have "\<exists>s'. recover_pending fuel S redis_step (Inr tabs) k g c n 0 (view r) = Some s'
      \<and> pending s' k g = filter (\<lambda>p. snd p \<noteq> c) (gr_pending gr)"
    using assms(2-) by (intro recover_all) auto
  then show ?thesis using redis_server.recover_sim [OF assms(1), of fuel S "Inr tabs" k g c n 0 r] assms(7,8)
    by (auto simp: pending_def)
qed

lemma recovery_acks_all_witness:
  "\<exists>r'. recover_pending 2 default_settings redis_step (Inr (demo_tables [demo_post] [(1, 2)])) ''post_events'' ''feed_workers''
      ''worker-1'' 100 0 (demo_cache [(1, event_fields demo_event)] [(1, ''worker-1'')] 1) = Some r'
    \<and> pending r' ''post_events'' ''feed_workers'' = []"
proof -
  let ?st = "demo_stream [(1, event_fields demo_event)] [(1, ''worker-1'')] 1"
  have S: "0 \<le> feed_max_size default_settings" by (simp add: default_settings_def)
  have key: "\<not> cache_key ''post_events''" using stream_key_apart by (auto simp: cache_key_def)
  have "event_ok demo_event" by (simp add: event_ok_def demo_event_def demo_post_def dt_ok_def days_in_month_def)
  then have pub: "published (st_entries ?st)" unfolding published_def demo_stream_def by (simp del: split_paired_Ex) blast
  have pel: "pel_ok ?st [(1, ''worker-1'')]" by (simp add: demo_stream_def pel_ok_def stream_ok_def)
  show ?thesis
    using recovery_acks_all [OF documented.redis_server_axioms key demo_tables_ok(1) S, of 100
        "demo_cache [(1, event_fields demo_event)] [(1, ''worker-1'')] 1" ?st "''feed_workers''"
        "\<lparr>gr_last = 1, gr_pending = [(1, ''worker-1'')]\<rparr>" "''worker-1''" 2] demo_cache_ok pel pub
    by (simp add: demo_cache_def demo_stream_def pending_def numeral_2_eq_2 del: recover_pending.simps)
qed

end
