(* ===== verification/Feed_Celebrity.thy ===== *)
theory Feed_Celebrity
  imports Feed_Props
begin

text \<open>
  Authors with many followers: the flag the worker looks at when it skips the fan-out and the flag the
  reader looks at when it fetches posts are the same, and the merge of the materialised feed with the
  posts fetched from the tables shows the newest posts of all friends.
\<close>

section \<open>The flag\<close>

definition cached_flag :: "redis \<Rightarrow> uuid \<Rightarrow> string option" where
  "cached_flag r f = (case r (celebrity_key f) of Some (Str v) \<Rightarrow> Some v | _ \<Rightarrow> None)"

definition flagged :: "settings \<Rightarrow> social \<Rightarrow> redis \<Rightarrow> uuid \<Rightarrow> bool" where
  "flagged S s r f \<longleftrightarrow> (case cached_flag r f of Some v \<Rightarrow> v = ''1''
     | None \<Rightarrow> celebrity_followers_threshold S \<le> sql_count_followers s f)"

definition set_flags :: "(uuid \<Rightarrow> string) \<Rightarrow> uuid list \<Rightarrow> redis \<Rightarrow> redis" where
  "set_flags v fs r = fold (\<lambda>f r. r(celebrity_key f \<mapsto> Str (v f))) fs r"

lemma set_flags_apply:
  "set_flags v fs r k = (if k \<in> celebrity_key ` set fs then Some (Str (v (the_inv celebrity_key k))) else r k)"
proof (induction fs arbitrary: r)
  case (Cons f fs)
  have inj: "inj celebrity_key" by (simp add: inj_def)
  have eq: "set_flags v (f # fs) r = set_flags v fs (r(celebrity_key f \<mapsto> Str (v f)))" by (simp add: set_flags_def)
  show ?case unfolding eq Cons.IH by (auto simp: the_inv_f_f [OF inj])
qed (simp add: set_flags_def)

lemma set_flags_runs:
  "0 < ttl \<Longrightarrow> runs (pipe redis_step (map (\<lambda>f. SETEX (celebrity_key f) (v f) ttl) fs)) r (set_flags v fs r)"
  unfolding set_flags_def
proof (induction fs arbitrary: r)
  case (Cons f fs)
  from pipe_Cons_runs [OF setex_runs [OF Cons.prems, of "celebrity_key f" "v f" r] Cons.IH [OF Cons.prems]] show ?case
    by (simp only: list.map fold_simps)
qed (simp add: runs_def)

lemma cached_flag_set: "cached_flag (set_flags v fs r) f = (if f \<in> set fs then Some (v f) else cached_flag r f)"
proof -
  have "inj celebrity_key" by (simp add: inj_def)
  then show ?thesis by (auto simp: cached_flag_def set_flags_apply the_inv_f_f)
qed

lemma count_by_author:
  "(case map_of (sql_count_by_author s fs) f of None \<Rightarrow> 0 | Some c \<Rightarrow> c) = (if f \<in> set fs then sql_count_followers s f else 0)"
proof -
  have "sql_count_followers s f = 0" if "f \<notin> snd ` set (so_friends s)"
    using that by (auto simp: sql_count_followers_def sql_followers_eq filter_empty_conv image_iff)
  then show ?thesis by (auto simp: sql_count_by_author_def map_of_map_restrict restrict_map_def)
qed

section \<open>Both readers of the flag\<close>

lemma is_celebrity_effect:
  assumes "cache_ok r" and "0 < celebrity_cache_ttl S"
  shows "\<exists>r'. is_celebrity S redis_step (Inr s) a r = (Inr (flagged S s r a), r')"
proof -
  have "str_or_none (r (celebrity_key a))" using assms(1) by (simp add: cache_ok_def)
  then have "execute redis_step as_bulk (GET (celebrity_key a)) r = (Inr (cached_flag r a), r)"
    by (auto simp: execute_def on_value_def get_str_def as_bulk_def cached_flag_def str_or_none_def
        split: option.splits rvalue.splits)
  then show ?thesis
    using assms(2) by (cases "cached_flag r a")
      (simp_all add: is_celebrity_def followers_count_def fetch_def flagged_def Let_def bindP_def)
qed

lemma celebrity_friends_effect:
  assumes "cache_ok r" and "0 < celebrity_cache_ttl S"
  shows "\<exists>cs v fs. get_celebrity_friends S redis_step (Inr s) u r = (Inr cs, set_flags v fs r)
    \<and> set cs = {f \<in> set (sql_friends s u). flagged S s r f}
    \<and> (\<forall>f \<in> set (sql_friends s u). flagged S s (set_flags v fs r) f \<longleftrightarrow> flagged S s r f)"
proof (cases "sql_friends s u = []")
  case True
  then have "get_celebrity_friends S redis_step (Inr s) u r = (Inr [], set_flags (\<lambda>_. []) [] r)"
    by (simp add: get_celebrity_friends_def fetch_def set_flags_def)
  then show ?thesis using True by fastforce
next
  case False
  let ?fs = "sql_friends s u"
  let ?known = "filter (\<lambda>f. cached_flag r f = Some ''1'') ?fs" and ?missing = "filter (\<lambda>f. cached_flag r f = None) ?fs"
  let ?celeb = "\<lambda>f. celebrity_followers_threshold S \<le> (case map_of (sql_count_by_author s ?missing) f of None \<Rightarrow> 0 | Some c \<Rightarrow> c)"
  let ?v = "\<lambda>f. if ?celeb f then ''1'' else ''0''"
  have celeb: "?celeb f \<longleftrightarrow> flagged S s r f" if "f \<in> set ?missing" for f
    using that count_by_author [of s ?missing f] by (simp add: flagged_def)
  have mget: "execute redis_step as_bulks (MGET (map celebrity_key ?fs)) r = (Inr (map (cached_flag r) ?fs), r)"
    by (simp add: execute_def as_bulks_def cached_flag_def)
  have zip: "zip_strict ?fs (map (cached_flag r) ?fs) = Inr (map (\<lambda>f. (f, cached_flag r f)) ?fs)"
    using zip_map_same [of "\<lambda>f. f" ?fs "cached_flag r"] by (simp add: comp_def)
  have known: "map fst (filter (\<lambda>(fid, val). val = Some ''1'') (map (\<lambda>f. (f, cached_flag r f)) ?fs)) = ?known"
    unfolding filter_tagged_pairs by (rule untag)
  have missing: "map fst (filter (\<lambda>(fid, val). val = None) (map (\<lambda>f. (f, cached_flag r f)) ?fs)) = ?missing"
    unfolding filter_tagged_pairs by (rule untag)
  have run: "get_celebrity_friends S redis_step (Inr s) u r = (Inr (?known @ filter ?celeb ?missing), set_flags ?v ?missing r)"
  proof (cases "?missing = []")
    case True
    have "get_celebrity_friends S redis_step (Inr s) u r = (Inr ?known, r)"
      using False True unfolding get_celebrity_friends_def fetch_def
      by (simp only: bindP_Inr liftP_apply sum.case if_False mget zip known missing Let_def True if_True returnP_apply simp_thms)
    then show ?thesis unfolding True by (simp add: set_flags_def)
  next
    case F: False
    obtain vs where "pipe redis_step (map (\<lambda>f. SETEX (celebrity_key f) (?v f) (celebrity_cache_ttl S)) ?missing) r
        = (Inr vs, set_flags ?v ?missing r)"
      using set_flags_runs [OF assms(2), of ?v ?missing r] by (auto simp: runs_def)
    then show ?thesis
      using False F unfolding get_celebrity_friends_def fetch_def
      by (simp only: bindP_Inr liftP_apply sum.case if_False mget zip known missing Let_def returnP_apply simp_thms)
  qed
  have "set (?known @ filter ?celeb ?missing) = {f \<in> set ?fs. flagged S s r f}"
  proof -
    have "filter ?celeb ?missing = filter (flagged S s r) ?missing" by (rule filter_cong [OF refl celeb])
    moreover have "flagged S s r f \<longleftrightarrow> cached_flag r f = Some ''1'' \<or> (cached_flag r f = None \<and> flagged S s r f)" for f
      by (cases "cached_flag r f") (auto simp: flagged_def)
    ultimately show ?thesis by auto
  qed
  moreover have "flagged S s (set_flags ?v ?missing r) f \<longleftrightarrow> flagged S s r f" if "f \<in> set ?fs" for f
  proof (cases "cached_flag r f")
    case None
    then show ?thesis using celeb [of f] that by (simp add: flagged_def [of S s "set_flags ?v ?missing r"] cached_flag_set)
  next
    case (Some a)
    then show ?thesis by (simp add: flagged_def cached_flag_set)
  qed
  ultimately show ?thesis using run by (intro exI conjI ballI)
qed

lemma cache_ok_set_flags: "cache_ok r \<Longrightarrow> cache_ok (set_flags v fs r)"
  by (auto simp: cache_ok_def set_flags_apply zset_at_def image_iff str_or_none_def)

text \<open>C21: for a friend of the reader, the list of celebrity friends that a merged read fetches and the test the
  worker makes before the fan-out agree, on the cache as it was and as the read left it; so with unchanged
  tables no post of a friend is skipped by both.\<close>

theorem celebrity_views_agree:
  assumes "redis_server exec view" and "cache_ok (view r)" and "0 < celebrity_cache_ttl S"
    and "f \<in> set (sql_friends s u)" and "get_celebrity_friends S exec (Inr s) u r = (x, r1)"
  shows "\<exists>cs r2 r3. x = Inr cs \<and> is_celebrity S exec (Inr s) f r = (Inr (f \<in> set cs), r2)
    \<and> is_celebrity S exec (Inr s) f r1 = (Inr (f \<in> set cs), r3)"
proof -
  obtain cs v fs where cs: "get_celebrity_friends S redis_step (Inr s) u (view r) = (Inr cs, set_flags v fs (view r))"
    "set cs = {f \<in> set (sql_friends s u). flagged S s (view r) f}"
    "\<forall>f \<in> set (sql_friends s u). flagged S s (set_flags v fs (view r)) f \<longleftrightarrow> flagged S s (view r) f"
    using celebrity_friends_effect [OF assms(2,3), of s u] by blast
  from sim_result [OF redis_server.feed_sims(8) [OF assms(1)] assms(5)] cs(1)
  have x: "x = Inr cs" and v: "view r1 = set_flags v fs (view r)" by simp_all
  have "fst (is_celebrity S exec (Inr s) f q) = Inr (flagged S s (view q) f)" if "cache_ok (view q)" for q
    using is_celebrity_effect [OF that assms(3), of s f] redis_server.feed_sims(9) [OF assms(1), of S "Inr s" f]
    by (auto simp: sim_def)
  then have "fst (is_celebrity S exec (Inr s) f r) = Inr (f \<in> set cs)" "fst (is_celebrity S exec (Inr s) f r1) = Inr (f \<in> set cs)"
    using assms(2,4) cs(2,3) by (auto simp: v cache_ok_set_flags)
  then show ?thesis using x by (metis prod.collapse)
qed

lemma celebrity_views_agree_witness:
  "\<exists>cs r1 r2 r3. get_celebrity_friends default_settings redis_step (Inr (demo_tables [] [(1, 2)])) 1 Map.empty = (Inr cs, r1)
    \<and> is_celebrity default_settings redis_step (Inr (demo_tables [] [(1, 2)])) 2 Map.empty = (Inr (2 \<in> set cs), r2)
    \<and> is_celebrity default_settings redis_step (Inr (demo_tables [] [(1, 2)])) 2 r1 = (Inr (2 \<in> set cs), r3)"
proof -
  obtain x r1 where run: "get_celebrity_friends default_settings redis_step (Inr (demo_tables [] [(1, 2)])) 1 Map.empty = (x, r1)"
    by fastforce
  have "0 < celebrity_cache_ttl default_settings" "2 \<in> set (sql_friends (demo_tables [] [(1, 2)]) 1)"
    by (simp_all add: default_settings_def demo_tables_def sql_friends_def)
  from celebrity_views_agree [OF documented.redis_server_axioms cache_ok_empty this run] run show ?thesis by metis
qed

end
