(* ===== verification/Feed_Worker_Rmq.thy ===== *)
theory Feed_Worker_Rmq
  imports Feed_Recovery Feed_Celebrity Routes_Posts Ws_Bridge
begin

text \<open>
  \<^verbatim>\<open>app/workers/feed_worker_rmq.py\<close>: the worker that takes events of posts from the durable queue of the broker,
  materialises the feeds and publishes one targeted notification for every follower.  A message is acknowledged after
  it was handled and put back into the queue when the handler raised.
\<close>

section \<open>Reading a body\<close>

text \<open>\<^verbatim>\<open>body.get(key)\<close> and \<^verbatim>\<open>body[key]\<close> on what \<^verbatim>\<open>json.loads\<close> returned; of equal keys the last one counts.\<close>

definition json_get :: "json \<Rightarrow> string \<Rightarrow> json res" where
  "json_get j key = (case j of
       JObj kvs \<Rightarrow> Inr (case map_of (rev kvs) key of None \<Rightarrow> JNull | Some v \<Rightarrow> v)
     | _ \<Rightarrow> Inl (AttributeError ''get''))"

definition json_item :: "json \<Rightarrow> string \<Rightarrow> json res" where
  "json_item j key = (case j of
       JObj kvs \<Rightarrow> (case map_of (rev kvs) key of None \<Rightarrow> Inl (KeyError key) | Some v \<Rightarrow> Inr v)
     | _ \<Rightarrow> Inl (TypeError ''not a mapping''))"

text \<open>\<^verbatim>\<open>UUID(x)\<close> and \<^verbatim>\<open>datetime.fromisoformat(x)\<close> on a JSON value.\<close>

definition json_uuid :: "json \<Rightarrow> uuid res" where
  "json_uuid j = (case j of JStr s \<Rightarrow> UUID s | JNull \<Rightarrow> Inl (TypeError ''one of the arguments must be given'')
     | _ \<Rightarrow> Inl (AttributeError ''replace''))"

definition json_moment :: "json \<Rightarrow> datetime res" where
  "json_moment j = (case j of JStr s \<Rightarrow> parse_moment s | _ \<Rightarrow> Inl (TypeError ''argument must be str''))"

text \<open>\<^verbatim>\<open>body.get("text") or ""\<close>.  A value that is neither a string nor false cannot be sliced; the producer sends
  strings only.\<close>

definition json_text :: "json \<Rightarrow> string res" where
  "json_text j = (case j of JStr s \<Rightarrow> Inr s | JNull \<Rightarrow> Inr [] | JBool False \<Rightarrow> Inr [] | JInt n \<Rightarrow>
     (if n = 0 then Inr [] else Inl (TypeError ''not subscriptable'')) | JList [] \<Rightarrow> Inr [] | JObj [] \<Rightarrow> Inr []
     | _ \<Rightarrow> Inl (TypeError ''not subscriptable''))"

section \<open>Operations\<close>

text \<open>\<^verbatim>\<open>asyncio.gather\<close> without \<^verbatim>\<open>return_exceptions\<close>: all calls run, the first exception is raised.\<close>

fun gatherP :: "('s, unit) prog list \<Rightarrow> ('s, unit) prog" where
  "gatherP [] s = (Inr (), s)"
| "gatherP (m # ms) s =
     (case m s of (x, s') \<Rightarrow> (case gatherP ms s' of (y, s'') \<Rightarrow> (case x of Inl e \<Rightarrow> Inl e | Inr _ \<Rightarrow> y, s'')))"

definition publish_ws_event :: "settings \<Rightarrow> 'b publisher \<Rightarrow> uuid \<Rightarrow> json \<Rightarrow> (('p, 'c, 'r, 'b) world, unit) prog" where
  "publish_ws_event S pub follower payload = on_broker (pub (user_routing_key S (uuid_str follower)) payload False)"

definition post_new_payload :: "uuid \<Rightarrow> uuid \<Rightarrow> string \<Rightarrow> datetime \<Rightarrow> json" where
  "post_new_payload post_id author_id text created_at =
     JObj [(''type'', JStr ''post.new''), (''post_id'', JStr (uuid_str post_id)), (''author_id'', JStr (uuid_str author_id)),
       (''text_preview'', JStr (take 200 text)), (''created_at'', JStr (isoformat created_at))]"

definition created_fields :: "json \<Rightarrow> (uuid \<times> uuid \<times> datetime \<times> string) res" where
  "created_fields b =
     bindR (bindR (json_item b ''post_id'') json_uuid) (\<lambda>post_id.
     bindR (bindR (json_item b ''author_id'') json_uuid) (\<lambda>author_id.
     bindR (bindR (json_item b ''created_at'') json_moment) (\<lambda>created_at.
     bindR (bindR (json_get b ''text'') json_text) (\<lambda>text. Inr (post_id, author_id, created_at, text)))))"

definition rmq_handle_created :: "settings \<Rightarrow> 'r server \<Rightarrow> 'b publisher \<Rightarrow> json \<Rightarrow> (('p, 'c, 'r, 'b) world, unit) prog" where
  "rmq_handle_created S exec pub b =
     bindP (liftP (created_fields b)) (\<lambda>(post_id, author_id, created_at, text).
     bindP (if text \<noteq> [] then on_redis (\<lambda>_. store_post_hash exec post_id text author_id created_at) else returnP ()) (\<lambda>_.
     bindP (on_redis (\<lambda>db. is_celebrity S exec db author_id)) (\<lambda>celebrity.
       if celebrity then returnP ()
       else
         bindP (on_redis (\<lambda>db. fan_out_post S exec db post_id author_id created_at)) (\<lambda>_.
         bindP (on_redis (\<lambda>db. get_followers db author_id)) (\<lambda>followers.
           if followers = [] then returnP ()
           else
             bindP (if text = [] then
                 bindP (on_redis (\<lambda>_. execute exec as_bulk (HGET (post_key post_id) ''text''))) (\<lambda>cached.
                   returnP (case cached of None \<Rightarrow> [] | Some t \<Rightarrow> t))
               else returnP text) (\<lambda>text.
               gatherP (map (\<lambda>follower. publish_ws_event S pub follower (post_new_payload post_id author_id text created_at))
                 followers)))))))"

definition rmq_handle_deleted :: "'r server \<Rightarrow> json \<Rightarrow> (('p, 'c, 'r, 'b) world, unit) prog" where
  "rmq_handle_deleted exec b =
     bindP (liftP (bindR (json_item b ''post_id'') json_uuid)) (\<lambda>post_id.
     bindP (liftP (bindR (json_item b ''author_id'') json_uuid)) (\<lambda>author_id.
       on_redis (\<lambda>db. remove_post_from_all_feeds exec db post_id author_id)))"

definition rmq_handle_message :: "settings \<Rightarrow> 'r server \<Rightarrow> 'b publisher \<Rightarrow> body \<Rightarrow> (('p, 'c, 'r, 'b) world, unit) prog" where
  "rmq_handle_message S exec pub raw =
     (case raw of
        None \<Rightarrow> raiseP (ValueError ''no JSON'')
      | Some b \<Rightarrow>
          bindP (liftP (json_get b ''event_type'')) (\<lambda>event_type.
            if event_type = JStr ''created'' then rmq_handle_created S exec pub b
            else if event_type = JStr ''deleted'' then rmq_handle_deleted exec b
            else returnP ()))"

text \<open>The loop over the deliveries: each comes with whether a shutdown was requested by then, which ends the loop and
  leaves the delivery unsettled.  What the worker tells the broker for each delivery it has handled is the result.\<close>

datatype settled = Acked | Requeued

fun rmq_consume_loop :: "settings \<Rightarrow> 'r server \<Rightarrow> 'b publisher \<Rightarrow> (body \<times> bool) list \<Rightarrow> ('p, 'c, 'r, 'b) world \<Rightarrow>
    settled list \<times> ('p, 'c, 'r, 'b) world" where
  "rmq_consume_loop S exec pub [] w = ([], w)"
| "rmq_consume_loop S exec pub ((raw, shutdown) # ds) w =
     (if shutdown then ([], w)
      else case rmq_handle_message S exec pub raw w of (x, w') \<Rightarrow>
        (case rmq_consume_loop S exec pub ds w' of (out, w'') \<Rightarrow>
           ((case x of Inr _ \<Rightarrow> Acked | Inl _ \<Rightarrow> Requeued) # out, w'')))"

text \<open>What happens before the loop: the queue is declared and bound to the key of the producers.  The parameters are the
  outcomes of \<^verbatim>\<open>connection.channel\<close>, \<^verbatim>\<open>set_qos\<close>, \<^verbatim>\<open>declare_exchange\<close>, \<^verbatim>\<open>declare_queue\<close> and \<^verbatim>\<open>queue.bind\<close>.\<close>

definition rmq_worker_start :: "settings \<Rightarrow> ('c, 'ch, 'x) rabbit \<Rightarrow> ('c \<Rightarrow> 'ch res) \<Rightarrow> ('ch \<Rightarrow> int \<Rightarrow> unit res) \<Rightarrow>
    ('ch \<Rightarrow> string \<Rightarrow> 'x res) \<Rightarrow> ('ch \<Rightarrow> string \<Rightarrow> string res) \<Rightarrow> (string \<Rightarrow> string \<Rightarrow> ('b, unit) prog) \<Rightarrow>
    (('p, 'd, 'r, 'b) world, string) prog" where
  "rmq_worker_start S rabbit channel set_qos declare_exchange declare_queue bind =
     bindP get_redis (\<lambda>_.
     bindP (liftP (RabbitClient_connection rabbit)) (\<lambda>connection.
     bindP (liftP (channel connection)) (\<lambda>ch.
     bindP (liftP (set_qos ch (rabbitmq_prefetch S))) (\<lambda>_.
     bindP (liftP (declare_exchange ch (rabbitmq_exchange S))) (\<lambda>exchange.
     bindP (liftP (declare_queue ch (rabbitmq_materialize_queue S))) (\<lambda>queue.
     bindP (on_broker (bind queue (rabbitmq_materialize_routing_key S))) (\<lambda>_. returnP queue)))))))"

section \<open>Any server behaves as documented\<close>

lemma sim_gather: "(\<And>x. sim view (f x) (g x)) \<Longrightarrow> sim view (gatherP (map f xs)) (gatherP (map g xs))"
proof (induction xs)
  case (Cons x xs)
  show ?case unfolding sim_def
  proof
    fix r
    obtain y r1 where 1: "f x r = (y, r1)" by fastforce
    obtain z r2 where 2: "gatherP (map f xs) r1 = (z, r2)" by fastforce
    show "fst (gatherP (map f (x # xs)) r) = fst (gatherP (map g (x # xs)) (view r))
        \<and> view (snd (gatherP (map f (x # xs)) r)) = snd (gatherP (map g (x # xs)) (view r))"
      using 1 2 sim_result [OF Cons.prems 1] sim_result [OF Cons.IH [OF Cons.prems] 2] by simp
  qed
qed (simp add: sim_def)

context redis_server
begin

lemma rmq_created_sim: "sim (view_world view) (rmq_handle_created S exec pub b) (rmq_handle_created S redis_step pub b)"
  unfolding rmq_handle_created_def publish_ws_event_def get_followers_def case_prod_beta
  by (intro sim_intros sim_gather feed_sims server_sims)

lemma rmq_message_sim: "sim (view_world view) (rmq_handle_message S exec pub raw) (rmq_handle_message S redis_step pub raw)"
  unfolding rmq_handle_message_def rmq_handle_deleted_def
  by (intro sim_intros rmq_created_sim feed_sims)

end

section \<open>Effects\<close>

text \<open>A broker that accepts publications while it is up.\<close>

locale live_broker = topic_broker bind unbind pub bound inbox
  for bind unbind :: "string \<Rightarrow> string \<Rightarrow> ('b, unit) prog" and pub :: "string \<Rightarrow> body \<Rightarrow> ('b, unit) prog"
    and bound :: "'b \<Rightarrow> string \<Rightarrow> string set" and inbox :: "'b \<Rightarrow> string \<Rightarrow> (string \<times> body) list" +
  fixes up :: "'b \<Rightarrow> bool"
  assumes accepts: "up b \<Longrightarrow> \<exists>b'. pub k m b = (Inr (), b') \<and> up b'"
begin

lemma gather_notifies:
  assumes "up (wo_broker w)" and "\<And>u. user_routing_key S (uuid_str u) = key u"
  shows "\<exists>b'. gatherP (map (\<lambda>u. publish_ws_event S (\<lambda>k j _. pub k (dumps j)) u payload) us) w = (Inr (), w\<lparr>wo_broker := b'\<rparr>)
    \<and> up b' \<and> bound b' = bound (wo_broker w)
    \<and> (\<forall>q. (\<forall>p \<in> bound (wo_broker w) q. literal_key p) \<longrightarrow>
        inbox b' q = inbox (wo_broker w) q @ map (\<lambda>u. (key u, dumps payload)) (filter (\<lambda>u. key u \<in> bound (wo_broker w) q) us))"
  using assms(1)
proof (induction us arbitrary: w)
  case Nil
  then show ?case by (intro exI [of _ "wo_broker w"]) simp
next
  case (Cons u us)
  obtain b1 where b1: "pub (key u) (dumps payload) (wo_broker w) = (Inr (), b1)" "up b1" using accepts [OF Cons.prems] by blast
  note bd = publish_bound [OF b1(1)] and ib = publish_literal [OF b1(1)]
  have one: "publish_ws_event S (\<lambda>k j _. pub k (dumps j)) u payload w = (Inr (), w\<lparr>wo_broker := b1\<rparr>)"
    using b1 by (simp add: publish_ws_event_def on_broker_def assms(2))
  obtain b' where b': "gatherP (map (\<lambda>u. publish_ws_event S (\<lambda>k j _. pub k (dumps j)) u payload) us) (w\<lparr>wo_broker := b1\<rparr>)
        = (Inr (), w\<lparr>wo_broker := b'\<rparr>)" "up b'" "bound b' = bound b1"
      "\<forall>q. (\<forall>p \<in> bound b1 q. literal_key p) \<longrightarrow>
        inbox b' q = inbox b1 q @ map (\<lambda>u. (key u, dumps payload)) (filter (\<lambda>u. key u \<in> bound b1 q) us)"
    using Cons.IH [of "w\<lparr>wo_broker := b1\<rparr>"] b1(2) by auto
  show ?case using one b' ib unfolding bd by (intro exI [of _ b']) auto
qed

end

interpretation live: live_broker broker_bind broker_unbind broker_publish broker_bound bk_inbox bk_up
  by unfold_locales (simp add: broker_publish_def)

lemma is_celebrity_frame:
  assumes "cache_ok r" and "0 < celebrity_cache_ttl S"
  shows "\<exists>r'. is_celebrity S redis_step (Inr s) a r = (Inr (flagged S s r a), r') \<and> cache_ok r' \<and> (\<forall>k. k \<noteq> celebrity_key a \<longrightarrow> r' k = r k)
    \<and> flagged S s r' a = flagged S s r a"
proof -
  obtain r' where r': "is_celebrity S redis_step (Inr s) a r = (Inr (flagged S s r a), r')"
    using is_celebrity_effect [OF assms] by blast
  have "str_or_none (r (celebrity_key a))" using assms(1) by (simp add: cache_ok_def)
  then have r: "r' = r \<or> (\<exists>v. r' = r(celebrity_key a \<mapsto> Str v) \<and> (v = ''1'' \<longleftrightarrow> flagged S s r a))"
    using r' assms(2)
    by (auto simp: is_celebrity_def execute_def as_bulk_def on_value_def get_str_def bindP_def followers_count_def fetch_def Let_def
        str_or_none_def split: option.splits rvalue.splits)
  then have "flagged S s r' a = flagged S s r a" by (auto simp: flagged_def cached_flag_def)
  moreover have "cache_ok r' \<and> (\<forall>k. k \<noteq> celebrity_key a \<longrightarrow> r' k = r k)"
    using assms(1) r by (auto simp: cache_ok_def zset_at_def str_or_none_def)
  ultimately show ?thesis using r' by blast
qed

text \<open>What \<^verbatim>\<open>create_post\<close> publishes.\<close>

definition created_payload :: "post \<Rightarrow> json" where
  "created_payload p =
     JObj [(''event_type'', JStr ''created''), (''post_id'', JStr (uuid_str (po_id p))),
       (''author_id'', JStr (uuid_str (po_author p))), (''text'', JStr (po_text p)),
       (''created_at'', JStr (isoformat (po_created p)))]"

lemma created_fields_payload:
  "dt_ok (po_created p) \<Longrightarrow> created_fields (created_payload p) = Inr (po_id p, po_author p, po_created p, po_text p)"
  using parse_moment_iso [of "Naive (po_created p)"]
  by (simp add: created_fields_def created_payload_def json_item_def json_get_def json_uuid_def json_moment_def json_text_def
      bindR_def UUID_str moment_iso_def)

lemma handle_created_payload:
  "rmq_handle_message S exec pub (dumps (created_payload p)) = rmq_handle_created S exec pub (created_payload p)"
  by (simp add: rmq_handle_message_def dumps_def created_payload_def json_get_def bindP_def fun_eq_iff)

section \<open>A created post\<close>

text \<open>The feeds of the followers with the post, unless the author is a celebrity.\<close>

definition pushed_feed :: "settings \<Rightarrow> social \<Rightarrow> bool \<Rightarrow> post \<Rightarrow> redis \<Rightarrow> uuid \<Rightarrow> zset" where
  "pushed_feed S s celebrity p r u =
     (if \<not> celebrity \<and> u \<in> set (sql_followers s (po_author p))
      then keep (feed_max_size S) (zadd (uuid_str (po_id p)) (timestamp (po_created p)) (zset_at r (feed_key u)))
      else zset_at r (feed_key u))"

definition notified :: "settings \<Rightarrow> social \<Rightarrow> bool \<Rightarrow> uuid \<Rightarrow> uuid list" where
  "notified S s celebrity a = (if celebrity then [] else sql_followers s a)"

lemma master_view_redis [simp]: "master_view (w\<lparr>wo_redis := r\<rparr>) = master_view w"
  by (simp add: master_view_def split: sum.split)

lemma created_effect:
  fixes w :: "('p, 'c, redis, 'b) world"
  assumes "live_broker bind unbind pub bound inbox up" and s: "master_view w = Inr s" "social_ok s" and c: "cache_ok (wo_redis w)"
    and cap: "0 \<le> feed_max_size S" and ttl: "0 < celebrity_cache_ttl S" and up: "up (wo_broker w)"
    and p: "dt_ok (po_created p)" "po_text p \<noteq> []" and fl: "fl = flagged S s (wo_redis w) (po_author p)"
  shows "\<exists>r' b'. rmq_handle_created S redis_step (\<lambda>k j _. pub k (dumps j)) (created_payload p) w = (Inr (), w\<lparr>wo_redis := r', wo_broker := b'\<rparr>)
    \<and> (\<forall>u. zset_at r' (feed_key u) = pushed_feed S s fl p (wo_redis w) u)
    \<and> r' (post_key (po_id p)) = Some (Hash (row_to_post_hash p))
    \<and> (\<forall>q. (\<forall>k \<in> bound (wo_broker w) q. literal_key k) \<longrightarrow> inbox b' q = inbox (wo_broker w) q @
        map (\<lambda>u. (user_routing_key S (uuid_str u), dumps (post_new_payload (po_id p) (po_author p) (po_text p) (po_created p))))
          (filter (\<lambda>u. user_routing_key S (uuid_str u) \<in> bound (wo_broker w) q) (notified S s fl (po_author p))))
    \<and> cache_ok r' \<and> flagged S s r' (po_author p) = fl \<and> up b' \<and> bound b' = bound (wo_broker w)"
proof -
  let ?pay = "post_new_payload (po_id p) (po_author p) (po_text p) (po_created p)" and ?fs = "sql_followers s (po_author p)"
  let ?r1 = "(wo_redis w)(post_key (po_id p) \<mapsto> Hash (row_to_post_hash p))"
  have st: "store_post_hash redis_step (po_id p) (po_text p) (po_author p) (po_created p) (wo_redis w) = (Inr (), ?r1)"
    using store_effect [OF c, of "po_id p" "po_text p" "po_author p" "po_created p"] by (simp add: row_to_post_hash_def)
  have c1: "cache_ok ?r1" by (rule cache_ok_store [OF c])
  have "flagged S s ?r1 (po_author p) = fl" by (simp add: fl flagged_def cached_flag_def)
  then obtain r2 where r2: "is_celebrity S redis_step (Inr s) (po_author p) ?r1 = (Inr fl, r2)" "cache_ok r2"
      "\<forall>k. k \<noteq> celebrity_key (po_author p) \<longrightarrow> r2 k = ?r1 k" "flagged S s r2 (po_author p) = fl"
    using is_celebrity_frame [OF c1 ttl, of s "po_author p"] by auto
  have z2: "zset_at r2 (feed_key u) = zset_at (wo_redis w) (feed_key u)" for u using r2(3) by (simp add: zset_at_def)
  have b2: "r2 (post_key (po_id p)) = Some (Hash (row_to_post_hash p))" using r2(3) by simp
  show ?thesis
  proof (cases fl)
    case True
    then show ?thesis using z2 b2 p(2) r2(2,4) up
      by (intro exI [of _ r2] exI [of _ "wo_broker w"])
        (simp add: rmq_handle_created_def on_redis_def created_fields_payload [OF p(1)] st r2(1) s(1) pushed_feed_def notified_def)
  next
    case False
    let ?r3 = "map_feeds (set ?fs) (\<lambda>z. keep (feed_max_size S) (zadd (uuid_str (po_id p)) (timestamp (po_created p)) z)) r2"
    have fan: "fan_out_post S redis_step (Inr s) (po_id p) (po_author p) (po_created p) r2 = (Inr (), ?r3)"
      by (rule fan_out_effect [OF r2(2) social_ok_distinct [OF s(2)] cap])
    have z3: "zset_at ?r3 (feed_key u) = pushed_feed S s fl p (wo_redis w) u" for u
      using False z2 by (simp add: zset_at_map_feeds pushed_feed_def)
    have b3: "?r3 (post_key (po_id p)) = Some (Hash (row_to_post_hash p))" using b2 by (subst map_feeds_other) auto
    have c3: "cache_ok ?r3" by (rule cache_ok_map_feeds [OF r2(2)]) auto
    have "?r3 (celebrity_key (po_author p)) = r2 (celebrity_key (po_author p))" by (rule map_feeds_other) auto
    then have f3: "flagged S s ?r3 (po_author p) = fl" using r2(4) by (simp add: flagged_def cached_flag_def)
    obtain b' where b': "gatherP (map (\<lambda>u. publish_ws_event S (\<lambda>k j _. pub k (dumps j)) u ?pay) ?fs) (w\<lparr>wo_redis := ?r3\<rparr>)
          = (Inr (), w\<lparr>wo_redis := ?r3, wo_broker := b'\<rparr>)" "up b'" "bound b' = bound (wo_broker w)"
        "\<forall>q. (\<forall>k \<in> bound (wo_broker w) q. literal_key k) \<longrightarrow> inbox b' q = inbox (wo_broker w) q @
          map (\<lambda>u. (user_routing_key S (uuid_str u), dumps ?pay)) (filter (\<lambda>u. user_routing_key S (uuid_str u) \<in> bound (wo_broker w) q) ?fs)"
      using live_broker.gather_notifies [OF assms(1), of "w\<lparr>wo_redis := ?r3\<rparr>" S "\<lambda>u. user_routing_key S (uuid_str u)" ?pay ?fs] up
      by auto
    have "rmq_handle_created S redis_step (\<lambda>k j _. pub k (dumps j)) (created_payload p) w
        = (if ?fs = [] then (Inr (), w\<lparr>wo_redis := ?r3\<rparr>)
           else gatherP (map (\<lambda>u. publish_ws_event S (\<lambda>k j _. pub k (dumps j)) u ?pay) ?fs) (w\<lparr>wo_redis := ?r3\<rparr>))"
      using False p(2) by (simp add: rmq_handle_created_def on_redis_def created_fields_payload [OF p(1)] st r2(1) s(1) fan
          get_followers_def fetch_def)
    then have "rmq_handle_created S redis_step (\<lambda>k j _. pub k (dumps j)) (created_payload p) w = (Inr (), w\<lparr>wo_redis := ?r3, wo_broker := b'\<rparr>)"
      using b'(1) by auto
    then show ?thesis using z3 b3 c3 f3 b'(2-) False by (auto simp: notified_def)
  qed
qed

text \<open>When the worker handles the message that the creation of a post published, it returns, the body
  is in the cache, and unless the author counts as a celebrity the feed of every follower has the post while all other
  feeds are as before; every queue receives, exactly once and in the order of the followers, the notification for each
  follower it is bound for, with the preview of the text, and nothing for a celebrity.\<close>

theorem rmq_created_delivers:
  fixes w :: "('p, 'c, 'r, 'b) world"
  assumes "redis_server exec view" and "live_broker bind unbind pub bound inbox up"
    and "master_view w = Inr s" and "social_ok s" and "cache_ok (view (wo_redis w))"
    and "0 \<le> feed_max_size S" and "0 < celebrity_cache_ttl S" and "up (wo_broker w)"
    and "dt_ok (po_created p)" and "po_text p \<noteq> []"
  defines "fl \<equiv> flagged S s (view (wo_redis w)) (po_author p)"
  shows "\<exists>w'. rmq_handle_message S exec (\<lambda>k j _. pub k (dumps j)) (dumps (created_payload p)) w = (Inr (), w')
    \<and> (\<forall>u. zset_at (view (wo_redis w')) (feed_key u) = pushed_feed S s fl p (view (wo_redis w)) u)
    \<and> view (wo_redis w') (post_key (po_id p)) = Some (Hash (row_to_post_hash p))
    \<and> (\<forall>q. (\<forall>k \<in> bound (wo_broker w) q. literal_key k) \<longrightarrow> inbox (wo_broker w') q = inbox (wo_broker w) q @
        map (\<lambda>u. (user_routing_key S (uuid_str u), dumps (post_new_payload (po_id p) (po_author p) (po_text p) (po_created p))))
          (filter (\<lambda>u. user_routing_key S (uuid_str u) \<in> bound (wo_broker w) q) (notified S s fl (po_author p))))"
proof -
  obtain x w' where run: "rmq_handle_message S exec (\<lambda>k j _. pub k (dumps j)) (dumps (created_payload p)) w = (x, w')" by fastforce
  from sim_result [OF redis_server.rmq_message_sim [OF assms(1)] run]
  have "rmq_handle_created S redis_step (\<lambda>k j _. pub k (dumps j)) (created_payload p) (view_world view w) = (x, view_world view w')"
    by (simp add: handle_created_payload)
  moreover obtain r' b' where e: "rmq_handle_created S redis_step (\<lambda>k j _. pub k (dumps j)) (created_payload p) (view_world view w)
        = (Inr (), (view_world view w)\<lparr>wo_redis := r', wo_broker := b'\<rparr>)"
      "\<forall>u. zset_at r' (feed_key u) = pushed_feed S s fl p (view (wo_redis w)) u"
      "r' (post_key (po_id p)) = Some (Hash (row_to_post_hash p))"
      "\<forall>q. (\<forall>k \<in> bound (wo_broker w) q. literal_key k) \<longrightarrow> inbox b' q = inbox (wo_broker w) q @
        map (\<lambda>u. (user_routing_key S (uuid_str u), dumps (post_new_payload (po_id p) (po_author p) (po_text p) (po_created p))))
          (filter (\<lambda>u. user_routing_key S (uuid_str u) \<in> bound (wo_broker w) q) (notified S s fl (po_author p)))"
    using created_effect [OF assms(2), of "view_world view w" s S p fl] assms(3-) by auto
  ultimately have "x = Inr ()" and w': "view_world view w' = (view_world view w)\<lparr>wo_redis := r', wo_broker := b'\<rparr>" by simp_all
  moreover have "view (wo_redis w') = r'" "wo_broker w' = b'"
    using arg_cong [OF w', of wo_redis] arg_cong [OF w', of wo_broker] by simp_all
  ultimately show ?thesis using run e by auto
qed

definition demo_rmq_world :: "string list \<Rightarrow> (nat, unit, redis, broker) world" where
  "demo_rmq_world keys = \<lparr>wo_database = \<lparr>db_master_pool = Some 0, db_slave_pools = [], db_slave_cycle = None\<rparr>,
     wo_tables = (\<lambda>_. demo_tables [demo_post] [(1, 2)]), wo_redis_client = initial_redis_client, wo_redis = Map.empty,
     wo_broker = demo_broker\<lparr>bk_bindings := map (\<lambda>k. (''ws'', k)) keys\<rparr>\<rparr>"

lemma rmq_created_delivers_witness:
  "\<exists>w'. rmq_handle_message default_settings redis_step (\<lambda>k j _. broker_publish k (dumps j)) (dumps (created_payload demo_post))
      (demo_rmq_world [''feed.user.'' @ uuid_str 1]) = (Inr (), w')
    \<and> zset_at (wo_redis w') (feed_key 1) = [entry demo_post]
    \<and> bk_inbox (wo_broker w') ''ws'' = [(''feed.user.'' @ uuid_str 1, dumps (post_new_payload 5 2 ''hi'' (po_created demo_post)))]"
proof -
  let ?w = "demo_rmq_world [''feed.user.'' @ uuid_str 1]" and ?s = "demo_tables [demo_post] [(1, 2)]"
  have fl: "flagged default_settings ?s (wo_redis ?w) (po_author demo_post) = False"
    by (simp add: flagged_def cached_flag_def demo_rmq_world_def sql_count_followers_def sql_followers_def demo_tables_def default_settings_def
        demo_post_def)
  have mv: "master_view ?w = Inr ?s" by (simp add: master_view_def master_connection_def demo_rmq_world_def)
  have r: "wo_redis ?w = Map.empty" "wo_broker ?w = demo_broker\<lparr>bk_bindings := [(''ws'', ''feed.user.'' @ uuid_str 1)]\<rparr>"
    by (simp_all add: demo_rmq_world_def)
  have S: "0 \<le> feed_max_size default_settings" "0 < celebrity_cache_ttl default_settings" by (simp_all add: default_settings_def)
  have p: "dt_ok (po_created demo_post)" "po_text demo_post \<noteq> []" by (simp_all add: demo_post_def dt_ok_def days_in_month_def)
  have key: "user_routing_key default_settings (uuid_str 1) = ''feed.user.'' @ uuid_str 1"
    by (simp add: user_routing_key_def default_settings_def)
  then have lit: "literal_key (''feed.user.'' @ uuid_str 1)" using literal_user_key [OF prefix_ok_default, of 1] by simp
  have bd: "broker_bound (wo_broker ?w) ''ws'' = {''feed.user.'' @ uuid_str 1}" unfolding broker_bound_def r by simp
  have fs: "sql_followers ?s (po_author demo_post) = [1]" by (simp add: sql_followers_def demo_tables_def demo_post_def)
  have up: "bk_up (wo_broker ?w)" unfolding r by (simp add: demo_broker_def)
  have c: "cache_ok (wo_redis ?w)" unfolding r by (rule cache_ok_empty)
  have l: "\<forall>k \<in> broker_bound (wo_broker ?w) ''ws''. literal_key k" unfolding bd using lit by blast
  obtain w' where w': "rmq_handle_message default_settings redis_step (\<lambda>k j _. broker_publish k (dumps j)) (dumps (created_payload demo_post)) ?w = (Inr (), w')"
      "zset_at (wo_redis w') (feed_key 1) = pushed_feed default_settings ?s False demo_post (wo_redis ?w) 1"
      "bk_inbox (wo_broker w') ''ws'' = bk_inbox (wo_broker ?w) ''ws'' @
        map (\<lambda>u. (user_routing_key default_settings (uuid_str u), dumps (post_new_payload (po_id demo_post) (po_author demo_post) (po_text demo_post) (po_created demo_post))))
          (filter (\<lambda>u. user_routing_key default_settings (uuid_str u) \<in> broker_bound (wo_broker ?w) ''ws'') (notified default_settings ?s False (po_author demo_post)))"
    using rmq_created_delivers [OF documented.redis_server_axioms live.live_broker_axioms mv demo_tables_ok(1) c S up p, unfolded fl] l by blast
  have "zset_at (wo_redis w') (feed_key 1) = [entry demo_post]"
    using w'(2) unfolding r by (simp add: pushed_feed_def fs zadd_def keep_def entry_def zset_at_def default_settings_def)
  moreover have "bk_inbox (wo_broker w') ''ws'' = [(''feed.user.'' @ uuid_str 1, dumps (post_new_payload 5 2 ''hi'' (po_created demo_post)))]"
    using w'(3) unfolding bd r by (simp add: notified_def fs key demo_broker_def broker_bound_def) (simp add: demo_post_def)
  ultimately show ?thesis using w'(1) by blast
qed

end
