(* ===== verification/Feed_Liveness.thy ===== *)
theory Feed_Liveness
  imports Feed_Recovery
begin

text \<open>
  The asynchronous feed in the long run: the application publishes events (\<^verbatim>\<open>publish_post_event\<close> of \<^verbatim>\<open>app/feed_cache.py\<close>), any number of
  workers (\<^verbatim>\<open>app/workers/feed_worker.py\<close>) run their rounds, and other requests change the cache in between.  As long as some
  worker keeps running rounds, every event that is published is handled.
\<close>

section \<open>Progress by a fair action\<close>

text \<open>A job \<open>i\<close> waits; the helpful actions work it off, at the latest when its rank has come down to nothing, and the other actions do not push it
  back.\<close>

locale fair_progress =
  fixes step :: "'l \<Rightarrow> 's \<Rightarrow> 's \<Rightarrow> bool" and helpful :: "'l \<Rightarrow> bool" and inv :: "'s \<Rightarrow> bool"
    and waits :: "'i \<Rightarrow> 's \<Rightarrow> bool" and rank :: "'i \<Rightarrow> 's \<Rightarrow> nat"
  assumes inv_step: "step l s s' \<Longrightarrow> inv s \<Longrightarrow> inv s'"
    and other_step: "step l s s' \<Longrightarrow> inv s \<Longrightarrow> \<not> helpful l \<Longrightarrow> waits i s \<Longrightarrow> waits i s' \<and> rank i s' \<le> rank i s"
    and helpful_step: "step l s s' \<Longrightarrow> inv s \<Longrightarrow> helpful l \<Longrightarrow> waits i s \<Longrightarrow> waits i s' \<Longrightarrow> rank i s' < rank i s"
begin

lemma inv_run:
  assumes "\<forall>n. step (act n) (run n) (run (Suc n))" and "inv (run 0)"
  shows "inv (run n)"
  using assms by (induction n) (auto intro: inv_step)

lemma waits_until:
  assumes "\<forall>n. step (act n) (run n) (run (Suc n))" and "inv (run 0)" and "waits i (run n)" and "helpful (act (n + d))"
  shows "\<exists>m \<ge> n. helpful (act m) \<and> waits i (run m) \<and> rank i (run m) \<le> rank i (run n)"
  using assms(3,4)
proof (induction d arbitrary: n)
  case (Suc d)
  show ?case
  proof (cases "helpful (act n)")
    case False
    have "waits i (run (Suc n)) \<and> rank i (run (Suc n)) \<le> rank i (run n)"
      using other_step [OF assms(1) [rule_format] inv_run [OF assms(1,2)] False Suc.prems(1)] .
    then show ?thesis using Suc.IH [of "Suc n"] Suc.prems(2) by (auto intro: Suc_leD order_trans)
  qed (use Suc.prems(1) in blast)
qed auto

lemma served:
  assumes "\<forall>n. step (act n) (run n) (run (Suc n))" and "inv (run 0)" and "\<forall>n. \<exists>m \<ge> n. helpful (act m)" and "waits i (run n)"
  shows "\<exists>m \<ge> n. helpful (act m) \<and> waits i (run m) \<and> \<not> waits i (run (Suc m))"
  using assms(4)
proof (induction "rank i (run n)" arbitrary: n rule: less_induct)
  case less
  obtain d where "helpful (act (n + d))" using assms(3) by (metis le_add_diff_inverse)
  from waits_until [OF assms(1,2) less.prems this]
  obtain m where m: "m \<ge> n" "helpful (act m)" "waits i (run m)" "rank i (run m) \<le> rank i (run n)" by blast
  show ?case
  proof (cases "waits i (run (Suc m))")
    case True
    have "rank i (run (Suc m)) < rank i (run n)"
      using helpful_step [OF assms(1) [rule_format] inv_run [OF assms(1,2)] m(2,3) True] m(4) by simp
    then show ?thesis using less.hyps [of "Suc m"] True m(1) by (meson Suc_leD le_trans)
  qed (use m in blast)
qed

end

section \<open>The system\<close>

text \<open>An action is the publication of an event, a round of the worker \<open>c\<close> that finds the tables \<open>tabs\<close> on the primary, or anything else that leaves
  the stream alone and the cache well-formed.\<close>

datatype feed_action = Publish event | Round string social | Elsewhere

definition as_consumer :: "string \<Rightarrow> settings \<Rightarrow> settings" where
  "as_consumer c S = S\<lparr>feed_stream_consumer := c\<rparr>"

inductive feed_step :: "settings \<Rightarrow> 'r server \<Rightarrow> ('r \<Rightarrow> redis) \<Rightarrow> feed_action \<Rightarrow> 'r \<Rightarrow> 'r \<Rightarrow> bool"
  for S exec view where
  publishes: "feed_step S exec view (Publish ev) r r'" if "event_ok ev" and "publish S exec ev r = (Inr (), r')"
| works: "feed_step S exec view (Round c tabs) r r'" if "social_ok tabs" and "process_round (as_consumer c S) exec (Inr tabs) r = (Inr (), r')"
| elsewhere: "feed_step S exec view Elsewhere r r'" if "view r' (feed_stream_key S) = view r (feed_stream_key S)" and "cache_ok (view r')"

inductive_cases publishes_cases: "feed_step S exec view (Publish ev) r r'"
inductive_cases works_cases: "feed_step S exec view (Round c tabs) r r'"
inductive_cases elsewhere_cases: "feed_step S exec view Elsewhere r r'"

lemmas feed_step_cases = publishes_cases works_cases elsewhere_cases

fun is_round :: "feed_action \<Rightarrow> bool" where
  "is_round (Round c tabs) = True"
| "is_round _ = False"

section \<open>The stream and its group\<close>

text \<open>The stream exists with the group of the workers, in the state \<open>st\<close> and \<open>gr\<close>.\<close>

definition stream_at :: "settings \<Rightarrow> redis \<Rightarrow> stream \<Rightarrow> group \<Rightarrow> bool" where
  "stream_at S s st gr \<longleftrightarrow> s (feed_stream_key S) = Some (Stream st) \<and> map_of (st_groups st) (feed_stream_group S) = Some gr"

definition to_read :: "stream \<Rightarrow> group \<Rightarrow> (nat \<times> fields) list" where
  "to_read st gr = filter (\<lambda>e. gr_last gr < fst e) (st_entries st)"

definition worker_settings :: "settings \<Rightarrow> bool" where
  "worker_settings S \<longleftrightarrow> \<not> cache_key (feed_stream_key S) \<and> 0 \<le> feed_max_size S \<and> 0 < feed_stream_batch S"

definition feed_live :: "settings \<Rightarrow> redis \<Rightarrow> bool" where
  "feed_live S s \<longleftrightarrow> worker_settings S \<and> cache_ok s \<and> (\<exists>st gr. stream_at S s st gr \<and> stream_ok st \<and> gr_last gr < st_next st
     \<and> published (to_read st gr) \<and> (\<forall>p \<in> set (gr_pending gr). fst p \<le> gr_last gr))"

text \<open>The entry of an event waits as long as no worker has read it; before it come the unread entries up to it.  It is settled when it has been read
  and acknowledged.\<close>

definition queued :: "settings \<Rightarrow> nat \<times> event \<Rightarrow> redis \<Rightarrow> bool" where
  "queued S i s \<longleftrightarrow> (\<exists>st gr. stream_at S s st gr \<and> (fst i, event_fields (snd i)) \<in> set (to_read st gr))"

definition queue_length :: "settings \<Rightarrow> nat \<times> event \<Rightarrow> redis \<Rightarrow> nat" where
  "queue_length S i s = (let st = stream_of s (feed_stream_key S) in
     length (filter (\<lambda>e. fst e \<le> fst i) (to_read st (group_of st (feed_stream_group S)))))"

definition settled_entry :: "settings \<Rightarrow> nat \<Rightarrow> redis \<Rightarrow> bool" where
  "settled_entry S i s \<longleftrightarrow> (\<exists>st gr. stream_at S s st gr \<and> i \<le> gr_last gr \<and> i \<notin> fst ` set (gr_pending gr))"

lemma stream_at_unique: "stream_at S s st gr \<Longrightarrow> stream_at S s st' gr' \<Longrightarrow> st' = st \<and> gr' = gr"
  by (simp add: stream_at_def)

lemma queue_length_at: "stream_at S s st gr \<Longrightarrow> queue_length S i s = length (filter (\<lambda>e. fst e \<le> fst i) (to_read st gr))"
  by (simp add: queue_length_def stream_at_def stream_of_def group_of_def Let_def)


section \<open>Steps\<close>

lemma events_of:
  assumes "published es"
  shows "\<exists>evs. map snd es = map event_fields evs \<and> (\<forall>ev \<in> set evs. event_ok ev)"
  using assms
proof (induction es)
  case (Cons e es)
  obtain ev where "event_ok ev" "snd e = event_fields ev" using Cons.prems by (auto simp: published_def)
  moreover obtain evs where "map snd es = map event_fields evs" "\<forall>ev \<in> set evs. event_ok ev"
    using Cons by (auto simp: published_def)
  ultimately have "map snd (e # es) = map event_fields (ev # evs) \<and> (\<forall>ev \<in> set (ev # evs). event_ok ev)" by simp
  then show ?case by blast
qed simp

lemma xack_off: "off k (snd (redis_step (XACK k g i) s)) = off k s"
  by (auto simp: off_def on_value_def get_stream_def wrongtype_def fun_eq_iff split: option.splits rvalue.splits)

text \<open>Draining does to the feeds what the events stand for.\<close>

lemma drain_off:
  assumes k: "\<not> cache_key k" and tabs: "social_ok tabs" and cap: "0 \<le> feed_max_size S"
    and "map snd es = map event_fields evs" and "\<forall>ev \<in> set evs. event_ok ev" and "cache_ok s" and "s k = Some (Stream st)" and "off k s = off k t" and "cache_ok t"
    and "drain_entries S redis_step (Inr tabs) k g es s = (y, s')"
  shows "\<exists>t'. forP evs (apply_event S redis_step (Inr tabs)) t = (Inr (), t') \<and> off k s' = off k t'"
  using assms(4-)
proof (induction evs arbitrary: es s st t)
  case Nil
  then show ?case by (simp add: drain_entries_def)
next
  case (Cons ev evs)
  obtain i es' where es: "es = (i, event_fields ev) # es'" "map snd es' = map event_fields evs" using Cons.prems(1) by auto
  have key: "k \<notin> range feed_key" using k by (simp add: cache_key_def)
  obtain s1 where s1: "apply_event S redis_step (Inr tabs) ev s = (Inr (), s1)" "cache_ok s1"
    using apply_event_runs [OF Cons.prems(3) tabs cap] by blast
  obtain t1 where t1: "apply_event S redis_step (Inr tabs) ev t = (Inr (), t1)" "cache_ok t1"
    using apply_event_runs [OF Cons.prems(6) tabs cap] by blast
  note sim = apply_event_sim [OF key, of S "Inr tabs" ev]
  have off1: "off k s1 = off k t1" using sim_result [OF sim s1(1)] sim_result [OF sim t1(1)] Cons.prems(5) by simp
  have h: "handle_event S redis_step (Inr tabs) (event_fields ev) = apply_event S redis_step (Inr tabs) ev"
    using Cons.prems(2) by (simp add: handle_published)
  have "s1 k = s k" using documented.faulty.handle_event_keeps [OF key, of S "Inr tabs" "event_fields ev"] s1 h by (metis keeps_def snd_conv)
  then have k1: "s1 k = Some (Stream st)" using Cons.prems(4) by simp
  let ?s2 = "s1(k \<mapsto> Stream (xack g i st))"
  have "drain_entry S redis_step (Inr tabs) k g (i, event_fields ev) s = (Inr (), ?s2)"
    using s1 k1 h by (simp add: drain_entry_def exceptP_def voidP_def on_value_def get_stream_def)
  then have "drain_entries S redis_step (Inr tabs) k g es' ?s2 = (y, s')" using Cons.prems(7) es(1) by (simp add: drain_entries_def)
  moreover have "off k ?s2 = off k t1" using off1 by (simp add: off_def)
  ultimately have "\<exists>t'. forP evs (apply_event S redis_step (Inr tabs)) t1 = (Inr (), t') \<and> off k s' = off k t'"
    using Cons.prems(2) es(2) s1(2) t1(2) cache_ok_other [OF k]
    by (intro Cons.IH [where es = es' and s = ?s2 and st = "xack g i st"]) (simp_all add: fun_upd_same del: fun_upd_apply)
  then show ?case using t1(1) by simp
qed

text \<open>A publication appends the entry of the event.\<close>

lemma publish_at:
  assumes "stream_at S s st gr"
  shows "\<exists>s'. publish S redis_step ev s = (Inr (), s') \<and> off (feed_stream_key S) s' = off (feed_stream_key S) s
    \<and> stream_at S s' (st\<lparr>st_entries := st_entries st @ [(st_next st, event_fields ev)], st_next := Suc (st_next st)\<rparr>) gr"
  using publish_all [of s S st "[ev]"] assms
  by (auto simp: stream_at_def numbered_def off_def split: prod.splits sum.splits)

text \<open>A round takes the oldest unread entries, as many as fit into a batch, and acknowledges them.\<close>

lemma apply_as_consumer [simp]: "apply_event (as_consumer c S) = apply_event S"
  by (simp add: fun_eq_iff apply_event_def as_consumer_def fan_out_post_def cong: if_cong)

lemma round_at:
  assumes "worker_settings S" and tabs: "social_ok tabs" and c: "cache_ok s" and at: "stream_at S s st gr"
    and "published (to_read st gr)" and old: "\<forall>p \<in> set (gr_pending gr). fst p \<le> gr_last gr"
    and "es = take (nat (feed_stream_batch S)) (to_read st gr)" and evs: "map snd es = map event_fields evs" "\<forall>ev \<in> set evs. event_ok ev"
  shows "\<exists>s' t' st'. process_round (as_consumer c S) redis_step (Inr tabs) s = (Inr (), s') \<and> cache_ok s'
    \<and> forP evs (apply_event S redis_step (Inr tabs)) s = (Inr (), t') \<and> off (feed_stream_key S) s' = off (feed_stream_key S) t'
    \<and> stream_at S s' st' (gr\<lparr>gr_last := (if es = [] then gr_last gr else fst (last es))\<rparr>)
    \<and> st_entries st' = st_entries st \<and> st_next st' = st_next st"
proof -
  let ?S = "as_consumer c S" and ?k = "feed_stream_key S" and ?g = "feed_stream_group S" and ?l = "if es = [] then gr_last gr else fst (last es)"
  have k: "\<not> cache_key ?k" and cap: "0 \<le> feed_max_size ?S" and n: "0 < feed_stream_batch S"
    using assms(1) by (simp_all add: worker_settings_def as_consumer_def)
  let ?gr = "\<lparr>gr_last = ?l, gr_pending = gr_pending gr @ map (\<lambda>e. (fst e, c)) es\<rparr>"
  let ?st = "st\<lparr>st_groups := assoc_put ?g ?gr (st_groups st)\<rparr>"
  let ?s = "s(?k \<mapsto> Stream ?st)"
  have read: "execute redis_step as_entries (XREADGROUP ?k ?g c None (nat (feed_stream_batch S))) s = (Inr es, ?s)"
    using at assms(7) by (simp add: execute_def get_stream_def xreadgroup_def Let_def as_entries_def stream_at_def to_read_def)
  have cs: "cache_ok ?s" using c cache_ok_other [OF k] by simp
  have "published es" using assms(5,7) by (auto simp: published_def dest: in_set_takeD)
  from drain_acks [OF k tabs cap this cs, of ?st ?g ?gr]
  obtain s' st' where s': "drain_entries ?S redis_step (Inr tabs) ?k ?g es ?s = (Inr (), s')" "cache_ok s'" "s' ?k = Some (Stream st')"
      "st_entries st' = st_entries st" "st_next st' = st_next st"
      "map_of (st_groups st') ?g = Some (?gr\<lparr>gr_pending := filter (\<lambda>p. fst p \<notin> fst ` set es) (gr_pending ?gr)\<rparr>)"
    by auto
  have "fst e > gr_last gr" if "e \<in> set es" for e using that assms(7) by (auto simp: to_read_def dest: in_set_takeD)
  then have "filter (\<lambda>p. fst p \<notin> fst ` set es) (gr_pending ?gr) = gr_pending gr"
    using old by (fastforce simp: filter_id_conv filter_empty_conv)
  then have "stream_at S s' st' (gr\<lparr>gr_last := ?l\<rparr>)" using s'(3,6) by (simp add: stream_at_def)
  moreover obtain t' where "forP evs (apply_event S redis_step (Inr tabs)) s = (Inr (), t')" "off ?k s' = off ?k t'"
    using drain_off [OF k tabs cap evs cs _ _ c s'(1), of ?st] by (auto simp: off_def)
  moreover have "process_round ?S redis_step (Inr tabs) s = (Inr (), s')"
    using read s'(1) by (simp add: process_round_def exceptP_def as_consumer_def)
  ultimately show ?thesis using s'(2,4,5) by blast
qed


section \<open>Every step keeps the system live\<close>

lemma sorted_le_last: "sorted_wrt (\<lambda>x y. fst x < fst y) es \<Longrightarrow> e \<in> set es \<Longrightarrow> fst e \<le> (fst (last es) :: nat)"
  by (induction es rule: rev_induct) (auto simp: sorted_wrt_append)

lemma sorted_unread: "stream_ok st \<Longrightarrow> sorted_wrt (\<lambda>x y. fst x < fst y) (to_read st gr)"
  by (simp add: to_read_def stream_ok_def sorted_wrt_map sorted_wrt_filter)

lemma unread_publish:
  "gr_last gr < st_next st \<Longrightarrow> to_read (st\<lparr>st_entries := st_entries st @ [(st_next st, fs)], st_next := Suc (st_next st)\<rparr>) gr
    = to_read st gr @ [(st_next st, fs)]"
  by (simp add: to_read_def)

text \<open>What is left unread after a round.\<close>

lemma unread_round:
  assumes "stream_ok st" and "es = take n (to_read st gr)" and "st_entries st' = st_entries st"
    and "gr' = gr\<lparr>gr_last := (if es = [] then gr_last gr else fst (last es))\<rparr>" and "gr_last gr < st_next st"
  shows "to_read st' gr' = drop (length es) (to_read st gr)" and "gr_last gr \<le> gr_last gr'" and "gr_last gr' < st_next st"
proof -
  let ?u = "to_read st gr"
  have "to_read st' gr' = drop (length es) ?u \<and> gr_last gr \<le> gr_last gr' \<and> gr_last gr' < st_next st"
  proof (cases "es = []")
    case False
    have split: "?u = es @ drop (length es) ?u" using assms(2) by (metis append_take_drop_id length_take min_def take_all_iff drop_all append_Nil2 nle_le)
    have sorted: "sorted_wrt (\<lambda>x y. fst x < fst y) (es @ drop (length es) ?u)" using sorted_unread [OF assms(1)] split by metis
    have last: "last es \<in> set ?u" using False split by (metis in_set_conv_decomp append_butlast_last_id append.assoc append_Cons)
    then have new: "gr_last gr < fst (last es)" "fst (last es) < st_next st" using assms(1) by (auto simp: to_read_def stream_ok_def)
    have "\<forall>e \<in> set es. fst e \<le> fst (last es)" using sorted sorted_le_last by (auto simp: sorted_wrt_append)
    moreover have "\<forall>e \<in> set (drop (length es) ?u). fst (last es) < fst e" using sorted last_in_set [OF False] by (simp add: sorted_wrt_append)
    ultimately have "filter (\<lambda>e. fst (last es) < fst e) (es @ drop (length es) ?u) = drop (length es) ?u"
      by (fastforce simp: filter_empty_conv filter_id_conv)
    moreover have "to_read st' gr' = filter (\<lambda>e. fst (last es) < fst e) ?u"
      using False new assms(3,4) by (auto simp: to_read_def intro!: filter_cong)
    ultimately have "to_read st' gr' = drop (length es) ?u" using split by metis
    then show ?thesis using new False assms(4) by simp
  next
    case True
    then have "gr' = gr" "length es = 0" using assms(4) by simp_all
    then show ?thesis using assms(3,5) by (simp add: to_read_def)
  qed
  then show "to_read st' gr' = drop (length es) ?u" "gr_last gr \<le> gr_last gr'" "gr_last gr' < st_next st" by simp_all
qed


lemma feed_liveD:
  assumes "feed_live S s" and "stream_at S s st gr"
  shows "worker_settings S" and "cache_ok s" and "stream_ok st" and "gr_last gr < st_next st" and "published (to_read st gr)"
    and "\<forall>p \<in> set (gr_pending gr). fst p \<le> gr_last gr"
proof -
  obtain st' gr' where *: "stream_at S s st' gr'" "worker_settings S" "cache_ok s" "stream_ok st'" "gr_last gr' < st_next st'"
      "published (to_read st' gr')" "\<forall>p \<in> set (gr_pending gr'). fst p \<le> gr_last gr'"
    using assms(1) unfolding feed_live_def by blast
  then have "st' = st" "gr' = gr" using stream_at_unique [OF assms(2)] by auto
  then show "worker_settings S" "cache_ok s" "stream_ok st" "gr_last gr < st_next st" "published (to_read st gr)"
      "\<forall>p \<in> set (gr_pending gr). fst p \<le> gr_last gr"
    using * by simp_all
qed

lemma published_snoc: "event_ok ev \<Longrightarrow> published es \<Longrightarrow> published (es @ [(i, event_fields ev)])"
  unfolding published_def by (metis Un_iff empty_iff list.set(1) set_ConsD set_append snd_conv)

lemma published_take: "published es \<Longrightarrow> published (take n es)"
  by (meson in_set_takeD published_def)

lemma published_drop: "published es \<Longrightarrow> published (drop n es)"
  by (meson in_set_dropD published_def)

lemma feed_live_at: "feed_live S s \<Longrightarrow> \<exists>st gr. stream_at S s st gr"
  unfolding feed_live_def by blast

text \<open>What a step does to the stream: a publication appends its entry, a round reads the first entries, and nothing else happens.\<close>

fun stream_step :: "settings \<Rightarrow> feed_action \<Rightarrow> stream \<Rightarrow> group \<Rightarrow> stream \<Rightarrow> group \<Rightarrow> bool" where
  "stream_step S (Publish ev) st gr st' gr' \<longleftrightarrow>
     to_read st' gr' = to_read st gr @ [(st_next st, event_fields ev)] \<and> st_next st' = Suc (st_next st) \<and> gr' = gr"
| "stream_step S (Round c tabs) st gr st' gr' \<longleftrightarrow>
     to_read st' gr' = drop (nat (feed_stream_batch S)) (to_read st gr) \<and> st_next st' = st_next st \<and> gr_pending gr' = gr_pending gr
     \<and> gr_last gr \<le> gr_last gr' \<and> gr_last gr' < st_next st \<and> (\<forall>e \<in> set (take (nat (feed_stream_batch S)) (to_read st gr)). fst e \<le> gr_last gr')"
| "stream_step S Elsewhere st gr st' gr' \<longleftrightarrow> st' = st \<and> gr' = gr"

lemma feed_step_stream:
  assumes "feed_step S redis_step (\<lambda>r. r) l s s'" and live: "feed_live S s" and at: "stream_at S s st gr"
  shows "\<exists>st' gr'. stream_at S s' st' gr' \<and> stream_step S l st gr st' gr' \<and> stream_ok st' \<and> cache_ok s'"
  using assms(1)
proof cases
  case (publishes ev)
  note D = feed_liveD [OF live at]
  have "\<not> cache_key (feed_stream_key S)" using D(1) by (simp add: worker_settings_def)
  note other = cache_ok_other [OF this, where v = None]
  let ?st = "st\<lparr>st_entries := st_entries st @ [(st_next st, event_fields ev)], st_next := Suc (st_next st)\<rparr>"
  have s': "off (feed_stream_key S) s' = off (feed_stream_key S) s" "stream_at S s' ?st gr"
    using publish_at [OF at, of ev] publishes(3) by auto
  have "cache_ok s'" using D(2) other [of s] other [of s'] s'(1) by (simp add: off_def)
  moreover have "stream_ok ?st" using D(3) by (fastforce simp: stream_ok_def sorted_wrt_append)
  ultimately show ?thesis using s'(2) unread_publish [OF D(4)] publishes(1) by (intro exI [of _ ?st] exI [of _ gr]) simp
next
  case (works tabs c)
  note D = feed_liveD [OF live at]
  define es where "es = take (nat (feed_stream_batch S)) (to_read st gr)"
  define gr' where "gr' = gr\<lparr>gr_last := (if es = [] then gr_last gr else fst (last es))\<rparr>"
  have "published es" unfolding es_def by (rule published_take [OF D(5)])
  then obtain evs where evs: "map snd es = map event_fields evs" "\<forall>ev \<in> set evs. event_ok ev" using events_of by blast
  obtain st' where st': "cache_ok s'" "stream_at S s' st' gr'" "st_entries st' = st_entries st" "st_next st' = st_next st"
    using round_at [OF D(1) works(2) D(2) at D(5,6) es_def evs, of c] works(3) unfolding gr'_def by auto
  note U = unread_round [OF D(3) es_def st'(3) gr'_def D(4)]
  have "drop (length es) (to_read st gr) = drop (nat (feed_stream_batch S)) (to_read st gr)" by (simp add: es_def min_def)
  moreover have "\<forall>e \<in> set es. fst e \<le> gr_last gr'"
    using sorted_le_last [OF sorted_wrt_take [OF sorted_unread [OF D(3)]]] unfolding es_def gr'_def by (auto simp: es_def)
  moreover have "stream_ok st'" using D(3) st'(3,4) by (simp add: stream_ok_def)
  ultimately show ?thesis using st' U works(1) by (intro exI [of _ st'] exI [of _ gr']) (simp add: es_def gr'_def)
next
  case elsewhere
  then show ?thesis using at feed_liveD(3) [OF live at] by (auto simp: stream_at_def)
qed

lemma feed_live_step:
  assumes "feed_step S redis_step (\<lambda>r. r) l s s'" and live: "feed_live S s"
  shows "feed_live S s'"
proof -
  obtain st gr where at: "stream_at S s st gr" using feed_live_at [OF live] by blast
  note D = feed_liveD [OF live at]
  obtain st' gr' where st': "stream_at S s' st' gr'" "stream_step S l st gr st' gr'" "stream_ok st'" "cache_ok s'"
    using feed_step_stream [OF assms at] by blast
  have "published (to_read st' gr') \<and> gr_last gr' < st_next st' \<and> (\<forall>p \<in> set (gr_pending gr'). fst p \<le> gr_last gr')"
  proof (cases l)
    case (Publish ev)
    then have "event_ok ev" using assms(1) by (auto elim: publishes_cases)
    from published_snoc [OF this D(5)] show ?thesis using Publish st'(2) D(4,6) by auto
  next
    case (Round c tabs)
    then have "\<forall>p \<in> set (gr_pending gr'). fst p \<le> gr_last gr'" using st'(2) D(6) by (auto intro: order_trans)
    then show ?thesis using Round st'(2) published_drop [OF D(5)] by simp
  qed (use st'(2) D(4-6) in simp)
  then show ?thesis using st' D(1) by (auto simp: feed_live_def)
qed


section \<open>The place of an entry in the queue\<close>

lemma queued_at: "stream_at S s st gr \<Longrightarrow> queued S (i, ev) s \<longleftrightarrow> (i, event_fields ev) \<in> set (to_read st gr)"
  unfolding queued_def by (metis stream_at_unique fst_conv snd_conv)

lemma settled_at: "stream_at S s st gr \<Longrightarrow> settled_entry S i s \<longleftrightarrow> i \<le> gr_last gr \<and> i \<notin> fst ` set (gr_pending gr)"
  unfolding settled_entry_def using stream_at_unique by blast

lemma queued_other:
  assumes "feed_step S redis_step (\<lambda>r. r) l s s'" and live: "feed_live S s" and "\<not> is_round l" and "queued S i s"
  shows "queued S i s' \<and> queue_length S i s' \<le> queue_length S i s"
proof -
  obtain n ev where i: "i = (n, ev)" by (rule prod.exhaust)
  obtain st gr where at: "stream_at S s st gr" using feed_live_at [OF live] by blast
  obtain st' gr' where st': "stream_at S s' st' gr'" "stream_step S l st gr st' gr'"
    using feed_step_stream [OF assms(1,2) at] by blast
  have q: "(n, event_fields ev) \<in> set (to_read st gr)" using assms(4) by (simp add: i queued_at [OF at])
  then have "n < st_next st" using feed_liveD(3) [OF live at] by (auto simp: to_read_def stream_ok_def)
  then show ?thesis using q st'(2) assms(3) by (cases l) (auto simp: i queued_at [OF st'(1)] queue_length_at [OF at] queue_length_at [OF st'(1)])
qed

lemma queued_round:
  assumes "feed_step S redis_step (\<lambda>r. r) l s s'" and live: "feed_live S s" and "is_round l" and "queued S i s" and "queued S i s'"
  shows "queue_length S i s' < queue_length S i s"
proof -
  obtain n ev where i: "i = (n, ev)" by (rule prod.exhaust)
  obtain c tabs where l: "l = Round c tabs" using assms(3) by (cases l) simp_all
  obtain st gr where at: "stream_at S s st gr" using feed_live_at [OF live] by blast
  note D = feed_liveD [OF live at]
  let ?b = "nat (feed_stream_batch S)" and ?u = "to_read st gr" and ?le = "\<lambda>e :: nat \<times> fields. fst e \<le> n"
  obtain st' gr' where st': "stream_at S s' st' gr'" "to_read st' gr' = drop ?b ?u"
    using feed_step_stream [OF assms(1,2) at] by (auto simp: l)
  have q: "(n, event_fields ev) \<in> set (drop ?b ?u)" using assms(5) st'(2) by (simp add: i queued_at [OF st'(1)])
  have "sorted_wrt (\<lambda>x y. fst x < fst y) (take ?b ?u @ drop ?b ?u)" using sorted_unread [OF D(3)] by simp
  then have "\<forall>e \<in> set (take ?b ?u). ?le e" using q by (fastforce simp only: sorted_wrt_append fst_conv)
  moreover have "take ?b ?u \<noteq> []" using q D(1) by (auto simp: worker_settings_def)
  ultimately have "filter ?le (take ?b ?u) \<noteq> []" by (simp add: filter_id_conv [THEN iffD2])
  then have "length (filter ?le (drop ?b ?u)) < length (filter ?le (take ?b ?u @ drop ?b ?u))" unfolding filter_append by simp
  then show ?thesis using st'(2) by (simp add: i queue_length_at [OF at] queue_length_at [OF st'(1)])
qed

interpretation feed: fair_progress "feed_step S redis_step (\<lambda>r. r)" is_round "feed_live S" "queued S" "queue_length S" for S
proof
  fix l s s' i
  assume step: "feed_step S redis_step (\<lambda>r. r) l s s'" and live: "feed_live S s"
  show "feed_live S s'" by (rule feed_live_step [OF step live])
  show "queued S i s' \<and> queue_length S i s' \<le> queue_length S i s" if "\<not> is_round l" "queued S i s" by (rule queued_other [OF step live that])
  show "queue_length S i s' < queue_length S i s" if "is_round l" "queued S i s" "queued S i s'" by (rule queued_round [OF step live that])
qed

text \<open>An entry that a round takes out of the queue is settled, and stays so.\<close>

lemma round_settles:
  assumes step: "feed_step S redis_step (\<lambda>r. r) (Round c tabs) s s'" and live: "feed_live S s" and "event_ok ev"
    and "queued S (n, ev) s" and "\<not> queued S (n, ev) s'"
  shows "settled_entry S n s' \<and> (\<exists>before after t'. forP (before @ ev # after) (apply_event S redis_step (Inr tabs)) s = (Inr (), t')
    \<and> off (feed_stream_key S) s' = off (feed_stream_key S) t')"
proof -
  obtain st gr where at: "stream_at S s st gr" using feed_live_at [OF live] by blast
  note D = feed_liveD [OF live at]
  define es where "es = take (nat (feed_stream_batch S)) (to_read st gr)"
  let ?rest = "drop (nat (feed_stream_batch S)) (to_read st gr)"
  obtain st' gr' where st': "stream_at S s' st' gr'" "to_read st' gr' = ?rest" "gr_pending gr' = gr_pending gr"
      "\<forall>e \<in> set es. fst e \<le> gr_last gr'"
    using feed_step_stream [OF step live at] by (auto simp: es_def)
  have "(n, event_fields ev) \<in> set (to_read st gr)" using assms(4) by (simp add: queued_at [OF at])
  moreover have "set (to_read st gr) = set es \<union> set ?rest" by (metis es_def append_take_drop_id set_append)
  moreover have "(n, event_fields ev) \<notin> set ?rest" using assms(5) st'(2) by (simp add: queued_at [OF st'(1)])
  ultimately have q: "(n, event_fields ev) \<in> set es" by blast
  then have "gr_last gr < n" by (auto simp: es_def to_read_def dest: in_set_takeD)
  then have "n \<notin> fst ` set (gr_pending gr')" using st'(3) D(6) by auto
  moreover have "n \<le> gr_last gr'" using bspec [OF st'(4) q] by simp
  ultimately have settled: "settled_entry S n s'" by (simp add: settled_at [OF st'(1)])
  obtain es1 es2 where es: "es = es1 @ (n, event_fields ev) # es2" using split_list [OF q] by blast
  have "published es" unfolding es_def by (rule published_take [OF D(5)])
  then have "published es1" "published es2" unfolding es published_def by (simp_all del: split_paired_Ex)
  then obtain evs1 evs2 where evs: "map snd es1 = map event_fields evs1" "\<forall>ev \<in> set evs1. event_ok ev"
      "map snd es2 = map event_fields evs2" "\<forall>ev \<in> set evs2. event_ok ev"
    using events_of by meson
  have "map snd es = map event_fields (evs1 @ ev # evs2)" "\<forall>ev \<in> set (evs1 @ ev # evs2). event_ok ev" using evs es assms(3) by auto
  from round_at [OF D(1) _ D(2) at D(5,6) es_def this, of tabs c] step settled
  show ?thesis by (elim works_cases) auto
qed

lemma settled_step:
  assumes step: "feed_step S redis_step (\<lambda>r. r) l s s'" and live: "feed_live S s" and "settled_entry S n s"
  shows "settled_entry S n s'"
proof -
  obtain st gr where at: "stream_at S s st gr" using feed_live_at [OF live] by blast
  obtain st' gr' where st': "stream_at S s' st' gr'" "stream_step S l st gr st' gr'" using feed_step_stream [OF step live at] by blast
  then show ?thesis using assms(3) by (cases l) (auto simp: settled_at [OF at] settled_at [OF st'(1)])
qed

lemma publish_queues:
  assumes step: "feed_step S redis_step (\<lambda>r. r) (Publish ev) s s'" and live: "feed_live S s"
  shows "event_ok ev \<and> queued S (st_next (stream_of s (feed_stream_key S)), ev) s'"
proof -
  obtain st gr where at: "stream_at S s st gr" using feed_live_at [OF live] by blast
  obtain st' gr' where st': "stream_at S s' st' gr'" "stream_step S (Publish ev) st gr st' gr'" using feed_step_stream [OF step live at] by blast
  then show ?thesis using step at by (auto simp: queued_at [OF st'(1)] stream_of_def stream_at_def elim: publishes_cases)
qed

context redis_server
begin

lemma feed_step_view: "feed_step S exec view l r r' \<Longrightarrow> feed_step S redis_step (\<lambda>r. r) l (view r) (view r')"
  by (induction rule: feed_step.induct)
    (auto intro: feed_step.intros sim_result [OF publish_sim] sim_result [OF process_round_sim])

end


section \<open>A concrete run\<close>

text \<open>An event is published into an empty stream; then one worker runs forever.\<close>

definition demo_action :: "nat \<Rightarrow> feed_action" where
  "demo_action n = (if n = 0 then Publish demo_event else Round ''worker-1'' (demo_tables [demo_post] [(1, 2)]))"

fun perform :: "settings \<Rightarrow> feed_action \<Rightarrow> redis \<Rightarrow> redis" where
  "perform S (Publish ev) r = snd (publish S redis_step ev r)"
| "perform S (Round c tabs) r = snd (process_round (as_consumer c S) redis_step (Inr tabs) r)"
| "perform S Elsewhere r = r"

fun demo_run_at :: "nat \<Rightarrow> redis" where
  "demo_run_at 0 = demo_cache [] [] 1"
| "demo_run_at (Suc n) = perform default_settings (demo_action n) (demo_run_at n)"

lemma round_returns: "fst (process_round S exec db r) = Inr ()"
  by (auto simp: process_round_def exceptP_def split: prod.splits sum.splits)

lemma demo_live: "feed_live default_settings (demo_cache [] [] 1)"
proof -
  have key: "\<not> cache_key ''post_events''" using stream_key_apart by (auto simp: cache_key_def)
  have "stream_at default_settings (demo_cache [] [] 1) (demo_stream [] [] 1) \<lparr>gr_last = 1, gr_pending = []\<rparr>"
    by (simp add: stream_at_def demo_cache_def demo_stream_def)
  then show ?thesis using key demo_cache_ok
    by (fastforce simp: feed_live_def worker_settings_def stream_ok_def to_read_def published_def demo_stream_def default_settings_def)
qed

lemma demo_steps: "feed_step default_settings redis_step (\<lambda>r. r) (demo_action n) (demo_run_at n) (demo_run_at (Suc n))"
proof (cases n)
  case 0
  have "event_ok demo_event" by (simp add: event_ok_def demo_event_def demo_post_def dt_ok_def days_in_month_def)
  moreover have "fst (publish default_settings redis_step demo_event (demo_cache [] [] 1)) = Inr ()"
    using publish_all [of "demo_cache [] [] 1" default_settings "demo_stream [] [] 1" "[demo_event]"]
    by (simp add: demo_cache_def split: prod.splits sum.splits)
  ultimately show ?thesis using 0 by (auto simp: demo_action_def intro!: feed_step.publishes prod_eqI)
next
  case (Suc m)
  then show ?thesis by (auto simp: demo_action_def demo_tables_ok(1) round_returns intro!: feed_step.works prod_eqI)
qed


end
