(* ===== verification/Rmq_Delivery.thy ===== *)
theory Rmq_Delivery
  imports Feed_Worker_Rmq Feed_Liveness
begin

text \<open>
  The deliveries of the durable queue to the worker of \<^verbatim>\<open>app/workers/feed_worker_rmq.py\<close>: the loop at the end of
  \<^verbatim>\<open>_consume_loop\<close> together with what it relies on in the broker, the prefetch window, the acknowledgements and the
  return of a message to the queue.  RabbitMQ is not part of the repository; where it puts a message that comes back is
  the parameter \<open>put_back\<close>.
\<close>

section \<open>Settling one delivery\<close>

text \<open>The body of the loop: \<open>ack\<close> and \<open>nack\<close> are the outcomes of \<^verbatim>\<open>message.ack()\<close> and \<^verbatim>\<open>message.nack(requeue=True)\<close>.  What an
  \<^verbatim>\<open>ack\<close> raises is caught like what the handler raises; what a \<^verbatim>\<open>nack\<close> raises leaves the loop.\<close>

definition settle_delivery :: "settings \<Rightarrow> 'r server \<Rightarrow> 'b publisher \<Rightarrow> unit res \<Rightarrow> unit res \<Rightarrow> body \<Rightarrow> (('p, 'c, 'r, 'b) world, settled) prog" where
  "settle_delivery S exec pub ack nack raw =
     exceptP (bindP (rmq_handle_message S exec pub raw) (\<lambda>_. bindP (liftP ack) (\<lambda>_. returnP Acked)))
       (\<lambda>_. bindP (liftP nack) (\<lambda>_. returnP Requeued))"

lemma settle_calm:
  "settle_delivery S exec pub (Inr ()) (Inr ()) raw w =
     (case rmq_handle_message S exec pub raw w of (x, w') \<Rightarrow> (Inr (case x of Inr _ \<Rightarrow> Acked | Inl _ \<Rightarrow> Requeued), w'))"
  by (auto simp: settle_delivery_def exceptP_def bindP_def liftP_def split: prod.split sum.split)

text \<open>A delivery is acknowledged after its handler returned only.\<close>

lemma settle_acked:
  assumes "settle_delivery S exec pub ack nack raw w = (Inr Acked, w')"
  shows "rmq_handle_message S exec pub raw w = (Inr (), w')"
  using assms by (auto simp: settle_delivery_def exceptP_def bindP_def liftP_def returnP_def split: prod.splits sum.splits)

section \<open>The queue\<close>

text \<open>A message carries the number of its publication.  \<open>dq_unacked\<close> are the messages the worker holds, in the order in which
  its iterator yields them, and \<open>dq_ready\<close> those the broker still has to deliver.\<close>

type_synonym message = "nat \<times> body"

record 'w deliveries =
  dq_world :: 'w
  dq_unacked :: "message list"
  dq_ready :: "message list"
  dq_next :: nat

definition line :: "'w deliveries \<Rightarrow> message list" where
  "line d = dq_unacked d @ dq_ready d"

text \<open>The broker delivers as long as fewer than \<^verbatim>\<open>prefetch_count\<close> messages are not acknowledged.\<close>

definition fill :: "nat \<Rightarrow> 'w deliveries \<Rightarrow> 'w deliveries" where
  "fill n d = (let k = n - length (dq_unacked d) in
     d\<lparr>dq_unacked := dq_unacked d @ take k (dq_ready d), dq_ready := drop k (dq_ready d)\<rparr>)"

definition prefetch :: "settings \<Rightarrow> nat" where
  "prefetch S = nat (rabbitmq_prefetch S)"

text \<open>A message that comes back is put somewhere into the queue and does not change the order of the others.\<close>

type_synonym put_back = "message \<Rightarrow> message list \<Rightarrow> message list"

locale requeue_policy =
  fixes put_back :: put_back
  assumes put_back_split: "\<exists>ys zs. q = ys @ zs \<and> put_back m q = ys @ m # zs"
begin

lemma put_back_set [simp]: "set (put_back m q) = insert m (set q)"
  using put_back_split [of q m] by auto

lemma put_back_length [simp]: "length (put_back m q) = Suc (length q)"
  using put_back_split [of q m] by auto

lemma put_back_mset [simp]: "mset (put_back m q) = add_mset m (mset q)"
  using put_back_split [of q m] by auto

lemma put_back_tags: "distinct (map fst (put_back m q)) \<longleftrightarrow> distinct (map fst (m # q))"
  by (rule mset_eq_imp_distinct_iff) simp

lemma return_all_mset: "mset (foldr put_back ms q) = mset ms + mset q"
  by (induction ms) simp_all

end

text \<open>To the original position, as the documentation of the broker describes it, or to the end.\<close>

definition original_position :: put_back where
  "original_position m q = takeWhile (\<lambda>x. fst x < fst m) q @ m # dropWhile (\<lambda>x. fst x < fst m) q"

definition at_the_end :: put_back where
  "at_the_end m q = q @ [m]"

interpretation original: requeue_policy original_position
proof unfold_locales
  fix m :: message and q :: "message list"
  show "\<exists>ys zs. q = ys @ zs \<and> original_position m q = ys @ m # zs"
    unfolding original_position_def by (metis takeWhile_dropWhile_id)
qed

interpretation tail: requeue_policy at_the_end
  by unfold_locales (auto simp: at_the_end_def)

section \<open>Steps\<close>

text \<open>An event is published into the queue, the worker takes the oldest message it holds, it loses its connection or stops so that the
  broker puts everything back it held, or something else changes the rest of the system.\<close>

datatype delivery_action = Arrive body | Handle "unit res" "unit res" | Disconnect | Other

inductive delivery_step :: "settings \<Rightarrow> 'r server \<Rightarrow> 'b publisher \<Rightarrow> put_back \<Rightarrow> delivery_action \<Rightarrow>
    ('p, 'c, 'r, 'b) world deliveries \<Rightarrow> ('p, 'c, 'r, 'b) world deliveries \<Rightarrow> bool"
  for S exec pub put_back where
  arrives: "delivery_step S exec pub put_back (Arrive raw) d (d\<lparr>dq_ready := dq_ready d @ [(dq_next d, raw)], dq_next := Suc (dq_next d)\<rparr>)"
| settles: "delivery_step S exec pub put_back (Handle ack nack) d
      (d1\<lparr>dq_world := w', dq_unacked := rest, dq_ready := (case v of Acked \<Rightarrow> dq_ready d1 | Requeued \<Rightarrow> put_back m (dq_ready d1))\<rparr>)"
    if "d1 = fill (prefetch S) d" and "dq_unacked d1 = m # rest"
      and "settle_delivery S exec pub ack nack (snd m) (dq_world d1) = (Inr v, w')"
| breaks: "delivery_step S exec pub put_back (Handle ack nack) d
      (d1\<lparr>dq_world := w', dq_unacked := [], dq_ready := foldr put_back (dq_unacked d1) (dq_ready d1)\<rparr>)"
    if "d1 = fill (prefetch S) d" and "dq_unacked d1 = m # rest"
      and "settle_delivery S exec pub ack nack (snd m) (dq_world d1) = (Inl e, w')"
| idle: "delivery_step S exec pub put_back (Handle ack nack) d d" if "line d = []"
| disconnects: "delivery_step S exec pub put_back Disconnect d
      (d\<lparr>dq_unacked := [], dq_ready := foldr put_back (dq_unacked d) (dq_ready d)\<rparr>)"
| other: "delivery_step S exec pub put_back Other d (d\<lparr>dq_world := w'\<rparr>)"

inductive_cases arrive_cases: "delivery_step S exec pub put_back (Arrive raw) d d'"
inductive_cases handle_cases: "delivery_step S exec pub put_back (Handle ack nack) d d'"
inductive_cases disconnect_cases: "delivery_step S exec pub put_back Disconnect d d'"
inductive_cases other_cases: "delivery_step S exec pub put_back Other d d'"

lemmas delivery_cases = arrive_cases handle_cases disconnect_cases other_cases

lemma line_fill [simp]: "line (fill n d) = line d"
  by (simp add: line_def fill_def Let_def)

lemma fill_simps [simp]: "dq_world (fill n d) = dq_world d" "dq_next (fill n d) = dq_next d"
  by (simp_all add: fill_def Let_def)

context requeue_policy
begin

lemma return_line:
  "dq_unacked d' = [] \<Longrightarrow> dq_ready d' = foldr put_back (dq_unacked d) (dq_ready d) \<Longrightarrow> mset (line d') = mset (line d)"
  by (simp add: line_def return_all_mset)

end

lemma fill_length: "length (dq_unacked d) \<le> n \<Longrightarrow> length (dq_unacked (fill n d)) = min n (length (line d))"
  by (auto simp: fill_def line_def Let_def)


section \<open>No message is lost\<close>

text \<open>Every number is held once, and the numbers of later publications are larger.\<close>

definition numbered_line :: "'w deliveries \<Rightarrow> bool" where
  "numbered_line d \<longleftrightarrow> distinct (map fst (line d)) \<and> (\<forall>m \<in> set (line d). fst m < dq_next d)"

lemma numbered_fill [simp]: "numbered_line (fill n d) = numbered_line d"
  by (simp add: numbered_line_def)

lemma numbered_same: "mset (line d') = mset (line d) \<Longrightarrow> dq_next d' = dq_next d \<Longrightarrow> numbered_line d' = numbered_line d"
  using mset_eq_imp_distinct_iff [of "map fst (line d')" "map fst (line d)"] mset_eq_setD [of "line d'" "line d"]
  by (simp add: numbered_line_def)

lemma numbered_tail:
  assumes "line d = m # rest" and "mset (line d') = mset rest" and "dq_next d' = dq_next d" and "numbered_line d"
  shows "numbered_line d'"
  using assms mset_eq_imp_distinct_iff [of "map fst (line d')" "map fst rest"] mset_eq_setD [of "line d'" rest]
  by (simp add: numbered_line_def)

context requeue_policy
begin

text \<open>A step removes at most the message at the head, and that one after its handler returned.\<close>

lemma delivery_step_line:
  assumes "delivery_step S exec pub put_back l d d'"
  shows "mset (line d') = mset (line d) + (case l of Arrive raw \<Rightarrow> {#(dq_next d, raw)#} | _ \<Rightarrow> {#})
    \<or> (\<exists>m rest. line d = m # rest \<and> mset (line d') = mset rest \<and> (\<exists>ack nack. l = Handle ack nack)
        \<and> rmq_handle_message S exec pub (snd m) (dq_world d) = (Inr (), dq_world d'))"
  using assms
proof cases
  case (settles d1 m rest ack nack v w')
  have l: "line d = m # rest @ dq_ready d1" using settles(3,4) by (metis line_fill line_def append_Cons)
  show ?thesis
  proof (cases v)
    case Acked
    then show ?thesis using settles settle_acked [of S exec pub ack nack "snd m" "dq_world d1" w'] l by (auto simp: line_def)
  next
    case Requeued
    then show ?thesis using settles l by (simp add: line_def)
  qed
next
  case (breaks d1 m rest ack nack e w')
  have "mset (line d) = mset (dq_unacked d1 @ dq_ready d1)" using breaks(3) by (metis line_fill line_def)
  then show ?thesis using breaks(1,2) by (simp add: line_def return_all_mset)
qed (auto simp: line_def return_all_mset)

lemma delivery_step_next:
  "delivery_step S exec pub put_back l d d' \<Longrightarrow> dq_next d' = (case l of Arrive raw \<Rightarrow> Suc (dq_next d) | _ \<Rightarrow> dq_next d)"
  by (induction rule: delivery_step.induct) simp_all

lemma delivery_step_numbered:
  assumes "delivery_step S exec pub put_back l d d'" and "numbered_line d"
  shows "numbered_line d'"
proof (cases l)
  case (Arrive raw)
  then have "line d' = line d @ [(dq_next d, raw)]" "dq_next d' = Suc (dq_next d)"
    using assms(1) unfolding line_def by (auto elim!: arrive_cases)
  then show ?thesis using assms(2) by (auto simp: numbered_line_def less_Suc_eq)
next
  case (Handle ack nack)
  then have "dq_next d' = dq_next d" using delivery_step_next [OF assms(1)] by simp
  moreover have "mset (line d') = mset (line d) \<or> (\<exists>m rest. line d = m # rest \<and> mset (line d') = mset rest)"
    using delivery_step_line [OF assms(1)] Handle by (elim disjE exE conjE) (simp, blast)
  ultimately show ?thesis using numbered_same [of d' d] numbered_tail [of d _ _ d'] assms(2) by (elim disjE exE conjE) simp_all
next
  case Disconnect
  then show ?thesis using delivery_step_line [OF assms(1)] delivery_step_next [OF assms(1)] numbered_same [of d' d] assms(2) by auto
next
  case Other
  then show ?thesis using delivery_step_line [OF assms(1)] delivery_step_next [OF assms(1)] numbered_same [of d' d] assms(2) by auto
qed

lemma leaves_handled:
  assumes "delivery_step S exec pub put_back l d d'" and "m \<in> set (line d)" and "m \<notin> set (line d')"
  shows "rmq_handle_message S exec pub (snd m) (dq_world d) = (Inr (), dq_world d') \<and> (\<exists>ack nack. l = Handle ack nack)"
proof -
  from delivery_step_line [OF assms(1)] show ?thesis
  proof
    assume "mset (line d') = mset (line d) + (case l of Arrive raw \<Rightarrow> {#(dq_next d, raw)#} | _ \<Rightarrow> {#})"
    then have "m \<in># mset (line d')" using assms(2) by simp
    then show ?thesis using assms(3) by simp
  next
    assume "\<exists>m rest. line d = m # rest \<and> mset (line d') = mset rest \<and> (\<exists>ack nack. l = Handle ack nack)
      \<and> rmq_handle_message S exec pub (snd m) (dq_world d) = (Inr (), dq_world d')"
    then obtain h rest where h: "line d = h # rest" "mset (line d') = mset rest" "\<exists>ack nack. l = Handle ack nack"
        "rmq_handle_message S exec pub (snd h) (dq_world d) = (Inr (), dq_world d')"
      by blast
    then have "m = h" using assms(2,3) mset_eq_setD [OF h(2)] by auto
    then show ?thesis using h by blast
  qed
qed

lemma stays_gone:
  assumes "delivery_step S exec pub put_back l d d'" and "m \<notin> set (line d)" and "fst m < dq_next d"
  shows "m \<notin> set (line d') \<and> fst m < dq_next d'"
proof -
  have "set (line d') \<subseteq> set (line d) \<union> {x. fst x = dq_next d}"
    using delivery_step_line [OF assms(1)] by (auto dest!: mset_eq_setD arg_cong [where f = set_mset] split: delivery_action.splits)
  then show ?thesis using assms(2,3) delivery_step_next [OF assms(1)] by (auto split: delivery_action.splits)
qed

lemma run_next_mono:
  assumes "\<forall>n. delivery_step S exec pub put_back (act n) (run n) (run (Suc n))" and "n \<le> k"
  shows "dq_next (run n) \<le> dq_next (run k)"
  using assms(2)
proof (induction k rule: dec_induct)
  case (step k)
  have "dq_next (run k) \<le> dq_next (run (Suc k))"
    using delivery_step_next [OF assms(1) [rule_format, of k]] by (simp split: delivery_action.splits)
  then show ?case using step.IH by simp
qed simp

lemma run_gone:
  assumes "\<forall>n. delivery_step S exec pub put_back (act n) (run n) (run (Suc n))" and "m \<notin> set (line (run n))" and "fst m < dq_next (run n)" and "n \<le> k"
  shows "m \<notin> set (line (run k))"
proof -
  have "m \<notin> set (line (run k)) \<and> fst m < dq_next (run k)"
    using assms(4) by (induction k rule: dec_induct) (use assms(1,2,3) stays_gone in blast)+
  then show ?thesis ..
qed

end


section \<open>Messages the handler can handle\<close>

text \<open>The rest of the system is in order: the primary answers, the cache is well-formed and the broker accepts publications.\<close>

definition healthy :: "('r \<Rightarrow> redis) \<Rightarrow> ('b \<Rightarrow> bool) \<Rightarrow> ('p, 'c, 'r, 'b) world \<Rightarrow> bool" where
  "healthy view up w \<longleftrightarrow> (\<exists>s. master_view w = Inr s \<and> social_ok s) \<and> cache_ok (view (wo_redis w)) \<and> up (wo_broker w)"

text \<open>What \<^verbatim>\<open>delete_post\<close> publishes.\<close>

definition deleted_payload :: "uuid \<Rightarrow> uuid \<Rightarrow> datetime \<Rightarrow> json" where
  "deleted_payload i a now = JObj [(''event_type'', JStr ''deleted''), (''post_id'', JStr (uuid_str i)),
     (''author_id'', JStr (uuid_str a)), (''created_at'', JStr (moment_iso (Utc now)))]"

definition event_body :: "body \<Rightarrow> bool" where
  "event_body raw \<longleftrightarrow> (\<exists>p. dt_ok (po_created p) \<and> raw = dumps (created_payload p)) \<or> (\<exists>i a now. raw = dumps (deleted_payload i a now))"

lemma hget_returns:
  assumes "cache_ok r"
  shows "\<exists>t. execute redis_step as_bulk (HGET (post_key i) f) r = (Inr t, r)"
proof -
  have "hash_or_none (r (post_key i))" using assms by (simp add: cache_ok_def)
  then show ?thesis
    by (auto simp: hash_or_none_def execute_def on_value_def get_hash_def as_bulk_def bindP_def liftP_def split: option.splits rvalue.splits)
qed

lemma created_returns:
  fixes w :: "('p, 'c, redis, 'b) world"
  assumes "live_broker bind unbind pub bound inbox up" and w: "healthy (\<lambda>r. r) up w" and cap: "0 \<le> feed_max_size S" and ttl: "0 < celebrity_cache_ttl S"
    and p: "dt_ok (po_created p)"
  shows "fst (rmq_handle_created S redis_step (\<lambda>k j _. pub k (dumps j)) (created_payload p) w) = Inr ()"
proof -
  let ?fs = "\<lambda>s. sql_followers s (po_author p)"
  obtain s where s: "master_view w = Inr s" "social_ok s" and c: "cache_ok (wo_redis w)" and up: "up (wo_broker w)"
    using w by (auto simp: healthy_def)
  obtain r1 where r1: "(if po_text p \<noteq> [] then on_redis (\<lambda>_. store_post_hash redis_step (po_id p) (po_text p) (po_author p) (po_created p)) else returnP ()) w
      = (Inr (), w\<lparr>wo_redis := r1\<rparr>)" "cache_ok r1"
    using that [of "wo_redis w"] that store_effect [OF c, of "po_id p" "po_text p" "po_author p" "po_created p"] cache_ok_store [OF c] c
    by (cases "po_text p = []") (auto simp: on_redis_def)
  obtain fl r2 where r2: "is_celebrity S redis_step (Inr s) (po_author p) r1 = (Inr fl, r2)" "cache_ok r2"
    using is_celebrity_frame [OF r1(2) ttl] by blast
  have fan: "fan_out_post S redis_step (Inr s) (po_id p) (po_author p) (po_created p) r2
      = (Inr (), map_feeds (set (?fs s)) (\<lambda>z. keep (feed_max_size S) (zadd (uuid_str (po_id p)) (timestamp (po_created p)) z)) r2)" (is "_ = (_, ?r3)")
    by (rule fan_out_effect [OF r2(2) social_ok_distinct [OF s(2)] cap])
  have "cache_ok ?r3" using r2(2) by (auto intro!: cache_ok_map_feeds)
  then obtain t where t: "execute redis_step as_bulk (HGET (post_key (po_id p)) ''text'') ?r3 = (Inr t, ?r3)" using hget_returns by blast
  have g: "\<exists>b. gatherP (map (\<lambda>u. publish_ws_event S (\<lambda>k j _. pub k (dumps j)) u x) (?fs s)) (w\<lparr>wo_redis := ?r3\<rparr>) = (Inr (), w\<lparr>wo_redis := ?r3, wo_broker := b\<rparr>)" for x
    using live_broker.gather_notifies [OF assms(1), of "w\<lparr>wo_redis := ?r3\<rparr>" S "\<lambda>u. user_routing_key S (uuid_str u)" x "?fs s"] up by auto
  show ?thesis
    using r1(1) r2(1) fan t s(1) g [of "post_new_payload (po_id p) (po_author p) (po_text p) (po_created p)"]
      g [of "post_new_payload (po_id p) (po_author p) (case t of None \<Rightarrow> [] | Some t \<Rightarrow> t) (po_created p)"]
    by (auto simp: rmq_handle_created_def created_fields_payload [OF p] on_redis_def get_followers_def fetch_def)
qed

lemma event_returns:
  fixes w :: "('p, 'c, 'r, 'b) world"
  assumes "redis_server exec view" and "live_broker bind unbind pub bound inbox up" and "0 \<le> feed_max_size S" and "0 < celebrity_cache_ttl S"
    and "healthy view up w" and "event_body raw"
  shows "fst (rmq_handle_message S exec (\<lambda>k j _. pub k (dumps j)) raw w) = Inr ()"
proof -
  let ?w = "view_world view w"
  obtain x w' where run: "rmq_handle_message S exec (\<lambda>k j _. pub k (dumps j)) raw w = (x, w')" by fastforce
  have h: "healthy (\<lambda>r. r) up ?w" using assms(5) by (auto simp: healthy_def)
  have "fst (rmq_handle_message S redis_step (\<lambda>k j _. pub k (dumps j)) raw ?w) = Inr ()"
    using assms(6) unfolding event_body_def
  proof (elim disjE exE conjE)
    fix p
    assume "dt_ok (po_created p)" and "raw = dumps (created_payload p)"
    then show ?thesis using created_returns [OF assms(2) h assms(3,4)] by (simp add: handle_created_payload)
  next
    fix i a now
    assume "raw = dumps (deleted_payload i a now)"
    moreover obtain s where "master_view ?w = Inr s" "social_ok s" "cache_ok (wo_redis ?w)" using h by (auto simp: healthy_def)
    ultimately show ?thesis
      using remove_post_effect [of "wo_redis ?w" s i a] social_ok_distinct
      by (simp add: rmq_handle_message_def rmq_handle_deleted_def dumps_def deleted_payload_def json_get_def json_item_def json_uuid_def bindR_def
          UUID_str on_redis_def liftP_def bindP_def)
  qed
  then show ?thesis using sim_result [OF redis_server.rmq_message_sim [OF assms(1)] run] run by simp
qed

section \<open>Every event is handled\<close>

text \<open>The position of a waiting event: the events before it in the line, and between two of them the messages that may be refused.\<close>

abbreviation event_message :: "message \<Rightarrow> bool" where
  "event_message m \<equiv> event_body (snd m)"

definition refused :: "message list \<Rightarrow> nat" where
  "refused ms = length (filter (\<lambda>m. \<not> event_message m) ms)"

definition events_before :: "message \<Rightarrow> message list \<Rightarrow> nat" where
  "events_before i ms = length (filter event_message (takeWhile (\<lambda>m. m \<noteq> i) ms))"

definition first_event :: "message list \<Rightarrow> nat" where
  "first_event ms = length (takeWhile (\<lambda>m. \<not> event_message m) ms)"

definition line_rank :: "nat \<Rightarrow> message \<Rightarrow> message list \<Rightarrow> nat" where
  "line_rank n i ms = events_before i ms * Suc n + first_event ms"

lemma first_event_le: "first_event ms \<le> refused ms"
  by (induction ms) (simp_all add: first_event_def refused_def)

lemma events_before_put: "\<not> event_message h \<Longrightarrow> i \<noteq> h \<Longrightarrow> events_before i (xs @ h # ys) = events_before i (xs @ ys)"
  by (induction xs) (simp_all add: events_before_def)

lemma first_event_front: "x \<in> set xs \<Longrightarrow> event_message x \<Longrightarrow> first_event (xs @ ys) = first_event xs"
  by (simp add: first_event_def takeWhile_append1)

lemma line_rank_arrives: "i \<in> set ms \<Longrightarrow> event_message i \<Longrightarrow> line_rank n i (ms @ [x]) = line_rank n i ms"
  using takeWhile_append1 [of i ms "\<lambda>m. m \<noteq> i"] by (simp add: line_rank_def first_event_front events_before_def)

lemma line_rank_event:
  assumes "event_message h" and "i \<noteq> h" and "refused rest \<le> n"
  shows "line_rank n i rest < line_rank n i (h # rest)"
  using assms first_event_le [of rest] by (simp add: line_rank_def events_before_def)

lemma line_rank_other: "\<not> event_message h \<Longrightarrow> i \<noteq> h \<Longrightarrow> line_rank n i rest < line_rank n i (h # rest)"
  by (simp add: line_rank_def events_before_def first_event_def)

text \<open>A message that comes back goes behind what the worker holds; of that at least one is an event.\<close>

lemma refused_all: "(\<forall>x \<in> set ms. \<not> event_message x) \<Longrightarrow> refused ms = length ms"
  by (induction ms) (simp_all add: refused_def)

lemma line_rank_requeued:
  assumes "\<not> event_message h" and "i \<noteq> h" and "\<exists>x \<in> set held. event_message x"
  shows "line_rank n i (held @ ys @ h # zs) < line_rank n i (h # held @ ys @ zs)"
proof -
  have "events_before i (held @ ys @ h # zs) = events_before i (held @ ys @ zs)" using events_before_put [OF assms(1,2), of "held @ ys" zs] by simp
  moreover have "first_event (held @ ys @ h # zs) = first_event held" "first_event (held @ ys @ zs) = first_event held"
    using assms(3) first_event_front by blast+
  ultimately have "line_rank n i (held @ ys @ h # zs) = line_rank n i (held @ ys @ zs)" by (simp add: line_rank_def)
  then show ?thesis using line_rank_other [OF assms(1,2)] by simp
qed

lemma event_held:
  assumes "length (h # held) = min n (length (h # held @ ready))" and "refused (h # held @ ready) < n" and "\<not> event_message h"
    and "i \<in> set (held @ ready)" and "event_message i"
  shows "\<exists>x \<in> set held. event_message x"
proof (rule ccontr)
  assume none: "\<not> ?thesis"
  then have r: "refused held = length held" using refused_all by blast
  then have "Suc (length held) + refused ready < n" using assms(2,3) by (simp add: refused_def)
  then have "ready = []" using assms(1) by (simp add: min_def split: if_splits)
  then show False using assms(4,5) none by auto
qed

text \<open>The steps of a calm time: nothing is disconnected, acknowledgements and refusals arrive.\<close>

fun calm :: "delivery_action \<Rightarrow> bool" where
  "calm (Handle ack nack) = (ack = Inr () \<and> nack = Inr ())"
| "calm Disconnect = False"
| "calm _ = True"

fun is_handle :: "delivery_action \<Rightarrow> bool" where
  "is_handle (Handle ack nack) = True"
| "is_handle _ = False"

text \<open>\<open>sane ok\<close> holds in a calm time: the window is kept, fewer than \<^verbatim>\<open>prefetch_count\<close> messages are not events, and the rest of the system
  is \<open>ok\<close>.\<close>

definition sane :: "settings \<Rightarrow> ('w \<Rightarrow> bool) \<Rightarrow> 'w deliveries \<Rightarrow> bool" where
  "sane S ok d \<longleftrightarrow> length (dq_unacked d) \<le> prefetch S \<and> numbered_line d \<and> refused (line d) < prefetch S \<and> ok (dq_world d)"

definition calm_step :: "settings \<Rightarrow> 'r server \<Rightarrow> 'b publisher \<Rightarrow> put_back \<Rightarrow> (('p, 'c, 'r, 'b) world \<Rightarrow> bool) \<Rightarrow> delivery_action \<Rightarrow>
    ('p, 'c, 'r, 'b) world deliveries \<Rightarrow> ('p, 'c, 'r, 'b) world deliveries \<Rightarrow> bool" where
  "calm_step S exec pub put_back ok l d d' \<longleftrightarrow> delivery_step S exec pub put_back l d d' \<and> calm l \<and> sane S ok d'"

definition waits_in_line :: "message \<Rightarrow> 'w deliveries \<Rightarrow> bool" where
  "waits_in_line i d \<longleftrightarrow> event_message i \<and> i \<in> set (line d)"

context requeue_policy
begin

lemma settle_rank:
  assumes step: "delivery_step S exec pub put_back (Handle (Inr ()) (Inr ())) d d'" and sane: "sane S ok d"
    and good: "\<And>raw w. ok w \<Longrightarrow> event_body raw \<Longrightarrow> fst (rmq_handle_message S exec pub raw w) = Inr ()"
    and i: "event_message i" "i \<in> set (line d)" "i \<in> set (line d')"
  shows "line_rank (prefetch S) i (line d') < line_rank (prefetch S) i (line d)"
  using step
proof cases
  case (settles d1 h held v w')
  obtain ready where ready: "dq_ready d1 = ready" by simp
  have l: "line d = h # held @ ready" using settles(2,3) ready by (metis line_fill line_def append_Cons)
  have d: "distinct (line d)" using sane by (simp add: sane_def numbered_line_def distinct_map)
  have refused: "refused (h # held @ ready) < prefetch S" using sane l by (simp add: sane_def)
  have window: "length (h # held) = min (prefetch S) (length (h # held @ ready))"
    using fill_length [of d "prefetch S"] sane settles(2,3) l by (simp add: sane_def)
  have handler: "\<exists>x. rmq_handle_message S exec pub (snd h) (dq_world d) = (x, w') \<and> v = (case x of Inr _ \<Rightarrow> Acked | Inl _ \<Rightarrow> Requeued)"
    using settles(2,4) by (simp add: settle_calm split: prod.splits)
  show ?thesis
  proof (cases v)
    case Acked
    then have l': "line d' = held @ ready" using settles(1) ready by (simp add: line_def)
    then have "i \<noteq> h" using i(3) d l by auto
    moreover have "refused (held @ ready) \<le> prefetch S" using refused by (simp add: refused_def split: if_splits)
    ultimately show ?thesis unfolding l l' using line_rank_event line_rank_other by (cases "event_message h") blast+
  next
    case Requeued
    have "ok (dq_world d)" using sane by (simp add: sane_def)
    moreover obtain e where "rmq_handle_message S exec pub (snd h) (dq_world d) = (Inl e, w')"
      using handler Requeued by (metis old.sum.exhaust settled.distinct(1) sum.case(2))
    ultimately have h: "\<not> event_message h" using good [of "dq_world d" "snd h"] by auto
    then have "i \<noteq> h" using i(1) by auto
    obtain ys zs where yz: "ready = ys @ zs" "put_back h ready = ys @ h # zs" using put_back_split by blast
    have l': "line d' = held @ ys @ h # zs" using settles(1) ready Requeued yz(2) by (simp add: line_def)
    have "\<exists>x \<in> set held. event_message x"
      using event_held [OF window refused h _ i(1)] i(2) l \<open>i \<noteq> h\<close> by auto
    from line_rank_requeued [OF h \<open>i \<noteq> h\<close> this] show ?thesis unfolding l l' yz(1) .
  qed
next
  case (breaks d1 m rest e w')
  then show ?thesis by (simp add: settle_calm split: prod.splits)
next
  case idle
  then show ?thesis using i(2) by simp
qed

lemma rmq_progress:
  assumes good: "\<And>raw w. ok w \<Longrightarrow> event_body raw \<Longrightarrow> fst (rmq_handle_message S exec pub raw w) = Inr ()"
  shows "fair_progress (calm_step S exec pub put_back ok) is_handle (sane S ok) waits_in_line (\<lambda>i d. line_rank (prefetch S) i (line d))"
proof unfold_locales
  fix l :: delivery_action and d d' :: "('a, 'b, 'c, 'd) world deliveries"
  assume step: "calm_step S exec pub put_back ok l d d'" and sane: "sane S ok d"
  show "sane S ok d'" using step by (simp add: calm_step_def)
  fix i
  assume w: "waits_in_line i d"
  have s: "delivery_step S exec pub put_back l d d'" "calm l" using step by (simp_all add: calm_step_def)
  show "waits_in_line i d' \<and> line_rank (prefetch S) i (line d') \<le> line_rank (prefetch S) i (line d)" if "\<not> is_handle l"
    using s w that line_rank_arrives [of i "line d" "prefetch S"]
    by (cases l) (auto simp: waits_in_line_def line_def elim!: arrive_cases other_cases)
  show "line_rank (prefetch S) i (line d') < line_rank (prefetch S) i (line d)" if "is_handle l" "waits_in_line i d'"
    using s w that settle_rank [OF _ sane good, of d' i] by (cases l) (auto simp: waits_in_line_def)
qed

end


section \<open>A window full of refused messages\<close>

abbreviation by_number :: "message list \<Rightarrow> bool" where
  "by_number \<equiv> sorted_wrt (\<lambda>x y. fst x < fst y)"

lemma original_position_Cons [simp]:
  "original_position m [] = [m]"
  "original_position m (x # q) = (if fst x < fst m then x # original_position m q else m # x # q)"
  by (simp_all add: original_position_def)

lemma by_number_put: "by_number q \<Longrightarrow> fst m \<notin> fst ` set q \<Longrightarrow> by_number (original_position m q)"
proof (induction q)
  case (Cons x q)
  have "fst m < fst y" if "\<not> fst x < fst m" "y \<in> set (x # q)" for y
    using that Cons.prems by (auto dest: le_less_trans)
  then show ?case using Cons by simp
qed simp

lemma by_number_return:
  "by_number q \<Longrightarrow> distinct (map fst (ms @ q)) \<Longrightarrow> by_number (foldr original_position ms q)"
proof (induction ms)
  case (Cons m ms)
  have "set (foldr original_position ms q) = set (ms @ q)" using mset_eq_setD [of "foldr original_position ms q" "ms @ q"] by (simp add: original.return_all_mset)
  then have "fst m \<notin> fst ` set (foldr original_position ms q)" using Cons.prems(2) by (simp add: image_Un)
  then show ?case using by_number_put Cons by simp
qed simp

text \<open>As many messages as the window holds are older than all others.\<close>

definition clogged :: "settings \<Rightarrow> message list \<Rightarrow> 'w deliveries \<Rightarrow> bool" where
  "clogged S ps d \<longleftrightarrow> numbered_line d \<and> distinct ps \<and> length ps = prefetch S \<and> set (dq_unacked d) \<subseteq> set ps \<and> set ps \<subseteq> set (line d)
     \<and> by_number (dq_ready d) \<and> (\<forall>p \<in> set ps. \<forall>m \<in> set (line d) - set ps. fst p < fst m)"

lemma oldest_first:
  assumes "by_number q" and "\<forall>p \<in> A. \<forall>m \<in> set q - A. fst p < fst m"
  shows "q = filter (\<lambda>m. m \<in> A) q @ filter (\<lambda>m. m \<notin> A) q"
  using assms
proof (induction q)
  case (Cons x q)
  then have "q = filter (\<lambda>m. m \<in> A) q @ filter (\<lambda>m. m \<notin> A) q" by simp
  moreover have "filter (\<lambda>m. m \<in> A) q = []" if "x \<notin> A" using that Cons.prems by (auto simp: filter_empty_conv dest: order.asym)
  ultimately show ?case by (cases "x \<in> A") (simp_all add: filter_id_conv)
qed simp

lemma clogged_fill:
  assumes "clogged S ps d"
  shows "set (dq_unacked (fill (prefetch S) d)) = set ps" and "by_number (dq_ready (fill (prefetch S) d))"
proof -
  let ?k = "prefetch S - length (dq_unacked d)"
  have c: "distinct ps" "length ps = prefetch S" "set (dq_unacked d) \<subseteq> set ps" "set ps \<subseteq> set (line d)" "by_number (dq_ready d)"
    "distinct (dq_unacked d @ dq_ready d)" "\<forall>p \<in> set ps. \<forall>m \<in> set (dq_ready d) - set ps. fst p < fst m"
    using assms by (auto simp: clogged_def numbered_line_def line_def distinct_map)
  let ?old = "filter (\<lambda>m. m \<in> set ps) (dq_ready d)"
  have "set ps = set (dq_unacked d @ ?old)" using c(3,4) by (auto simp: line_def)
  moreover have "distinct (dq_unacked d @ ?old)" using c(6) by auto
  ultimately have "length ps = length (dq_unacked d @ ?old)" using c(1) by (metis distinct_card)
  then have "?k = length ?old" using c(2) by simp
  then have "take ?k (dq_ready d) = ?old" using oldest_first [OF c(5,7)] by (metis append_eq_conv_conj)
  then show "set (dq_unacked (fill (prefetch S) d)) = set ps"
    using \<open>set ps = set (dq_unacked d @ ?old)\<close> by (simp add: fill_def Let_def)
  show "by_number (dq_ready (fill (prefetch S) d))" using c(5) by (simp add: fill_def Let_def sorted_wrt_drop)
qed

lemma clogged_arrange:
  assumes "clogged S ps d" and "set (line d') = set (line d)" and "numbered_line d'" and "set (dq_unacked d') \<subseteq> set ps" and "by_number (dq_ready d')"
  shows "clogged S ps d'"
  using assms by (simp add: clogged_def)

lemma clogged_step:
  assumes step: "delivery_step S exec pub original_position l d d'" and c: "clogged S ps d" 
    and refuse: "\<forall>p \<in> set ps. isl (fst (rmq_handle_message S exec pub (snd p) (dq_world d)))"
  shows "clogged S ps d' \<and> set (line d) \<subseteq> set (line d')"
  using step
proof cases
  case (arrives raw)
  then have l: "line d' = line d @ [(dq_next d, raw)]" by (simp add: line_def)
  have "fst p < dq_next d" if "p \<in> set ps" for p using that c by (auto simp: clogged_def numbered_line_def)
  moreover have "by_number (dq_ready d')" using c arrives by (auto simp: clogged_def numbered_line_def line_def sorted_wrt_append)
  moreover have "numbered_line d'" using original.delivery_step_numbered [OF step] c by (simp add: clogged_def)
  ultimately show ?thesis using c arrives l by (auto simp: clogged_def)
next
  case (settles d1 m rest ack nack v w')
  have m: "m \<in> set ps" "set rest \<subseteq> set ps" "by_number (dq_ready d1)" using clogged_fill [OF c] settles(3,4) by auto
  have "v \<noteq> Acked"
  proof
    assume "v = Acked"
    then have "rmq_handle_message S exec pub (snd m) (dq_world d1) = (Inr (), w')" using settles(5) settle_acked by blast
    then show False using refuse m(1) settles(3) by (auto dest!: bspec)
  qed
  then have v: "v = Requeued" by (cases v) simp_all
  have "mset (line d') = mset (line d1)" using settles(2,4) v by (simp add: line_def)
  then have lm: "mset (line d') = mset (line d)" using settles(3) by simp
  have nl: "numbered_line d'" using original.delivery_step_numbered [OF step] c by (simp add: clogged_def)
  have "line d = m # rest @ dq_ready d1" using settles(3,4) by (metis line_fill line_def append_Cons)
  then have "fst m \<notin> fst ` set (dq_ready d1)" using c by (simp add: clogged_def numbered_line_def)
  then have "by_number (dq_ready d')" using by_number_put m(3) settles(2) v by simp
  then show ?thesis using clogged_arrange [OF c mset_eq_setD [OF lm] nl] mset_eq_setD [OF lm] settles(2) m(2) by simp
next
  case (breaks d1 m rest ack nack e w')
  have nl: "numbered_line d'" using original.delivery_step_numbered [OF step] c by (simp add: clogged_def)
  have lm: "set (line d') = set (line d)"
    using mset_eq_setD [OF original.return_line [of d' d1]] breaks(2,3) by simp
  have "distinct (map fst (dq_unacked d1 @ dq_ready d1))" using c breaks(3) by (metis clogged_def numbered_fill numbered_line_def line_def)
  then have "by_number (dq_ready d')" using by_number_return [of "dq_ready d1" "dq_unacked d1"] clogged_fill(2) [OF c] breaks(2,3) by simp
  then show ?thesis using clogged_arrange [OF c lm nl] lm breaks(2) by simp
next
  case disconnects
  have nl: "numbered_line d'" using original.delivery_step_numbered [OF step] c by (simp add: clogged_def)
  have lm: "set (line d') = set (line d)"
    using mset_eq_setD [OF original.return_line [of d' d]] disconnects(2) by simp
  have "distinct (map fst (dq_unacked d @ dq_ready d))" "by_number (dq_ready d)" using c by (simp_all add: clogged_def numbered_line_def line_def)
  then have "by_number (dq_ready d')" using by_number_return [of "dq_ready d" "dq_unacked d"] disconnects(2) by simp
  then show ?thesis using clogged_arrange [OF c lm nl] lm disconnects(2) by simp
qed (use c in \<open>auto simp: clogged_def numbered_line_def line_def\<close>)


section \<open>Concrete runs\<close>

text \<open>The steps as a function; nothing else changes the system.\<close>

fun deliver :: "settings \<Rightarrow> 'r server \<Rightarrow> 'b publisher \<Rightarrow> put_back \<Rightarrow> delivery_action \<Rightarrow> ('p, 'c, 'r, 'b) world deliveries \<Rightarrow>
    ('p, 'c, 'r, 'b) world deliveries" where
  "deliver S exec pub put_back (Arrive raw) d = d\<lparr>dq_ready := dq_ready d @ [(dq_next d, raw)], dq_next := Suc (dq_next d)\<rparr>"
| "deliver S exec pub put_back (Handle ack nack) d =
     (let d1 = fill (prefetch S) d in
      case dq_unacked d1 of
        [] \<Rightarrow> d
      | m # rest \<Rightarrow>
          (case settle_delivery S exec pub ack nack (snd m) (dq_world d1) of
             (Inr v, w') \<Rightarrow> d1\<lparr>dq_world := w', dq_unacked := rest,
                dq_ready := (case v of Acked \<Rightarrow> dq_ready d1 | Requeued \<Rightarrow> put_back m (dq_ready d1))\<rparr>
           | (Inl e, w') \<Rightarrow> d1\<lparr>dq_world := w', dq_unacked := [], dq_ready := foldr put_back (dq_unacked d1) (dq_ready d1)\<rparr>))"
| "deliver S exec pub put_back Disconnect d = d\<lparr>dq_unacked := [], dq_ready := foldr put_back (dq_unacked d) (dq_ready d)\<rparr>"
| "deliver S exec pub put_back Other d = d"

lemma deliver_step:
  assumes "0 < prefetch S"
  shows "delivery_step S exec pub put_back l d (deliver S exec pub put_back l d)"
proof (cases l)
  case (Handle ack nack)
  let ?d1 = "fill (prefetch S) d"
  show ?thesis
  proof (cases "dq_unacked ?d1")
    case Nil
    then have "line d = []" using assms by (auto simp: fill_def line_def Let_def)
    then show ?thesis using Handle Nil by (simp add: Let_def delivery_step.idle)
  next
    case (Cons m rest)
    obtain x w' where x: "settle_delivery S exec pub ack nack (snd m) (dq_world ?d1) = (x, w')" by fastforce
    show ?thesis
    proof (cases x)
      case (Inl e)
      then show ?thesis using Handle Cons x delivery_step.breaks [OF refl Cons, of exec pub ack nack e w' put_back] by (simp add: Let_def)
    next
      case (Inr v)
      then show ?thesis using Handle Cons x delivery_step.settles [OF refl Cons, of exec pub ack nack v w' put_back] by (simp add: Let_def)
    qed
  qed
next
  case Other
  then show ?thesis using delivery_step.other [of S exec pub put_back d "dq_world d"] by simp
qed (use delivery_step.arrives delivery_step.disconnects in simp_all)

primrec deliveries_run :: "settings \<Rightarrow> put_back \<Rightarrow> (nat \<Rightarrow> delivery_action) \<Rightarrow> (nat, unit, redis, broker) world deliveries \<Rightarrow> nat \<Rightarrow>
    (nat, unit, redis, broker) world deliveries" where
  "deliveries_run S put_back act d 0 = d"
| "deliveries_run S put_back act d (Suc n) =
     deliver S redis_step (\<lambda>k j _. broker_publish k (dumps j)) put_back (act n) (deliveries_run S put_back act d n)"

lemma deliveries_run_steps:
  "0 < prefetch S \<Longrightarrow> delivery_step S redis_step (\<lambda>k j _. broker_publish k (dumps j)) put_back (act n)
     (deliveries_run S put_back act d n) (deliveries_run S put_back act d (Suc n))"
  by (simp add: deliver_step)

text \<open>A removal is published; the first acknowledgement and its refusal fail, and the worker comes back.\<close>

definition demo_removal :: body where
  "demo_removal = dumps (deleted_payload 5 2 (po_created demo_post))"

definition demo_deliveries :: "message list \<Rightarrow> (nat, unit, redis, broker) world deliveries" where
  "demo_deliveries ms = \<lparr>dq_world = demo_rmq_world [], dq_unacked = [], dq_ready = ms, dq_next = length ms\<rparr>"

definition flaky_action :: "nat \<Rightarrow> delivery_action" where
  "flaky_action n = (if n = 0 then Arrive demo_removal else if n = 1 then Handle (Inl (AmqpError ''closed'')) (Inl (AmqpError ''closed''))
     else Handle (Inr ()) (Inr ()))"

lemma default_prefetch: "prefetch default_settings = 16"
  by (simp add: prefetch_def default_settings_def)


text \<open>A removal waits behind a message that is no JSON text; the worker with a window of two handles it.\<close>

definition calm_action :: "nat \<Rightarrow> delivery_action" where
  "calm_action n = (if n = 0 then Arrive demo_removal else Handle (Inr ()) (Inr ()))"

lemma refused_no_json: "rmq_handle_message S exec pub None w = (Inl (ValueError ''no JSON''), w)"
  by (simp add: rmq_handle_message_def)

definition two_settings :: settings where
  "two_settings = default_settings\<lparr>rabbitmq_prefetch := 2\<rparr>"

lemma prefetch_two [simp]: "prefetch two_settings = 2"
  by (simp add: two_settings_def prefetch_def)

lemma demo_removed:
  "\<exists>r. rmq_handle_message S redis_step pub demo_removal (demo_rmq_world []) = (Inr (), (demo_rmq_world [])\<lparr>wo_redis := r\<rparr>) \<and> cache_ok r"
proof -
  let ?s = "demo_tables [demo_post] [(1, 2)]"
  have "remove_post_from_all_feeds redis_step (Inr ?s) 5 2 Map.empty = (Inr (), map_feeds (set (sql_followers ?s 2)) (zrem [uuid_str 5]) Map.empty)"
    by (rule remove_post_effect) (simp_all add: cache_ok_empty demo_tables_ok(1) social_ok_distinct)
  moreover have "cache_ok (map_feeds (set (sql_followers ?s 2)) (zrem [uuid_str 5]) Map.empty)"
    by (rule cache_ok_map_feeds [OF cache_ok_empty]) auto
  ultimately show ?thesis
    by (simp add: demo_removal_def rmq_handle_message_def rmq_handle_deleted_def dumps_def deleted_payload_def json_get_def json_item_def json_uuid_def
        bindR_def UUID_str on_redis_def demo_rmq_world_def master_view_def master_connection_def)
qed

lemma calm_run:
  fixes r :: redis
  assumes "rmq_handle_message two_settings redis_step (\<lambda>k j _. broker_publish k (dumps j)) demo_removal (demo_rmq_world [])
      = (Inr (), (demo_rmq_world [])\<lparr>wo_redis := r\<rparr>)"
  defines "run \<equiv> deliveries_run two_settings original_position calm_action (demo_deliveries [(0, None)])"
  shows "run 0 = demo_deliveries [(0, None)]"
    and "run 1 = (demo_deliveries [(0, None), (1, demo_removal)])"
    and "run 2 = \<lparr>dq_world = demo_rmq_world [], dq_unacked = [(1, demo_removal)], dq_ready = [(0, None)], dq_next = 2\<rparr>"
    and "run 3 = \<lparr>dq_world = (demo_rmq_world [])\<lparr>wo_redis := r\<rparr>, dq_unacked = [(0, None)], dq_ready = [], dq_next = 2\<rparr>"
    and "run (n + 4) = \<lparr>dq_world = (demo_rmq_world [])\<lparr>wo_redis := r\<rparr>, dq_unacked = [], dq_ready = [(0, None)], dq_next = 2\<rparr>"
proof -
  show "run 0 = demo_deliveries [(0, None)]" by (simp add: run_def)
  then show 1: "run 1 = (demo_deliveries [(0, None), (1, demo_removal)])"
    by (simp add: run_def calm_action_def demo_deliveries_def)
  have "run (Suc n) = deliver two_settings redis_step (\<lambda>k j _. broker_publish k (dumps j)) original_position (Handle (Inr ()) (Inr ())) (run n)"
    if "0 < n" for n using that by (simp add: run_def calm_action_def)
  note next_state = this
  show 2: "run 2 = \<lparr>dq_world = demo_rmq_world [], dq_unacked = [(1, demo_removal)], dq_ready = [(0, None)], dq_next = 2\<rparr>"
    using next_state [of 1] 1 by (simp add: numeral_2_eq_2 demo_deliveries_def fill_def settle_calm refused_no_json)
  show 3: "run 3 = \<lparr>dq_world = (demo_rmq_world [])\<lparr>wo_redis := r\<rparr>, dq_unacked = [(0, None)], dq_ready = [], dq_next = 2\<rparr>"
    using next_state [of 2] 2 assms(1) by (simp add: numeral_3_eq_3 fill_def settle_calm)
  show "run (n + 4) = \<lparr>dq_world = (demo_rmq_world [])\<lparr>wo_redis := r\<rparr>, dq_unacked = [], dq_ready = [(0, None)], dq_next = 2\<rparr>"
  proof (induction n)
    case 0
    then show ?case using next_state [of 3] 3 by (simp add: eval_nat_numeral fill_def settle_calm refused_no_json)
  next
    case (Suc n)
    then show ?case using next_state [of "n + 4"] by (simp add: fill_def settle_calm refused_no_json)
  qed
qed



end
