(* ===== verification/End_To_End.thy ===== *)
theory End_To_End
  imports Feed_Worker_Rmq
begin

text \<open>
  The path of a new post through the system: the handler of \<^verbatim>\<open>routes/posts.py\<close> publishes an event, the worker of
  \<^verbatim>\<open>workers/feed_worker_rmq.py\<close> takes it from its queue, and the bridge of \<^verbatim>\<open>ws/rabbit_bridge.py\<close> hands the notification to the
  sockets.
\<close>

section \<open>Publishing\<close>

lemma create_post_publishes:
  fixes w :: "('p, 'c, redis, 'b) world"
  assumes "live_broker bind unbind pub bound inbox up" and "feed_transport S = ''rabbitmq''"
    and m: "db_master_pool (wo_database w) = Some mp" and s: "wo_tables w mp = s"
    and a: "a \<in> us_id ` set (so_users s)" and i: "i \<notin> po_id ` set (so_posts s)"
    and c: "rc_client (wo_redis_client w) \<noteq> None" "cache_ok (wo_redis w)" and up: "up (wo_broker w)"
    and p: "p = \<lparr>po_id = i, po_author = a, po_text = x, po_created = t\<rparr>"
  shows "\<exists>b'. create_post S redis_step (\<lambda>k j _. pub k (dumps j)) i t x a w = (Inr i,
      w\<lparr>wo_tables := (wo_tables w)(mp := sql_insert_post p s), wo_redis := (wo_redis w)(post_key i \<mapsto> Hash (row_to_post_hash p)), wo_broker := b'\<rparr>)
    \<and> pub (rabbitmq_materialize_routing_key S) (dumps (created_payload p)) (wo_broker w) = (Inr (), b') \<and> up b'"
proof -
  obtain b' where b': "pub (rabbitmq_materialize_routing_key S) (dumps (created_payload p)) (wo_broker w) = (Inr (), b')" "up b'"
    using live_broker.accepts [OF assms(1) up] by blast
  then show ?thesis
    using assms store_effect [OF c(2), of i x a t]
    by (auto simp: create_post_def on_master_def master_connection_def stmt_insert_post_def get_redis_def RedisClient_get_def on_redis_def
        on_broker_def created_payload_def row_to_post_hash_def)
qed

text \<open>What the bridge does with a notification.\<close>

lemma encode_notification: "encode (post_new_payload i a x t) = post_new_payload i a x t"
  by (simp add: post_new_payload_def)

lemma bridge_pushes:
  assumes "prefix_ok S" and "manager_ok c"
  shows "fst (bridge_handle cb ok (user_routing_key S (uuid_str u), dumps (post_new_payload i a x t)) (c, e))
    = map (\<lambda>w. (w, post_new_payload i a x t)) (filter ok (conns_of c u))"
  using push_result [OF assms(2), of cb ok u "post_new_payload i a x t" e]
  by (auto simp: bridge_handle_def dumps_def encode_notification routing_key_user_key [OF assms(1)])

section \<open>From the request to the sockets\<close>

lemma created_post_delivered:
  fixes w :: "('p, 'c, redis, 'b) world"
  assumes lb: "live_broker bind unbind pub bound inbox up" and tr: "feed_transport S = ''rabbitmq''"
    and m: "db_master_pool (wo_database w) = Some mp" and s: "wo_tables w mp = s" "social_ok (sql_insert_post p s)"
    and a: "a \<in> us_id ` set (so_users s)" and i: "i \<notin> po_id ` set (so_posts s)"
    and c: "rc_client (wo_redis_client w) \<noteq> None" "cache_ok (wo_redis w)" and up: "up (wo_broker w)"
    and cap: "0 \<le> feed_max_size S" and ttl: "0 < celebrity_cache_ttl S"
    and p: "p = \<lparr>po_id = i, po_author = a, po_text = x, po_created = t\<rparr>" "dt_ok t" "x \<noteq> []"
    and fl: "\<not> flagged S s (wo_redis w) a"
    and mq: "bound (wo_broker w) mq = {rabbitmq_materialize_routing_key S}"
    and q: "rabbitmq_materialize_routing_key S \<notin> bound (wo_broker w) q" "\<forall>k \<in> bound (wo_broker w) q. literal_key k"
    and lit: "literal_key (rabbitmq_materialize_routing_key S)"
  shows "\<exists>w1 w2. create_post S redis_step (\<lambda>k j _. pub k (dumps j)) i t x a w = (Inr i, w1)
    \<and> inbox (wo_broker w1) mq = inbox (wo_broker w) mq @ [(rabbitmq_materialize_routing_key S, dumps (created_payload p))]
    \<and> rmq_handle_message S redis_step (\<lambda>k j _. pub k (dumps j)) (dumps (created_payload p)) w1 = (Inr (), w2)
    \<and> (\<forall>u. zset_at (wo_redis w2) (feed_key u) = pushed_feed S s False p (wo_redis w) u)
    \<and> inbox (wo_broker w2) q = inbox (wo_broker w) q @
        map (\<lambda>u. (user_routing_key S (uuid_str u), dumps (post_new_payload i a x t)))
          (filter (\<lambda>u. user_routing_key S (uuid_str u) \<in> bound (wo_broker w) q) (sql_followers s a))"
proof -
  let ?s = "sql_insert_post p s" and ?key = "rabbitmq_materialize_routing_key S"
  let ?r1 = "(wo_redis w)(post_key i \<mapsto> Hash (row_to_post_hash p))"
  note tb = live_broker.axioms(1) [OF lb]
  obtain b1 where b1: "create_post S redis_step (\<lambda>k j _. pub k (dumps j)) i t x a w
        = (Inr i, w\<lparr>wo_tables := (wo_tables w)(mp := ?s), wo_redis := ?r1, wo_broker := b1\<rparr>)"
      "pub ?key (dumps (created_payload p)) (wo_broker w) = (Inr (), b1)" "up b1"
    using create_post_publishes [OF lb tr m s(1) a i c up p(1)] by blast
  define w1 where "w1 = w\<lparr>wo_tables := (wo_tables w)(mp := ?s), wo_redis := ?r1, wo_broker := b1\<rparr>"
  have w1: "wo_redis w1 = ?r1" "wo_broker w1 = b1" "master_view w1 = Inr ?s"
    using m by (simp_all add: w1_def master_view_def master_connection_def)
  have bd: "bound b1 = bound (wo_broker w)" by (rule topic_broker.publish_bound [OF tb b1(2)])
  have imq: "inbox b1 mq = inbox (wo_broker w) mq @ [(?key, dumps (created_payload p))]"
    using topic_broker.publish_literal [OF tb b1(2), of mq] mq lit by simp
  have iq: "inbox b1 q = inbox (wo_broker w) q" using topic_broker.publish_literal [OF tb b1(2), of q] q by simp
  have fs: "sql_followers ?s a = sql_followers s a" by (simp add: sql_followers_def sql_insert_post_def)
  have "sql_count_followers ?s a = sql_count_followers s a" using fs by (simp add: sql_count_followers_def)
  then have "flagged S ?s ?r1 a = flagged S s (wo_redis w) a" by (simp add: flagged_def cached_flag_def split: option.split)
  then have fl1: "False = flagged S ?s (wo_redis w1) (po_author p)" using fl p(1) w1(1) by simp
  obtain r2 b2 where e: "rmq_handle_created S redis_step (\<lambda>k j _. pub k (dumps j)) (created_payload p) w1 = (Inr (), w1\<lparr>wo_redis := r2, wo_broker := b2\<rparr>)"
      "\<forall>u. zset_at r2 (feed_key u) = pushed_feed S ?s False p (wo_redis w1) u"
      "\<forall>q. (\<forall>k \<in> bound (wo_broker w1) q. literal_key k) \<longrightarrow> inbox b2 q = inbox (wo_broker w1) q @
        map (\<lambda>u. (user_routing_key S (uuid_str u), dumps (post_new_payload (po_id p) (po_author p) (po_text p) (po_created p))))
          (filter (\<lambda>u. user_routing_key S (uuid_str u) \<in> bound (wo_broker w1) q) (notified S ?s False (po_author p)))"
    using created_effect [OF lb w1(3) s(2) _ cap ttl _ _ _ fl1] cache_ok_store [OF c(2), of i p] b1(3) p w1(1,2) by auto
  have "pushed_feed S ?s False p (wo_redis w1) u = pushed_feed S s False p (wo_redis w) u" for u
    using fs p(1) by (simp add: pushed_feed_def w1(1))
  moreover have "inbox b2 q = inbox (wo_broker w) q @ map (\<lambda>u. (user_routing_key S (uuid_str u), dumps (post_new_payload i a x t)))
      (filter (\<lambda>u. user_routing_key S (uuid_str u) \<in> bound (wo_broker w) q) (sql_followers s a))"
    using e(3) q(2) iq bd fs p(1) w1(2) by (simp add: notified_def)
  ultimately show ?thesis
    using b1(1) imq e(1,2) w1(2) 
    by - (rule exI [of _ w1], rule exI [of _ "w1\<lparr>wo_redis := r2, wo_broker := b2\<rparr>"],
      simp add: w1_def [symmetric] handle_created_payload)
qed

section \<open>Any server\<close>

text \<open>The request followed by the handling of its message, on any server.\<close>

context redis_server
begin

lemma request_sim:
  assumes "create_post S redis_step pub i t x a (view_world view w) = (Inr j, v1)"
    and "rmq_handle_message S redis_step pub raw v1 = (y, v2)"
  shows "\<exists>w1 w2. create_post S exec pub i t x a w = (Inr j, w1) \<and> view_world view w1 = v1
    \<and> rmq_handle_message S exec pub raw w1 = (y, w2) \<and> view_world view w2 = v2"
proof -
  obtain x1 w1 where 1: "create_post S exec pub i t x a w = (x1, w1)" by fastforce
  obtain x2 w2 where 2: "rmq_handle_message S exec pub raw w1 = (x2, w2)" by fastforce
  show ?thesis using 1 2 assms sim_result [OF route_sims(1) 1] sim_result [OF rmq_message_sim 2] by auto
qed

end

end
