(* ===== verification/Feed_Merged.thy ===== *)
theory Feed_Merged
  imports Feed_Celebrity
begin

text \<open>
  The merged read of \<^verbatim>\<open>read_feed_merged\<close>: the materialised part and the fetched part are lists of the same
  kind of items, duplicates go, and the order by printed timestamps is the chronological order.
\<close>

section \<open>Removing duplicates\<close>

fun unique_posts :: "uuid set \<Rightarrow> post list \<Rightarrow> post list" where
  "unique_posts seen [] = []"
| "unique_posts seen (p # ps) =
     (if po_id p \<in> seen then unique_posts seen ps else p # unique_posts (insert (po_id p) seen) ps)"

lemma unique_items_posts: "unique_items (uuid_str ` seen) (map recent_item ps) = map recent_item (unique_posts seen ps)"
proof (induction ps arbitrary: seen)
  case (Cons p ps)
  have "uuid_str (po_id p) \<in> uuid_str ` seen \<longleftrightarrow> po_id p \<in> seen" by (auto simp: uuid_str_inj)
  then show ?case using Cons.IH [of seen] Cons.IH [of "insert (po_id p) seen"] by (simp add: recent_item_def)
qed simp

lemma unique_posts_ids: "distinct (map po_id (unique_posts seen ps)) \<and> (\<forall>p \<in> set (unique_posts seen ps). po_id p \<notin> seen)"
proof (induction ps arbitrary: seen)
  case (Cons p ps)
  then show ?case using Cons.IH [of seen] Cons.IH [of "insert (po_id p) seen"] by auto
qed simp

lemma unique_posts_set:
  assumes "inj_on po_id (set ps)"
  shows "set (unique_posts seen ps) = {p \<in> set ps. po_id p \<notin> seen}"
  using assms
proof (induction ps arbitrary: seen)
  case (Cons p ps)
  have inj: "inj_on po_id (set ps)" using Cons.prems by simp
  have "q = p" if "q \<in> set ps" "po_id q = po_id p" for q
    using inj_onD [OF Cons.prems that(2)] that(1) by simp
  then show ?case using Cons.IH [OF inj] by auto
qed simp

section \<open>The order of items\<close>

lemma insort_key_agree:
  assumes "\<And>y. y \<in> set xs \<Longrightarrow> f x \<le> f y \<longleftrightarrow> h x \<le> h y"
  shows "insort_key f x xs = insort_key h x xs"
  using assms by (induction xs) auto

lemma sort_key_agree:
  assumes "\<And>x y. x \<in> set xs \<Longrightarrow> y \<in> set xs \<Longrightarrow> f x \<le> f y \<longleftrightarrow> h x \<le> h y"
  shows "sort_key f xs = sort_key h xs"
  using assms by (induction xs) (auto intro!: insort_key_agree)

lemma sort_recent_posts:
  assumes "\<And>p. p \<in> set ps \<Longrightarrow> dt_ok (po_created p)"
  shows "sort_recent (map recent_item ps) = map recent_item (newest_first ps)"
proof -
  let ?k = "\<lambda>i. case fi_created_at i of None \<Rightarrow> [] | Some t \<Rightarrow> t"
  have le: "isoformat a \<le> isoformat b \<longleftrightarrow> a \<le> b" if "dt_ok a" "dt_ok b" for a b
    using isoformat_less [OF that(2,1)] by (metis linorder_not_less)
  have "?k \<circ> recent_item = (\<lambda>p. isoformat (po_created p))" by (auto simp: recent_item_def)
  then have "sort_key ?k (map recent_item (rev ps)) = map recent_item (sort_key (\<lambda>p. isoformat (po_created p)) (rev ps))"
    by (simp add: sort_key_map)
  also have "sort_key (\<lambda>p. isoformat (po_created p)) (rev ps) = sort_key po_created (rev ps)"
    using assms le by (intro sort_key_agree) simp
  finally show ?thesis by (simp add: sort_recent_def newest_first_def rev_map)
qed

lemma py_slice_page:
  assumes "0 \<le> offset" and "0 \<le> limit"
  shows "py_slice_int offset (offset + limit) xs = take (nat limit) (drop (nat offset) xs)"
proof -
  have "nat (offset + limit) = nat offset + nat limit" using assms by (simp add: nat_add_distrib)
  then show ?thesis
    using assms by (cases "length xs \<le> nat offset") (auto simp: py_slice_int_def py_index_def py_slice_def min_def)
qed

section \<open>The parts\<close>

definition plain_item :: "post \<Rightarrow> feed_item" where
  "plain_item p = \<lparr>fi_id = uuid_str (po_id p), fi_text = po_text p, fi_author_user_id = uuid_str (po_author p), fi_created_at = None\<rparr>"

text \<open>A feed of known posts, as a list of posts.\<close>

lemma feed_as_posts:
  assumes "set z \<subseteq> entry ` set ps"
  shows "\<exists>qs. z = map entry qs \<and> set qs \<subseteq> set ps"
  using assms
proof (induction z)
  case (Cons e z)
  then obtain p qs where "e = entry p" "p \<in> set ps" "z = map entry qs" "set qs \<subseteq> set ps" by auto
  then show ?case by (intro exI [of _ "p # qs"]) simp
qed simp

lemma item_at_post:
  "body_at r (uuid_str (po_id p)) = row_to_post_hash p \<Longrightarrow> item_at r (uuid_str (po_id p)) = plain_item p"
  by (simp add: item_at_def plain_item_def row_to_post_hash_def)

lemma push_part:
  assumes c: "cache_ok r" and feed: "zset_at r (feed_key u) = map entry qs" "r (feed_key u) \<noteq> None"
    and bodies: "bodies_ok s r" "set qs \<subseteq> set (so_posts s)" and N: "0 < N"
  shows "read_feed S redis_step db n u 0 N r = (Inr (map plain_item (take (nat N) (rev qs))), r)"
proof -
  let ?ps = "take (nat N) (rev qs)"
  let ?ms = "map (uuid_str \<circ> po_id) ?ps"
  have ms: "?ms = page_ids 0 N (zset_at r (feed_key u))"
    by (simp add: page_ids_def feed(1) take_map rev_map o_def entry_def)
  have body: "body_at r (uuid_str (po_id p)) = row_to_post_hash p" if "p \<in> set ?ps" for p
    using that bodies by (intro body_at_post) (auto dest!: in_set_takeD)
  have "filter (\<lambda>m. body_at r m \<noteq> []) ?ms = ?ms" "filter (\<lambda>m. body_at r m = []) ?ms = []"
    using body by (auto simp: filter_id_conv filter_empty_conv row_to_post_hash_def)
  moreover have "map (item_at r) ?ms = map plain_item ?ps" using body item_at_post by simp
  moreover have "zset_or_none (r (feed_key u))" using c by simp
  ultimately have "read_page redis_step u 0 N r = (Inr (map plain_item ?ps), r)"
    using read_page_effect [OF c _ N ms] put_zset_id [of r "feed_key u"] by (simp add: zrem_def)
  then show ?thesis using feed(2) by (auto simp: read_feed_def execute_def as_int_def bindP_def)
qed

lemma map_res_keys: "map_res (\<lambda>i. post_key_of (fi_id i)) (map plain_item ps) = Inr (map post_key (map po_id ps))"
  by (induction ps) (simp_all add: plain_item_def)

lemma add_created_at_posts:
  assumes c: "cache_ok r" and body: "\<And>p. p \<in> set ps \<Longrightarrow> body_at r (uuid_str (po_id p)) = row_to_post_hash p"
  shows "add_created_at redis_step (map plain_item ps) r = (Inr (map recent_item ps), r)"
proof (cases "ps = []")
  case False
  have ts: "map ((\<lambda>h. map_of h ''created_at'') \<circ> body_at r \<circ> uuid_str) (map po_id ps) = map (\<lambda>p. Some (isoformat (po_created p))) ps"
    using body by (simp add: row_to_post_hash_def)
  have "zip_strict (map plain_item ps) (map (\<lambda>p. Some (isoformat (po_created p))) ps)
      = Inr (map (\<lambda>p. (plain_item p, Some (isoformat (po_created p)))) ps)"
    by (simp add: zip_strict_def zip_map_map zip_same_conv_map)
  then show ?thesis
    using False pipe_bodies(2) [OF c, of "''created_at''" "map po_id ps"] map_res_replies(2) [of "\<lambda>h. map_of h ''created_at''" "body_at r" uuid_str "map po_id ps"]
    by (simp add: add_created_at_def map_res_keys ts del: map_map)
      (simp add: plain_item_def recent_item_def)
qed (simp add: add_created_at_def)

section \<open>The merge\<close>

lemma pull_part:
  assumes "0 \<le> N"
  shows "fetch_recent_posts_by_authors (Inr s) cs N r
    = (Inr (map recent_item (take (nat N) (newest_first (filter (\<lambda>p. po_author p \<in> set cs) (so_posts s))))), r)"
  using assms
  by (simp add: fetch_recent_posts_by_authors_def fetch_def sql_posts_by_authors_def sql_limit_def newest_first_def)

text \<open>What remains of the newest \<open>n\<close> of two sets of posts is the newest \<open>n\<close> of both.\<close>

lemma merged_posts:
  assumes ps: "posts_ok ps" and sub: "set qs \<subseteq> set ps" "set cs \<subseteq> set ps" and all: "set ps = set qs \<union> set cs"
    and z: "zset_ok (map entry qs)" and P2: "P2 = take n (newest_first cs)" and cs: "posts_ok cs"
  defines "Q \<equiv> unique_posts {} (take n (rev qs) @ P2)"
  shows "posts_ok Q \<and> set Q \<subseteq> set ps \<and> top_n n (entry ` set ps) (entry ` set (take n (newest_first Q)))"
proof -
  have inj: "inj_on po_id (set ps)" using ps by (simp add: posts_ok_def distinct_map)
  have P: "set (take n (rev qs) @ P2) \<subseteq> set ps" using sub by (auto simp: P2 dest!: in_set_takeD)
  have setQ: "set Q = set (take n (rev qs)) \<union> set P2"
    unfolding Q_def using unique_posts_set [OF inj_on_subset [OF inj P], of "{}"] by auto
  have sQ: "set Q \<subseteq> set ps" using P setQ by simp
  have Q: "posts_ok Q" using sQ ps unique_posts_ids [of "{}" "take n (rev qs) @ P2"] by (auto simp: posts_ok_def Q_def)
  have "entry ` set (take n (rev qs)) = set (keep (int n) (map entry qs))"
    by (simp add: keep_def drop_map take_rev)
  then have t1: "top_n n (entry ` set qs) (entry ` set (take n (rev qs)))" using top_n_keep [OF z, of "int n"] by simp
  have t2: "top_n n (entry ` set cs) (entry ` set P2)" unfolding P2 by (rule top_n_query [OF cs])
  have "top_n n (entry ` set qs \<union> entry ` set cs) (entry ` set (take n (newest_first Q)))"
  proof (rule top_n_merge [OF _ _ t1 t2 _ _ top_n_query [OF Q]])
    show "entry ` set (take n (rev qs)) \<union> entry ` set P2 \<subseteq> entry ` set Q" by (simp add: setQ image_Un)
    have "set Q \<subseteq> set qs \<union> set cs" unfolding setQ P2 by (auto dest!: in_set_takeD)
    then show "entry ` set Q \<subseteq> entry ` set qs \<union> entry ` set cs" unfolding image_Un [symmetric] by (rule image_mono)
  qed simp_all
  then show ?thesis using Q sQ all by (simp add: image_Un)
qed

lemma merged_effect:
  assumes ok: "social_ok s" "cache_ok r" "bodies_ok s r" and ttl: "0 < celebrity_cache_ttl S"
    and page: "0 \<le> offset" "1 \<le> limit" and some: "r (feed_key u) \<noteq> None"
    and sound: "set (zset_at r (feed_key u)) \<subseteq> friend_entries s u"
    and complete: "\<forall>p \<in> set (friend_posts s u). \<not> flagged S s r (po_author p) \<longrightarrow> entry p \<in> set (zset_at r (feed_key u))"
  shows "\<exists>L r'. read_feed_merged S redis_step (Inr s) n u offset limit r
      = (Inr (map plain_item (take (nat limit) (drop (nat offset) L))), r')
    \<and> distinct (map po_id L) \<and> set L \<subseteq> set (friend_posts s u)
    \<and> sorted_wrt (\<lambda>p q. po_created q \<le> po_created p) L
    \<and> top_n (nat (offset + limit)) (friend_entries s u) (entry ` set (take (nat (offset + limit)) L))"
proof -
  let ?N = "offset + limit"
  have N: "0 < ?N" using page by simp
  obtain qs where qs: "zset_at r (feed_key u) = map entry qs" "set qs \<subseteq> set (friend_posts s u)"
    using feed_as_posts [OF sound] by blast
  obtain cs v fs where cs: "get_celebrity_friends S redis_step (Inr s) u r = (Inr cs, set_flags v fs r)"
    "set cs = {f \<in> set (sql_friends s u). flagged S s r f}"
    using celebrity_friends_effect [OF ok(2) ttl, of s u] by blast
  let ?r = "set_flags v fs r"
  let ?C = "filter (\<lambda>p. po_author p \<in> set cs) (so_posts s)"
  define P1 where "P1 = take (nat ?N) (rev qs)"
  define P2 where "P2 = take (nat ?N) (newest_first ?C)"
  define Q where "Q = unique_posts {} (P1 @ P2)"
  have posts: "set qs \<subseteq> set (so_posts s)" using qs(2) by (auto simp: set_friend_posts)
  have push: "read_feed S redis_step (Inr s) n u 0 ?N r = (Inr (map plain_item P1), r)"
    unfolding P1_def by (rule push_part [OF ok(2) qs(1) some ok(3) posts N])
  have "body_at ?r m = body_at r m" for m by (simp add: body_at_def set_flags_apply image_iff split: sum.split)
  then have created: "add_created_at redis_step (map plain_item P1) ?r = (Inr (map recent_item P1), ?r)"
    using posts body_at_post [OF ok(3)]
    by (intro add_created_at_posts cache_ok_set_flags ok(2)) (auto simp: P1_def dest!: in_set_takeD)
  have C: "set ?C \<subseteq> set (friend_posts s u)" using cs(2) by (auto simp: set_friend_posts set_sql_friends)
  have all: "set (friend_posts s u) = set qs \<union> set ?C"
  proof -
    have "p \<in> set qs \<or> p \<in> set ?C" if p: "p \<in> set (friend_posts s u)" for p
    proof (cases "flagged S s r (po_author p)")
      case True
      then show ?thesis using p cs(2) by (simp add: set_friend_posts set_sql_friends)
    next
      case False
      then have "entry p \<in> entry ` set qs" using complete p qs(1) by simp
      then obtain q where "q \<in> set qs" "entry p = entry q" by blast
      then show ?thesis using inj_onD [OF inj_on_entry [OF posts_ok_friend_posts [OF ok(1)]]] p qs(2) by blast
    qed
    then show ?thesis using qs(2) C by blast
  qed
  have m: "posts_ok Q \<and> set Q \<subseteq> set (friend_posts s u)
      \<and> top_n (nat ?N) (friend_entries s u) (entry ` set (take (nat ?N) (newest_first Q)))"
    unfolding Q_def P1_def
    using cache_ok_zset [OF ok(2), of u]
    by (intro merged_posts [OF posts_ok_friend_posts [OF ok(1)] qs(2) C all _ P2_def posts_ok_filter [OF social_ok_posts [OF ok(1)]]])
      (simp add: qs(1))
  have "unique_items {} (map recent_item P1 @ map recent_item P2) = map recent_item Q"
    using unique_items_posts [of "{}" "P1 @ P2"] by (simp add: Q_def)
  moreover have "sort_recent (map recent_item Q) = map recent_item (newest_first Q)"
    using m by (intro sort_recent_posts) (simp add: posts_ok_def)
  moreover have "(recent_item p)\<lparr>fi_created_at := None\<rparr> = plain_item p" for p by (simp add: recent_item_def plain_item_def)
  moreover have "0 \<le> limit" using page by simp
  ultimately have "read_feed_merged S redis_step (Inr s) n u offset limit r
      = (Inr (map plain_item (take (nat limit) (drop (nat offset) (newest_first Q)))), ?r)"
    using push cs(1) created pull_part [of ?N s cs ?r] N page
    by (simp add: read_feed_merged_def py_slice_page take_map drop_map P2_def)
  moreover have "distinct (map po_id (newest_first Q))"
    using posts_ok_newest [of Q "length Q"] m by (simp add: posts_ok_def)
  ultimately show ?thesis using m newest_first_sorted [of Q] by (intro exI conjI) auto
qed

text \<open>C6: when the materialised feed holds only posts of friends and at least those of the friends without
  the celebrity flag, a merged read answers with a slice of a list of posts of friends without duplicates,
  newest first, whose beginning up to the end of the page is the newest posts of all friends.\<close>

theorem merged_feed_complete:
  assumes "redis_server exec view" and "social_ok s" and "cache_ok (view r)" and "bodies_ok s (view r)"
    and "0 < celebrity_cache_ttl S" and "0 \<le> offset" and "1 \<le> limit" and "view r (feed_key u) \<noteq> None"
    and "set (zset_at (view r) (feed_key u)) \<subseteq> friend_entries s u"
    and "\<forall>p \<in> set (friend_posts s u). \<not> flagged S s (view r) (po_author p) \<longrightarrow> entry p \<in> set (zset_at (view r) (feed_key u))"
  shows "\<exists>L r'. read_feed_merged S exec (Inr s) n u offset limit r
      = (Inr (map plain_item (take (nat limit) (drop (nat offset) L))), r')
    \<and> distinct (map po_id L) \<and> set L \<subseteq> set (friend_posts s u)
    \<and> sorted_wrt (\<lambda>p q. po_created q \<le> po_created p) L
    \<and> top_n (nat (offset + limit)) (friend_entries s u) (entry ` set (take (nat (offset + limit)) L))"
proof -
  obtain x r' where run: "read_feed_merged S exec (Inr s) n u offset limit r = (x, r')" by fastforce
  from sim_result [OF redis_server.read_feed_merged_sim [OF assms(1)] run] merged_effect [OF assms(2-10), of n]
  show ?thesis unfolding run by auto
qed

text \<open>A feed that was cut to a member of the tables, and an author who is a celebrity because one follower is enough.\<close>

lemma merged_feed_complete_witness:
  "\<exists>L r'. read_feed_merged (default_settings\<lparr>celebrity_followers_threshold := 1\<rparr>) redis_step (Inr (demo_tables [demo_post] [(1, 2)])) ''n'' 1 0 10
      [feed_key 1 \<mapsto> ZSet [entry demo_post], post_key 5 \<mapsto> Hash (row_to_post_hash demo_post)]
    = (Inr (map plain_item (take 10 L)), r') \<and> set L = {demo_post}"
proof -
  let ?s = "demo_tables [demo_post] [(1, 2)]"
  let ?S = "default_settings\<lparr>celebrity_followers_threshold := 1\<rparr>"
  let ?r = "[feed_key 1 \<mapsto> ZSet [entry demo_post], post_key 5 \<mapsto> Hash (row_to_post_hash demo_post)]"
  have "cache_ok (put_zset (feed_key 1) [entry demo_post] [post_key 5 \<mapsto> Hash (row_to_post_hash demo_post)])"
    using cache_ok_store [OF cache_ok_empty, of 5 demo_post]
    by (intro cache_ok_put_feed) (simp_all add: zset_ok_def post_members_def entry_def)
  moreover have "put_zset (feed_key 1) [entry demo_post] [post_key 5 \<mapsto> Hash (row_to_post_hash demo_post)] = ?r"
    by (auto simp: put_zset_def fun_eq_iff)
  ultimately have c: "cache_ok ?r" by simp
  have z: "zset_at [feed_key 1 \<mapsto> ZSet [entry demo_post]] (feed_key 1) = [entry demo_post]" by (simp add: zset_at_def)
  have b: "bodies_ok ?s ?r" by (simp add: bodies_ok_def demo_tables_def demo_post_def)
  have t: "0 < celebrity_cache_ttl ?S" by (simp add: default_settings_def)
  obtain L r' where "read_feed_merged ?S redis_step (Inr ?s) ''n'' 1 0 10 ?r = (Inr (map plain_item (take (nat 10) (drop (nat 0) L))), r')"
    "set L \<subseteq> set (friend_posts ?s 1)" "top_n (nat (0 + 10)) (friend_entries ?s 1) (entry ` set (take (nat (0 + 10)) L))"
    using merged_feed_complete [OF documented.redis_server_axioms demo_tables_ok(1), of ?r ?S 0 10 1 "''n''"] c b t
    by (auto simp: z demo_friend_posts)
  moreover from this(3) have "entry demo_post \<in> entry ` set (take 10 L)"
    using top_n_whole [of "{entry demo_post}" 10] by (simp add: demo_friend_posts)
  then have "L \<noteq> []" by auto
  ultimately show ?thesis by (intro exI [of _ L] exI [of _ r']) (auto simp: demo_friend_posts subset_singleton_iff)
qed

end
