(* ===== verification/Celebrity_Path.thy ===== *)
theory Celebrity_Path
  imports End_To_End Feed_Merged Feed_Invariant
begin

text \<open>
  The path of a post of an author with many followers, what \<^verbatim>\<open>reports/homework_6_websocket/scripts/celebrity_test.py\<close> tries: the handler of
  \<^verbatim>\<open>routes/posts.py\<close> publishes the event, the worker of \<^verbatim>\<open>workers/feed_worker_rmq.py\<close> leaves the feeds alone and notifies nobody, and the
  handler of \<^verbatim>\<open>GET /post/feed\<close> finds the post in the tables.
\<close>

section \<open>The worker\<close>

text \<open>The flag depends on its key and on the number of followers only.\<close>

lemma flagged_frame:
  "r' (celebrity_key f) = r (celebrity_key f) \<Longrightarrow> sql_count_followers s' f = sql_count_followers s f \<Longrightarrow> flagged S s' r' f = flagged S s r f"
  by (simp add: flagged_def cached_flag_def split: option.split)

lemma flagged_insert_post [simp]: "flagged S (sql_insert_post p s) r f = flagged S s r f"
  by (rule flagged_frame) (simp_all add: sql_count_followers_def sql_followers_def sql_insert_post_def)

lemma flagged_store [simp]: "flagged S s (r(post_key i \<mapsto> v)) f = flagged S s r f"
  by (rule flagged_frame) simp_all

lemma celebrity_handled:
  fixes w :: "('p, 'c, redis, 'b) world"
  assumes s: "master_view w = Inr s" and c: "cache_ok (wo_redis w)" and ttl: "0 < celebrity_cache_ttl S"
    and p: "dt_ok (po_created p)" "po_text p \<noteq> []" and fl: "flagged S s (wo_redis w) (po_author p)"
  shows "\<exists>r'. rmq_handle_message S redis_step pub (dumps (created_payload p)) w = (Inr (), w\<lparr>wo_redis := r'\<rparr>) \<and> cache_ok r'
    \<and> r' (post_key (po_id p)) = Some (Hash (row_to_post_hash p)) \<and> flagged S s r' (po_author p)
    \<and> (\<forall>k. k \<noteq> post_key (po_id p) \<longrightarrow> k \<noteq> celebrity_key (po_author p) \<longrightarrow> r' k = wo_redis w k)"
proof -
  let ?r1 = "(wo_redis w)(post_key (po_id p) \<mapsto> Hash (row_to_post_hash p))"
  have st: "store_post_hash redis_step (po_id p) (po_text p) (po_author p) (po_created p) (wo_redis w) = (Inr (), ?r1)"
    using store_effect [OF c, of "po_id p" "po_text p" "po_author p" "po_created p"] by (simp add: row_to_post_hash_def)
  have "flagged S s ?r1 (po_author p)" using fl by simp
  then obtain r2 where r2: "is_celebrity S redis_step (Inr s) (po_author p) ?r1 = (Inr True, r2)" "cache_ok r2"
      "\<forall>k. k \<noteq> celebrity_key (po_author p) \<longrightarrow> r2 k = ?r1 k" "flagged S s r2 (po_author p)"
    using is_celebrity_frame [OF cache_ok_store [OF c] ttl, of s "po_author p" "po_id p" p] by auto
  have "rmq_handle_message S redis_step pub (dumps (created_payload p)) w = (Inr (), w\<lparr>wo_redis := r2\<rparr>)"
    using p(2) st r2(1) s
    by (simp add: handle_created_payload rmq_handle_created_def on_redis_def created_fields_payload [OF p(1)])
  then show ?thesis using r2 by auto
qed

section \<open>The reader\<close>

text \<open>What is newer than everything else is among the newest \<open>n\<close>, and first of a list sorted by time.\<close>

lemma newest_in_top:
  assumes "top_n n E Z" and "finite E" and "0 < n" and "e \<in> E" and "\<And>x. x \<in> E \<Longrightarrow> x \<noteq> e \<Longrightarrow> snd x < snd e"
  shows "e \<in> Z"
proof (rule ccontr)
  assume e: "e \<notin> Z"
  have "0 < card E" using assms(2,4) by (auto simp: card_gt_0_iff)
  then have "Z \<noteq> {}" using assms(1,3) by (auto simp: top_n_def)
  then obtain z where z: "z \<in> Z" by blast
  then have "z \<in> E" "snd e \<le> snd z" using assms(1,4) e by (auto simp: top_n_def)
  then show False using assms(5) [of z] e z by force
qed

lemma newest_is_head:
  assumes "sorted_wrt (\<lambda>p q. po_created q \<le> po_created p) L" and "p \<in> set L" and "\<forall>q \<in> set L. q \<noteq> p \<longrightarrow> po_created q < po_created p"
  shows "\<exists>rest. L = p # rest"
proof (cases L)
  case (Cons q rest)
  then show ?thesis using assms by (cases "q = p") (auto simp: not_le)
qed (use assms(2) in simp)

lemma plain_item_post: "item_post (plain_item p) = Inr (post_reply p)"
  by (simp add: item_post_def plain_item_def UUID_str post_reply_def)

lemma map_plain_items: "map_res item_post (map plain_item ps) = Inr (map post_reply ps)"
  by (induction ps) (simp_all add: plain_item_post)

section \<open>From the request to the feed of a follower\<close>

lemma celebrity_feed:
  assumes s: "social_ok (sql_insert_post p s)" and r: "cache_ok r" "cache_ok r'" "bodies_ok s r" "r (feed_key u) \<noteq> None"
    and frame: "r' (post_key (po_id p)) = Some (Hash (row_to_post_hash p))" "flagged S s r' (po_author p)"
      "\<forall>k. k \<noteq> post_key (po_id p) \<longrightarrow> k \<noteq> celebrity_key (po_author p) \<longrightarrow> r' k = r k"
    and sound: "set (zset_at r (feed_key u)) \<subseteq> friend_entries s u"
    and complete: "\<forall>q \<in> set (friend_posts s u). \<not> flagged S s r (po_author q) \<longrightarrow> entry q \<in> set (zset_at r (feed_key u))"
    and friend: "(u, po_author p) \<in> set (so_friends s)" and newest: "\<forall>q \<in> set (friend_posts s u). po_created q < po_created p"
    and S: "0 < celebrity_cache_ttl S" "1 \<le> limit"
  shows "\<exists>rest r''. read_feed_merged S redis_step (Inr (sql_insert_post p s)) n u 0 limit r' = (Inr (map plain_item (p # rest)), r'')"
proof -
  let ?s = "sql_insert_post p s"
  have feeds: "r' (feed_key v) = r (feed_key v)" for v using frame(3) by simp
  have zsets: "zset_at r' (feed_key v) = zset_at r (feed_key v)" for v by (simp add: zset_at_def feeds)
  have posts: "set (friend_posts ?s u) = insert p (set (friend_posts s u))" using friend by (auto simp: set_friend_posts sql_insert_post_def)
  have bodies: "bodies_ok ?s r'"
    unfolding bodies_ok_def
  proof
    fix q assume q: "q \<in> set (so_posts ?s)"
    show "r' (post_key (po_id q)) = Some (Hash (row_to_post_hash q))"
    proof (cases "q = p")
      case False
      then have q': "q \<in> set (so_posts s)" using q by (simp add: sql_insert_post_def)
      have "po_id p \<notin> po_id ` set (so_posts s)" using s by (simp add: social_ok_def sql_insert_post_def)
      then have "po_id q \<noteq> po_id p" using q' by (metis imageI)
      then have "r' (post_key (po_id q)) = r (post_key (po_id q))" using frame(3) by simp
      then show ?thesis using r(3) q' by (simp add: bodies_ok_def)
    qed (simp add: frame(1))
  qed
  have sound': "set (zset_at r' (feed_key u)) \<subseteq> friend_entries ?s u" using sound friend by (auto simp: zsets friend_entries_insert)
  have complete': "\<forall>q \<in> set (friend_posts ?s u). \<not> flagged S ?s r' (po_author q) \<longrightarrow> entry q \<in> set (zset_at r' (feed_key u))"
  proof (intro ballI impI)
    fix q assume q: "q \<in> set (friend_posts ?s u)" "\<not> flagged S ?s r' (po_author q)"
    have a: "po_author q \<noteq> po_author p" using q(2) frame(2) by auto
    then have "r' (celebrity_key (po_author q)) = r (celebrity_key (po_author q))" using frame(3) by simp
    then have "\<not> flagged S s r (po_author q)" using q(2) flagged_frame [of r' "po_author q" r s s S] by simp
    moreover have "q \<in> set (friend_posts s u)" using q(1) a posts by auto
    ultimately show "entry q \<in> set (zset_at r' (feed_key u))" using complete by (simp add: zsets)
  qed
  have some: "r' (feed_key u) \<noteq> None" using r(4) by (simp add: feeds)
  obtain L r'' where L: "read_feed_merged S redis_step (Inr ?s) n u 0 limit r' = (Inr (map plain_item (take (nat limit) L)), r'')"
      "set L \<subseteq> set (friend_posts ?s u)" "sorted_wrt (\<lambda>p q. po_created q \<le> po_created p) L"
      "top_n (nat limit) (friend_entries ?s u) (entry ` set (take (nat limit) L))"
    using merged_effect [OF s r(2) bodies S(1) order_refl S(2) some sound' complete', of n] by (auto simp del: split_paired_Ex)
  have ok: "posts_ok (friend_posts ?s u)" by (rule posts_ok_friend_posts [OF s])
  have p: "p \<in> set (friend_posts ?s u)" using posts by simp
  have "entry p \<in> entry ` set (take (nat limit) L)"
  proof (rule newest_in_top [OF L(4)])
    show "snd x < snd (entry p)" if x: "x \<in> friend_entries ?s u" "x \<noteq> entry p" for x
    proof -
      obtain q where q: "x = entry q" "q \<in> set (friend_posts ?s u)" using x(1) by blast
      then have "po_created q < po_created p" using posts newest x(2) by auto
      moreover have "dt_ok (po_created q)" "dt_ok (po_created p)" using ok q(2) p by (auto simp: posts_ok_def)
      ultimately show ?thesis by (simp add: q(1) entry_def timestamp_mono)
    qed
  qed (use p S(2) in auto)
  then obtain q where q: "q \<in> set (take (nat limit) L)" "entry q = entry p" by force
  then have "q = p" using inj_onD [OF inj_on_entry [OF ok] q(2)] L(2) p by (auto dest!: in_set_takeD)
  then have "p \<in> set L" using q(1) by (auto dest!: in_set_takeD)
  moreover have "\<forall>q \<in> set L. q \<noteq> p \<longrightarrow> po_created q < po_created p" using L(2) posts newest by blast
  ultimately obtain rest where "L = p # rest" using newest_is_head [OF L(3)] by blast
  moreover have "nat limit = Suc (nat (limit - 1))" using S(2) by simp
  ultimately have "take (nat limit) L = p # take (nat (limit - 1)) rest" by simp
  then show ?thesis using L(1) by auto
qed

lemma celebrity_path:
  fixes w :: "('p, 'c, redis, 'b) world"
  assumes lb: "live_broker bind unbind pub bound inbox up" and tr: "feed_transport S = ''rabbitmq''"
    and m: "db_master_pool (wo_database w) = Some mp" and s: "wo_tables w mp = s" "social_ok (sql_insert_post p s)"
    and a: "a \<in> us_id ` set (so_users s)" and i: "i \<notin> po_id ` set (so_posts s)"
    and c: "rc_client (wo_redis_client w) \<noteq> None" "cache_ok (wo_redis w)" "bodies_ok s (wo_redis w)" and up: "up (wo_broker w)"
    and ttl: "0 < celebrity_cache_ttl S" and p: "p = \<lparr>po_id = i, po_author = a, po_text = x, po_created = t\<rparr>" "dt_ok t" "x \<noteq> []"
    and fl: "flagged S s (wo_redis w) a" and feed: "wo_redis w (feed_key u) \<noteq> None"
    and sound: "set (zset_at (wo_redis w) (feed_key u)) \<subseteq> friend_entries s u"
    and complete: "\<forall>q \<in> set (friend_posts s u). \<not> flagged S s (wo_redis w) (po_author q) \<longrightarrow> entry q \<in> set (zset_at (wo_redis w) (feed_key u))"
    and friend: "(u, a) \<in> set (so_friends s)" and newest: "\<forall>q \<in> set (friend_posts s u). po_created q < t"
    and limit: "1 \<le> limit" "limit \<le> 1000"
  shows "\<exists>w1 w2 w3 rest. create_post S redis_step (\<lambda>k j _. pub k (dumps j)) i t x a w = (Inr i, w1)
    \<and> rmq_handle_message S redis_step (\<lambda>k j _. pub k (dumps j)) (dumps (created_payload p)) w1 = (Inr (), w2)
    \<and> wo_broker w2 = wo_broker w1 \<and> (\<forall>v. zset_at (wo_redis w2) (feed_key v) = zset_at (wo_redis w) (feed_key v))
    \<and> get_feed S redis_step n 0 limit u w2 = (Inr (post_reply p # rest), w3) \<and> wo_broker w3 = wo_broker w1"
proof -
  let ?s = "sql_insert_post p s" and ?r1 = "(wo_redis w)(post_key i \<mapsto> Hash (row_to_post_hash p))"
  obtain b1 where b1: "create_post S redis_step (\<lambda>k j _. pub k (dumps j)) i t x a w
        = (Inr i, w\<lparr>wo_tables := (wo_tables w)(mp := ?s), wo_redis := ?r1, wo_broker := b1\<rparr>)"
    using create_post_publishes [OF lb tr m s(1) a i c(1,2) up p(1)] by blast
  define w1 where "w1 = w\<lparr>wo_tables := (wo_tables w)(mp := ?s), wo_redis := ?r1, wo_broker := b1\<rparr>"
  have w1: "wo_redis w1 = ?r1" "master_view w1 = Inr ?s" "rc_client (wo_redis_client w1) \<noteq> None"
    using m c(1) by (simp_all add: w1_def master_view_def master_connection_def)
  have c1: "cache_ok ?r1" by (rule cache_ok_store [OF c(2)])
  have fl1: "flagged S ?s (wo_redis w1) (po_author p)" using fl by (simp add: w1(1) p(1))
  obtain r2 where r2: "rmq_handle_message S redis_step (\<lambda>k j _. pub k (dumps j)) (dumps (created_payload p)) w1 = (Inr (), w1\<lparr>wo_redis := r2\<rparr>)"
      "cache_ok r2" "r2 (post_key (po_id p)) = Some (Hash (row_to_post_hash p))" "flagged S ?s r2 (po_author p)"
      "\<forall>k. k \<noteq> post_key (po_id p) \<longrightarrow> k \<noteq> celebrity_key (po_author p) \<longrightarrow> r2 k = wo_redis w1 k"
    using celebrity_handled [OF w1(2) _ ttl _ _ fl1] c1 w1(1) p by auto
  have frame: "\<forall>k. k \<noteq> post_key (po_id p) \<longrightarrow> k \<noteq> celebrity_key (po_author p) \<longrightarrow> r2 k = wo_redis w k" using r2(5) w1(1) p(1) by simp
  have fl2: "flagged S s r2 (po_author p)" using r2(4) by simp
  have friend': "(u, po_author p) \<in> set (so_friends s)" and newest': "\<forall>q \<in> set (friend_posts s u). po_created q < po_created p"
    using friend newest p(1) by simp_all
  obtain rest r3 where rest: "read_feed_merged S redis_step (Inr ?s) n u 0 limit r2 = (Inr (map plain_item (p # rest)), r3)"
    using celebrity_feed [OF s(2) c(2) r2(2) c(3) feed r2(3) fl2 frame sound complete friend' newest' ttl limit(1), of n] by blast
  let ?w2 = "w1\<lparr>wo_redis := r2\<rparr>"
  have "master_view ?w2 = Inr ?s" using w1(2) by simp
  then have "get_feed S redis_step n 0 limit u ?w2 = (Inr (post_reply p # map post_reply rest), ?w2\<lparr>wo_redis := r3\<rparr>)"
    using rest tr limit w1(3) map_plain_items [of "p # rest"]
    by (auto simp: get_feed_def get_redis_def RedisClient_get_def on_redis_def split: option.splits)
  moreover have "zset_at r2 (feed_key v) = zset_at (wo_redis w) (feed_key v)" for v using frame by (simp add: zset_at_def)
  ultimately show ?thesis using b1 r2(1) by (intro exI [of _ w1] exI [of _ ?w2] exI) (auto simp: w1_def)
qed

section \<open>Any server\<close>

text \<open>With the RabbitMQ transport, a post of an author that counts as a celebrity is published to the queue of
  the worker like any other; handling the message changes no feed and notifies nobody, and still the next page of the feed of a
  friend begins with the post, if nothing of the user's friends is newer and the feed held what the worker owes it.\<close>

theorem celebrity_post_pulled:
  fixes w :: "('p, 'c, 'r, 'b) world"
  assumes "redis_server exec view" and "live_broker bind unbind pub bound inbox up" and "feed_transport S = ''rabbitmq''"
    and "db_master_pool (wo_database w) = Some mp" and "wo_tables w mp = s" and "social_ok (sql_insert_post p s)"
    and "a \<in> us_id ` set (so_users s)" and "i \<notin> po_id ` set (so_posts s)"
    and "rc_client (wo_redis_client w) \<noteq> None" and "cache_ok (view (wo_redis w))" and "bodies_ok s (view (wo_redis w))" and "up (wo_broker w)"
    and "0 < celebrity_cache_ttl S" and "p = \<lparr>po_id = i, po_author = a, po_text = x, po_created = t\<rparr>" and "dt_ok t" and "x \<noteq> []"
    and "flagged S s (view (wo_redis w)) a" and "view (wo_redis w) (feed_key u) \<noteq> None"
    and "set (zset_at (view (wo_redis w)) (feed_key u)) \<subseteq> friend_entries s u"
    and "\<forall>q \<in> set (friend_posts s u). \<not> flagged S s (view (wo_redis w)) (po_author q) \<longrightarrow> entry q \<in> set (zset_at (view (wo_redis w)) (feed_key u))"
    and "(u, a) \<in> set (so_friends s)" and "\<forall>q \<in> set (friend_posts s u). po_created q < t"
    and "1 \<le> limit" and "limit \<le> 1000"
  shows "\<exists>w1 w2 w3 rest. create_post S exec (\<lambda>k j _. pub k (dumps j)) i t x a w = (Inr i, w1)
    \<and> rmq_handle_message S exec (\<lambda>k j _. pub k (dumps j)) (dumps (created_payload p)) w1 = (Inr (), w2)
    \<and> wo_broker w2 = wo_broker w1 \<and> (\<forall>v. zset_at (view (wo_redis w2)) (feed_key v) = zset_at (view (wo_redis w)) (feed_key v))
    \<and> get_feed S exec n 0 limit u w2 = (Inr (post_reply p # rest), w3)"
proof -
  let ?pub = "\<lambda>k j _. pub k (dumps j)" and ?v = "view_world view w"
  obtain v1 v2 v3 rest where v: "create_post S redis_step ?pub i t x a ?v = (Inr i, v1)"
      "rmq_handle_message S redis_step ?pub (dumps (created_payload p)) v1 = (Inr (), v2)" "wo_broker v2 = wo_broker v1"
      "\<forall>u. zset_at (wo_redis v2) (feed_key u) = zset_at (view (wo_redis w)) (feed_key u)"
      "get_feed S redis_step n 0 limit u v2 = (Inr (post_reply p # rest), v3)"
    using celebrity_path [OF assms(2,3), of ?v mp s p a i x t u limit n] assms(4-24) by auto
  obtain w1 w2 where w: "create_post S exec ?pub i t x a w = (Inr i, w1)" "view_world view w1 = v1"
      "rmq_handle_message S exec ?pub (dumps (created_payload p)) w1 = (Inr (), w2)" "view_world view w2 = v2"
    using redis_server.request_sim [OF assms(1) v(1,2)] by blast
  obtain y w3 where w3: "get_feed S exec n 0 limit u w2 = (y, w3)" by fastforce
  have "y = Inr (post_reply p # rest)"
    using sim_result [OF redis_server.route_sims(4) [OF assms(1)] w3] w(4) v(5) by simp
  moreover have "wo_broker v1 = wo_broker w1" "wo_broker v2 = wo_broker w2" "wo_redis v2 = view (wo_redis w2)"
    by (simp_all flip: w(2,4))
  ultimately show ?thesis using w w3 v by auto
qed

text \<open>A user whose friend is a celebrity because one follower is enough, and an older post in the feed.\<close>

definition older_post :: post where
  "older_post = \<lparr>po_id = 4, po_author = 2, po_text = ''old'', po_created = Datetime 2024 2 1 12 0 0 0\<rparr>"

definition celebrity_settings :: settings where
  "celebrity_settings = default_settings\<lparr>feed_transport := ''rabbitmq'', celebrity_followers_threshold := 1\<rparr>"

definition celebrity_cache :: redis where
  "celebrity_cache = put_zset (feed_key 1) [entry older_post] [post_key 4 \<mapsto> Hash (row_to_post_hash older_post)]"

definition celebrity_world :: "(nat, unit, redis, broker) world" where
  "celebrity_world = \<lparr>wo_database = \<lparr>db_master_pool = Some 0, db_slave_pools = [], db_slave_cycle = None\<rparr>,
     wo_tables = (\<lambda>_. demo_tables [older_post] [(1, 2)]), wo_redis_client = \<lparr>rc_client = Some ()\<rparr>, wo_redis = celebrity_cache,
     wo_broker = demo_broker\<rparr>"

lemma celebrity_post_pulled_witness:
  "\<exists>w1 w2 w3 rest. create_post celebrity_settings redis_step (\<lambda>k j _. broker_publish k (dumps j)) 5 (po_created demo_post) ''hi'' 2 celebrity_world = (Inr 5, w1)
    \<and> rmq_handle_message celebrity_settings redis_step (\<lambda>k j _. broker_publish k (dumps j)) (dumps (created_payload demo_post)) w1 = (Inr (), w2)
    \<and> wo_broker w2 = wo_broker w1 \<and> zset_at (wo_redis w2) (feed_key 1) = [entry older_post]
    \<and> get_feed celebrity_settings redis_step ''n'' 0 10 1 w2 = (Inr (post_reply demo_post # rest), w3)"
proof -
  let ?S = celebrity_settings and ?w = celebrity_world and ?s = "demo_tables [older_post] [(1, 2)]"
  have S: "feed_transport ?S = ''rabbitmq''" "0 < celebrity_cache_ttl ?S" by (simp_all add: celebrity_settings_def default_settings_def)
  have w: "db_master_pool (wo_database ?w) = Some 0" "wo_tables ?w 0 = ?s" "rc_client (wo_redis_client ?w) \<noteq> None" "bk_up (wo_broker ?w)"
      "wo_redis ?w = celebrity_cache"
    by (auto simp: celebrity_world_def demo_broker_def)
  have c: "cache_ok (wo_redis ?w)"
    using cache_ok_store [OF cache_ok_empty, of 4 older_post] unfolding w(5) celebrity_cache_def
    by (intro cache_ok_put_feed) (simp_all add: zset_ok_def post_members_def entry_def)
  have z: "zset_at (wo_redis ?w) (feed_key 1) = [entry older_post]" "wo_redis ?w (feed_key 1) \<noteq> None"
    by (simp_all add: w(5) celebrity_cache_def put_zset_def zset_at_def)
  have s: "social_ok (sql_insert_post demo_post ?s)"
    by (simp add: social_ok_def sql_insert_post_def demo_tables_def demo_user_def demo_post_def older_post_def dt_ok_def days_in_month_def)
  have a: "2 \<in> us_id ` set (so_users ?s)" "5 \<notin> po_id ` set (so_posts ?s)" by (simp_all add: demo_tables_def demo_user_def older_post_def)
  have b: "bodies_ok ?s (wo_redis ?w)" by (simp add: bodies_ok_def demo_tables_def w(5) celebrity_cache_def older_post_def put_zset_def)
  have p: "demo_post = \<lparr>po_id = 5, po_author = 2, po_text = ''hi'', po_created = po_created demo_post\<rparr>" "dt_ok (po_created demo_post)" "''hi'' \<noteq> []"
    by (simp_all add: demo_post_def dt_ok_def days_in_month_def)
  have fl: "flagged ?S ?s (wo_redis ?w) 2"
    by (simp add: flagged_def cached_flag_def w(5) celebrity_cache_def put_zset_def sql_count_followers_def sql_followers_def demo_tables_def
        celebrity_settings_def default_settings_def)
  have f: "friend_posts ?s 1 = [older_post]" by (simp add: friend_posts_def demo_tables_def older_post_def)
  have sound: "set (zset_at (wo_redis ?w) (feed_key 1)) \<subseteq> friend_entries ?s 1" by (simp add: z f)
  have complete: "\<forall>q \<in> set (friend_posts ?s 1). \<not> flagged ?S ?s (wo_redis ?w) (po_author q) \<longrightarrow> entry q \<in> set (zset_at (wo_redis ?w) (feed_key 1))"
    by (simp add: z f)
  have friend: "(1, 2) \<in> set (so_friends ?s)" by (simp add: demo_tables_def)
  have newest: "\<forall>q \<in> set (friend_posts ?s 1). po_created q < po_created demo_post" unfolding f by (simp add: older_post_def demo_post_def less_datetime_def dt_key_def)
  note celebrity_post_pulled [where view = "\<lambda>r. r" and w = celebrity_world, OF documented.redis_server_axioms live.live_broker_axioms S(1) w(1,2) s a w(3) c b w(4) S(2) p fl z(2)
      sound complete friend newest, of 10 "''n''"]
  then show ?thesis using z(1) by auto
qed

end
