(* ===== verification/Reports.thy ===== *)
theory Reports
  imports Feed_Worker_Rmq Complex_Main "HOL-Library.AList"
begin

text \<open>
  The acceptance scripts under \<^verbatim>\<open>reports/homework_6_websocket/scripts/\<close>: what they conclude from the messages of a websocket and from
  the responses to their requests, which are arguments.  The latencies are rational numbers; the index of a percentile is computed in
  integers, which gives the same as the script's floating-point product for the hundred posts it sends at most.
\<close>

section \<open>Messages of the socket\<close>

text \<open>\<^verbatim>\<open>payload.get("type") == t\<close>.\<close>

definition has_type :: "string \<Rightarrow> json \<Rightarrow> bool res" where
  "has_type t payload = bindR (json_get payload ''type'') (\<lambda>v. Inr (v = JStr t))"

fun filter_res :: "('a \<Rightarrow> bool res) \<Rightarrow> 'a list \<Rightarrow> 'a list res" where
  "filter_res f [] = Inr []"
| "filter_res f (x # xs) = bindR (f x) (\<lambda>b. bindR (filter_res f xs) (\<lambda>ys. Inr (if b then x # ys else ys)))"

text \<open>\<^verbatim>\<open>ws_test.py\<close>: the exit code after the response to the request and the messages of the socket.\<close>

definition ws_test_exit :: "json res \<Rightarrow> json list \<Rightarrow> int res" where
  "ws_test_exit response received =
     bindR response (\<lambda>_.
     bindR (filter_res (has_type ''post.new'') received) (\<lambda>post_news.
     bindR (filter_res (has_type ''ping'') received) (\<lambda>pings.
       Inr (if post_news \<noteq> [] then 0 else 1))))"

text \<open>\<^verbatim>\<open>ws_scale_test.py\<close>: the socket is on one process, the request goes to another.\<close>

definition PORTS :: "nat list" where
  "PORTS = [49883, 49885, 49884]"

definition scale_test_exit :: "(nat \<Rightarrow> json list) \<Rightarrow> int res" where
  "scale_test_exit messages_at =
     bindR (filter_res (has_type ''post.new'') (messages_at (PORTS ! 0))) (\<lambda>post_news. Inr (if post_news \<noteq> [] then 0 else 1))"

text \<open>\<^verbatim>\<open>celebrity_test.py\<close>: the reader keeps the notifications; an exception ends it.\<close>

fun celebrity_reader :: "json list \<Rightarrow> json list" where
  "celebrity_reader [] = []"
| "celebrity_reader (payload # msgs) =
     (case has_type ''post.new'' payload of
        Inl e \<Rightarrow> []
      | Inr b \<Rightarrow>
          if b then payload # (case json_item payload ''post_id'' of Inl e \<Rightarrow> [] | Inr _ \<Rightarrow> celebrity_reader msgs)
          else celebrity_reader msgs)"

fun any_res :: "('a \<Rightarrow> bool res) \<Rightarrow> 'a list \<Rightarrow> bool res" where
  "any_res f [] = Inr False"
| "any_res f (x # xs) = bindR (f x) (\<lambda>b. if b then Inr True else any_res f xs)"

definition celebrity_test_exit :: "json \<Rightarrow> json list \<Rightarrow> json list \<Rightarrow> int res" where
  "celebrity_test_exit created feed messages =
     bindR (json_item created ''id'') (\<lambda>post_id.
     bindR (any_res (\<lambda>p. bindR (json_item p ''id'') (\<lambda>i. Inr (i = post_id))) feed) (\<lambda>in_feed.
       Inr (if celebrity_reader messages = [] \<and> in_feed then 0 else 1)))"

section \<open>Latencies\<close>

definition hashable :: "json \<Rightarrow> bool" where
  "hashable j = (case j of JObj _ \<Rightarrow> False | JList _ \<Rightarrow> False | _ \<Rightarrow> True)"

text \<open>The reader of \<^verbatim>\<open>load_test.py\<close> and \<^verbatim>\<open>load_seq.py\<close>: the time of the last notification of every post.\<close>

fun latency_reader :: "(rat \<times> json) list \<Rightarrow> (json \<rightharpoonup> rat) \<Rightarrow> (json \<rightharpoonup> rat)" where
  "latency_reader [] received = received"
| "latency_reader ((time, payload) # msgs) received =
     (case has_type ''post.new'' payload of
        Inl e \<Rightarrow> received
      | Inr b \<Rightarrow>
          if b then (case json_item payload ''post_id'' of
              Inl e \<Rightarrow> received
            | Inr pid \<Rightarrow> if hashable pid then latency_reader msgs (received(pid \<mapsto> time)) else received)
          else latency_reader msgs received)"

text \<open>A response comes with the time the request was sent at.  \<^verbatim>\<open>load_test.py\<close> skips the failed requests, \<^verbatim>\<open>load_seq.py\<close> does not look at the
  status.\<close>

fun load_sent :: "(rat \<times> int \<times> json) list \<Rightarrow> (json \<times> rat) list \<Rightarrow> (json \<times> rat) list res" where
  "load_sent [] sent = Inr sent"
| "load_sent ((t0, status, payload) # rs) sent =
     (if status = 200 then
        bindR (json_item payload ''id'') (\<lambda>pid.
          if hashable pid then load_sent rs (AList.update pid t0 sent) else Inl (TypeError ''unhashable type''))
      else load_sent rs sent)"

fun seq_sent :: "(rat \<times> json) list \<Rightarrow> (json \<times> rat) list \<Rightarrow> (json \<times> rat) list res" where
  "seq_sent [] sent = Inr sent"
| "seq_sent ((t0, payload) # rs) sent =
     bindR (json_item payload ''id'') (\<lambda>pid.
       if hashable pid then seq_sent rs (AList.update pid t0 sent) else Inl (TypeError ''unhashable type''))"

definition latencies_ms :: "(json \<times> rat) list \<Rightarrow> (json \<rightharpoonup> rat) \<Rightarrow> rat list" where
  "latencies_ms sent received =
     concat (map (\<lambda>(pid, snt). case received pid of None \<Rightarrow> [] | Some rcv \<Rightarrow> [(rcv - snt) * 1000]) sent)"

record latency_stats =
  la_min :: rat
  la_p50 :: rat
  la_p95 :: rat
  la_p99 :: rat
  la_max :: rat
  la_avg :: rat

definition latency_summary :: "rat list \<Rightarrow> latency_stats option" where
  "latency_summary latencies =
     (let xs = sort latencies; n = length xs in
      if xs = [] then None
      else Some \<lparr>la_min = Min (set xs), la_p50 = xs ! (n div 2), la_p95 = xs ! (n * 95 div 100), la_p99 = xs ! (n * 99 div 100),
        la_max = Max (set xs), la_avg = sum_list xs / of_nat n\<rparr>)"

text \<open>The report of \<^verbatim>\<open>load_test.py\<close>: posts sent, notifications delivered, losses and the summary.\<close>

definition load_report :: "(rat \<times> int \<times> json) list \<Rightarrow> (rat \<times> json) list \<Rightarrow> (nat \<times> nat \<times> int \<times> latency_stats option) res" where
  "load_report responses messages =
     bindR (load_sent responses []) (\<lambda>sent.
       let latencies = latencies_ms sent (latency_reader messages Map.empty) in
       Inr (length sent, length latencies, int (length sent) - int (length latencies), latency_summary latencies))"

definition seq_report :: "(rat \<times> json) list \<Rightarrow> (rat \<times> json) list \<Rightarrow> (nat \<times> latency_stats option) res" where
  "seq_report responses messages =
     bindR (seq_sent responses []) (\<lambda>sent.
       let latencies = latencies_ms sent (latency_reader messages Map.empty) in Inr (length latencies, latency_summary latencies))"

section \<open>What the reports show\<close>

text \<open>No index is out of range, and the numbers of a summary are latencies in ascending order around their average.\<close>

lemma summary_ordered:
  assumes "latency_summary latencies = Some s"
  shows "{la_min s, la_p50 s, la_p95 s, la_p99 s, la_max s} \<subseteq> set latencies"
    and "la_min s \<le> la_p50 s \<and> la_p50 s \<le> la_p95 s \<and> la_p95 s \<le> la_p99 s \<and> la_p99 s \<le> la_max s"
proof -
  define xs where "xs = sort latencies"
  have ne: "xs \<noteq> []" and sorted: "sorted xs" and set: "set xs = set latencies"
    using assms by (auto simp: xs_def latency_summary_def Let_def split: if_splits)
  let ?n = "length xs"
  have "0 < ?n" using ne by simp
  then have n: "?n div 2 < ?n" "?n * 95 div 100 < ?n" "?n * 99 div 100 < ?n" by (simp_all add: less_mult_imp_div_less)
  have s: "la_min s = Min (set xs)" "la_p50 s = xs ! (?n div 2)" "la_p95 s = xs ! (?n * 95 div 100)" "la_p99 s = xs ! (?n * 99 div 100)"
      "la_max s = Max (set xs)"
    using assms ne by (auto simp: xs_def latency_summary_def Let_def)
  have mem: "Min (set xs) \<in> set xs" "Max (set xs) \<in> set xs" using ne by simp_all
  show "{la_min s, la_p50 s, la_p95 s, la_p99 s, la_max s} \<subseteq> set latencies"
    using mem n nth_mem by (simp add: s set [symmetric])
  have "xs ! (?n div 2) \<le> xs ! (?n * 95 div 100)" "xs ! (?n * 95 div 100) \<le> xs ! (?n * 99 div 100)"
    using n by (auto intro!: sorted_nth_mono [OF sorted])
  then show "la_min s \<le> la_p50 s \<and> la_p50 s \<le> la_p95 s \<and> la_p95 s \<le> la_p99 s \<and> la_p99 s \<le> la_max s"
    using n by (simp add: s)
qed

text \<open>A notification that the bridge pushes makes the test pass.\<close>

lemma post_new_type: "has_type ''post.new'' (post_new_payload i a x t) = Inr True" "has_type ''ping'' (post_new_payload i a x t) = Inr False"
  by (simp_all add: has_type_def json_get_def post_new_payload_def bindR_def)

lemma ws_test_passes: "ws_test_exit (Inr r) [post_new_payload i a x t] = Inr 0"
  by (simp add: ws_test_exit_def post_new_type bindR_def)

lemma scale_test_passes: "messages_at 49883 = [post_new_payload i a x t] \<Longrightarrow> scale_test_exit messages_at = Inr 0"
  by (simp add: scale_test_exit_def PORTS_def post_new_type bindR_def)

text \<open>The test of the celebrities passes when the socket got pings only and the page has the post.\<close>

lemma celebrity_test_passes:
  assumes "\<forall>m \<in> set messages. has_type ''post.new'' m = Inr False" and "json_item created ''id'' = Inr i"
    and "feed = map (\<lambda>j. JObj [(''id'', j)]) ids" and "i \<in> set ids"
  shows "celebrity_test_exit created feed messages = Inr 0"
proof -
  have "celebrity_reader messages = []" using assms(1) by (induction messages) auto
  moreover have "any_res (\<lambda>p. bindR (json_item p ''id'') (\<lambda>j. Inr (j = i))) (map (\<lambda>j. JObj [(''id'', j)]) ids) = Inr True"
    using assms(4) by (induction ids) (auto simp: json_item_def bindR_def)
  ultimately show ?thesis using assms(2,3) by (simp add: celebrity_test_exit_def bindR_def)
qed

text \<open>The load test counts no loss when every post it created has been notified.\<close>

lemma latency_count: "length (latencies_ms sent received) = length (filter (\<lambda>(pid, t). received pid \<noteq> None) sent)"
  by (induction sent) (auto simp: latencies_ms_def split: option.splits)

lemma load_report_no_loss:
  assumes "load_sent responses [] = Inr sent" and "\<forall>p \<in> set sent. latency_reader messages Map.empty (fst p) \<noteq> None"
  shows "\<exists>s. load_report responses messages = Inr (length sent, length sent, 0, s)"
proof -
  have "filter (\<lambda>(pid, t). latency_reader messages Map.empty pid \<noteq> None) sent = sent" using assms(2) by (auto simp: filter_id_conv)
  then show ?thesis using assms(1) by (simp add: load_report_def bindR_def latency_count Let_def)
qed

end
