(* ===== verification/Acceptance.thy ===== *)
theory Acceptance
  imports Reports
begin

text \<open>
  The acceptance scripts under \<^verbatim>\<open>reports/homework_6_websocket/scripts/\<close> as programs of a client: Alice listens on a websocket while Bob
  publishes.  What a client can do is the record \<open>client\<close>; the scripts are over any such client.  The locale \<open>notification_service\<close> says
  what the scripts rely on in the system they test, and what they report is proved in it.
\<close>

section \<open>A client\<close>

text \<open>\<^verbatim>\<open>websockets.connect\<close> to a port with a token, the close of the socket, the messages its reader has got with their times, a request to
  \<^verbatim>\<open>/post/create\<close> (the status and what \<^verbatim>\<open>r.json()\<close> returns), a request to \<^verbatim>\<open>/post/feed\<close>, \<^verbatim>\<open>asyncio.sleep\<close> and \<^verbatim>\<open>time.time\<close>; last the
  database and the cache as \<^verbatim>\<open>celebrity_test.py\<close> opens them.\<close>

record 's client =
  ck_connect :: "nat \<Rightarrow> string \<Rightarrow> ('s, nat) prog"
  ck_close :: "nat \<Rightarrow> ('s, unit) prog"
  ck_received :: "nat \<Rightarrow> 's \<Rightarrow> (rat \<times> json) list"
  ck_post :: "nat \<Rightarrow> string \<Rightarrow> string \<Rightarrow> ('s, int \<times> json res) prog"
  ck_page :: "nat \<Rightarrow> string \<Rightarrow> ('s, int \<times> json res) prog"
  ck_pause :: "rat \<Rightarrow> ('s, unit) prog"
  ck_time :: "'s \<Rightarrow> rat"
  ck_database :: "('s, unit) prog"
  ck_set :: "string \<Rightarrow> string \<Rightarrow> ('s, unit) prog"

definition ask :: "('s \<Rightarrow> 'a) \<Rightarrow> ('s, 'a) prog" where
  "ask f s = (Inr (f s), s)"

section \<open>The scripts\<close>

text \<open>\<^verbatim>\<open>open(path).read().strip()\<close>.\<close>

definition read_token :: "(string \<Rightarrow> string res) \<Rightarrow> string \<Rightarrow> ('s, string) prog" where
  "read_token read_file path = liftP (bindR (read_file path) (\<lambda>text. Inr (py_strip text)))"

definition ws_test :: "'s client \<Rightarrow> (string \<Rightarrow> string res) \<Rightarrow> ('s, int) prog" where
  "ws_test C read_file =
     bindP (read_token read_file ''/tmp/jwt_a'') (\<lambda>jwt_a.
     bindP (read_token read_file ''/tmp/jwt_b'') (\<lambda>jwt_b.
     bindP (ck_connect C 8090 jwt_a) (\<lambda>ws.
     bindP (finallyP
         (bindP (ck_pause C (1 / 2)) (\<lambda>_.
          bindP (ck_post C 8090 jwt_b ''Hello from Bob, real-time test'') (\<lambda>(status, body).
          bindP (liftP body) (\<lambda>response.
          bindP (ck_pause C 3) (\<lambda>_.
          bindP (ask (ck_received C ws)) (\<lambda>messages. returnP (response, map snd messages)))))))
         (ck_close C ws)) (\<lambda>(response, received).
       liftP (ws_test_exit (Inr response) received)))))"

definition ws_scale_test :: "'s client \<Rightarrow> (string \<Rightarrow> string res) \<Rightarrow> ('s, int) prog" where
  "ws_scale_test C read_file =
     bindP (read_token read_file ''/tmp/jwt_a'') (\<lambda>jwt_a.
     bindP (read_token read_file ''/tmp/jwt_b'') (\<lambda>jwt_b.
     let alice_inst = PORTS ! 0; bob_post_inst = PORTS ! 2 in
     bindP (ck_connect C alice_inst jwt_a) (\<lambda>ws.
     bindP (finallyP
         (bindP (ck_pause C (1 / 2)) (\<lambda>_.
          bindP (ck_post C bob_post_inst jwt_b (''Scale test from inst '' @ nat_str bob_post_inst)) (\<lambda>_.
          bindP (ck_pause C 3) (\<lambda>_. ask (ck_received C ws)))))
         (ck_close C ws)) (\<lambda>messages.
       liftP (scale_test_exit ((\<lambda>_. [])(alice_inst := map snd messages)))))))"

text \<open>\<^verbatim>\<open>load_seq.py\<close> and \<^verbatim>\<open>load_test.py\<close>.  \<open>reader_keys\<close> are the keys of the dictionary the reader fills, whose number the loop looks at.\<close>

definition WS_PORT :: nat where "WS_PORT = 49883"
definition POST_PORT :: nat where "POST_PORT = 49885"
definition SEQ_N :: nat where "SEQ_N = 30"
definition N_POSTS :: nat where "N_POSTS = 100"

fun reader_keys :: "(rat \<times> json) list \<Rightarrow> json list \<Rightarrow> json list" where
  "reader_keys [] ks = ks"
| "reader_keys ((time, payload) # msgs) ks =
     (case has_type ''post.new'' payload of
        Inl e \<Rightarrow> ks
      | Inr b \<Rightarrow>
          if b then (case json_item payload ''post_id'' of
              Inl e \<Rightarrow> ks
            | Inr pid \<Rightarrow> if hashable pid then reader_keys msgs (List.insert pid ks) else ks)
          else reader_keys msgs ks)"

text \<open>The loop that waits for the deliveries, at most \<open>k\<close> rounds.\<close>

fun await_delivery :: "'s client \<Rightarrow> nat \<Rightarrow> nat \<Rightarrow> nat \<Rightarrow> ('s, unit) prog" where
  "await_delivery C ws n 0 = returnP ()"
| "await_delivery C ws n (Suc k) =
     bindP (ask (ck_received C ws)) (\<lambda>received.
       if n \<le> length (reader_keys received []) then returnP ()
       else bindP (ck_pause C (1 / 10)) (\<lambda>_. await_delivery C ws n k))"

fun seq_posts :: "'s client \<Rightarrow> string \<Rightarrow> nat list \<Rightarrow> (json \<times> rat) list \<Rightarrow> ('s, (json \<times> rat) list) prog" where
  "seq_posts C jwt_b [] sent = returnP sent"
| "seq_posts C jwt_b (i # js) sent =
     bindP (ask (ck_time C)) (\<lambda>t0.
     bindP (ck_post C POST_PORT jwt_b (''seq #'' @ nat_str i)) (\<lambda>(status, body).
     bindP (liftP (bindR body (\<lambda>payload. seq_sent [(t0, payload)] sent))) (\<lambda>sent.
     bindP (ck_pause C (1 / 20)) (\<lambda>_. seq_posts C jwt_b js sent))))"

definition load_seq :: "'s client \<Rightarrow> (string \<Rightarrow> string res) \<Rightarrow> ('s, nat \<times> latency_stats option) prog" where
  "load_seq C read_file =
     bindP (read_token read_file ''/tmp/jwt_a'') (\<lambda>jwt_a.
     bindP (read_token read_file ''/tmp/jwt_b'') (\<lambda>jwt_b.
     bindP (ck_connect C WS_PORT jwt_a) (\<lambda>ws.
     bindP (finallyP
         (bindP (ck_pause C (3 / 10)) (\<lambda>_.
          bindP (seq_posts C jwt_b [0..<SEQ_N] []) (\<lambda>sent.
          bindP (await_delivery C ws SEQ_N 50) (\<lambda>_.
          bindP (ask (ck_received C ws)) (\<lambda>messages. returnP (sent, messages))))))
         (ck_close C ws)) (\<lambda>(sent, messages).
       let latencies = latencies_ms sent (latency_reader messages Map.empty) in returnP (length latencies, latency_summary latencies)))))"

text \<open>\<^verbatim>\<open>asyncio.gather\<close> of the posts: all are sent, the first exception is raised.\<close>

fun gather_posts :: "'s client \<Rightarrow> string \<Rightarrow> nat list \<Rightarrow> (json \<times> rat) list \<Rightarrow> ('s, (json \<times> rat) list) prog" where
  "gather_posts C jwt_b [] sent s = (Inr sent, s)"
| "gather_posts C jwt_b (i # js) sent s =
     (case ck_post C POST_PORT jwt_b (''Load test #'' @ nat_str i) s of (x, s1) \<Rightarrow>
       (case bindR x (\<lambda>(status, body).
             if status = 200 then bindR body (\<lambda>payload. load_sent [(ck_time C s, status, payload)] sent) else Inr sent) of
          Inl e \<Rightarrow> (Inl e, snd (gather_posts C jwt_b js sent s1))
        | Inr sent' \<Rightarrow> gather_posts C jwt_b js sent' s1))"

definition load_test :: "'s client \<Rightarrow> (string \<Rightarrow> string res) \<Rightarrow> ('s, nat \<times> nat \<times> int \<times> latency_stats option) prog" where
  "load_test C read_file =
     bindP (read_token read_file ''/tmp/jwt_a'') (\<lambda>jwt_a.
     bindP (read_token read_file ''/tmp/jwt_b'') (\<lambda>jwt_b.
     bindP (ck_connect C WS_PORT jwt_a) (\<lambda>ws.
     bindP (finallyP
         (bindP (ck_pause C (3 / 10)) (\<lambda>_.
          bindP (gather_posts C jwt_b [0..<N_POSTS] []) (\<lambda>sent.
          bindP (await_delivery C ws N_POSTS 50) (\<lambda>_.
          bindP (ask (ck_received C ws)) (\<lambda>messages. returnP (sent, messages))))))
         (ck_close C ws)) (\<lambda>(sent, messages).
       let latencies = latencies_ms sent (latency_reader messages Map.empty) in
       returnP (length sent, length latencies, int (length sent) - int (length latencies), latency_summary latencies)))))"

text \<open>\<^verbatim>\<open>celebrity_test.py\<close>: it marks Bob in the cache and looks whether the post comes over the socket and whether it is in the page.
  \<^verbatim>\<open>for p in feed\<close> goes over what \<^verbatim>\<open>r2.json()\<close> returned.\<close>

definition json_iter :: "json \<Rightarrow> json list res" where
  "json_iter j = (case j of
       JList xs \<Rightarrow> Inr xs
     | JObj kvs \<Rightarrow> Inr (map JStr (remdups (map fst kvs)))
     | JStr s \<Rightarrow> Inr (map (\<lambda>c. JStr [c]) s)
     | _ \<Rightarrow> Inl (TypeError ''not iterable''))"

definition BOB_ID :: string where
  "BOB_ID = ''34216502-3b48-41a4-8cf4-11c5a0b5672e''"

definition celebrity_text :: string where
  "celebrity_text = ''Celebrity post '' @ [CHR 0xE2, CHR 0x80, CHR 0x94] @ '' should NOT push to WS''"

definition celebrity_test :: "'s client \<Rightarrow> (string \<Rightarrow> string res) \<Rightarrow> ('s, int) prog" where
  "celebrity_test C read_file =
     bindP (read_token read_file ''/tmp/jwt_a'') (\<lambda>jwt_a.
     bindP (read_token read_file ''/tmp/jwt_b'') (\<lambda>jwt_b.
     bindP (ck_database C) (\<lambda>_.
     bindP (ck_set C (''celebrity:'' @ BOB_ID) ''1'') (\<lambda>_.
     bindP (ck_connect C 49883 jwt_a) (\<lambda>ws.
     bindP (finallyP
         (bindP (ck_pause C (1 / 2)) (\<lambda>_.
          bindP (ck_post C 49885 jwt_b celebrity_text) (\<lambda>(status, body).
          bindP (liftP body) (\<lambda>created.
          bindP (liftP (json_item created ''id'')) (\<lambda>post_id.
          bindP (ck_pause C 2) (\<lambda>_.
          bindP (ck_page C 49883 jwt_a) (\<lambda>(status2, body2).
          bindP (liftP (bindR body2 json_iter)) (\<lambda>feed.
          bindP (ck_pause C (1 / 2)) (\<lambda>_.
          bindP (ask (ck_received C ws)) (\<lambda>messages. returnP (created, feed, map snd messages)))))))))))
         (ck_close C ws)) (\<lambda>(created, feed, messages).
       liftP (celebrity_test_exit created feed messages)))))))"

section \<open>Announcements\<close>

definition announces :: "json \<Rightarrow> string \<Rightarrow> bool" where
  "announces m pid \<longleftrightarrow> has_type ''post.new'' m = Inr True \<and> json_item m ''post_id'' = Inr (JStr pid)"

abbreviation announced :: "(rat \<times> json) list \<Rightarrow> string list \<Rightarrow> bool" where
  "announced ms pids \<equiv> list_all2 announces (map snd ms) pids"

lemma announced_Cons:
  assumes "announced ms (pid # pids)"
  obtains t m ms' where "ms = (t, m) # ms'" "has_type ''post.new'' m = Inr True" "json_item m ''post_id'' = Inr (JStr pid)" "announced ms' pids"
  using assms by (cases ms) (auto simp: announces_def [of _ pid])

lemma announced_keys: "announced ms pids \<Longrightarrow> set (reader_keys ms ks) = set ks \<union> JStr ` set pids"
proof (induction pids arbitrary: ms ks)
  case (Cons pid pids)
  from Cons.prems obtain t m ms' where m: "ms = (t, m) # ms'" "has_type ''post.new'' m = Inr True" "json_item m ''post_id'' = Inr (JStr pid)"
    "announced ms' pids" by (rule announced_Cons)
  then show ?case using Cons.IH [OF m(4)] by (auto simp: hashable_def)
qed simp

lemma distinct_reader_keys: "distinct ks \<Longrightarrow> distinct (reader_keys ms ks)"
  by (induction ms ks rule: reader_keys.induct) (auto split: sum.split)

lemma announced_count:
  assumes "announced ms pids" and "distinct pids"
  shows "length (reader_keys ms []) = length pids"
proof -
  have "length (reader_keys ms []) = card (JStr ` set pids)"
    using announced_keys [OF assms(1), of "[]"] distinct_reader_keys [of "[]" ms] by (metis distinct.simps(1) distinct_card list.set(1) sup_bot_left)
  also have "\<dots> = length pids" using assms(2) by (simp add: card_image inj_on_def distinct_card)
  finally show ?thesis .
qed

lemma announced_times: "announced ms pids \<Longrightarrow> dom (latency_reader ms R) = dom R \<union> JStr ` set pids"
proof (induction pids arbitrary: ms R)
  case (Cons pid pids)
  from Cons.prems obtain t m ms' where m: "ms = (t, m) # ms'" "has_type ''post.new'' m = Inr True" "json_item m ''post_id'' = Inr (JStr pid)"
    "announced ms' pids" by (rule announced_Cons)
  have "latency_reader ms R = latency_reader ms' (R(JStr pid \<mapsto> t))" using m(1-3) by (simp add: hashable_def)
  then show ?case using Cons.IH [OF m(4), of "R(JStr pid \<mapsto> t)"] by (simp only: dom_fun_upd) auto
qed simp

lemma announced_latencies:
  assumes "announced ms pids" and "map fst sent = map JStr pids"
  shows "length (latencies_ms sent (latency_reader ms Map.empty)) = length pids"
proof -
  have "fst ` set sent = JStr ` set pids" using arg_cong [OF assms(2), of set] by simp
  then have "latency_reader ms Map.empty (fst x) \<noteq> None" if "x \<in> set sent" for x
    unfolding domIff [symmetric] announced_times [OF assms(1)] using imageI [OF that, of fst] by simp
  then have "filter (\<lambda>(pid, t). latency_reader ms Map.empty pid \<noteq> None) sent = sent" by (auto simp: filter_id_conv)
  then show ?thesis using arg_cong [OF assms(2), of length] by (simp add: latency_count)
qed

lemma update_fresh: "k \<notin> fst ` set al \<Longrightarrow> AList.update k v al = al @ [(k, v)]"
  by (induction al) auto

lemma announced_filter:
  "announced ms pids \<Longrightarrow> filter_res (has_type ''post.new'') (map snd ms) = Inr (map snd ms)
    \<and> filter_res (has_type ''ping'') (map snd ms) = Inr []"
proof (induction pids arbitrary: ms)
  case (Cons pid pids)
  from Cons.prems obtain t m ms' where m: "ms = (t, m) # ms'" "has_type ''post.new'' m = Inr True" "json_item m ''post_id'' = Inr (JStr pid)"
    "announced ms' pids" by (rule announced_Cons)
  have "has_type ''ping'' m = Inr False" using m(2) by (auto simp: has_type_def bindR_def split: sum.splits)
  then show ?case using Cons.IH [OF m(4)] m(1,2) by (simp add: bindR_def)
qed simp

section \<open>The system under test\<close>

text \<open>A system notifies its listener when a connection starts with nothing received; a request to publish answers with a new identifier; and at the end of a pause
  the listener has got one notification for each post of before, in their order.  \<open>pending\<close> are the identifiers of the posts not notified
  yet, \<open>known\<close> those of all posts, and \<open>room\<close> says for how many more posts there are new identifiers.\<close>

locale notification_service =
  fixes C :: "'s client" and alice bob :: string
    and start :: "'s \<Rightarrow> bool" and ready :: "nat \<Rightarrow> 's \<Rightarrow> bool" and pending :: "'s \<Rightarrow> string list" and known :: "'s \<Rightarrow> string set"
    and room :: "'s \<Rightarrow> nat"
  assumes opens: "start s \<Longrightarrow> \<exists>ws s'. ck_connect C port alice s = (Inr ws, s') \<and> ready ws s' \<and> pending s' = [] \<and> ck_received C ws s' = []
      \<and> room s' = room s"
    and posts: "ready ws s \<Longrightarrow> text \<noteq> [] \<Longrightarrow> 0 < room s \<Longrightarrow> \<exists>pid s'. ck_post C port bob text s = (Inr (200, Inr (JObj [(''id'', JStr pid)])), s')
      \<and> ready ws s' \<and> pending s' = pending s @ [pid] \<and> ck_received C ws s' = ck_received C ws s
      \<and> pid \<notin> known s \<and> known s' = insert pid (known s) \<and> room s = Suc (room s')"
    and delivers: "ready ws s \<Longrightarrow> 0 < d \<Longrightarrow> \<exists>ms s'. ck_pause C d s = (Inr (), s') \<and> ready ws s' \<and> pending s' = [] \<and> known s' = known s \<and> room s' = room s
      \<and> ck_received C ws s' = ck_received C ws s @ ms \<and> announced ms (pending s)"
    and closes: "ready ws s \<Longrightarrow> \<exists>s'. ck_close C ws s = (Inr (), s')"
begin

text \<open>How far a listener is: the notifications it got and those it waits for.\<close>

definition listening :: "nat \<Rightarrow> string list \<Rightarrow> string list \<Rightarrow> 's \<Rightarrow> bool" where
  "listening ws got owed s \<longleftrightarrow> ready ws s \<and> announced (ck_received C ws s) got \<and> pending s = owed
     \<and> distinct (got @ owed) \<and> set (got @ owed) \<subseteq> known s"

lemma connected: "start s \<Longrightarrow> \<exists>ws s'. ck_connect C port alice s = (Inr ws, s') \<and> listening ws [] [] s' \<and> room s' = room s"
  using opens [of s port] by (fastforce simp: listening_def)

lemma posted:
  assumes "listening ws got owed s" and "text \<noteq> []" and "0 < room s"
  shows "\<exists>pid s'. ck_post C port bob text s = (Inr (200, Inr (JObj [(''id'', JStr pid)])), s') \<and> listening ws got (owed @ [pid]) s'
    \<and> pid \<notin> set (got @ owed) \<and> room s = Suc (room s')"
proof -
  obtain pid s' where s': "ck_post C port bob text s = (Inr (200, Inr (JObj [(''id'', JStr pid)])), s')" "ready ws s'"
      "pending s' = pending s @ [pid]" "ck_received C ws s' = ck_received C ws s" "pid \<notin> known s" "known s' = insert pid (known s)"
      "room s = Suc (room s')"
    using posts [of ws s "text" port] assms by (auto simp: listening_def)
  then show ?thesis using assms(1) by (intro exI [of _ pid] exI [of _ s']) (auto simp: listening_def)
qed

lemma paused:
  assumes "listening ws got owed s" and "0 < d"
  shows "\<exists>s'. ck_pause C d s = (Inr (), s') \<and> listening ws (got @ owed) [] s' \<and> room s' = room s"
proof -
  obtain ms s' where s': "ck_pause C d s = (Inr (), s')" "ready ws s'" "pending s' = []" "known s' = known s" "room s' = room s"
      "ck_received C ws s' = ck_received C ws s @ ms" "announced ms (pending s)"
    using delivers [of ws s d] assms by (auto simp: listening_def)
  then show ?thesis using assms(1) by (intro exI [of _ s']) (auto simp: listening_def intro: list_all2_appendI)
qed

lemma awaited:
  assumes "listening ws got owed s" and "n = length (got @ owed)" and "2 \<le> k \<or> owed = []"
  shows "\<exists>s'. await_delivery C ws n k s = (Inr (), s') \<and> listening ws (got @ owed) [] s'"
proof -
  have now: "\<exists>s'. await_delivery C ws (length got') k' s = (Inr (), s') \<and> listening ws got' [] s'" if "listening ws got' [] s" for k' got' s
  proof -
    have "length (reader_keys (ck_received C ws s) []) = length got'" using that by (intro announced_count) (auto simp: listening_def)
    then show ?thesis using that by (cases k') (simp_all add: ask_def bindP_def returnP_def)
  qed
  show ?thesis
  proof (cases "owed = []")
    case True
    then show ?thesis using now [of got s k] assms(1,2) by simp
  next
    case False
    then obtain k' where k: "k = Suc k'" using assms(3) by (cases k) auto
    have "length (reader_keys (ck_received C ws s) []) = length got" using assms(1) by (intro announced_count) (auto simp: listening_def)
    then have less: "\<not> n \<le> length (reader_keys (ck_received C ws s) [])" using False assms(2) by (cases owed) auto
    obtain s1 where s1: "ck_pause C (1 / 10) s = (Inr (), s1)" "listening ws (got @ owed) [] s1" using paused [OF assms(1), of "1 / 10"] by auto
    show ?thesis using now [OF s1(2), of k'] less s1(1) by (simp add: k ask_def bindP_def assms(2))
  qed
qed

lemma closed: "listening ws got owed s \<Longrightarrow> \<exists>s'. ck_close C ws s = (Inr (), s')"
  using closes by (simp add: listening_def)

text \<open>The posts of the two load tests.\<close>

lemma fresh_sent: "map fst sent = map JStr pids \<Longrightarrow> pid \<notin> set pids \<Longrightarrow> AList.update (JStr pid) t sent = sent @ [(JStr pid, t)]"
proof (rule update_fresh)
  assume s: "map fst sent = map JStr pids" and p: "pid \<notin> set pids"
  have "fst ` set sent = JStr ` set pids" using arg_cong [OF s, of set] by simp
  then show "JStr pid \<notin> fst ` set sent" using p by auto
qed

lemma seq_posts_sent:
  assumes "listening ws got [] s" and "map fst sent = map JStr got" and "length js \<le> room s"
  shows "\<exists>sent' got' s'. seq_posts C bob js sent s = (Inr sent', s') \<and> listening ws got' [] s' \<and> map fst sent' = map JStr got'
    \<and> length got' = length got + length js"
  using assms
proof (induction js arbitrary: got sent s)
  case (Cons i js)
  obtain pid s1 where s1: "ck_post C POST_PORT bob (''seq #'' @ nat_str i) s = (Inr (200, Inr (JObj [(''id'', JStr pid)])), s1)"
      "listening ws got [pid] s1" "pid \<notin> set got" "room s = Suc (room s1)"
    using posted [OF Cons.prems(1), of "''seq #'' @ nat_str i" POST_PORT] Cons.prems(3) by auto
  obtain s2 where s2: "ck_pause C (1 / 20) s1 = (Inr (), s2)" "listening ws (got @ [pid]) [] s2" "room s2 = room s1"
    using paused [OF s1(2), of "1 / 20"] by auto
  let ?sent = "sent @ [(JStr pid, ck_time C s)]"
  have "map fst ?sent = map JStr (got @ [pid])" using Cons.prems(2) by simp
  then obtain sent' got' s' where r: "seq_posts C bob js ?sent s2 = (Inr sent', s')" "listening ws got' [] s'" "map fst sent' = map JStr got'"
      "length got' = length got + length (i # js)"
    using Cons.IH [OF s2(2), of ?sent] s1(4) s2(3) Cons.prems(3) by auto
  have "seq_posts C bob (i # js) sent s = seq_posts C bob js ?sent s2"
    using s1(1) s2(1) fresh_sent [OF Cons.prems(2) s1(3)] by (simp add: ask_def bindR_def liftP_def json_item_def hashable_def)
  then show ?case using r by auto
qed (auto simp: returnP_def)

lemma gather_posts_sent:
  assumes "listening ws got owed s" and "map fst sent = map JStr (got @ owed)" and "length js \<le> room s"
  shows "\<exists>sent' owed' s'. gather_posts C bob js sent s = (Inr sent', s') \<and> listening ws got owed' s' \<and> map fst sent' = map JStr (got @ owed')
    \<and> length owed' = length owed + length js"
  using assms
proof (induction js arbitrary: owed sent s)
  case (Cons i js)
  obtain pid s1 where s1: "ck_post C POST_PORT bob (''Load test #'' @ nat_str i) s = (Inr (200, Inr (JObj [(''id'', JStr pid)])), s1)"
      "listening ws got (owed @ [pid]) s1" "pid \<notin> set (got @ owed)" "room s = Suc (room s1)"
    using posted [OF Cons.prems(1), of "''Load test #'' @ nat_str i" POST_PORT] Cons.prems(3) by auto
  let ?sent = "sent @ [(JStr pid, ck_time C s)]"
  have "map fst ?sent = map JStr (got @ owed @ [pid])" using Cons.prems(2) by simp
  then obtain sent' owed' s' where r: "gather_posts C bob js ?sent s1 = (Inr sent', s')" "listening ws got owed' s'"
      "map fst sent' = map JStr (got @ owed')" "length owed' = length owed + length (i # js)"
    using Cons.IH [OF s1(2), of ?sent] s1(4) Cons.prems(3) by auto
  have "gather_posts C bob (i # js) sent s = gather_posts C bob js ?sent s1"
    using s1(1) fresh_sent [OF Cons.prems(2) s1(3)] by (simp add: bindR_def json_item_def hashable_def)
  then show ?case using r by auto
qed auto

text \<open>What the scripts report.\<close>

definition token_files :: "(string \<Rightarrow> string res) \<Rightarrow> bool" where
  "token_files read_file \<longleftrightarrow> (\<exists>a b. read_file ''/tmp/jwt_a'' = Inr a \<and> read_file ''/tmp/jwt_b'' = Inr b \<and> py_strip a = alice \<and> py_strip b = bob)"

lemma tokens_read:
  "token_files read_file \<Longrightarrow> read_token read_file ''/tmp/jwt_a'' s = (Inr alice, s)"
  "token_files read_file \<Longrightarrow> read_token read_file ''/tmp/jwt_b'' s = (Inr bob, s)"
  by (auto simp: token_files_def read_token_def liftP_def bindR_def)

lemma one_post:
  assumes "start s" and "text \<noteq> []" and "0 < room s"
  shows "\<exists>ws s1 s2 pid s3 s4 s5. ck_connect C port alice s = (Inr ws, s1) \<and> ck_pause C (1 / 2) s1 = (Inr (), s2)
    \<and> ck_post C port' bob text s2 = (Inr (200, Inr (JObj [(''id'', JStr pid)])), s3) \<and> ck_pause C 3 s3 = (Inr (), s4)
    \<and> announced (ck_received C ws s4) [pid] \<and> ck_close C ws s4 = (Inr (), s5)"
proof -
  obtain ws s1 where s1: "ck_connect C port alice s = (Inr ws, s1)" "listening ws [] [] s1" "room s1 = room s"
    using connected [OF assms(1)] by blast
  obtain s2 where s2: "ck_pause C (1 / 2) s1 = (Inr (), s2)" "listening ws [] [] s2" "room s2 = room s1"
    using paused [OF s1(2), of "1 / 2"] by auto
  obtain pid s3 where s3: "ck_post C port' bob text s2 = (Inr (200, Inr (JObj [(''id'', JStr pid)])), s3)" "listening ws [] [pid] s3"
    using posted [OF s2(2) assms(2), of port'] assms(3) s1(3) s2(3) by auto
  obtain s4 where s4: "ck_pause C 3 s3 = (Inr (), s4)" "listening ws [pid] [] s4" using paused [OF s3(2), of 3] by auto
  obtain s5 where "ck_close C ws s4 = (Inr (), s5)" using closed [OF s4(2)] by blast
  moreover have "announced (ck_received C ws s4) [pid]" using s4(2) by (simp add: listening_def)
  ultimately show ?thesis using s1(1) s2(1) s3(1) s4(1) by blast
qed

lemma ws_test_succeeds:
  assumes "start s" and "token_files read_file" and "0 < room s"
  shows "\<exists>s'. ws_test C read_file s = (Inr 0, s')"
proof -
  obtain ws s1 s2 pid s3 s4 s5 where r: "ck_connect C 8090 alice s = (Inr ws, s1)" "ck_pause C (1 / 2) s1 = (Inr (), s2)"
      "ck_post C 8090 bob ''Hello from Bob, real-time test'' s2 = (Inr (200, Inr (JObj [(''id'', JStr pid)])), s3)" "ck_pause C 3 s3 = (Inr (), s4)"
      "announced (ck_received C ws s4) [pid]" "ck_close C ws s4 = (Inr (), s5)"
    using one_post [OF assms(1), of "''Hello from Bob, real-time test''" 8090 8090] assms(3) by auto
  have "map snd (ck_received C ws s4) \<noteq> []" using r(5) by (cases "ck_received C ws s4") auto
  then have "ws_test_exit (Inr (JObj [(''id'', JStr pid)])) (map snd (ck_received C ws s4)) = Inr 0"
    using announced_filter [OF r(5)] by (simp add: ws_test_exit_def bindR_def)
  then show ?thesis using r tokens_read [OF assms(2), of s]
    by (simp add: ws_test_def finallyP_def ask_def returnP_def liftP_def)
qed

lemma ws_scale_test_succeeds:
  assumes "start s" and "token_files read_file" and "0 < room s"
  shows "\<exists>s'. ws_scale_test C read_file s = (Inr 0, s')"
proof -
  obtain ws s1 s2 pid s3 s4 s5 where r: "ck_connect C (PORTS ! 0) alice s = (Inr ws, s1)" "ck_pause C (1 / 2) s1 = (Inr (), s2)"
      "ck_post C (PORTS ! 2) bob (''Scale test from inst '' @ nat_str (PORTS ! 2)) s2 = (Inr (200, Inr (JObj [(''id'', JStr pid)])), s3)"
      "ck_pause C 3 s3 = (Inr (), s4)" "announced (ck_received C ws s4) [pid]" "ck_close C ws s4 = (Inr (), s5)"
    using one_post [OF assms(1), of "''Scale test from inst '' @ nat_str (PORTS ! 2)" "PORTS ! 0" "PORTS ! 2"] assms(3) by auto
  have "map snd (ck_received C ws s4) \<noteq> []" using r(5) by (cases "ck_received C ws s4") auto
  then have "scale_test_exit ((\<lambda>_. [])(PORTS ! 0 := map snd (ck_received C ws s4))) = Inr 0"
    using announced_filter [OF r(5)] by (simp add: scale_test_exit_def bindR_def)
  then show ?thesis using r tokens_read [OF assms(2), of s]
    by (simp add: ws_scale_test_def finallyP_def ask_def returnP_def liftP_def Let_def)
qed

lemma load_seq_complete:
  assumes "start s" and "token_files read_file" and "SEQ_N \<le> room s"
  shows "\<exists>L s'. load_seq C read_file s = (Inr (SEQ_N, L), s')"
proof -
  obtain ws s1 where s1: "ck_connect C WS_PORT alice s = (Inr ws, s1)" "listening ws [] [] s1" "room s1 = room s"
    using connected [OF assms(1)] by blast
  obtain s2 where s2: "ck_pause C (3 / 10) s1 = (Inr (), s2)" "listening ws [] [] s2" "room s2 = room s1"
    using paused [OF s1(2), of "3 / 10"] by auto
  obtain sent got s3 where s3: "seq_posts C bob [0..<SEQ_N] [] s2 = (Inr sent, s3)" "listening ws got [] s3" "map fst sent = map JStr got"
      "length got = SEQ_N"
    using seq_posts_sent [OF s2(2), of "[]" "[0..<SEQ_N]"] assms(3) s1(3) s2(3) by auto
  obtain s4 where s4: "await_delivery C ws SEQ_N 50 s3 = (Inr (), s4)" "listening ws got [] s4" using awaited [OF s3(2), of SEQ_N 50] s3(4) by auto
  obtain s5 where s5: "ck_close C ws s4 = (Inr (), s5)" using closed [OF s4(2)] by blast
  have "length (latencies_ms sent (latency_reader (ck_received C ws s4) Map.empty)) = SEQ_N"
    using announced_latencies [OF _ s3(3), of "ck_received C ws s4"] s4(2) s3(4) by (simp add: listening_def)
  then show ?thesis using s1(1) s2(1) s3(1) s4(1) s5 tokens_read [OF assms(2), of s]
    by (simp add: load_seq_def finallyP_def ask_def returnP_def Let_def)
qed

lemma load_test_complete:
  assumes "start s" and "token_files read_file" and "N_POSTS \<le> room s"
  shows "\<exists>L s'. load_test C read_file s = (Inr (N_POSTS, N_POSTS, 0, L), s')"
proof -
  obtain ws s1 where s1: "ck_connect C WS_PORT alice s = (Inr ws, s1)" "listening ws [] [] s1" "room s1 = room s"
    using connected [OF assms(1)] by blast
  obtain s2 where s2: "ck_pause C (3 / 10) s1 = (Inr (), s2)" "listening ws [] [] s2" "room s2 = room s1"
    using paused [OF s1(2), of "3 / 10"] by auto
  obtain sent owed s3 where s3: "gather_posts C bob [0..<N_POSTS] [] s2 = (Inr sent, s3)" "listening ws [] owed s3" "map fst sent = map JStr owed"
      "length owed = N_POSTS"
    using gather_posts_sent [OF s2(2), of "[]" "[0..<N_POSTS]"] assms(3) s1(3) s2(3) by auto
  obtain s4 where s4: "await_delivery C ws N_POSTS 50 s3 = (Inr (), s4)" "listening ws owed [] s4" using awaited [OF s3(2), of N_POSTS 50] s3(4) by auto
  obtain s5 where s5: "ck_close C ws s4 = (Inr (), s5)" using closed [OF s4(2)] by blast
  have "length (latencies_ms sent (latency_reader (ck_received C ws s4) Map.empty)) = N_POSTS"
    using announced_latencies [OF _ s3(3), of "ck_received C ws s4"] s4(2) s3(4) by (simp add: listening_def)
  moreover have "length sent = N_POSTS" using arg_cong [OF s3(3), of length] s3(4) by simp
  ultimately show ?thesis using s1(1) s2(1) s3(1) s4(1) s5 tokens_read [OF assms(2), of s]
    by (simp add: load_test_def finallyP_def ask_def returnP_def Let_def)
qed

end

end
