(* ===== verification/Site.thy ===== *)
theory Site
  imports Celebrity_Path Acceptance Ws_Feed
begin

text \<open>
  The system that the acceptance scripts test: the processes of the application with their websockets, the worker, the broker, the
  cache and the database, on the documented servers.  A pause of the client is the time in which the worker and the bridges work off
  their queues.
\<close>

section \<open>A deployment\<close>

text \<open>The settings, the token library and the time tokens are checked at (a script is short against their validity), the process that
  serves a port, the processes with their queues, the queue of the worker, the identifiers the database generates, of which the first
  \<open>dp_room\<close> are distinct, the times of the posts, and the number in the name of a temporary key.\<close>

record deploy =
  dp_settings :: settings
  dp_decode :: jwt_decoder
  dp_today :: int
  dp_route :: "nat \<Rightarrow> nat"
  dp_processes :: "nat list"
  dp_queue :: "nat \<Rightarrow> string"
  dp_work :: string
  dp_uuid :: "nat \<Rightarrow> uuid"
  dp_room :: nat
  dp_now :: "nat \<Rightarrow> datetime"
  dp_nonce :: string

text \<open>The registries of the processes, how many messages of a queue were taken, the process and user of a session, what a socket got,
  the next socket and post, and the time.\<close>

record ('p, 'c) site =
  st_world :: "('p, 'c, redis, broker) world"
  st_managers :: "nat \<Rightarrow> nat manager"
  st_taken :: "string \<Rightarrow> nat"
  st_sessions :: "nat \<Rightarrow> (nat \<times> uuid) option"
  st_received :: "nat \<Rightarrow> (rat \<times> json) list"
  st_socket :: nat
  st_posts :: nat
  st_clock :: rat

abbreviation site_publish :: "broker publisher" where
  "site_publish \<equiv> \<lambda>k j _. broker_publish k (dumps j)"

abbreviation site_bind :: "deploy \<Rightarrow> nat \<Rightarrow> broker callback" where
  "site_bind D p \<equiv> Some (bridge_bind_user (dp_settings D) broker_bind (Some (dp_queue D p)))"

abbreviation site_unbind :: "deploy \<Rightarrow> nat \<Rightarrow> broker callback" where
  "site_unbind D p \<equiv> Some (bridge_unbind_user (dp_settings D) broker_unbind (Some (dp_queue D p)))"

section \<open>What a client can do\<close>

fun sent_json :: "ws_action list \<Rightarrow> json list" where
  "sent_json [] = []"
| "sent_json (SendJson j # acts) = j # sent_json acts"
| "sent_json (_ # acts) = sent_json acts"

text \<open>A new session, while its client sends nothing.\<close>

definition site_connect :: "deploy \<Rightarrow> nat \<Rightarrow> string \<Rightarrow> (('p, 'c) site, nat) prog" where
  "site_connect D port token st =
     (let p = dp_route D port; ws = st_socket st in
      case feed_ws (dp_settings D) (dp_decode D) (dp_today D) (site_bind D p) (site_unbind D p) token ws (\<lambda>_. True) []
          (Some (st_managers st p, wo_broker (st_world st))) of
        (outcome, actions, app) \<Rightarrow>
          (Inr ws, st\<lparr>st_socket := Suc ws,
             st_received := (st_received st)(ws := map (Pair (st_clock st)) (sent_json actions)),
             st_sessions := (st_sessions st)(ws := (if outcome = None
               then map_option (Pair p) (authenticate_ws (dp_settings D) (dp_decode D) (dp_today D) token) else None)),
             st_managers := (case app of None \<Rightarrow> st_managers st | Some (c, b) \<Rightarrow> (st_managers st)(p := c)),
             st_world := (case app of None \<Rightarrow> st_world st | Some (c, b) \<Rightarrow> (st_world st)\<lparr>wo_broker := b\<rparr>)\<rparr>))"

text \<open>The client closes the socket and the session ends.\<close>

definition site_close :: "deploy \<Rightarrow> nat \<Rightarrow> (('p, 'c) site, unit) prog" where
  "site_close D ws st =
     (case st_sessions st ws of
        None \<Rightarrow> (Inr (), st)
      | Some (p, u) \<Rightarrow>
          (case ConnectionManager_disconnect (site_unbind D p) u ws (st_managers st p, wo_broker (st_world st)) of
             (c, b) \<Rightarrow> (Inr (), st\<lparr>st_managers := (st_managers st)(p := c), st_world := (st_world st)\<lparr>wo_broker := b\<rparr>,
                st_sessions := (st_sessions st)(ws := None)\<rparr>)))"

text \<open>A response of the framework: an exception that is not an \<^verbatim>\<open>HTTPException\<close> is answered with 500 and a text that is no JSON.\<close>

definition http_response :: "('a \<Rightarrow> json) \<Rightarrow> 'a res \<Rightarrow> int \<times> json res" where
  "http_response f x = (case x of
       Inr a \<Rightarrow> (200, Inr (f a))
     | Inl (HTTPException c d) \<Rightarrow> (c, Inr (JObj [(''detail'', JStr d)]))
     | Inl _ \<Rightarrow> (500, Inl (ValueError ''no JSON'')))"

definition id_json :: "uuid \<Rightarrow> json" where
  "id_json i = JObj [(''id'', JStr (uuid_str i))]"

definition page_json :: "post_response list \<Rightarrow> json" where
  "page_json ps = JList (map (\<lambda>p. JObj [(''id'', JStr (uuid_str (pr_id p))), (''text'', JStr (pr_text p)),
     (''author_user_id'', JStr (uuid_str (pr_author_user_id p)))]) ps)"

definition site_post :: "deploy \<Rightarrow> nat \<Rightarrow> string \<Rightarrow> string \<Rightarrow> (('p, 'c) site, int \<times> json res) prog" where
  "site_post D port token text st =
     (let n = st_posts st in
      case bindP (liftP (get_current_user (dp_settings D) (dp_decode D) (dp_today D) token))
          (create_post (dp_settings D) redis_step site_publish (dp_uuid D n) (dp_now D n) text) (st_world st) of
        (x, w) \<Rightarrow> (Inr (http_response id_json x), st\<lparr>st_world := w, st_posts := Suc n\<rparr>))"

text \<open>\<^verbatim>\<open>GET /post/feed?offset=0&limit=10\<close>.\<close>

definition site_page :: "deploy \<Rightarrow> nat \<Rightarrow> string \<Rightarrow> (('p, 'c) site, int \<times> json res) prog" where
  "site_page D port token st =
     (case bindP (liftP (get_current_user (dp_settings D) (dp_decode D) (dp_today D) token))
          (get_feed (dp_settings D) redis_step (dp_nonce D) 0 10) (st_world st) of
        (x, w) \<Rightarrow> (Inr (http_response page_json x), st\<lparr>st_world := w\<rparr>))"

text \<open>The worker takes what is in its queue, and the consumer of a process what is in that of the process.\<close>

definition unseen :: "string \<Rightarrow> ('p, 'c) site \<Rightarrow> (string \<times> body) list" where
  "unseen q st = drop (st_taken st q) (bk_inbox (wo_broker (st_world st)) q)"

definition seen :: "string \<Rightarrow> ('p, 'c) site \<Rightarrow> string \<Rightarrow> nat" where
  "seen q st = (st_taken st)(q := length (bk_inbox (wo_broker (st_world st)) q))"

definition site_work :: "deploy \<Rightarrow> ('p, 'c) site \<Rightarrow> ('p, 'c) site" where
  "site_work D st =
     st\<lparr>st_world := snd (rmq_consume_loop (dp_settings D) redis_step site_publish (map (\<lambda>(k, m). (m, False)) (unseen (dp_work D) st)) (st_world st)),
        st_taken := seen (dp_work D) st\<rparr>"

definition site_bridge :: "deploy \<Rightarrow> nat \<Rightarrow> ('p, 'c) site \<Rightarrow> ('p, 'c) site" where
  "site_bridge D p st =
     (case consume_loop (site_unbind D p) (\<lambda>_. True) (unseen (dp_queue D p) st) (st_managers st p, wo_broker (st_world st)) of
        (out, c, b) \<Rightarrow> st\<lparr>st_managers := (st_managers st)(p := c), st_world := (st_world st)\<lparr>wo_broker := b\<rparr>,
          st_taken := seen (dp_queue D p) st,
          st_received := (\<lambda>ws. st_received st ws @ map (\<lambda>(w, j). (st_clock st, j)) (filter (\<lambda>(w, j). w = ws) out))\<rparr>)"

definition site_pause :: "deploy \<Rightarrow> rat \<Rightarrow> (('p, 'c) site, unit) prog" where
  "site_pause D d st = (Inr (), fold (site_bridge D) (dp_processes D) (site_work D (st\<lparr>st_clock := st_clock st + d\<rparr>)))"

definition site_client :: "deploy \<Rightarrow> ('p, 'c) site client" where
  "site_client D = \<lparr>ck_connect = site_connect D, ck_close = site_close D, ck_received = (\<lambda>ws st. st_received st ws), ck_post = site_post D,
     ck_page = site_page D, ck_pause = site_pause D, ck_time = st_clock, ck_database = returnP (),
     ck_set = (\<lambda>k v st. (case redis_step (SETEX k v 300) (wo_redis (st_world st)) of
        (x, r) \<Rightarrow> (map_sum id (\<lambda>_. ()) x, st\<lparr>st_world := (st_world st)\<lparr>wo_redis := r\<rparr>\<rparr>)))\<rparr>"

section \<open>The worker\<close>

definition note_of :: "post \<Rightarrow> json" where
  "note_of p = post_new_payload (po_id p) (po_author p) (po_text p) (po_created p)"

text \<open>What the worker puts into a queue that is bound to the keys \<open>ks\<close>.\<close>

definition notes_for :: "settings \<Rightarrow> string set \<Rightarrow> uuid list \<Rightarrow> post list \<Rightarrow> (string \<times> body) list" where
  "notes_for S ks fs ps = concat (map (\<lambda>p. map (\<lambda>u. (user_routing_key S (uuid_str u), dumps (note_of p)))
     (filter (\<lambda>u. user_routing_key S (uuid_str u) \<in> ks) fs)) ps)"

lemma worker_notifies:
  fixes w :: "('p, 'c, redis, broker) world"
  assumes S: "0 \<le> feed_max_size S" "0 < celebrity_cache_ttl S" and s: "master_view w = Inr s" "social_ok s"
    and w: "cache_ok (wo_redis w)" "bk_up (wo_broker w)" "\<not> flagged S s (wo_redis w) a"
    and ps: "\<forall>p \<in> set ps. po_author p = a \<and> dt_ok (po_created p) \<and> po_text p \<noteq> []"
  shows "\<exists>out r b. rmq_consume_loop S redis_step site_publish (map (\<lambda>p. (dumps (created_payload p), False)) ps) w
      = (out, w\<lparr>wo_redis := r, wo_broker := b\<rparr>)
    \<and> cache_ok r \<and> \<not> flagged S s r a \<and> bk_up b \<and> broker_bound b = broker_bound (wo_broker w)
    \<and> (\<forall>q. (\<forall>k \<in> broker_bound (wo_broker w) q. literal_key k) \<longrightarrow>
        bk_inbox b q = bk_inbox (wo_broker w) q @ notes_for S (broker_bound (wo_broker w) q) (sql_followers s a) ps)"
  using s(1) w ps
proof (induction ps arbitrary: w)
  case Nil
  then show ?case by (intro exI [of _ "[]"] exI [of _ "wo_redis w"] exI [of _ "wo_broker w"]) (simp add: notes_for_def)
next
  case (Cons p ps)
  obtain r1 b1 where e: "rmq_handle_created S redis_step site_publish (created_payload p) w = (Inr (), w\<lparr>wo_redis := r1, wo_broker := b1\<rparr>)"
      "\<forall>q. (\<forall>k \<in> broker_bound (wo_broker w) q. literal_key k) \<longrightarrow> bk_inbox b1 q = bk_inbox (wo_broker w) q @
        map (\<lambda>u. (user_routing_key S (uuid_str u), dumps (post_new_payload (po_id p) (po_author p) (po_text p) (po_created p))))
          (filter (\<lambda>u. user_routing_key S (uuid_str u) \<in> broker_bound (wo_broker w) q) (notified S s False (po_author p)))"
      "cache_ok r1" "\<not> flagged S s r1 a" "bk_up b1" "broker_bound b1 = broker_bound (wo_broker w)"
    using created_effect [OF live.live_broker_axioms Cons.prems(1) s(2) Cons.prems(2) S Cons.prems(3), of p False] Cons.prems(4,5) by auto
  let ?w1 = "w\<lparr>wo_redis := r1, wo_broker := b1\<rparr>"
  have "master_view ?w1 = Inr s" using Cons.prems(1) by (simp add: master_view_def split: sum.splits)
  then obtain out r b where i: "rmq_consume_loop S redis_step site_publish (map (\<lambda>p. (dumps (created_payload p), False)) ps) ?w1
        = (out, ?w1\<lparr>wo_redis := r, wo_broker := b\<rparr>)"
      "cache_ok r" "\<not> flagged S s r a" "bk_up b" "broker_bound b = broker_bound b1"
      "\<forall>q. (\<forall>k \<in> broker_bound b1 q. literal_key k) \<longrightarrow> bk_inbox b q = bk_inbox b1 q @ notes_for S (broker_bound b1 q) (sql_followers s a) ps"
    using Cons.IH [of ?w1] e(3-5) Cons.prems(5) by auto
  have "po_author p = a" using Cons.prems(5) by simp
  then show ?case using e i
    by (intro exI [of _ "Acked # out"] exI [of _ r] exI [of _ b]) (simp add: handle_created_payload notes_for_def notified_def note_of_def)
qed

section \<open>The bridges\<close>

text \<open>When every socket accepts, a push changes nothing but what the sockets got.\<close>

lemma push_accepted:
  "ConnectionManager_push cb (\<lambda>_. True) u p (c, b) = (length (conns_of c u), map (\<lambda>w. (w, p)) (conns_of c u), c, b)"
  by (simp add: ConnectionManager_push_def push_loop_eq Let_def)

lemma consume_notes:
  assumes "prefix_ok S"
  shows "consume_loop cb (\<lambda>_. True) (map (\<lambda>(u, p). (user_routing_key S (uuid_str u), dumps (note_of p))) ups) (c, b)
    = (concat (map (\<lambda>(u, p). map (\<lambda>w. (w, note_of p)) (conns_of c u)) ups), c, b)"
proof (induction ups)
  case (Cons up ups)
  obtain u p where "up = (u, p)" by fastforce
  then show ?case using Cons
    by (simp add: bridge_handle_def dumps_def note_of_def encode_notification routing_key_user_key [OF assms] push_accepted)
qed simp

definition recipients :: "settings \<Rightarrow> string set \<Rightarrow> uuid list \<Rightarrow> post list \<Rightarrow> (uuid \<times> post) list" where
  "recipients S ks fs ps = concat (map (\<lambda>p. map (\<lambda>u. (u, p)) (filter (\<lambda>u. user_routing_key S (uuid_str u) \<in> ks) fs)) ps)"

lemma notes_for_recipients:
  "notes_for S ks fs ps = map (\<lambda>(u, p). (user_routing_key S (uuid_str u), dumps (note_of p))) (recipients S ks fs ps)"
  by (simp add: notes_for_def recipients_def map_concat comp_def)

text \<open>What one socket gets.\<close>

definition got_by :: "nat \<Rightarrow> nat manager \<Rightarrow> (uuid \<times> post) list \<Rightarrow> json list" where
  "got_by ws c ups = map snd (filter (\<lambda>(w, j). w = ws) (concat (map (\<lambda>(u, p). map (\<lambda>w. (w, note_of p)) (conns_of c u)) ups)))"

lemma got_by_append [simp]: "got_by ws c (xs @ ys) = got_by ws c xs @ got_by ws c ys"
  by (simp add: got_by_def)

lemma got_by_none: "\<forall>u. ws \<notin> set (conns_of c u) \<Longrightarrow> got_by ws c ups = []"
  by (auto simp: got_by_def filter_empty_conv)

lemma filter_one: "distinct ws \<Longrightarrow> filter (\<lambda>x. x = w) ws = (if w \<in> set ws then [w] else [])"
  by (induction ws) auto

lemma got_by_user:
  assumes "manager_ok c" and "ws \<in> set (conns_of c u)" and "\<forall>v. v \<noteq> u \<longrightarrow> ws \<notin> set (conns_of c v)" and "distinct us"
  shows "got_by ws c (map (\<lambda>u. (u, p)) us) = (if u \<in> set us then [note_of p] else [])"
  using assms(4)
proof (induction us)
  case (Cons v us)
  have "filter (\<lambda>(w, j). w = ws) (map (\<lambda>w. (w, note_of p)) (conns_of c v)) = map (\<lambda>w. (w, note_of p)) (filter (\<lambda>w. w = ws) (conns_of c v))"
    by (simp add: filter_map comp_def)
  also have "\<dots> = (if v = u then [(ws, note_of p)] else [])"
    using assms(2,3) filter_one [OF distinct_conns [OF assms(1)], of ws v] by auto
  finally have "got_by ws c [(v, p)] = (if v = u then [note_of p] else [])" by (simp add: got_by_def)
  then show ?case using Cons got_by_append [of ws c "[(v, p)]" "map (\<lambda>u. (u, p)) us"] by auto
qed (simp add: got_by_def)

lemma got_by_recipients:
  assumes "manager_ok c" and "ws \<in> set (conns_of c u)" and "\<forall>v. v \<noteq> u \<longrightarrow> ws \<notin> set (conns_of c v)"
    and "distinct fs" and "u \<in> set fs" and "user_routing_key S (uuid_str u) \<in> ks"
  shows "got_by ws c (recipients S ks fs ps) = map note_of ps"
proof (induction ps)
  case (Cons p ps)
  have "got_by ws c (map (\<lambda>u. (u, p)) (filter (\<lambda>u. user_routing_key S (uuid_str u) \<in> ks) fs)) = [note_of p]"
    using got_by_user [OF assms(1-3), of "filter (\<lambda>u. user_routing_key S (uuid_str u) \<in> ks) fs" p] assms(4-6) by auto
  then show ?case using Cons by (simp add: recipients_def)
qed (simp add: recipients_def got_by_def)

text \<open>The bridges of several processes, whose queues hold notifications.\<close>

lemma bridges_deliver:
  fixes st :: "('p, 'c) site"
  assumes "prefix_ok (dp_settings D)" and "distinct ps" and "inj_on (dp_queue D) (set ps)"
    and "\<forall>p \<in> set ps. unseen (dp_queue D p) st = map (\<lambda>(u, p). (user_routing_key (dp_settings D) (uuid_str u), dumps (note_of p))) (ups p)"
  shows "fold (site_bridge D) ps st = st\<lparr>st_taken := (\<lambda>q. if q \<in> dp_queue D ` set ps then length (bk_inbox (wo_broker (st_world st)) q) else st_taken st q),
      st_received := (\<lambda>ws. st_received st ws @ map (Pair (st_clock st)) (concat (map (\<lambda>p. got_by ws (st_managers st p) (ups p)) ps)))\<rparr>"
  using assms(2-4)
proof (induction ps arbitrary: st)
  case (Cons p ps)
  let ?out = "concat (map (\<lambda>(u, q). map (\<lambda>w. (w, note_of q)) (conns_of (st_managers st p) u)) (ups p))"
  let ?st = "st\<lparr>st_taken := seen (dp_queue D p) st,
    st_received := (\<lambda>ws. st_received st ws @ map (\<lambda>(w, j). (st_clock st, j)) (filter (\<lambda>(w, j). w = ws) ?out))\<rparr>"
  have "consume_loop (site_unbind D p) (\<lambda>_. True) (unseen (dp_queue D p) st) (st_managers st p, wo_broker (st_world st))
      = (?out, st_managers st p, wo_broker (st_world st))"
    using consume_notes [OF assms(1), of "site_unbind D p" "ups p"] Cons.prems(3) by simp
  then have one: "site_bridge D p st = ?st" by (simp add: site_bridge_def)
  have got: "map (\<lambda>(w, j). (st_clock st, j)) (filter (\<lambda>(w, j). w = ws) ?out) = map (Pair (st_clock st)) (got_by ws (st_managers st p) (ups p))" for ws
    by (simp add: got_by_def comp_def case_prod_beta)
  have new: "dp_queue D p \<notin> dp_queue D ` set ps" using Cons.prems(1,2) by (auto simp: inj_on_def)
  have "unseen (dp_queue D q) ?st = unseen (dp_queue D q) st" if "q \<in> set ps" for q
    using new imageI [OF that, of "dp_queue D"] by (simp add: unseen_def seen_def) metis
  then have "fold (site_bridge D) ps ?st = ?st\<lparr>st_taken := (\<lambda>q. if q \<in> dp_queue D ` set ps then length (bk_inbox (wo_broker (st_world ?st)) q) else st_taken ?st q),
      st_received := (\<lambda>ws. st_received ?st ws @ map (Pair (st_clock ?st)) (concat (map (\<lambda>p. got_by ws (st_managers ?st p) (ups p)) ps)))\<rparr>"
    using Cons.prems by (intro Cons.IH) auto
  then show ?case by (simp add: one got seen_def fun_eq_iff)
qed simp

section \<open>Invariant\<close>

definition deploy_ok :: "deploy \<Rightarrow> bool" where
  "deploy_ok D \<longleftrightarrow>
     (let S = dp_settings D in
      feed_transport S = ''rabbitmq'' \<and> prefix_ok S \<and> literal_key (rabbitmq_materialize_routing_key S)
      \<and> (\<forall>u. rabbitmq_materialize_routing_key S \<noteq> user_routing_key S (uuid_str u)) \<and> 0 \<le> feed_max_size S \<and> 0 < celebrity_cache_ttl S
      \<and> distinct (dp_processes D) \<and> inj_on (dp_queue D) (set (dp_processes D)) \<and> dp_work D \<notin> dp_queue D ` set (dp_processes D)
      \<and> (\<forall>port. dp_route D port \<in> set (dp_processes D)) \<and> inj_on (dp_uuid D) {..<dp_room D} \<and> (\<forall>k. dt_ok (dp_now D k)))"

text \<open>The tables of the primary: \<open>u\<close> is a follower of \<open>a\<close>, who is a celebrity or not, and the next identifiers are new.\<close>

definition tables_ready :: "deploy \<Rightarrow> bool \<Rightarrow> uuid \<Rightarrow> uuid \<Rightarrow> nat \<Rightarrow> redis \<Rightarrow> social \<Rightarrow> bool" where
  "tables_ready D fl u a n r s \<longleftrightarrow> social_ok s \<and> a \<in> us_id ` set (so_users s) \<and> u \<in> set (sql_followers s a) \<and> flagged (dp_settings D) s r a = fl
     \<and> (\<forall>k \<in> {n..<dp_room D}. dp_uuid D k \<notin> po_id ` set (so_posts s))"

definition process_ok :: "settings \<Rightarrow> nat manager \<Rightarrow> string set \<Rightarrow> nat \<Rightarrow> bool" where
  "process_ok S c ks n \<longleftrightarrow> manager_ok c \<and> ks \<subseteq> range (\<lambda>u. user_routing_key S (uuid_str u))
     \<and> (\<forall>v. conns_of c v \<noteq> [] \<longrightarrow> user_routing_key S (uuid_str v) \<in> ks) \<and> (\<forall>v. \<forall>x \<in> set (conns_of c v). x < n)"

definition site_ok :: "deploy \<Rightarrow> bool \<Rightarrow> uuid \<Rightarrow> uuid \<Rightarrow> ('p, 'c) site \<Rightarrow> bool" where
  "site_ok D fl u a st \<longleftrightarrow>
     (let w = st_world st; b = wo_broker w in
      deploy_ok D \<and> (\<exists>mp. db_master_pool (wo_database w) = Some mp \<and> tables_ready D fl u a (st_posts st) (wo_redis w) (wo_tables w mp))
      \<and> rc_client (wo_redis_client w) \<noteq> None \<and> cache_ok (wo_redis w) \<and> bk_up b
      \<and> broker_bound b (dp_work D) = {rabbitmq_materialize_routing_key (dp_settings D)}
      \<and> st_taken st (dp_work D) \<le> length (bk_inbox b (dp_work D))
      \<and> (\<forall>p \<in> set (dp_processes D). process_ok (dp_settings D) (st_managers st p) (broker_bound b (dp_queue D p)) (st_socket st)
           \<and> unseen (dp_queue D p) st = [] \<and> st_taken st (dp_queue D p) \<le> length (bk_inbox b (dp_queue D p))))"

text \<open>The tokens of the two users.\<close>

definition tokens_ok :: "deploy \<Rightarrow> string \<Rightarrow> string \<Rightarrow> uuid \<Rightarrow> uuid \<Rightarrow> bool" where
  "tokens_ok D alice bob u a \<longleftrightarrow> authenticate_ws (dp_settings D) (dp_decode D) (dp_today D) alice = Some u
     \<and> get_current_user (dp_settings D) (dp_decode D) (dp_today D) bob = Inr a"

definition site_start :: "deploy \<Rightarrow> string \<Rightarrow> string \<Rightarrow> ('p, 'c) site \<Rightarrow> bool" where
  "site_start D alice bob st \<longleftrightarrow> (\<exists>u a. tokens_ok D alice bob u a \<and> site_ok D False u a st \<and> unseen (dp_work D) st = [])"

text \<open>The queue of the worker holds the posts \<open>ps\<close>, and the socket \<open>ws\<close> is the one of \<open>u\<close> at one process.\<close>

definition work_of :: "deploy \<Rightarrow> post list \<Rightarrow> (string \<times> body) list" where
  "work_of D ps = map (\<lambda>p. (rabbitmq_materialize_routing_key (dp_settings D), dumps (created_payload p))) ps"

definition socket_at :: "deploy \<Rightarrow> nat \<Rightarrow> uuid \<Rightarrow> nat \<Rightarrow> ('p, 'c) site \<Rightarrow> bool" where
  "socket_at D ws u p st \<longleftrightarrow> p \<in> set (dp_processes D) \<and> ws \<in> set (conns_of (st_managers st p) u)
     \<and> (\<forall>q \<in> set (dp_processes D). \<forall>v. (q, v) \<noteq> (p, u) \<longrightarrow> ws \<notin> set (conns_of (st_managers st q) v))"

definition site_ready :: "deploy \<Rightarrow> string \<Rightarrow> string \<Rightarrow> nat \<Rightarrow> ('p, 'c) site \<Rightarrow> bool" where
  "site_ready D alice bob ws st \<longleftrightarrow> (\<exists>u a ps p. tokens_ok D alice bob u a \<and> site_ok D False u a st \<and> unseen (dp_work D) st = work_of D ps
     \<and> (\<forall>p \<in> set ps. po_author p = a \<and> dt_ok (po_created p) \<and> po_text p \<noteq> []) \<and> socket_at D ws u p st)"

definition post_id_of :: "body \<Rightarrow> string" where
  "post_id_of m = (case m of None \<Rightarrow> [] | Some j \<Rightarrow> (case json_item j ''post_id'' of Inr (JStr i) \<Rightarrow> i | _ \<Rightarrow> []))"

definition site_pending :: "deploy \<Rightarrow> ('p, 'c) site \<Rightarrow> string list" where
  "site_pending D st = map (\<lambda>(k, m). post_id_of m) (unseen (dp_work D) st)"

definition site_known :: "('p, 'c) site \<Rightarrow> string set" where
  "site_known st = (case db_master_pool (wo_database (st_world st)) of None \<Rightarrow> {}
     | Some mp \<Rightarrow> (\<lambda>p. uuid_str (po_id p)) ` set (so_posts (wo_tables (st_world st) mp)))"

definition site_room :: "deploy \<Rightarrow> ('p, 'c) site \<Rightarrow> nat" where
  "site_room D st = dp_room D - st_posts st"

lemma pending_work: "unseen (dp_work D) st = work_of D ps \<Longrightarrow> site_pending D st = map (\<lambda>p. uuid_str (po_id p)) ps"
  by (auto simp: site_pending_def work_of_def post_id_of_def dumps_def created_payload_def json_item_def)

lemma literal_bindings: "deploy_ok D \<Longrightarrow> process_ok (dp_settings D) c ks n \<Longrightarrow> k \<in> ks \<Longrightarrow> literal_key k"
  using literal_user_key by (auto simp: deploy_ok_def process_ok_def Let_def)

text \<open>An event for the worker does not enter the queue of a process.\<close>

lemma event_kept_out:
  assumes "deploy_ok D" and "process_ok (dp_settings D) c (broker_bound b q) n"
    and "broker_publish (rabbitmq_materialize_routing_key (dp_settings D)) m b = (Inr (), b')"
  shows "bk_inbox b' q = bk_inbox b q"
proof -
  have "rabbitmq_materialize_routing_key (dp_settings D) \<notin> broker_bound b q"
    using assms(1,2) unfolding deploy_ok_def process_ok_def Let_def by blast
  then show ?thesis using bk.publish_literal [OF assms(3), of q] literal_bindings [OF assms(1,2)] by simp
qed

section \<open>The laws of the service\<close>

lemma site_okD:
  assumes "site_ok D fl u a st"
  shows "deploy_ok D" "bk_up (wo_broker (st_world st))" "cache_ok (wo_redis (st_world st))" "rc_client (wo_redis_client (st_world st)) \<noteq> None"
    and "broker_bound (wo_broker (st_world st)) (dp_work D) = {rabbitmq_materialize_routing_key (dp_settings D)}"
    and "st_taken st (dp_work D) \<le> length (bk_inbox (wo_broker (st_world st)) (dp_work D))"
    and "p \<in> set (dp_processes D) \<Longrightarrow>
      process_ok (dp_settings D) (st_managers st p) (broker_bound (wo_broker (st_world st)) (dp_queue D p)) (st_socket st)"
    and "p \<in> set (dp_processes D) \<Longrightarrow> unseen (dp_queue D p) st = []"
    and "p \<in> set (dp_processes D) \<Longrightarrow> st_taken st (dp_queue D p) \<le> length (bk_inbox (wo_broker (st_world st)) (dp_queue D p))"
    and "\<exists>mp. db_master_pool (wo_database (st_world st)) = Some mp
      \<and> tables_ready D fl u a (st_posts st) (wo_redis (st_world st)) (wo_tables (st_world st) mp)"
  using assms by (auto simp: site_ok_def Let_def)

lemma session_opens:
  fixes st :: "('p, 'c) site"
  assumes t: "tokens_ok D alice bob u a" and ok: "site_ok D fl u a st"
  shows "\<exists>ws p b st'. site_connect D port alice st = (Inr ws, st') \<and> site_ok D fl u a st' \<and> socket_at D ws u p st' \<and> st_received st' ws = []
    \<and> st_world st' = (st_world st)\<lparr>wo_broker := b\<rparr> \<and> st_posts st' = st_posts st \<and> (\<forall>q. unseen q st' = unseen q st)"
proof -
  note d = site_okD [OF ok]
  let ?p = "dp_route D port" and ?ws = "st_socket st" and ?S = "dp_settings D" and ?b = "wo_broker (st_world st)"
  let ?key = "user_routing_key ?S (uuid_str u)"
  have p: "?p \<in> set (dp_processes D)" using d(1) by (simp add: deploy_ok_def Let_def)
  note pk = d(7) [OF p]
  define c where "c = snd (cm_register u ?ws (st_managers st ?p))"
  define b where "b = (if conns_of (st_managers st ?p) u = [] then snd (broker_bind (dp_queue D ?p) ?key ?b) else ?b)"
  have b: "bk_up b" "bk_inbox b = bk_inbox ?b" "broker_bound b = (broker_bound ?b)(dp_queue D ?p := insert ?key (broker_bound ?b (dp_queue D ?p)))"
  proof -
    have "broker_bind (dp_queue D ?p) ?key ?b = (Inr (), snd (broker_bind (dp_queue D ?p) ?key ?b))" "bk_up (snd (broker_bind (dp_queue D ?p) ?key ?b))"
      using d(2) by (simp_all add: broker_bind_def)
    moreover have "conns_of (st_managers st ?p) u \<noteq> [] \<Longrightarrow> ?key \<in> broker_bound ?b (dp_queue D ?p)" using pk by (simp add: process_ok_def)
    ultimately show "bk_up b" "bk_inbox b = bk_inbox ?b" "broker_bound b = (broker_bound ?b)(dp_queue D ?p := insert ?key (broker_bound ?b (dp_queue D ?p)))"
      using d(2) bk.bind_bound bk.bind_inbox by (auto simp: b_def insert_absorb fun_eq_iff)
  qed
  let ?st = "st\<lparr>st_socket := Suc ?ws, st_received := (st_received st)(?ws := []), st_sessions := (st_sessions st)(?ws := Some (?p, u)),
    st_managers := (st_managers st)(?p := c), st_world := (st_world st)\<lparr>wo_broker := b\<rparr>\<rparr>"
  have "ConnectionManager_connect (site_bind D ?p) u ?ws (st_managers st ?p, ?b) = (c, b)"
    by (simp add: ConnectionManager_connect_def c_def b_def cm_register_def run_callback_def bridge_bind_user_def Let_def)
  then have run: "site_connect D port alice st = (Inr ?ws, ?st)"
    using t by (simp add: site_connect_def feed_ws_def tokens_ok_def Let_def)
  have new: "?ws \<notin> set (conns_of (st_managers st q) v)" if "q \<in> set (dp_processes D)" for q v
    using d(7) [OF that] by (auto simp: process_ok_def)
  have conns: "conns_of c v = (if v = u then conns_of (st_managers st ?p) u @ [?ws] else conns_of (st_managers st ?p) v)" for v
    using new [OF p, of u] by (simp add: c_def cm_simps)
  have other: "dp_queue D q \<noteq> dp_queue D ?p" if "q \<in> set (dp_processes D)" "q \<noteq> ?p" for q
    using d(1) p that by (auto simp: deploy_ok_def Let_def inj_on_def)
  have work: "dp_work D \<noteq> dp_queue D ?p" using d(1) p by (auto simp: deploy_ok_def Let_def)
  have "process_ok ?S c (insert ?key (broker_bound ?b (dp_queue D ?p))) (Suc ?ws)"
    using pk conns by (auto simp: process_ok_def c_def manager_ok_register less_Suc_eq)
  moreover have "process_ok ?S (st_managers st q) (broker_bound ?b (dp_queue D q)) (Suc ?ws)" if "q \<in> set (dp_processes D)" for q
    using d(7) [OF that] by (force simp: process_ok_def less_Suc_eq)
  ultimately have procs: "process_ok ?S (st_managers ?st q) (broker_bound b (dp_queue D q)) (Suc ?ws)" if "q \<in> set (dp_processes D)" for q
    using that other [OF that] by (cases "q = ?p") (simp_all add: b(3))
  have unseen: "unseen q ?st = unseen q st" for q by (simp add: unseen_def b(2))
  have "site_ok D fl u a ?st"
    unfolding site_ok_def Let_def
    using d(1,3-6,8-10) procs b(1,2) work by (simp add: b(3) unseen)
  moreover have "socket_at D ?ws u ?p ?st" using p new conns by (auto simp: socket_at_def)
  ultimately show ?thesis using run unseen
    by (intro exI [of _ ?ws] exI [of _ ?p] exI [of _ b] exI [of _ ?st]) simp
qed

lemma site_connects:
  fixes st :: "('p, 'c) site"
  assumes "site_start D alice bob st"
  shows "\<exists>ws st'. site_connect D port alice st = (Inr ws, st') \<and> site_ready D alice bob ws st' \<and> site_pending D st' = [] \<and> st_received st' ws = []
    \<and> site_room D st' = site_room D st"
proof -
  obtain u a where t: "tokens_ok D alice bob u a" and ok: "site_ok D False u a st" and idle: "unseen (dp_work D) st = []"
    using assms by (auto simp: site_start_def)
  obtain ws p b st' where st': "site_connect D port alice st = (Inr ws, st')" "site_ok D False u a st'" "socket_at D ws u p st'" "st_received st' ws = []"
      "st_posts st' = st_posts st" "\<forall>q. unseen q st' = unseen q st"
    using session_opens [OF t ok, of port] by blast
  have "site_ready D alice bob ws st'"
    using t idle st' unfolding site_ready_def by (intro exI [of _ u] exI [of _ a] exI [of _ "[]"] exI [of _ p]) (simp add: work_of_def)
  then show ?thesis using idle st' by (intro exI [of _ ws] exI [of _ st']) (simp add: site_pending_def site_room_def)
qed

lemma site_posts:
  fixes st :: "('p, 'c) site"
  assumes "site_ready D alice bob ws st" and x: "x \<noteq> []" and room: "0 < site_room D st"
  shows "\<exists>pid st'. site_post D port bob x st = (Inr (200, Inr (JObj [(''id'', JStr pid)])), st') \<and> site_ready D alice bob ws st'
    \<and> site_pending D st' = site_pending D st @ [pid] \<and> st_received st' ws = st_received st ws
    \<and> pid \<notin> site_known st \<and> site_known st' = insert pid (site_known st) \<and> site_room D st = Suc (site_room D st')"
proof -
  obtain u a ps p0 where t: "tokens_ok D alice bob u a" and ok: "site_ok D False u a st" and work: "unseen (dp_work D) st = work_of D ps"
      and ps: "\<forall>p \<in> set ps. po_author p = a \<and> dt_ok (po_created p) \<and> po_text p \<noteq> []" and sock: "socket_at D ws u p0 st"
    using assms(1) by (auto simp: site_ready_def)
  note d = site_okD [OF ok]
  let ?S = "dp_settings D" and ?w = "st_world st" and ?n = "st_posts st" and ?key = "rabbitmq_materialize_routing_key (dp_settings D)"
  obtain mp where mp: "db_master_pool (wo_database ?w) = Some mp" "tables_ready D False u a ?n (wo_redis ?w) (wo_tables ?w mp)" using d(10) by blast
  let ?s = "wo_tables ?w mp" and ?i = "dp_uuid D (st_posts st)"
  let ?p = "\<lparr>po_id = ?i, po_author = a, po_text = x, po_created = dp_now D ?n\<rparr>"
  let ?r = "(wo_redis ?w)(post_key ?i \<mapsto> Hash (row_to_post_hash ?p))"
  have a: "a \<in> us_id ` set (so_users ?s)" and i: "?i \<notin> po_id ` set (so_posts ?s)"
    using mp(2) room by (auto simp: tables_ready_def site_room_def)
  have tr: "feed_transport ?S = ''rabbitmq''" and dt: "dt_ok (dp_now D ?n)" and inj: "inj_on (dp_uuid D) {..<dp_room D}" and key: "literal_key ?key"
    using d(1) by (auto simp: deploy_ok_def Let_def)
  obtain b where b: "create_post ?S redis_step site_publish ?i (dp_now D ?n) x a ?w
        = (Inr ?i, ?w\<lparr>wo_tables := (wo_tables ?w)(mp := sql_insert_post ?p ?s), wo_redis := ?r, wo_broker := b\<rparr>)"
      "broker_publish ?key (dumps (created_payload ?p)) (wo_broker ?w) = (Inr (), b)" "bk_up b"
    using create_post_publishes [OF live.live_broker_axioms tr mp(1) refl a i d(4,3,2) refl] by blast
  let ?w' = "?w\<lparr>wo_tables := (wo_tables ?w)(mp := sql_insert_post ?p ?s), wo_redis := ?r, wo_broker := b\<rparr>"
  let ?st = "st\<lparr>st_world := ?w', st_posts := Suc ?n\<rparr>"
  have run: "site_post D port bob x st = (Inr (200, Inr (JObj [(''id'', JStr (uuid_str ?i))])), ?st)"
    using t b(1) by (simp add: site_post_def tokens_ok_def liftP_def http_response_def id_json_def Let_def)
  have bd: "broker_bound b = broker_bound (wo_broker ?w)" using bk.publish_bound [OF b(2)] .
  have inw: "bk_inbox b (dp_work D) = bk_inbox (wo_broker ?w) (dp_work D) @ [(?key, dumps (created_payload ?p))]"
    using bk.publish_literal [OF b(2), of "dp_work D"] d(5) key by simp
  note inq = event_kept_out [OF d(1) d(7) b(2)]
  have social: "social_ok (sql_insert_post ?p ?s)"
    using mp(2) i dt by (auto simp: tables_ready_def social_ok_def sql_insert_post_def)
  have fresh: "dp_uuid D k \<noteq> ?i" if "Suc ?n \<le> k" "k < dp_room D" for k using inj_onD [OF inj, of k ?n] that by auto
  have "\<not> flagged ?S (sql_insert_post ?p ?s) ?r a" using mp(2) by (simp add: tables_ready_def)
  moreover have "so_users (sql_insert_post ?p ?s) = so_users ?s" "sql_followers (sql_insert_post ?p ?s) a = sql_followers ?s a"
      "so_posts (sql_insert_post ?p ?s) = so_posts ?s @ [?p]"
    by (simp_all add: sql_insert_post_def sql_followers_def)
  ultimately have "tables_ready D False u a (Suc ?n) ?r (sql_insert_post ?p ?s)"
    using mp(2) social fresh by (auto simp: tables_ready_def)
  moreover have "unseen (dp_queue D q) ?st = unseen (dp_queue D q) st" if "q \<in> set (dp_processes D)" for q
    using inq [OF that] by (simp add: unseen_def)
  moreover have "cache_ok ?r" by (rule cache_ok_store [OF d(3)])
  ultimately have "site_ok D False u a ?st"
    unfolding site_ok_def Let_def using d(1,4-9) b(3) mp(1) inq by (auto simp: bd inw)
  moreover have new: "unseen (dp_work D) ?st = work_of D (ps @ [?p])"
    using work d(6) by (simp add: unseen_def work_of_def inw)
  moreover have "socket_at D ws u p0 ?st" using sock by (simp add: socket_at_def)
  ultimately have "site_ready D alice bob ws ?st"
    unfolding site_ready_def using t ps dt x by (intro exI [of _ u] exI [of _ a] exI [of _ "ps @ [?p]"] exI [of _ p0]) auto
  moreover have "site_pending D ?st = site_pending D st @ [uuid_str ?i]" using pending_work [OF new] pending_work [OF work] by simp
  moreover have "uuid_str ?i \<notin> site_known st" using i mp(1) by (auto simp: site_known_def uuid_str_inj)
  moreover have "site_known ?st = insert (uuid_str ?i) (site_known st)" using mp(1) by (auto simp: site_known_def sql_insert_post_def)
  moreover have "site_room D st = Suc (site_room D ?st)" using room by (simp add: site_room_def)
  ultimately show ?thesis using run by (intro exI [of _ "uuid_str ?i"] exI [of _ ?st]) simp
qed

lemma announces_note: "announces (note_of p) (uuid_str (po_id p))"
  by (simp add: announces_def note_of_def post_new_type) (simp add: json_item_def post_new_payload_def)

lemma site_delivers:
  fixes st :: "('p, 'c) site"
  assumes "site_ready D alice bob ws st"
  shows "\<exists>ms st'. site_pause D d st = (Inr (), st') \<and> site_ready D alice bob ws st' \<and> site_pending D st' = [] \<and> site_known st' = site_known st
    \<and> site_room D st' = site_room D st \<and> st_received st' ws = st_received st ws @ ms \<and> announced ms (site_pending D st)"
proof -
  obtain u a ps p0 where t: "tokens_ok D alice bob u a" and ok: "site_ok D False u a st" and work: "unseen (dp_work D) st = work_of D ps"
      and ps: "\<forall>p \<in> set ps. po_author p = a \<and> dt_ok (po_created p) \<and> po_text p \<noteq> []" and sock: "socket_at D ws u p0 st"
    using assms(1) by (auto simp: site_ready_def)
  note d = site_okD [OF ok]
  let ?S = "dp_settings D" and ?w = "st_world st" and ?P = "set (dp_processes D)"
  obtain mp where mp: "db_master_pool (wo_database ?w) = Some mp" "tables_ready D False u a (st_posts st) (wo_redis ?w) (wo_tables ?w mp)" using d(10) by blast
  let ?s = "wo_tables ?w mp" and ?B = "broker_bound (wo_broker ?w)"
  have S: "0 \<le> feed_max_size ?S" "0 < celebrity_cache_ttl ?S" "prefix_ok ?S" "literal_key (rabbitmq_materialize_routing_key ?S)"
      "\<And>v. rabbitmq_materialize_routing_key ?S \<noteq> user_routing_key ?S (uuid_str v)" "distinct (dp_processes D)" "inj_on (dp_queue D) ?P"
      "dp_work D \<notin> dp_queue D ` ?P"
    using d(1) by (auto simp: deploy_ok_def Let_def)
  have s: "master_view ?w = Inr ?s" "social_ok ?s" "\<not> flagged ?S ?s (wo_redis ?w) a" "u \<in> set (sql_followers ?s a)"
    using mp by (auto simp: master_view_def master_connection_def tables_ready_def)
  let ?fs = "sql_followers ?s a"
  obtain out r b where w: "rmq_consume_loop ?S redis_step site_publish (map (\<lambda>p. (dumps (created_payload p), False)) ps) ?w
        = (out, ?w\<lparr>wo_redis := r, wo_broker := b\<rparr>)" "cache_ok r" "\<not> flagged ?S ?s r a" "bk_up b" "broker_bound b = ?B"
      "\<forall>q. (\<forall>k \<in> ?B q. literal_key k) \<longrightarrow> bk_inbox b q = bk_inbox (wo_broker ?w) q @ notes_for ?S (?B q) ?fs ps"
    using worker_notifies [OF S(1,2) s(1,2) d(3,2) s(3) ps] by blast
  have inw: "bk_inbox b (dp_work D) = bk_inbox (wo_broker ?w) (dp_work D)"
    using w(6) S(4,5) d(5) by (simp add: notes_for_def not_sym [OF S(5)])
  have inq: "bk_inbox b (dp_queue D q) = bk_inbox (wo_broker ?w) (dp_queue D q) @ notes_for ?S (?B (dp_queue D q)) ?fs ps" if "q \<in> ?P" for q
    using w(6) literal_bindings [OF d(1) d(7) [OF that]] by blast
  let ?st1 = "st\<lparr>st_clock := st_clock st + d, st_world := ?w\<lparr>wo_redis := r, wo_broker := b\<rparr>, st_taken := (st_taken st)(dp_work D := length (bk_inbox b (dp_work D)))\<rparr>"
  have "map (\<lambda>(k, m). (m, False)) (unseen (dp_work D) st) = map (\<lambda>p. (dumps (created_payload p), False)) ps"
    by (simp add: work work_of_def)
  moreover have "unseen (dp_work D) (st\<lparr>st_clock := st_clock st + d\<rparr>) = unseen (dp_work D) st" by (simp add: unseen_def)
  ultimately have worked: "site_work D (st\<lparr>st_clock := st_clock st + d\<rparr>) = ?st1"
    using w(1) inw by (simp add: site_work_def seen_def)
  let ?ups = "\<lambda>q. recipients ?S (?B (dp_queue D q)) ?fs ps"
  have "unseen (dp_queue D q) ?st1 = map (\<lambda>(u, p). (user_routing_key ?S (uuid_str u), dumps (note_of p))) (?ups q)" if "q \<in> ?P" for q
  proof -
    have "dp_queue D q \<noteq> dp_work D" using S(8) that by (metis imageI)
    moreover have "st_taken st (dp_queue D q) = length (bk_inbox (wo_broker ?w) (dp_queue D q))" using d(8,9) [OF that] by (simp add: unseen_def)
    ultimately show ?thesis using inq [OF that] by (simp add: unseen_def notes_for_recipients)
  qed
  then have bridged: "fold (site_bridge D) (dp_processes D) ?st1 = ?st1\<lparr>
      st_taken := (\<lambda>q. if q \<in> dp_queue D ` ?P then length (bk_inbox b q) else st_taken ?st1 q),
      st_received := (\<lambda>ws. st_received st ws @ map (Pair (st_clock st + d)) (concat (map (\<lambda>p. got_by ws (st_managers st p) (?ups p)) (dp_processes D))))\<rparr>"
    (is "_ = ?st2") using bridges_deliver [OF S(3,6,7), of ?st1 ?ups] by (simp cong: if_cong)
  have run: "site_pause D d st = (Inr (), ?st2)" by (simp only: site_pause_def worked bridged)
  note p0 = d(7) [of p0]
  have pk: "p0 \<in> ?P" "ws \<in> set (conns_of (st_managers st p0) u)" using sock by (auto simp: socket_at_def)
  have got: "got_by ws (st_managers st q) (?ups q) = (if q = p0 then map note_of ps else [])" if "q \<in> ?P" for q
  proof (cases "q = p0")
    case True
    have "conns_of (st_managers st p0) u \<noteq> []" using pk(2) by auto
    then have "manager_ok (st_managers st p0)" "user_routing_key ?S (uuid_str u) \<in> ?B (dp_queue D p0)"
      using p0 [OF pk(1)] by (simp_all add: process_ok_def)
    then show ?thesis using True sock pk s(4) distinct_sql_followers [OF social_ok_distinct [OF s(2)]]
      by (simp add: got_by_recipients [of _ ws u] socket_at_def)
  next
    case False
    then show ?thesis using that sock by (simp add: got_by_none socket_at_def)
  qed
  have "concat (map (\<lambda>p. got_by ws (st_managers st p) (?ups p)) qs) = (if p0 \<in> set qs then map note_of ps else [])"
    if "distinct qs" "set qs \<subseteq> ?P" for qs
    using that got by (induction qs) auto
  from this [of "dp_processes D"] have received: "st_received ?st2 ws = st_received st ws @ map (Pair (st_clock st + d)) (map note_of ps)"
    using S(6) pk(1) by simp
  have unseen: "unseen (dp_work D) ?st2 = []" "q \<in> ?P \<Longrightarrow> unseen (dp_queue D q) ?st2 = []" for q
    using S(8) by (auto simp: unseen_def)
  have "tables_ready D False u a (st_posts st) r ?s" using mp(2) w(3) by (simp add: tables_ready_def)
  then have "site_ok D False u a ?st2"
    unfolding site_ok_def Let_def using d(1,4,5,7) w(2,4,5) mp(1) unseen S(8) by auto
  moreover have "socket_at D ws u p0 ?st2" using sock by (simp add: socket_at_def)
  ultimately have "site_ready D alice bob ws ?st2"
    unfolding site_ready_def using t unseen(1) by (intro exI [of _ u] exI [of _ a] exI [of _ "[]"] exI [of _ p0]) (simp add: work_of_def)
  moreover have "announced (map (Pair (st_clock st + d)) (map note_of ps)) (site_pending D st)"
    by (simp add: pending_work [OF work] list_all2_conv_all_nth announces_note)
  moreover have "site_known ?st2 = site_known st" by (simp add: site_known_def split: option.split)
  moreover have "site_room D ?st2 = site_room D st" by (simp add: site_room_def)
  ultimately show ?thesis using run received unseen(1) by (intro exI [of _ "map (Pair (st_clock st + d)) (map note_of ps)"] exI [of _ ?st2])
    (simp add: site_pending_def)
qed

lemma site_closes: "\<exists>st'. site_close D ws st = (Inr (), st')"
  by (auto simp: site_close_def split: option.split prod.split)

interpretation live_site: notification_service "site_client D" alice bob "site_start D alice bob" "site_ready D alice bob" "site_pending D" site_known
    "site_room D"
  for D :: deploy and alice bob :: string
proof
  fix port s
  show "\<exists>ws s'. ck_connect (site_client D) port alice s = (Inr ws, s') \<and> site_ready D alice bob ws s' \<and> site_pending D s' = []
      \<and> ck_received (site_client D) ws s' = [] \<and> site_room D s' = site_room D s" if "site_start D alice bob s"
    using site_connects [OF that] by (simp add: site_client_def)
  fix ws and x :: string
  show "\<exists>pid s'. ck_post (site_client D) port bob x s = (Inr (200, Inr (JObj [(''id'', JStr pid)])), s') \<and> site_ready D alice bob ws s'
      \<and> site_pending D s' = site_pending D s @ [pid] \<and> ck_received (site_client D) ws s' = ck_received (site_client D) ws s
      \<and> pid \<notin> site_known s \<and> site_known s' = insert pid (site_known s) \<and> site_room D s = Suc (site_room D s')"
    if "site_ready D alice bob ws s" "x \<noteq> []" "0 < site_room D s"
    using site_posts [OF that] by (simp add: site_client_def)
  fix d :: rat
  show "\<exists>ms s'. ck_pause (site_client D) d s = (Inr (), s') \<and> site_ready D alice bob ws s' \<and> site_pending D s' = [] \<and> site_known s' = site_known s
      \<and> site_room D s' = site_room D s \<and> ck_received (site_client D) ws s' = ck_received (site_client D) ws s @ ms \<and> announced ms (site_pending D s)" if "site_ready D alice bob ws s"
    using site_delivers [OF that, of d] by (simp add: site_client_def)
  show "\<exists>s'. ck_close (site_client D) ws s = (Inr (), s')"
    using site_closes by (simp add: site_client_def)
qed

end
