(* ===== verification/Site_Tests.thy ===== *)
theory Site_Tests
  imports Site
begin

text \<open>
  What the acceptance scripts report of the deployed system: the tests of the notifications pass, the load tests lose nothing, and the
  test of the celebrities passes, which marks the author in the cache.
\<close>

section \<open>The tests of the notifications\<close>

lemma site_files:
  "read_file ''/tmp/jwt_a'' = Inr fa \<Longrightarrow> read_file ''/tmp/jwt_b'' = Inr fb \<Longrightarrow> live_site.token_files (py_strip fa) (py_strip fb) read_file"
  by (simp add: live_site.token_files_def)

text \<open>C5: On a deployment with the documented servers, where Alice follows Bob, who is no celebrity, and the files hold
  tokens of the two, the tests of the notifications exit with 0, in one process and across two.\<close>

theorem notification_tests_pass:
  assumes "read_file ''/tmp/jwt_a'' = Inr fa" and "read_file ''/tmp/jwt_b'' = Inr fb"
    and "site_start D (py_strip fa) (py_strip fb) st" and "0 < site_room D st"
  shows "(\<exists>st'. ws_test (site_client D) read_file st = (Inr 0, st')) \<and> (\<exists>st'. ws_scale_test (site_client D) read_file st = (Inr 0, st'))"
  using live_site.ws_test_succeeds [OF assms(3) site_files [OF assms(1,2)] assms(4)]
    live_site.ws_scale_test_succeeds [OF assms(3) site_files [OF assms(1,2)] assms(4)] by blast

text \<open>C3: On such a deployment the sequential load test reports all of its thirty posts as delivered, and the one
  that sends a hundred posts at once reports a hundred sent, a hundred delivered and no loss.\<close>

theorem load_tests_lose_nothing:
  assumes "read_file ''/tmp/jwt_a'' = Inr fa" and "read_file ''/tmp/jwt_b'' = Inr fb"
    and "site_start D (py_strip fa) (py_strip fb) st" and "100 \<le> site_room D st"
  shows "(\<exists>L st'. load_seq (site_client D) read_file st = (Inr (30, L), st'))
    \<and> (\<exists>L st'. load_test (site_client D) read_file st = (Inr (100, 100, 0, L), st'))"
  using live_site.load_seq_complete [OF assms(3) site_files [OF assms(1,2)]] live_site.load_test_complete [OF assms(3) site_files [OF assms(1,2)]] assms(4)
  by (auto simp: SEQ_N_def N_POSTS_def)

section \<open>The test of the celebrities\<close>

definition quiet :: "deploy \<Rightarrow> ('p, 'c) site \<Rightarrow> bool" where
  "quiet D st \<longleftrightarrow> unseen (dp_work D) st = [] \<and> (\<forall>p \<in> set (dp_processes D). unseen (dp_queue D p) st = [])"

lemma quiet_bridges:
  fixes st :: "('p, 'c) site"
  assumes "deploy_ok D" and "\<forall>p \<in> set (dp_processes D). unseen (dp_queue D p) st = []"
  shows "\<exists>tk. fold (site_bridge D) (dp_processes D) st = st\<lparr>st_taken := tk\<rparr>
    \<and> (\<forall>q. tk q = st_taken st q \<or> tk q = length (bk_inbox (wo_broker (st_world st)) q))"
proof -
  have "fold (site_bridge D) (dp_processes D) st = st\<lparr>
      st_taken := (\<lambda>q. if q \<in> dp_queue D ` set (dp_processes D) then length (bk_inbox (wo_broker (st_world st)) q) else st_taken st q),
      st_received := (\<lambda>ws. st_received st ws @ map (Pair (st_clock st)) (concat (map (\<lambda>p. got_by ws (st_managers st p) []) (dp_processes D))))\<rparr>"
    using assms by (intro bridges_deliver) (auto simp: deploy_ok_def Let_def)
  moreover have "(\<lambda>ws. st_received st ws @ map (Pair (st_clock st)) (concat (map (\<lambda>p. got_by ws (st_managers st p) []) ps))) = st_received st" for ps
    by (induction ps) (simp_all add: got_by_def)
  ultimately have "fold (site_bridge D) (dp_processes D) st = st\<lparr>
      st_taken := (\<lambda>q. if q \<in> dp_queue D ` set (dp_processes D) then length (bk_inbox (wo_broker (st_world st)) q) else st_taken st q)\<rparr>"
    by (simp only:) simp
  then show ?thesis
    by (intro exI [of _ "\<lambda>q. if q \<in> dp_queue D ` set (dp_processes D) then length (bk_inbox (wo_broker (st_world st)) q) else st_taken st q"]) simp
qed

lemma quiet_taken:
  assumes "quiet D st" and "\<forall>q. tk q = st_taken st q \<or> tk q = length (bk_inbox (wo_broker (st_world st)) q)"
  shows "quiet D (st\<lparr>st_taken := tk\<rparr>)"
proof -
  have "unseen q (st\<lparr>st_taken := tk\<rparr>) = []" if "unseen q st = []" for q
    using spec [OF assms(2), of q] that by (auto simp: unseen_def)
  then show ?thesis using assms(1) by (simp add: quiet_def)
qed

text \<open>A pause in which the worker finds one message that leaves the broker as it is, and one in which it finds none.\<close>

lemma worked_pause:
  fixes st :: "('p, 'c) site"
  assumes D: "deploy_ok D" and idle: "\<forall>p \<in> set (dp_processes D). unseen (dp_queue D p) st = []" and one: "unseen (dp_work D) st = [(k, m)]"
    and h: "rmq_handle_message (dp_settings D) redis_step site_publish m (st_world st) = (Inr (), w)" and b: "wo_broker w = wo_broker (st_world st)"
  shows "\<exists>tk. site_pause D d st = (Inr (), st\<lparr>st_clock := st_clock st + d, st_world := w, st_taken := tk\<rparr>)
    \<and> quiet D (st\<lparr>st_clock := st_clock st + d, st_world := w, st_taken := tk\<rparr>)"
proof -
  let ?st = "st\<lparr>st_clock := st_clock st + d, st_world := w, st_taken := seen (dp_work D) st\<rparr>"
  have "site_work D (st\<lparr>st_clock := st_clock st + d\<rparr>) = ?st"
    using one h by (simp add: site_work_def unseen_def seen_def)
  moreover have idle': "\<forall>p \<in> set (dp_processes D). unseen (dp_queue D p) ?st = []" using idle by (simp add: unseen_def seen_def b)
  moreover have "unseen (dp_work D) ?st = []" by (simp add: unseen_def seen_def b)
  moreover obtain tk where "fold (site_bridge D) (dp_processes D) ?st = ?st\<lparr>st_taken := tk\<rparr>"
      "\<forall>q. tk q = st_taken ?st q \<or> tk q = length (bk_inbox (wo_broker (st_world ?st)) q)"
    using quiet_bridges [OF D idle'] by blast
  ultimately show ?thesis using quiet_taken [of D ?st tk] by (intro exI [of _ tk]) (simp add: site_pause_def quiet_def [of D ?st])
qed

lemma quiet_pause:
  fixes st :: "('p, 'c) site"
  assumes D: "deploy_ok D" and idle: "quiet D st"
  shows "\<exists>tk. site_pause D d st = (Inr (), st\<lparr>st_clock := st_clock st + d, st_taken := tk\<rparr>) \<and> quiet D (st\<lparr>st_clock := st_clock st + d, st_taken := tk\<rparr>)
    \<and> (\<forall>q. tk q = st_taken st q \<or> tk q = length (bk_inbox (wo_broker (st_world st)) q))"
proof -
  let ?st = "st\<lparr>st_clock := st_clock st + d, st_taken := seen (dp_work D) st\<rparr>"
  have "site_work D (st\<lparr>st_clock := st_clock st + d\<rparr>) = ?st"
    using idle by (simp add: site_work_def unseen_def seen_def quiet_def)
  moreover have idle': "\<forall>p \<in> set (dp_processes D). unseen (dp_queue D p) ?st = []" using idle by (simp add: unseen_def seen_def quiet_def)
  moreover have "unseen (dp_work D) ?st = []" by (simp add: unseen_def seen_def)
  moreover obtain tk where tk: "fold (site_bridge D) (dp_processes D) ?st = ?st\<lparr>st_taken := tk\<rparr>"
      "\<forall>q. tk q = st_taken ?st q \<or> tk q = length (bk_inbox (wo_broker (st_world ?st)) q)"
    using quiet_bridges [OF D idle'] by blast
  moreover have "tk q = st_taken st q \<or> tk q = length (bk_inbox (wo_broker (st_world st)) q)" for q
    using spec [OF tk(2), of q] by (auto simp: seen_def split: if_splits)
  ultimately show ?thesis using quiet_taken [of D ?st tk] by (intro exI [of _ tk]) (simp add: site_pause_def quiet_def [of D ?st])
qed

definition bob_uuid :: uuid where
  "bob_uuid = (case UUID BOB_ID of Inr u \<Rightarrow> u | Inl _ \<Rightarrow> 0)"

lemma uuid_bob: "UUID BOB_ID = Inr bob_uuid" "uuid_str bob_uuid = BOB_ID"
  by (simp_all add: bob_uuid_def) code_simp+

text \<open>Alice's feed is in the cache and holds what the worker owes it, the bodies of the posts are there, and nothing of her friends is newer
  than the next post.\<close>

definition feed_ready :: "deploy \<Rightarrow> uuid \<Rightarrow> datetime \<Rightarrow> redis \<Rightarrow> social \<Rightarrow> bool" where
  "feed_ready D u t r s \<longleftrightarrow> bodies_ok s r \<and> r (feed_key u) \<noteq> None \<and> set (zset_at r (feed_key u)) \<subseteq> friend_entries s u
     \<and> (\<forall>q \<in> set (friend_posts s u). po_author q = bob_uuid \<or> flagged (dp_settings D) s r (po_author q) \<or> entry q \<in> set (zset_at r (feed_key u)))
     \<and> (\<forall>q \<in> set (friend_posts s u). po_created q < t)"

definition celebrity_start :: "deploy \<Rightarrow> string \<Rightarrow> string \<Rightarrow> ('p, 'c) site \<Rightarrow> bool" where
  "celebrity_start D alice bob st \<longleftrightarrow> (\<exists>u fl mp. tokens_ok D alice bob u bob_uuid \<and> site_ok D fl u bob_uuid st \<and> unseen (dp_work D) st = []
     \<and> 0 < site_room D st \<and> db_master_pool (wo_database (st_world st)) = Some mp
     \<and> feed_ready D u (dp_now D (st_posts st)) (wo_redis (st_world st)) (wo_tables (st_world st) mp))"

abbreviation mark_bob :: "redis \<Rightarrow> redis" where
  "mark_bob r \<equiv> r(celebrity_key bob_uuid \<mapsto> Str ''1'')"

lemma marked: "flagged S s (mark_bob r) f = (if f = bob_uuid then True else flagged S s r f)"
  by (simp add: flagged_def cached_flag_def)

lemma cache_ok_mark: "cache_ok r \<Longrightarrow> cache_ok (mark_bob r)"
  by (auto simp: cache_ok_def zset_at_def str_or_none_def)

lemma feed_ready_mark: "feed_ready D u t r s \<Longrightarrow> feed_ready D u t (mark_bob r) s"
  unfolding feed_ready_def marked by (auto simp: bodies_ok_def zset_at_def)

lemma token_user: "authenticate_ws S dec now token = Some u \<Longrightarrow> get_current_user S dec now token = Inr u"
  by (auto simp: authenticate_ws_def get_current_user_def split: option.splits sum.splits)

text \<open>The request of Bob, the pause in which the worker handles it, and the page of Alice.\<close>

lemma celebrity_round:
  fixes st :: "('p, 'c) site"
  assumes t: "tokens_ok D alice bob u bob_uuid" and ok: "site_ok D True u bob_uuid st" and idle: "unseen (dp_work D) st = []" and room: "0 < site_room D st"
    and mp: "db_master_pool (wo_database (st_world st)) = Some mp"
    and feed: "feed_ready D u (dp_now D (st_posts st)) (wo_redis (st_world st)) (wo_tables (st_world st) mp)" and x: "x \<noteq> []"
  shows "\<exists>i st1 st2 st3 rest. site_post D port bob x st = (Inr (200, Inr (id_json i)), st1) \<and> site_pause D d st1 = (Inr (), st2)
    \<and> site_page D port' alice st2 = (Inr (200, Inr (JList (JObj [(''id'', JStr (uuid_str i)), (''text'', JStr x), (''author_user_id'', JStr BOB_ID)] # rest))), st3)
    \<and> quiet D st3 \<and> st_received st3 = st_received st"
proof -
  note dd = site_okD [OF ok]
  let ?S = "dp_settings D" and ?w = "st_world st" and ?s = "wo_tables (st_world st) mp" and ?r = "wo_redis (st_world st)"
  let ?i = "dp_uuid D (st_posts st)" and ?t = "dp_now D (st_posts st)" and ?key = "rabbitmq_materialize_routing_key (dp_settings D)"
  let ?p = "\<lparr>po_id = ?i, po_author = bob_uuid, po_text = x, po_created = ?t\<rparr>"
  have tr: "feed_transport ?S = ''rabbitmq''" and dt: "dt_ok ?t" and key: "literal_key ?key" and ttl: "0 < celebrity_cache_ttl ?S"
    using dd(1) by (auto simp: deploy_ok_def Let_def)
  have tb: "tables_ready D True u bob_uuid (st_posts st) ?r ?s" using dd(10) mp by auto
  have a: "bob_uuid \<in> us_id ` set (so_users ?s)" and i: "?i \<notin> po_id ` set (so_posts ?s)" and fl: "flagged ?S ?s ?r bob_uuid"
    and friend: "(u, bob_uuid) \<in> set (so_friends ?s)"
    using tb room by (auto simp: tables_ready_def site_room_def set_sql_followers)
  have social: "social_ok (sql_insert_post ?p ?s)" using tb i dt by (auto simp: tables_ready_def social_ok_def sql_insert_post_def)
  have f: "bodies_ok ?s ?r" "?r (feed_key u) \<noteq> None" "set (zset_at ?r (feed_key u)) \<subseteq> friend_entries ?s u"
      "\<forall>q \<in> set (friend_posts ?s u). \<not> flagged ?S ?s ?r (po_author q) \<longrightarrow> entry q \<in> set (zset_at ?r (feed_key u))"
      "\<forall>q \<in> set (friend_posts ?s u). po_created q < ?t"
    using feed fl by (auto simp: feed_ready_def)
  have ten: "(1 :: int) \<le> 10" "(10 :: int) \<le> 1000" by simp_all
  obtain w1 w2 w3 rest where w: "create_post ?S redis_step site_publish ?i ?t x bob_uuid ?w = (Inr ?i, w1)"
      "rmq_handle_message ?S redis_step site_publish (dumps (created_payload ?p)) w1 = (Inr (), w2)" "wo_broker w2 = wo_broker w1"
      "get_feed ?S redis_step (dp_nonce D) 0 10 u w2 = (Inr (post_reply ?p # rest), w3)" "wo_broker w3 = wo_broker w1"
    using celebrity_path [OF live.live_broker_axioms tr mp refl social a i dd(4,3) f(1) dd(2) ttl refl dt x fl f(2,3,4) friend f(5) ten, of "dp_nonce D"]
    by blast
  obtain b where b: "wo_broker w1 = b" "broker_publish ?key (dumps (created_payload ?p)) (wo_broker ?w) = (Inr (), b)"
    using create_post_publishes [OF live.live_broker_axioms tr mp refl a i dd(4,3,2), of ?p x ?t] w(1) by auto
  have inw: "bk_inbox b (dp_work D) = bk_inbox (wo_broker ?w) (dp_work D) @ [(?key, dumps (created_payload ?p))]"
    using bk.publish_literal [OF b(2), of "dp_work D"] dd(5) key by simp
  note inq = event_kept_out [OF dd(1) dd(7) b(2)]
  let ?st1 = "st\<lparr>st_world := w1, st_posts := Suc (st_posts st)\<rparr>"
  have post: "site_post D port bob x st = (Inr (200, Inr (id_json ?i)), ?st1)"
    using t w(1) by (simp add: site_post_def tokens_ok_def liftP_def http_response_def Let_def)
  have idle1: "\<forall>q \<in> set (dp_processes D). unseen (dp_queue D q) ?st1 = []" using inq dd(8) by (simp add: unseen_def b(1))
  have one: "unseen (dp_work D) ?st1 = [(?key, dumps (created_payload ?p))]" using idle dd(6) by (simp add: unseen_def b(1) inw)
  obtain tk where tk: "site_pause D d ?st1 = (Inr (), ?st1\<lparr>st_clock := st_clock ?st1 + d, st_world := w2, st_taken := tk\<rparr>)"
      "quiet D (?st1\<lparr>st_clock := st_clock ?st1 + d, st_world := w2, st_taken := tk\<rparr>)"
    using worked_pause [OF dd(1) idle1 one, of w2 d] w(2,3) by auto
  let ?st2 = "?st1\<lparr>st_clock := st_clock ?st1 + d, st_world := w2, st_taken := tk\<rparr>"
  have "get_current_user ?S (dp_decode D) (dp_today D) alice = Inr u" using t token_user by (simp add: tokens_ok_def)
  then have page: "site_page D port' alice ?st2 = (Inr (200, Inr (page_json (post_reply ?p # rest))), ?st2\<lparr>st_world := w3\<rparr>)"
    using w(4) by (simp add: site_page_def liftP_def http_response_def)
  have "quiet D (?st2\<lparr>st_world := w3\<rparr>)" using tk(2) w(3,5) by (simp add: quiet_def unseen_def)
  then show ?thesis using post tk(1) page by (auto simp: page_json_def post_reply_def uuid_bob)
qed

lemma site_ok_taken:
  assumes "site_ok D fl u a st" and "quiet D (st\<lparr>st_clock := c, st_taken := tk\<rparr>)"
    and "\<forall>q. tk q = st_taken st q \<or> tk q = length (bk_inbox (wo_broker (st_world st)) q)"
  shows "site_ok D fl u a (st\<lparr>st_clock := c, st_taken := tk\<rparr>)"
proof -
  have "tk q \<le> length (bk_inbox (wo_broker (st_world st)) q)" if "st_taken st q \<le> length (bk_inbox (wo_broker (st_world st)) q)" for q
    using spec [OF assms(3), of q] that by auto
  then show ?thesis using assms(1,2) by (simp add: site_ok_def quiet_def Let_def)
qed

lemma site_ok_mark:
  fixes st :: "('p, 'c) site"
  assumes "site_ok D fl u bob_uuid st"
  shows "site_ok D True u bob_uuid (st\<lparr>st_world := (st_world st)\<lparr>wo_redis := mark_bob (wo_redis (st_world st))\<rparr>\<rparr>)"
proof -
  note d = site_okD [OF assms]
  have "tables_ready D fl u bob_uuid n r s \<Longrightarrow> tables_ready D True u bob_uuid n (mark_bob r) s" for n r s
    unfolding tables_ready_def marked by auto
  then have "\<exists>mp. db_master_pool (wo_database (st_world st)) = Some mp
      \<and> tables_ready D True u bob_uuid (st_posts st) (mark_bob (wo_redis (st_world st))) (wo_tables (st_world st) mp)"
    using d(10) by blast
  then show ?thesis
    unfolding site_ok_def Let_def using d(1,2,4-9) cache_ok_mark [OF d(3)] by (simp add: unseen_def)
qed

text \<open>C4: On a deployment where Alice follows Bob, her feed is in the cache with what the worker owes it, and the next
  post is newer than those of her friends, the test of the celebrities exits with 0: after it has marked Bob in the cache his post comes over
  no socket, and the page of Alice has it.\<close>

theorem celebrity_test_succeeds:
  assumes "read_file ''/tmp/jwt_a'' = Inr fa" and "read_file ''/tmp/jwt_b'' = Inr fb" and "celebrity_start D (py_strip fa) (py_strip fb) st"
  shows "\<exists>st'. celebrity_test (site_client D) read_file st = (Inr 0, st')"
proof -
  obtain u fl mp where t: "tokens_ok D (py_strip fa) (py_strip fb) u bob_uuid" and ok: "site_ok D fl u bob_uuid st" and idle: "unseen (dp_work D) st = []"
     and room: "0 < site_room D st" and mp: "db_master_pool (wo_database (st_world st)) = Some mp"
     and feed: "feed_ready D u (dp_now D (st_posts st)) (wo_redis (st_world st)) (wo_tables (st_world st) mp)"
    using assms(3) by (auto simp: celebrity_start_def)
  note dd = site_okD [OF ok]
  let ?st1 = "st\<lparr>st_world := (st_world st)\<lparr>wo_redis := mark_bob (wo_redis (st_world st))\<rparr>\<rparr>"
  have unseen: "unseen q ?st1 = unseen q st" for q by (simp add: unseen_def)
  have ok1: "site_ok D True u bob_uuid ?st1"
    by (rule site_ok_mark [OF ok])
  obtain ws p b st2 where c: "site_connect D 49883 (py_strip fa) ?st1 = (Inr ws, st2)" "site_ok D True u bob_uuid st2" "st_received st2 ws = []"
      "st_world st2 = (st_world ?st1)\<lparr>wo_broker := b\<rparr>" "st_posts st2 = st_posts ?st1" "\<forall>q. unseen q st2 = unseen q ?st1"
    using session_opens [OF t ok1, of 49883] by blast
  have idle2: "unseen (dp_work D) st2 = []" using c(6) idle by (simp add: unseen)
  have q2: "quiet D st2" using c(6) site_okD(8) [OF ok] idle by (simp add: quiet_def unseen)
  obtain tk where p1: "site_pause D (1 / 2) st2 = (Inr (), st2\<lparr>st_clock := st_clock st2 + 1 / 2, st_taken := tk\<rparr>)"
      "quiet D (st2\<lparr>st_clock := st_clock st2 + 1 / 2, st_taken := tk\<rparr>)"
      "\<forall>q. tk q = st_taken st2 q \<or> tk q = length (bk_inbox (wo_broker (st_world st2)) q)"
    using quiet_pause [OF dd(1) q2, of "1 / 2"] by blast
  let ?st3 = "st2\<lparr>st_clock := st_clock st2 + 1 / 2, st_taken := tk\<rparr>"
  have ok3: "site_ok D True u bob_uuid ?st3" by (rule site_ok_taken [OF c(2) p1(2,3)])
  have idle3: "unseen (dp_work D) ?st3 = []" using p1(2) by (simp add: quiet_def)
  have room3: "0 < site_room D ?st3" using room c(5) by (simp add: site_room_def)
  have mp3: "db_master_pool (wo_database (st_world ?st3)) = Some mp" using mp by (simp add: c(4))
  have feed3: "feed_ready D u (dp_now D (st_posts ?st3)) (wo_redis (st_world ?st3)) (wo_tables (st_world ?st3) mp)"
    using feed_ready_mark [OF feed] by (simp add: c(4,5))
  have x: "celebrity_text \<noteq> []" by (simp add: celebrity_text_def)
  obtain i st4 st5 st6 rest where r: "site_post D 49885 (py_strip fb) celebrity_text ?st3 = (Inr (200, Inr (id_json i)), st4)"
      "site_pause D 2 st4 = (Inr (), st5)"
      "site_page D 49883 (py_strip fa) st5 = (Inr (200, Inr (JList (JObj [(''id'', JStr (uuid_str i)), (''text'', JStr celebrity_text),
        (''author_user_id'', JStr BOB_ID)] # rest))), st6)"
      "quiet D st6" "st_received st6 = st_received ?st3"
    using celebrity_round [OF t ok3 idle3 room3 mp3 feed3 x, of 49885 2 49883] by blast
  obtain tk6 where p6: "site_pause D (1 / 2) st6 = (Inr (), st6\<lparr>st_clock := st_clock st6 + 1 / 2, st_taken := tk6\<rparr>)"
    using quiet_pause [OF dd(1) r(4), of "1 / 2"] by blast
  let ?st7 = "st6\<lparr>st_clock := st_clock st6 + 1 / 2, st_taken := tk6\<rparr>"
  obtain st8 where cl: "site_close D ws ?st7 = (Inr (), st8)"
    using site_closes [of D ws ?st7] by blast
  have none: "st_received ?st7 ws = []" using r(5) c(3) by simp
  have key: "''celebrity:'' @ BOB_ID = celebrity_key bob_uuid" by (simp add: celebrity_key_def uuid_bob)
  have tok: "read_token read_file ''/tmp/jwt_a'' st = (Inr (py_strip fa), st)" "read_token read_file ''/tmp/jwt_b'' st = (Inr (py_strip fb), st)"
    using assms(1,2) by (simp_all add: read_token_def liftP_def bindR_def)
  have set: "ck_set (site_client D) (celebrity_key bob_uuid) ''1'' st = (Inr (), ?st1)"
    by (simp add: site_client_def)
  have exit: "celebrity_test_exit (id_json i) (JObj [(''id'', JStr (uuid_str i)), (''text'', JStr celebrity_text), (''author_user_id'', JStr BOB_ID)] # rest) []
      = Inr 0"
    by (simp add: celebrity_test_exit_def id_json_def json_item_def bindR_def)
  have "json_item (id_json i) ''id'' = Inr (JStr (uuid_str i))" by (simp add: id_json_def json_item_def)
  then show ?thesis using tok set c(1) p1(1) r(1,2,3) p6 cl none exit unfolding celebrity_test_def key
    by (simp add: site_client_def finallyP_def ask_def returnP_def liftP_def bindR_def json_iter_def)
qed

section \<open>A deployment\<close>

text \<open>Two processes; the port at which Alice listens is served by the first, the others by the second.  Bob has published one post.\<close>

definition first_post :: post where
  "first_post = \<lparr>po_id = 1000, po_author = bob_uuid, po_text = ''old'', po_created = Datetime 2024 2 1 12 0 0 0\<rparr>"

definition demo_deploy :: deploy where
  "demo_deploy = \<lparr>dp_settings = default_settings\<lparr>feed_transport := ''rabbitmq''\<rparr>,
     dp_decode = (\<lambda>token secret algs now. if token = ''A'' then Some \<lparr>claim_sub = Some (uuid_str 1), claim_exp = 0\<rparr>
       else if token = ''B'' then Some \<lparr>claim_sub = Some BOB_ID, claim_exp = 0\<rparr> else None), dp_today = 0,
     dp_route = (\<lambda>port. if port = 49883 then 0 else 1), dp_processes = [0, 1], dp_queue = (\<lambda>p. if p = 0 then ''ws.0'' else ''ws.1''),
     dp_work = ''feed'', dp_uuid = word_of_nat, dp_room = 200, dp_now = (\<lambda>_. Datetime 2024 3 1 12 0 0 0), dp_nonce = ''n''\<rparr>"

definition demo_social :: social where
  "demo_social = \<lparr>so_users = [demo_user 1 ''ann'', demo_user bob_uuid ''bob''], so_posts = [first_post], so_friends = [(1, bob_uuid)]\<rparr>"

definition demo_redis :: redis where
  "demo_redis = put_zset (feed_key 1) [entry first_post] [post_key 1000 \<mapsto> Hash (row_to_post_hash first_post)]"

definition demo_site :: "(nat, unit) site" where
  "demo_site = \<lparr>st_world = \<lparr>wo_database = \<lparr>db_master_pool = Some 0, db_slave_pools = [], db_slave_cycle = None\<rparr>, wo_tables = (\<lambda>_. demo_social),
       wo_redis_client = \<lparr>rc_client = Some ()\<rparr>, wo_redis = demo_redis, wo_broker = demo_broker\<lparr>bk_bindings := [(''feed'', ''feed.materialize'')]\<rparr>\<rparr>,
     st_managers = (\<lambda>_. initial_manager), st_taken = (\<lambda>_. 0), st_sessions = (\<lambda>_. None), st_received = (\<lambda>_. []), st_socket = 0, st_posts = 0,
     st_clock = 0\<rparr>"

definition demo_files :: "string \<Rightarrow> string res" where
  "demo_files path = (if path = ''/tmp/jwt_a'' then Inr ''A'' else if path = ''/tmp/jwt_b'' then Inr ''B'' else Inl (FileNotFoundError path))"

lemma demo_file_tokens: "demo_files ''/tmp/jwt_a'' = Inr ''A''" "demo_files ''/tmp/jwt_b'' = Inr ''B''" "py_strip ''A'' = ''A''" "py_strip ''B'' = ''B''"
  by (simp_all add: demo_files_def) code_simp+

lemma bob_not_alice: "bob_uuid \<noteq> 1"
  by code_simp

lemma small_uuid: "k < 200 \<Longrightarrow> unat (word_of_nat k :: uuid) = k"
  by (simp add: unsigned_of_nat take_bit_nat_eq_self_iff)

lemma demo_deploy_ok: "deploy_ok demo_deploy"
proof -
  have "inj_on (word_of_nat :: nat \<Rightarrow> uuid) {..<200}"
    by (rule inj_onI) (metis lessThan_iff small_uuid)
  moreover have "prefix_ok (default_settings\<lparr>feed_transport := ''rabbitmq''\<rparr>)" using prefix_ok_default by (simp add: prefix_ok_def)
  ultimately show ?thesis
    by (simp add: deploy_ok_def demo_deploy_def default_settings_def literal_key_def user_routing_key_def dt_ok_def days_in_month_def)
qed

lemma demo_site_ok: "site_ok demo_deploy False 1 bob_uuid demo_site"
proof -
  have "cache_ok demo_redis"
    using cache_ok_store [OF cache_ok_empty, of 1000 first_post] unfolding demo_redis_def
    by (intro cache_ok_put_feed) (simp_all add: zset_ok_def post_members_def entry_def)
  moreover have "tables_ready demo_deploy False 1 bob_uuid 0 demo_redis demo_social"
  proof -
    have "word_of_nat k \<noteq> (1000 :: uuid)" if "k < 200" for k
      using small_uuid [OF that] that by auto
    moreover have "social_ok demo_social"
      using bob_not_alice by (simp add: social_ok_def demo_social_def demo_user_def first_post_def dt_ok_def days_in_month_def)
    moreover have "\<not> flagged (dp_settings demo_deploy) demo_social demo_redis bob_uuid"
      by (simp add: flagged_def cached_flag_def demo_redis_def put_zset_def sql_count_followers_def sql_followers_def demo_social_def
          demo_deploy_def default_settings_def)
    ultimately show ?thesis
      by (simp add: tables_ready_def demo_deploy_def) (simp add: demo_social_def demo_user_def sql_followers_def first_post_def)
  qed
  moreover have "dp_work demo_deploy = ''feed''" "dp_processes demo_deploy = [0, 1]" "dp_queue demo_deploy 0 = ''ws.0''" "dp_queue demo_deploy 1 = ''ws.1''"
      "rabbitmq_materialize_routing_key (dp_settings demo_deploy) = ''feed.materialize''"
    by (simp_all add: demo_deploy_def default_settings_def)
  ultimately show ?thesis
    unfolding site_ok_def Let_def
    using demo_deploy_ok
    by (simp add: demo_site_def process_ok_def unseen_def demo_broker_def broker_bound_def cm_simps)
qed

lemma demo_tokens: "tokens_ok demo_deploy ''A'' ''B'' 1 bob_uuid"
  by (simp add: tokens_ok_def demo_deploy_def authenticate_ws_def get_current_user_def decode_access_token_def UUID_str uuid_bob)

lemma demo_idle: "unseen (dp_work demo_deploy) demo_site = []"
  by (simp add: unseen_def demo_site_def demo_broker_def)

lemma demo_start: "site_start demo_deploy ''A'' ''B'' demo_site"
  using demo_site_ok demo_tokens demo_idle by (auto simp: site_start_def)

lemma demo_room: "site_room demo_deploy demo_site = 200"
  by (simp add: site_room_def demo_deploy_def demo_site_def)

lemma demo_celebrity_start: "celebrity_start demo_deploy ''A'' ''B'' demo_site"
proof -
  have f: "friend_posts demo_social 1 = [first_post]" by (simp add: friend_posts_def demo_social_def first_post_def)
  have "feed_ready demo_deploy 1 (Datetime 2024 3 1 12 0 0 0) demo_redis demo_social"
    unfolding feed_ready_def f
    by (simp add: bodies_ok_def demo_social_def demo_redis_def first_post_def put_zset_def zset_at_def less_datetime_def dt_key_def)
  then show ?thesis using demo_site_ok demo_tokens demo_idle demo_room unfolding celebrity_start_def
    by (intro exI [of _ 1] exI [of _ False] exI [of _ 0]) (simp add: demo_site_def demo_deploy_def)
qed

lemma notification_tests_pass_witness:
  "(\<exists>st'. ws_test (site_client demo_deploy) demo_files demo_site = (Inr 0, st'))
    \<and> (\<exists>st'. ws_scale_test (site_client demo_deploy) demo_files demo_site = (Inr 0, st'))"
  using notification_tests_pass [OF demo_file_tokens(1,2), of demo_deploy demo_site] demo_start demo_room by (simp add: demo_file_tokens)

lemma load_tests_lose_nothing_witness:
  "(\<exists>L st'. load_seq (site_client demo_deploy) demo_files demo_site = (Inr (30, L), st'))
    \<and> (\<exists>L st'. load_test (site_client demo_deploy) demo_files demo_site = (Inr (100, 100, 0, L), st'))"
  using load_tests_lose_nothing [OF demo_file_tokens(1,2), of demo_deploy demo_site] demo_start demo_room by (simp add: demo_file_tokens)

lemma celebrity_test_succeeds_witness:
  "\<exists>st'. celebrity_test (site_client demo_deploy) demo_files demo_site = (Inr 0, st')"
  using celebrity_test_succeeds [OF demo_file_tokens(1,2), of demo_deploy demo_site] demo_celebrity_start by (simp add: demo_file_tokens)

end
