(* ===== verification/Feed_Redelivery.thy ===== *)
theory Feed_Redelivery
  imports Feed_Recovery
begin

text \<open>
  A worker that crashes between the handling of an event and its acknowledgement is given the event again.  Handling an
  event twice leaves the feeds as handling it once.
\<close>

section \<open>Adding and trimming twice\<close>

lemma zadd_present: "zset_ok z \<Longrightarrow> (m, v) \<in> set z \<Longrightarrow> zadd m v z = z"
  by (intro zset_unique) (auto simp: set_zadd dest: zset_ok_mem_unique)

lemma keep_short: "length z \<le> nat cap \<Longrightarrow> keep cap z = z"
  by (simp add: keep_def)

lemma zset_ok_append:
  "zset_ok (a @ b) \<longleftrightarrow> zset_ok a \<and> zset_ok b \<and> (\<forall>x \<in> set a. \<forall>y \<in> set b. zkey x \<le> zkey y \<and> fst x \<noteq> fst y)"
  by (auto simp: zset_ok_def sorted_append)

lemma keep_zadd_again:
  assumes "zset_ok z"
  shows "keep cap (zadd m v (keep cap (zadd m v z))) = keep cap (zadd m v z)"
proof -
  define a where "a = zadd m v z"
  define n where "n = length a - nat cap"
  have ok: "zset_ok a" using assms by (auto simp: a_def)
  have split: "a = take n a @ drop n a" by simp
  have k: "keep cap a = drop n a" by (simp add: keep_def n_def)
  have mv: "(m, v) \<in> set a" by (simp add: a_def set_zadd)
  show ?thesis
  proof (cases "(m, v) \<in> set (drop n a)")
    case True
    then have "zadd m v (drop n a) = drop n a" using ok by (intro zadd_present) auto
    then show ?thesis unfolding a_def [symmetric] k by (simp add: keep_short n_def)
  next
    case False
    then have "(m, v) \<in> set (take n a)" using mv split by (metis Un_iff set_append)
    moreover have "zset_ok (take n a @ drop n a)" using ok by simp
    ultimately have "\<forall>y \<in> set (drop n a). zkey (m, v) \<le> zkey y \<and> fst (m, v) \<noteq> fst y" and dok: "zset_ok (drop n a)"
      unfolding zset_ok_append by blast+
    then have before: "\<forall>y \<in> set (drop n a). zkey (m, v) \<le> zkey y \<and> m \<noteq> fst y" by simp
    have "zset_ok ((m, v) # drop n a)" using before dok by (auto simp: zset_ok_def)
    then have "zadd m v (drop n a) = (m, v) # drop n a"
      using before dok by (intro zset_unique zset_ok_zadd) (auto simp: set_zadd)
    moreover have "0 < n" using \<open>(m, v) \<in> set (take n a)\<close> by (cases n) auto
    ultimately show ?thesis unfolding a_def [symmetric] k by (simp add: keep_def n_def)
  qed
qed

lemma map_feeds_again:
  assumes "cache_ok r" and "\<And>z. zset_ok z \<Longrightarrow> f (f z) = f z"
  shows "map_feeds us f (map_feeds us f r) = map_feeds us f r"
proof
  fix k
  show "map_feeds us f (map_feeds us f r) k = map_feeds us f r k"
  proof (cases "k \<in> feed_key ` us")
    case True
    then obtain u where u: "k = feed_key u" "u \<in> us" by auto
    have "f (zset_at (map_feeds us f r) (feed_key u)) = f (zset_at r (feed_key u))"
      using u(2) assms cache_ok_zset [OF assms(1), of u] by (simp add: zset_at_map_feeds)
    then show ?thesis using u by (simp add: map_feeds_def put_zset_def)
  qed simp
qed

section \<open>Handling an event twice\<close>

lemma apply_event_again:
  assumes c: "cache_ok s" and tabs: "social_ok tabs" and cap: "0 \<le> feed_max_size S"
  shows "\<exists>s'. apply_event S redis_step (Inr tabs) ev s = (Inr (), s') \<and> apply_event S redis_step (Inr tabs) ev s' = (Inr (), s')"
proof -
  obtain ty p a t where ev: "ev = (ty, p, a, t)" by (metis prod_cases4)
  note d = social_ok_distinct [OF tabs]
  let ?add = "\<lambda>z. keep (feed_max_size S) (zadd (uuid_str p) (timestamp (moment_dt t)) z)"
  let ?us = "set (sql_followers tabs a)"
  have add: "cache_ok (map_feeds ?us ?add s)" and rem: "cache_ok (map_feeds ?us (zrem [uuid_str p]) s)"
    using c by (auto intro!: cache_ok_map_feeds)
  have "zrem [uuid_str p] (zrem [uuid_str p] z) = zrem [uuid_str p] z" for z by (simp add: zrem_def)
  then show ?thesis
    using fan_out_effect [OF c d cap, of p a "moment_dt t"] fan_out_effect [OF add d cap, of p a "moment_dt t"]
      remove_post_effect [OF c d, of p a] remove_post_effect [OF rem d, of p a]
      map_feeds_again [OF c, of ?add ?us] map_feeds_again [OF c, of "zrem [uuid_str p]" ?us] keep_zadd_again
    by (auto simp: ev apply_event_def)
qed

text \<open>C15: When an event is delivered again because the worker died before the acknowledgement, handling it
  again succeeds and changes no key of the cache.\<close>

theorem redelivery_harmless:
  assumes "redis_server exec view" and "cache_ok (view r)" and "social_ok tabs" and "0 \<le> feed_max_size S" and "event_ok ev"
    and "handle_event S exec (Inr tabs) (event_fields ev) r = (x, r1)"
    and "handle_event S exec (Inr tabs) (event_fields ev) r1 = (y, r2)"
  shows "x = Inr () \<and> y = Inr () \<and> view r2 = view r1"
proof -
  obtain s' where s': "apply_event S redis_step (Inr tabs) ev (view r) = (Inr (), s')" "apply_event S redis_step (Inr tabs) ev s' = (Inr (), s')"
    using apply_event_again [OF assms(2-4)] by blast
  note sim = redis_server.apply_sim [OF assms(1)]
  have "apply_event S exec (Inr tabs) ev r = (x, r1)" "apply_event S exec (Inr tabs) ev r1 = (y, r2)"
    using assms(6,7) handle_published [OF assms(5), of S exec] by simp_all
  from this [THEN sim_result [OF sim]] s' show ?thesis by simp
qed

lemma redelivery_harmless_witness:
  "\<exists>x y r1 r2. handle_event default_settings redis_step (Inr (demo_tables [demo_post] [(1, 2)])) (event_fields demo_event) Map.empty = (x, r1)
    \<and> handle_event default_settings redis_step (Inr (demo_tables [demo_post] [(1, 2)])) (event_fields demo_event) r1 = (y, r2)
    \<and> x = Inr () \<and> y = Inr () \<and> r2 = r1"
proof -
  let ?h = "handle_event default_settings redis_step (Inr (demo_tables [demo_post] [(1, 2)])) (event_fields demo_event)"
  obtain x r1 where 1: "?h Map.empty = (x, r1)" by fastforce
  obtain y r2 where 2: "?h r1 = (y, r2)" by fastforce
  have "0 \<le> feed_max_size default_settings" by (simp add: default_settings_def)
  moreover have "event_ok demo_event" by (simp add: event_ok_def demo_event_def demo_post_def dt_ok_def days_in_month_def)
  ultimately have "x = Inr () \<and> y = Inr () \<and> r2 = r1"
    using redelivery_harmless [OF documented.redis_server_axioms, of Map.empty _ default_settings demo_event x r1 y r2]
      cache_ok_empty demo_tables_ok(1) 1 2
    by blast
  then show ?thesis using 1 2 by blast
qed

end
