(* ===== verification/Key_Types.thy ===== *)
theory Key_Types
  imports Feed_Worker_Rmq
begin

text \<open>
  The keys of the cache are typed: what \<^verbatim>\<open>app/feed_cache.py\<close>, \<^verbatim>\<open>app/services/celebrity.py\<close> and both workers store under a key
  is of the kind its name says.  The discipline is on single commands; a program that issues only commands of the discipline keeps the
  store well-typed, even when the server fails, and is never told that a key holds the wrong kind of value.
\<close>

section \<open>Well-typed stores and commands\<close>

text \<open>The keys of sorted sets: the feeds and the temporary feeds of a rebuild.\<close>

definition feed_kind :: "string \<Rightarrow> bool" where
  "feed_kind k \<longleftrightarrow> k \<in> range feed_key \<or> (\<exists>u n. k = tmp_key u n)"

definition complete_body :: "fields \<Rightarrow> bool" where
  "complete_body h \<longleftrightarrow> {''text'', ''author_id'', ''created_at''} \<subseteq> fst ` set h"

fun value_typed :: "settings \<Rightarrow> string \<Rightarrow> rvalue \<Rightarrow> bool" where
  "value_typed S k (ZSet z) \<longleftrightarrow> feed_kind k \<and> fst ` set z \<subseteq> range uuid_str"
| "value_typed S k (Hash h) \<longleftrightarrow> k \<in> range post_key \<and> complete_body h"
| "value_typed S k (Str s) \<longleftrightarrow> k \<in> range celebrity_key \<and> s \<in> {''0'', ''1''}"
| "value_typed S k (Stream st) \<longleftrightarrow> k = feed_stream_key S \<and> (\<forall>e \<in> set (st_entries st). snd e \<in> range event_fields)"

text \<open>The name of the stream is a setting; it must not be the name of a feed, a post or a flag.\<close>

definition stream_apart :: "settings \<Rightarrow> bool" where
  "stream_apart S \<longleftrightarrow> \<not> cache_key (feed_stream_key S) \<and> \<not> feed_kind (feed_stream_key S)"

definition store_typed :: "settings \<Rightarrow> redis \<Rightarrow> bool" where
  "store_typed S r \<longleftrightarrow> stream_apart S \<and> (\<forall>k v. r k = Some v \<longrightarrow> value_typed S k v)"

fun cmd_typed :: "settings \<Rightarrow> cmd \<Rightarrow> bool" where
  "cmd_typed S (ZADD k m s) \<longleftrightarrow> feed_kind k \<and> m \<in> range uuid_str"
| "cmd_typed S (ZREM k ms) \<longleftrightarrow> feed_kind k"
| "cmd_typed S (ZREMRANGEBYRANK k a b) \<longleftrightarrow> feed_kind k"
| "cmd_typed S (ZRANGE k a b) \<longleftrightarrow> feed_kind k"
| "cmd_typed S (ZREVRANGE k a b) \<longleftrightarrow> feed_kind k"
| "cmd_typed S (EXISTS k) \<longleftrightarrow> True"
| "cmd_typed S (DEL k) \<longleftrightarrow> True"
| "cmd_typed S (RENAME k k') \<longleftrightarrow> feed_kind k \<and> feed_kind k'"
| "cmd_typed S (HSET k kvs) \<longleftrightarrow> k \<in> range post_key \<and> complete_body kvs"
| "cmd_typed S (EXPIRE k ttl) \<longleftrightarrow> True"
| "cmd_typed S (HGET k f) \<longleftrightarrow> k \<in> range post_key"
| "cmd_typed S (HGETALL k) \<longleftrightarrow> k \<in> range post_key"
| "cmd_typed S (GET k) \<longleftrightarrow> k \<in> range celebrity_key"
| "cmd_typed S (SETEX k v ttl) \<longleftrightarrow> k \<in> range celebrity_key \<and> v \<in> {''0'', ''1''}"
| "cmd_typed S (MGET ks) \<longleftrightarrow> True"
| "cmd_typed S (XADD k fs) \<longleftrightarrow> k = feed_stream_key S \<and> fs \<in> range event_fields"
| "cmd_typed S (XGROUP_CREATE k g) \<longleftrightarrow> k = feed_stream_key S"
| "cmd_typed S (XREADGROUP k g c cur n) \<longleftrightarrow> k = feed_stream_key S"
| "cmd_typed S (XACK k g i) \<longleftrightarrow> k = feed_stream_key S"

lemma feed_kinds [simp]: "feed_kind (feed_key u)" "feed_kind (tmp_key u n)" "\<not> feed_kind (post_key p)" "\<not> feed_kind (celebrity_key a)"
  unfolding feed_kind_def by auto

lemma store_typedD: "store_typed S r \<Longrightarrow> r k = Some v \<Longrightarrow> value_typed S k v"
  by (simp add: store_typed_def)

lemma store_typed_upd: "store_typed S r \<Longrightarrow> (\<And>x. v = Some x \<Longrightarrow> value_typed S k x) \<Longrightarrow> store_typed S (r(k := v))"
  by (simp add: store_typed_def)

section \<open>Commands\<close>

text \<open>The key of a command of the discipline holds nothing or a value of the kind the command works on.\<close>

lemma typed_zset:
  assumes "store_typed S r" and "feed_kind k"
  shows "\<exists>z. get_zset r k = Inr z \<and> fst ` set z \<subseteq> range uuid_str"
proof (cases "r k")
  case (Some v)
  have "value_typed S k v" "stream_apart S" using assms(1) Some by (auto simp: store_typed_def)
  then show ?thesis using Some assms(2) by (cases v) (auto simp: get_zset_def stream_apart_def)
qed (simp add: get_zset_def)

lemma typed_hash:
  assumes "store_typed S r" and "k \<in> range post_key"
  shows "\<exists>h. get_hash r k = Inr h"
proof (cases "r k")
  case (Some v)
  have "value_typed S k v" "stream_apart S" using assms(1) Some by (auto simp: store_typed_def)
  then show ?thesis using Some assms(2) by (cases v) (auto simp: get_hash_def stream_apart_def cache_key_def)
qed (simp add: get_hash_def)

lemma typed_str:
  assumes "store_typed S r" and "k \<in> range celebrity_key"
  shows "\<exists>s. get_str r k = Inr s"
proof (cases "r k")
  case (Some v)
  have "value_typed S k v" "stream_apart S" using assms(1) Some by (auto simp: store_typed_def)
  then show ?thesis using Some assms(2) by (cases v) (auto simp: get_str_def stream_apart_def cache_key_def)
qed (simp add: get_str_def)

lemma typed_stream:
  assumes "store_typed S r"
  shows "\<exists>so. get_stream r (feed_stream_key S) = Inr so \<and> (\<forall>st e. so = Some st \<longrightarrow> e \<in> set (st_entries st) \<longrightarrow> snd e \<in> range event_fields)"
proof (cases "r (feed_stream_key S)")
  case (Some v)
  have "value_typed S (feed_stream_key S) v" "stream_apart S" using assms(1) Some by (auto simp: store_typed_def)
  then show ?thesis using Some by (cases v) (auto simp: get_stream_def stream_apart_def cache_key_def)
qed (simp add: get_stream_def)

lemma put_feed_typed: "store_typed S r \<Longrightarrow> feed_kind k \<Longrightarrow> fst ` set z \<subseteq> range uuid_str \<Longrightarrow> store_typed S (put_zset k z r)"
  unfolding put_zset_def by (rule store_typed_upd) (auto split: if_splits)

lemma set_hset: "fst ` set (hset kvs h) = fst ` set kvs \<union> fst ` set h"
proof -
  have "fst ` set (fold (\<lambda>(k, v) h. if k \<in> fst ` set h then map (\<lambda>(k', v'). (k', if k' = k then v else v')) h else h @ [(k, v)]) kvs h)
      = fst ` set kvs \<union> fst ` set h"
  proof (induction kvs arbitrary: h)
    case (Cons kv kvs)
    have keys: "fst ` set (map (\<lambda>(k', v'). (k', if k' = k then v else v')) h) = fst ` set h" for k :: string and v :: string and h
      by (induction h) auto
    have "fst ` set (if k \<in> fst ` set h then map (\<lambda>(k', v'). (k', if k' = k then v else v')) h else h @ [(k, v)]) = insert k (fst ` set h)"
      for k :: string and v :: string and h
      by (cases "k \<in> fst ` set h") (simp_all only: keys if_True if_False set_append image_Un list.set image_insert fst_conv image_empty, auto)
    then show ?case by (cases kv) (simp only: fold_simps Cons.IH prod.case list.set image_insert fst_conv, simp)
  qed simp
  then show ?thesis by (simp add: hset_def)
qed

lemma remove_slice_sub: "set (remove_slice a b z) \<subseteq> set z"
  by (auto simp: remove_slice_def Let_def split: prod.splits dest: in_set_takeD in_set_dropD)

lemma xack_entries [simp]: "st_entries (xack g i st) = st_entries st"
  by (simp add: xack_def split: option.split)

lemma xreadgroup_entries: "xreadgroup g c cur n st = (x, st') \<Longrightarrow> st_entries st' = st_entries st \<and> x \<noteq> wrongtype"
  by (auto simp: xreadgroup_def wrongtype_def Let_def split: option.splits)

lemma hset_complete: "complete_body kvs \<Longrightarrow> complete_body (hset kvs h)"
  unfolding complete_body_def set_hset by blast

lemma zset_members: "fst ` set z \<subseteq> range uuid_str \<Longrightarrow> m \<in> range uuid_str \<Longrightarrow> fst ` set (zadd m s z) \<subseteq> range uuid_str"
  by (auto simp: zadd_def set_insort_key)

lemma typed_step:
  assumes "store_typed S r" and "cmd_typed S c" and "redis_step c r = (x, r')"
  shows "store_typed S r' \<and> x \<noteq> wrongtype"
proof (cases c)
  case (ZADD k m s)
  then obtain z where "get_zset r k = Inr z" "fst ` set z \<subseteq> range uuid_str" using typed_zset [OF assms(1), of k] assms(2) by auto
  then show ?thesis using assms ZADD zset_members put_feed_typed by (auto simp: on_value_def wrongtype_def)
next
  case (ZREM k ms)
  then obtain z where z: "get_zset r k = Inr z" "fst ` set z \<subseteq> range uuid_str" using typed_zset [OF assms(1), of k] assms(2) by auto
  have "fst ` set (zrem ms z) \<subseteq> range uuid_str" by (rule subset_trans [OF image_mono z(2)]) (simp add: zrem_def)
  then have "store_typed S (put_zset k (zrem ms z) r)" using put_feed_typed assms(1,2) ZREM by simp
  then show ?thesis using assms(3) ZREM z(1) by (auto simp: on_value_def wrongtype_def)
next
  case (ZREMRANGEBYRANK k a b)
  then obtain z where z: "get_zset r k = Inr z" "fst ` set z \<subseteq> range uuid_str" using typed_zset [OF assms(1), of k] assms(2) by auto
  have "fst ` set (remove_slice a b z) \<subseteq> range uuid_str" by (rule subset_trans [OF image_mono [OF remove_slice_sub] z(2)])
  then have "store_typed S (put_zset k (remove_slice a b z) r)" using put_feed_typed assms(1,2) ZREMRANGEBYRANK by simp
  then show ?thesis using assms(3) ZREMRANGEBYRANK z(1) by (auto simp: on_value_def wrongtype_def)
next
  case (ZRANGE k a b)
  then obtain z where "get_zset r k = Inr z" using typed_zset [OF assms(1), of k] assms(2) by auto
  then show ?thesis using assms ZRANGE by (auto simp: on_value_def wrongtype_def)
next
  case (ZREVRANGE k a b)
  then obtain z where "get_zset r k = Inr z" using typed_zset [OF assms(1), of k] assms(2) by auto
  then show ?thesis using assms ZREVRANGE by (auto simp: on_value_def wrongtype_def)
next
  case (RENAME k k')
  have "value_typed S k' v" if "r k = Some v" for v
    using store_typedD [OF assms(1) that] assms(1,2) RENAME by (cases v) (auto simp: store_typed_def stream_apart_def)
  then show ?thesis using assms RENAME by (auto simp: wrongtype_def intro!: store_typed_upd split: if_splits)
next
  case (HSET k kvs)
  then obtain h where "get_hash r k = Inr h" using typed_hash [OF assms(1), of k] assms(2) by auto
  then show ?thesis using assms HSET by (auto simp: on_value_def wrongtype_def intro!: store_typed_upd hset_complete)
next
  case (HGET k f)
  then obtain h where "get_hash r k = Inr h" using typed_hash [OF assms(1), of k] assms(2) by auto
  then show ?thesis using assms HGET by (auto simp: on_value_def wrongtype_def)
next
  case (HGETALL k)
  then obtain h where "get_hash r k = Inr h" using typed_hash [OF assms(1), of k] assms(2) by auto
  then show ?thesis using assms HGETALL by (auto simp: on_value_def wrongtype_def)
next
  case (GET k)
  then obtain h where "get_str r k = Inr h" using typed_str [OF assms(1), of k] assms(2) by auto
  then show ?thesis using assms GET by (auto simp: on_value_def wrongtype_def)
next
  case (XADD k fs)
  obtain so where so: "get_stream r k = Inr so" "\<And>st e. so = Some st \<Longrightarrow> e \<in> set (st_entries st) \<Longrightarrow> snd e \<in> range event_fields"
    using typed_stream [OF assms(1)] assms(2) XADD by auto
  then show ?thesis using assms XADD
    by (cases so) (auto simp: on_value_def wrongtype_def Let_def empty_stream_def intro!: store_typed_upd)
next
  case (XGROUP_CREATE k g)
  obtain so where so: "get_stream r k = Inr so" "\<And>st e. so = Some st \<Longrightarrow> e \<in> set (st_entries st) \<Longrightarrow> snd e \<in> range event_fields"
    using typed_stream [OF assms(1)] assms(2) XGROUP_CREATE by auto
  then show ?thesis using assms XGROUP_CREATE
    by (cases so) (auto simp: wrongtype_def Let_def empty_stream_def intro!: store_typed_upd split: if_splits)
next
  case (XREADGROUP k g c' cur n)
  obtain so where so: "get_stream r k = Inr so" "\<And>st e. so = Some st \<Longrightarrow> e \<in> set (st_entries st) \<Longrightarrow> snd e \<in> range event_fields"
    using typed_stream [OF assms(1)] assms(2) XREADGROUP by auto
  then show ?thesis using assms XREADGROUP xreadgroup_entries [of g c' cur n]
    by (cases so) (fastforce simp: wrongtype_def intro!: store_typed_upd split: prod.splits sum.splits)+
next
  case (XACK k g i)
  obtain so where so: "get_stream r k = Inr so" "\<And>st e. so = Some st \<Longrightarrow> e \<in> set (st_entries st) \<Longrightarrow> snd e \<in> range event_fields"
    using typed_stream [OF assms(1)] assms(2) XACK by auto
  then show ?thesis using assms XACK
    by (cases so) (auto simp: on_value_def wrongtype_def intro!: store_typed_upd)
qed (use assms in \<open>auto simp: wrongtype_def intro!: store_typed_upd split: if_splits\<close>)


section \<open>Programs\<close>

text \<open>A program keeps the store well-typed; a strict one does not end with the error of a wrong kind either.\<close>

definition sound :: "settings \<Rightarrow> bool \<Rightarrow> ('s \<Rightarrow> redis) \<Rightarrow> ('s, 'a) prog \<Rightarrow> bool" where
  "sound S strict view m \<longleftrightarrow> (\<forall>s. store_typed S (view s) \<longrightarrow> store_typed S (view (snd (m s))) \<and> (strict \<longrightarrow> fst (m s) \<noteq> wrongtype))"

named_theorems sound_intros \<open>composed programs are sound\<close>
named_theorems calm \<open>results that are not the error of a wrong kind\<close>

lemma calm_Inr [calm]: "Inr x \<noteq> wrongtype"
  by (simp add: wrongtype_def)

lemma calm_lib [calm]: "bad_reply \<noteq> wrongtype" "UUID s \<noteq> wrongtype" "as_int v \<noteq> wrongtype" "as_bulk v \<noteq> wrongtype" "as_bulks v \<noteq> wrongtype"
  "as_members v \<noteq> wrongtype" "as_hash v \<noteq> wrongtype" "as_entries v \<noteq> wrongtype" "post_key_of s \<noteq> wrongtype" "hash_field h f \<noteq> wrongtype"
  "zip_strict xs ys \<noteq> wrongtype" "cached_item i \<noteq> wrongtype"
  by (auto simp: wrongtype_def bad_reply_def UUID_def as_int_def as_bulk_def as_bulks_def as_members_def as_hash_def as_entries_def post_key_of_def
      hash_field_def zip_strict_def cached_item_def Let_def split: reply.splits option.splits prod.splits if_splits sum.splits)

lemma calm_map_res [calm]: "(\<And>x. x \<in> set xs \<Longrightarrow> f x \<noteq> wrongtype) \<Longrightarrow> map_res f xs \<noteq> wrongtype"
  by (induction xs) (auto simp: wrongtype_def bindR_def split: sum.splits)

lemma sound_apply: "sound S strict view m \<Longrightarrow> m s = (x, s') \<Longrightarrow> store_typed S (view s) \<Longrightarrow> store_typed S (view s') \<and> (strict \<longrightarrow> x \<noteq> wrongtype)"
  unfolding sound_def by (metis fst_conv snd_conv)

lemma soundI: "(\<And>s x s'. store_typed S (view s) \<Longrightarrow> m s = (x, s') \<Longrightarrow> store_typed S (view s') \<and> (strict \<longrightarrow> x \<noteq> wrongtype)) \<Longrightarrow> sound S strict view m"
  unfolding sound_def by (metis prod.collapse)

lemma sound_relax: "sound S strict view m \<Longrightarrow> sound S False view m"
  by (simp add: sound_def)

lemma sound_return [sound_intros]: "sound S strict view (returnP x)"
  by (simp add: sound_def wrongtype_def)

lemma sound_raise [sound_intros]: "(strict \<Longrightarrow> Inl e \<noteq> (wrongtype :: 'a res)) \<Longrightarrow> sound S strict view (raiseP e :: ('s, 'a) prog)"
  by (simp add: sound_def)

lemma sound_lift [sound_intros]: "(strict \<Longrightarrow> x \<noteq> wrongtype) \<Longrightarrow> sound S strict view (liftP x)"
  by (simp add: sound_def)

lemma sound_bind_lift [sound_intros]:
  "(strict \<Longrightarrow> x \<noteq> wrongtype) \<Longrightarrow> (\<And>y. x = Inr y \<Longrightarrow> sound S strict view (f y)) \<Longrightarrow> sound S strict view (bindP (liftP x) f)"
  by (cases x) (auto simp: sound_def bindP_def wrongtype_def)

lemma sound_bind [sound_intros]:
  assumes "sound S strict view m" and "\<And>x. sound S strict view (f x)"
  shows "sound S strict view (bindP m f)"
proof (rule soundI)
  fix s x s'
  assume s: "store_typed S (view s)" and run: "bindP m f s = (x, s')"
  obtain y s1 where m: "m s = (y, s1)" by fastforce
  note * = sound_apply [OF assms(1) m s]
  show "store_typed S (view s') \<and> (strict \<longrightarrow> x \<noteq> wrongtype)"
  proof (cases y)
    case (Inr a)
    then show ?thesis using sound_apply [OF assms(2)] * m run by auto
  qed (use * m run in \<open>auto simp: wrongtype_def\<close>)
qed

lemma sound_finally [sound_intros]:
  assumes "sound S strict view m" and "sound S strict view f"
  shows "sound S strict view (finallyP m f)"
proof (rule soundI)
  fix s x s'
  assume s: "store_typed S (view s)" and run: "finallyP m f s = (x, s')"
  obtain y s1 z s2 where m: "m s = (y, s1)" and f: "f s1 = (z, s2)" by fastforce
  note * = sound_apply [OF assms(1) m s]
  note ** = sound_apply [OF assms(2) f]
  show "store_typed S (view s') \<and> (strict \<longrightarrow> x \<noteq> wrongtype)"
    using * ** m f run by (cases z) (auto simp: finallyP_def wrongtype_def)
qed

lemma sound_except [sound_intros]:
  assumes "sound S False view m" and "\<And>e. sound S strict view (h e)"
  shows "sound S strict view (exceptP m h)"
proof (rule soundI)
  fix s x s'
  assume s: "store_typed S (view s)" and run: "exceptP m h s = (x, s')"
  obtain y s1 where m: "m s = (y, s1)" by fastforce
  note * = sound_apply [OF assms(1) m s]
  show "store_typed S (view s') \<and> (strict \<longrightarrow> x \<noteq> wrongtype)"
    using * m run sound_apply [OF assms(2)] by (cases y) (auto simp: exceptP_def wrongtype_def)
qed

lemma sound_except_strict:
  assumes "sound S strict view m" and "\<And>e. (strict \<Longrightarrow> Inl e \<noteq> (wrongtype :: 'a res)) \<Longrightarrow> sound S strict view (h e)"
  shows "sound S strict view (exceptP m h :: ('s, 'a) prog)"
proof (rule soundI)
  fix s and x :: "'a res" and s'
  assume s: "store_typed S (view s)" and run: "exceptP m h s = (x, s')"
  obtain y s1 where m: "m s = (y, s1)" by fastforce
  note * = sound_apply [OF assms(1) m s]
  show "store_typed S (view s') \<and> (strict \<longrightarrow> x \<noteq> wrongtype)"
    using * m run sound_apply [OF assms(2)] by (cases y) (auto simp: exceptP_def)
qed

lemma sound_void [sound_intros]: "sound S strict view m \<Longrightarrow> sound S strict view (voidP m)"
  unfolding voidP_def by (intro sound_bind sound_return)

lemma sound_if [sound_intros]: "(b \<Longrightarrow> sound S strict view p) \<Longrightarrow> (\<not> b \<Longrightarrow> sound S strict view q) \<Longrightarrow> sound S strict view (if b then p else q)"
  by simp

lemma sound_option [sound_intros]:
  "(x = None \<Longrightarrow> sound S strict view p) \<Longrightarrow> (\<And>v. x = Some v \<Longrightarrow> sound S strict view (f v)) \<Longrightarrow> sound S strict view (case x of None \<Rightarrow> p | Some v \<Rightarrow> f v)"
  by (cases x) auto

lemma sound_for [sound_intros]: "(\<And>x. sound S strict view (f x)) \<Longrightarrow> sound S strict view (forP xs f)"
proof (induction xs)
  case (Cons x xs)
  have "forP (x # xs) f = bindP (f x) (\<lambda>_. forP xs f)" by (auto simp: fun_eq_iff bindP_def split: prod.splits sum.splits)
  then show ?case using Cons by (metis sound_bind)
qed (simp add: sound_def wrongtype_def)

lemma sound_gather [sound_intros]: "(\<And>m. m \<in> set ms \<Longrightarrow> sound S strict view m) \<Longrightarrow> sound S strict view (gatherP ms)"
proof (induction ms)
  case (Cons m ms)
  have m: "sound S strict view m" and ms: "sound S strict view (gatherP ms)" using Cons by simp_all
  show ?case
  proof (rule soundI)
    fix s x s'
    assume s: "store_typed S (view s)" and run: "gatherP (m # ms) s = (x, s')"
    obtain y s1 z s2 where 1: "m s = (y, s1)" and 2: "gatherP ms s1 = (z, s2)" by fastforce
    note * = sound_apply [OF m 1 s]
    note ** = sound_apply [OF ms 2]
    show "store_typed S (view s') \<and> (strict \<longrightarrow> x \<noteq> wrongtype)" using * ** 1 2 run by (cases y) (auto simp: wrongtype_def)
  qed
qed (simp add: sound_def wrongtype_def)

text \<open>The commands of the discipline are sound on any faulty server, and strictly so on the documented one.\<close>

locale typed_server =
  fixes S :: settings and strict :: bool and exec :: "'r server" and view :: "'r \<Rightarrow> redis"
  assumes command: "cmd_typed S c \<Longrightarrow> sound S strict view (exec c)"
begin

lemma pipeline: "(\<And>c. c \<in> set cs \<Longrightarrow> cmd_typed S c) \<Longrightarrow> sound S strict view (pipe exec cs)"
proof (induction cs)
  case (Cons c cs)
  have c: "sound S strict view (exec c)" and cs: "sound S strict view (pipe exec cs)" using Cons command by simp_all
  show ?case
  proof (rule soundI)
    fix s x s'
    assume s: "store_typed S (view s)" and run: "pipe exec (c # cs) s = (x, s')"
    obtain y s1 z s2 where 1: "exec c s = (y, s1)" and 2: "pipe exec cs s1 = (z, s2)" by fastforce
    note * = sound_apply [OF c 1 s]
    note ** = sound_apply [OF cs 2]
    show "store_typed S (view s') \<and> (strict \<longrightarrow> x \<noteq> wrongtype)" using * ** 1 2 run
      by (cases y; cases z) (auto simp: wrongtype_def)
  qed
qed (simp add: sound_def wrongtype_def)

lemma reply: "cmd_typed S c \<Longrightarrow> (\<And>v. conv v \<noteq> wrongtype) \<Longrightarrow> sound S strict view (execute exec conv c)"
  unfolding execute_def by (intro sound_bind command sound_lift)

end

sublocale faulty_server \<subseteq> typed: typed_server S False exec view for S
proof
  fix c
  assume "cmd_typed S c"
  then show "sound S False view (exec c)"
    using typed_step by (intro soundI) (metis exec_view prod.collapse)
qed

sublocale redis_server \<subseteq> strict: typed_server S True exec view for S
proof
  fix c
  assume "cmd_typed S c"
  then show "sound S True view (exec c)"
    using typed_step sim_result [OF exec_step] by (intro soundI) metis
qed


section \<open>The cache\<close>

lemma calm_sql [calm]: "sql_posts_by_authors s as n \<noteq> wrongtype" "sql_friend_posts s u n \<noteq> wrongtype"
  by (auto simp: wrongtype_def sql_posts_by_authors_def sql_friend_posts_def sql_limit_def split: if_splits)

lemma complete_bodies [simp]: "complete_body [(''text'', x), (''author_id'', a), (''created_at'', t)]" "complete_body (row_to_post_hash p)"
  by (simp_all add: complete_body_def row_to_post_hash_def)

lemma sound_fetch:
  assumes "strict \<Longrightarrow> db \<noteq> wrongtype" and "\<And>s. q s \<noteq> wrongtype"
  shows "sound S strict view (fetch db q)"
  unfolding fetch_def using assms by (intro sound_lift) (auto simp: wrongtype_def split: sum.splits)

lemma post_keys: "map_res (\<lambda>x. post_key_of (g x)) ids = Inr keys \<Longrightarrow> k \<in> set keys \<Longrightarrow> k \<in> range post_key"
  by (induction ids arbitrary: keys) (auto simp: bindR_def post_key_of_def split: sum.splits)

lemma load_commands_typed:
  "c \<in> set (load_commands (feed_key u) rows) \<Longrightarrow> cmd_typed S c" "c \<in> set (load_commands (tmp_key u n) rows) \<Longrightarrow> cmd_typed S c"
  by (auto simp: load_commands_def)

lemma fan_out_commands_typed: "c \<in> set (fan_out_commands cap (uuid_str p) t us) \<Longrightarrow> cmd_typed S c"
  by (auto simp: fan_out_commands_def)

context typed_server
begin

lemma cache_sound:
  "sound S strict view (store_post_hash exec i x a t)"
  "sound S strict view (delete_post_hash exec i)"
  "sound S strict view (invalidate_celebrity_cache exec a)"
  "sound S strict view (publish_post_event S exec ty i a m)"
  unfolding store_post_hash_def delete_post_hash_def invalidate_celebrity_cache_def publish_post_event_def
  by (auto intro!: sound_void command pipeline rev_image_eqI [of "(ty, i, a, m)"] simp: event_fields_def)

lemma fan_out_sound:
  assumes "strict \<Longrightarrow> db \<noteq> wrongtype"
  shows "sound S strict view (fan_out_post S' exec db i a t)"
    and "sound S strict view (remove_post_from_all_feeds exec db i a)"
    and "sound S strict view (add_friend_posts_to_feed S' exec db u f)"
  unfolding fan_out_post_def remove_post_from_all_feeds_def add_friend_posts_to_feed_def get_followers_def
  by (auto intro!: sound_fetch sound_intros pipeline calm assms intro: fan_out_commands_typed load_commands_typed)

lemma unfriend_sound: "sound S strict view (remove_friend_posts_from_feed exec u f)"
  unfolding remove_friend_posts_from_feed_def Let_def
  by (intro sound_intros reply calm pipeline command) (auto intro: post_keys)

lemma celebrity_sound:
  assumes "strict \<Longrightarrow> db \<noteq> wrongtype"
  shows "sound S strict view (get_celebrity_friends S' exec db u)" and "sound S strict view (is_celebrity S' exec db a)"
  unfolding get_celebrity_friends_def is_celebrity_def followers_count_def Let_def
  by (auto intro!: sound_fetch sound_intros reply calm pipeline command assms)

lemma rebuild_sound:
  assumes "strict \<Longrightarrow> db \<noteq> wrongtype"
  shows "sound S strict view (rebuild_feed_for_user S' exec db n u)"
  unfolding rebuild_feed_for_user_def
  by (intro sound_fetch sound_intros reply calm pipeline command assms) (auto intro: load_commands_typed)

lemma read_sound:
  assumes "strict \<Longrightarrow> db \<noteq> wrongtype"
  shows "sound S strict view (read_feed S' exec db n u offset lim)"
  unfolding read_feed_def read_page_def Let_def
  by (intro sound_intros reply calm pipeline command rebuild_sound assms) (auto intro: post_keys)

end


section \<open>The workers and the handlers\<close>

lemma calm_master [calm]: "master_view w \<noteq> wrongtype"
  by (auto simp: master_view_def master_connection_def wrongtype_def split: sum.splits option.splits)

lemma sound_on_redis [sound_intros]:
  assumes "\<And>db. db \<noteq> wrongtype \<Longrightarrow> sound S strict view (m db)"
  shows "sound S strict (\<lambda>w. view (wo_redis w)) (on_redis m)"
proof (rule soundI)
  fix w x w'
  assume s: "store_typed S (view (wo_redis w))" and run: "on_redis m w = (x, w')"
  obtain y r where m: "m (master_view w) (wo_redis w) = (y, r)" by fastforce
  show "store_typed S (view (wo_redis w')) \<and> (strict \<longrightarrow> x \<noteq> wrongtype)"
    using sound_apply [OF assms [OF calm_master] m s] m run by (auto simp: on_redis_def)
qed

lemma sound_on_master [sound_intros]:
  assumes "\<And>t. fst (q t) \<noteq> wrongtype"
  shows "sound S strict (\<lambda>w. view (wo_redis w)) (on_master q)"
  by (rule soundI) (use assms in \<open>auto simp: on_master_def master_connection_def wrongtype_def split: prod.splits sum.splits option.splits, metis fst_conv\<close>)

lemma sound_on_broker [sound_intros]:
  "(\<And>b. strict \<Longrightarrow> fst (m b) \<noteq> wrongtype) \<Longrightarrow> sound S strict (\<lambda>w. view (wo_redis w)) (on_broker m)"
  by (rule soundI) (auto simp: on_broker_def split: prod.splits, metis fst_conv)

lemma sound_get_redis [sound_intros]: "sound S strict (\<lambda>w. view (wo_redis w)) get_redis"
  by (auto simp: sound_def get_redis_def RedisClient_get_def wrongtype_def split: sum.splits option.splits)

lemma calm_statements [calm]:
  "fst (stmt_insert_post p t) \<noteq> wrongtype" "fst (stmt_update_post x i a t) \<noteq> wrongtype" "fst (stmt_delete_post i a t) \<noteq> wrongtype"
  "fst (stmt_user_exists u t) \<noteq> wrongtype" "fst (stmt_insert_friendship u f t) \<noteq> wrongtype" "fst (stmt_delete_friendship u f t) \<noteq> wrongtype"
  by (auto simp: wrongtype_def stmt_insert_post_def stmt_update_post_def stmt_delete_post_def stmt_user_exists_def stmt_insert_friendship_def
      stmt_delete_friendship_def split: prod.splits)

lemma calm_iso [calm]: "fromisoformat t \<noteq> wrongtype"
  by (auto simp: fromisoformat_def wrongtype_def Let_def split: option.splits if_splits)

lemma calm_moment [calm]: "parse_moment t \<noteq> wrongtype"
  by (simp add: parse_moment_def calm_iso)

lemma calm_item [calm]: "item_post i \<noteq> wrongtype"
  using calm_lib(2) by (auto simp: item_post_def wrongtype_def split: sum.splits)

lemma calm_json [calm]: "json_get b k \<noteq> wrongtype" "json_item b k \<noteq> wrongtype" "json_uuid b \<noteq> wrongtype" "json_moment b \<noteq> wrongtype"
  by (auto simp: json_get_def json_item_def json_uuid_def json_moment_def calm_lib calm_moment split: json.split option.split)
    (simp_all add: wrongtype_def)

lemma calm_text [calm]: "json_text b \<noteq> wrongtype"
  by (auto simp: json_text_def wrongtype_def split: json.split bool.split list.split)

lemma calm_bindR [calm]: "m \<noteq> wrongtype \<Longrightarrow> (\<And>x. f x \<noteq> wrongtype) \<Longrightarrow> bindR m f \<noteq> wrongtype"
  by (cases m) (auto simp: bindR_def wrongtype_def)

context typed_server
begin

lemma merged_sound:
  assumes "strict \<Longrightarrow> db \<noteq> wrongtype"
  shows "sound S strict view (read_feed_merged S' exec db n u offset limit)"
proof -
  have "sound S strict view (add_created_at exec items)" for items
    unfolding add_created_at_def by (intro sound_intros reply calm pipeline command) (auto intro: post_keys)
  moreover have "sound S strict view (fetch_recent_posts_by_authors db as n)" for as n
    unfolding fetch_recent_posts_by_authors_def by (intro sound_fetch sound_intros calm assms)
  ultimately show ?thesis unfolding read_feed_merged_def by (intro sound_intros read_sound celebrity_sound assms)
qed

lemma round_sound:
  assumes "strict \<Longrightarrow> db \<noteq> wrongtype"
  shows "sound S strict view (process_round S exec db)"
proof -
  have "bindR (hash_field ev ''created_at'') parse_moment \<noteq> wrongtype" for ev by (intro calm)
  then have "sound S strict view (handle_event S exec db ev)" for ev
    unfolding handle_event_def Let_def by (auto intro!: sound_intros fan_out_sound assms split: sum.splits)
  then have "sound S False view (drain_entries S exec db (feed_stream_key S) (feed_stream_group S) es)" for es
    unfolding drain_entries_def drain_entry_def
    by (intro sound_for) (auto intro!: sound_intros sound_relax [OF command] intro: sound_relax split: prod.splits)
  then show ?thesis unfolding process_round_def by (intro sound_intros sound_relax [OF reply] calm) simp_all
qed

lemma group_sound: "sound S strict view (ensure_group S exec)"
  unfolding ensure_group_def by (intro sound_except_strict sound_if sound_raise sound_return sound_void command) simp_all

end

text \<open>What the application runs against the cache: the requests on posts and friends, a message of the broker worker, and the start and a round of
  the stream worker.\<close>

inductive cache_client :: "settings \<Rightarrow> 'r server \<Rightarrow> 'b publisher \<Rightarrow> (('p, 'c, 'r, 'b) world, unit) prog \<Rightarrow> bool"
  for S exec pub where
  "cache_client S exec pub (voidP (create_post S exec pub i now text u))"
| "cache_client S exec pub (update_post exec i text u)"
| "cache_client S exec pub (delete_post S exec pub now i u)"
| "cache_client S exec pub (voidP (get_feed S exec n offset limit u))"
| "cache_client S exec pub (voidP (rebuild_feed S exec n u))"
| "cache_client S exec pub (set_friend S exec f u)"
| "cache_client S exec pub (delete_friend exec f u)"
| "cache_client S exec pub (rmq_handle_message S exec pub raw)"
| "cache_client S exec pub (on_redis (\<lambda>db. ensure_group S exec))"
| "cache_client S exec pub (on_redis (\<lambda>db. process_round S exec db))"

context typed_server
begin

lemma client_sound:
  assumes "cache_client S exec pub m" and "\<And>k b p s. strict \<Longrightarrow> fst (pub k b p s) \<noteq> wrongtype"
  shows "sound S strict (\<lambda>w. view (wo_redis w)) m"
  using assms(1)
proof cases
  case (8 raw)
  have "created_fields b \<noteq> wrongtype" for b unfolding created_fields_def by (intro calm)
  then have "sound S strict (\<lambda>w. view (wo_redis w)) (rmq_handle_created S exec pub b)" for b
    unfolding rmq_handle_created_def publish_ws_event_def get_followers_def
    by (auto intro!: sound_intros cache_sound fan_out_sound celebrity_sound reply sound_fetch calm_lib calm_Inr assms(2) split: prod.splits option.splits)
  moreover have "sound S strict (\<lambda>w. view (wo_redis w)) (rmq_handle_deleted exec b)" for b
    unfolding rmq_handle_deleted_def by (intro sound_intros calm fan_out_sound)
  ultimately show ?thesis unfolding 8 rmq_handle_message_def
    by (intro sound_intros calm) (simp add: wrongtype_def)
qed (simp_all only:,
  (unfold create_post_def update_post_def delete_post_def get_feed_def rebuild_feed_def set_friend_def delete_friend_def get_followers_def,
   (intro sound_intros calm cache_sound fan_out_sound unfriend_sound celebrity_sound rebuild_sound read_sound merged_sound group_sound round_sound assms(2)
     | simp add: wrongtype_def)+)+)

end


section \<open>Every reachable cache is well-typed\<close>

text \<open>Runs from an empty cache: the clients run in any order, with any outcome; the rest of the world changes as it likes.\<close>

inductive cache_run :: "settings \<Rightarrow> 'r server \<Rightarrow> ('r \<Rightarrow> redis) \<Rightarrow> 'b publisher \<Rightarrow> ('p, 'c, 'r, 'b) world \<Rightarrow> bool"
  for S exec view pub where
  empty: "cache_run S exec view pub w" if "view (wo_redis w) = Map.empty"
| client: "cache_run S exec view pub w'" if "cache_run S exec view pub w" and "cache_client S exec pub m" and "m w = (x, w')"
| elsewhere: "cache_run S exec view pub w'" if "cache_run S exec view pub w" and "wo_redis w' = wo_redis w"

context faulty_server
begin

lemma client_keeps: "cache_client S exec pub m \<Longrightarrow> sound S False (\<lambda>w. view (wo_redis w)) m"
  by (rule typed.client_sound) simp_all

lemma cache_run_typed:
  assumes "stream_apart S" and "cache_run S exec view pub w"
  shows "store_typed S (view (wo_redis w))"
  using assms(2)
proof induction
  case (empty w)
  then show ?case using assms(1) by (simp add: store_typed_def)
next
  case (client w m x w')
  then show ?case using sound_apply [OF client_keeps] by blast
qed simp

end

context redis_server
begin

lemma client_strict: "cache_client S exec pub m \<Longrightarrow> (\<And>k b p s. fst (pub k b p s) \<noteq> wrongtype) \<Longrightarrow> sound S True (\<lambda>w. view (wo_redis w)) m"
  by (rule strict.client_sound)

end

text \<open>C13: Every cache the application can reach from an empty one is well-typed, on a server that may fail at any command: a
  feed is a sorted set of post identifiers, the body of a post is a hash with its three fields, a flag is 0 or 1 and an entry of the stream is an
  event the producers publish.  On a server that answers as documented, no client is told that a key holds the wrong kind of value.\<close>

theorem cache_well_typed:
  assumes "faulty_server exec view" and "stream_apart S" and "cache_run S exec view pub w"
  shows "store_typed S (view (wo_redis w))
    \<and> (redis_server exec view \<and> cache_client S exec pub m \<and> (\<forall>k b p s. fst (pub k b p s) \<noteq> wrongtype)
        \<longrightarrow> fst (m w) \<noteq> Inl (RedisError ''WRONGTYPE''))"
proof -
  have "store_typed S (view (wo_redis w))" by (rule faulty_server.cache_run_typed [OF assms])
  then show ?thesis using redis_server.client_strict by (fastforce simp: sound_def wrongtype_def)
qed

lemma default_stream_apart: "stream_apart default_settings"
  by (auto simp: stream_apart_def cache_key_def feed_kind_def feed_key_def post_key_def celebrity_key_def tmp_key_def)

lemma snd_void: "snd (voidP m w) = snd (m w)"
  by (auto simp: voidP_def bindP_def split: prod.splits sum.splits)

lemma demo_cache_run: "cache_run default_settings redis_step (\<lambda>r. r) no_publish demo_published"
proof -
  have "cache_run default_settings redis_step (\<lambda>r. r) no_publish demo_users" by (rule cache_run.empty) (simp add: demo_world_def)
  then have "cache_run default_settings redis_step (\<lambda>r. r) no_publish demo_befriended"
    unfolding demo_befriended_def by (rule cache_run.client [OF _ cache_client.intros(6) prod.collapse [symmetric]])
  then have "cache_run default_settings redis_step (\<lambda>r. r) no_publish
      (snd (voidP (create_post default_settings redis_step no_publish 5 (Datetime 2024 3 1 12 0 0 0) ''hi'' 2) demo_befriended))"
    by (rule cache_run.client [OF _ cache_client.intros(1) prod.collapse [symmetric]])
  then show ?thesis by (simp add: demo_published_def snd_void)
qed

lemma cache_well_typed_witness:
  "store_typed default_settings (wo_redis demo_published)
   \<and> fst (voidP (get_feed default_settings redis_step ''n'' 0 10 1) demo_published) \<noteq> Inl (RedisError ''WRONGTYPE'')"
  using cache_well_typed [OF documented.faulty.faulty_server_axioms default_stream_apart demo_cache_run, where m = "voidP (get_feed default_settings redis_step ''n'' 0 10 1)"]
    documented.redis_server_axioms cache_client.intros(4) [of default_settings redis_step no_publish] by (auto simp: wrongtype_def)

end
