(* ===== verification/Dialogs_Tarantool.thy ===== *)
theory Dialogs_Tarantool
  imports Dialogs_Pg
begin

text \<open>
  \<^verbatim>\<open>app/dialogs/tarantool_client.py\<close>, \<^verbatim>\<open>app/dialogs/tarantool_repository.py\<close>, \<^verbatim>\<open>app/dialogs/factory.py\<close> and
  \<^verbatim>\<open>app/routes/dialogs.py\<close>: the second storage of dialogs, the choice of the storage and the handlers on top of it.
  The server and its stored functions \<^verbatim>\<open>dialog_send\<close> and \<^verbatim>\<open>dialog_list\<close> are not Python code of the repository; they
  are parameters with the contract that \<^verbatim>\<open>reports/homework_7_tarantool/report.md\<close> documents.
\<close>

section \<open>The client\<close>

text \<open>Values of the protocol: what the functions take and return.\<close>

datatype tnt = TStr string | TNum int | TList "tnt list" | TMap "(string \<times> tnt) list"

record 'c tnt_pool =
  tp_host :: string
  tp_port :: int
  tp_reconnect_timeout_ms :: int
  tp_conn :: "'c option"

definition TarantoolPool :: "string \<Rightarrow> int \<Rightarrow> int \<Rightarrow> 'c tnt_pool" where
  "TarantoolPool host port reconnect_timeout =
     \<lparr>tp_host = host, tp_port = port, tp_reconnect_timeout_ms = reconnect_timeout, tp_conn = None\<rparr>"

text \<open>\<open>connect\<close> is the outcome of \<^verbatim>\<open>asynctnt.Connection(..).connect()\<close>, \<open>disconnect\<close> that of \<^verbatim>\<open>disconnect()\<close>.\<close>

definition tnt_start :: "(string \<Rightarrow> int \<Rightarrow> int \<Rightarrow> 'c res) \<Rightarrow> ('c tnt_pool, unit) prog" where
  "tnt_start connect pool =
     (case connect (tp_host pool) (tp_port pool) (tp_reconnect_timeout_ms pool) of
        Inl e \<Rightarrow> (Inl e, pool)
      | Inr conn \<Rightarrow> (Inr (), pool\<lparr>tp_conn := Some conn\<rparr>))"

definition tnt_stop :: "('c \<Rightarrow> unit res) \<Rightarrow> ('c tnt_pool, unit) prog" where
  "tnt_stop disconnect pool =
     (case tp_conn pool of
        None \<Rightarrow> (Inr (), pool)
      | Some conn \<Rightarrow> (case disconnect conn of Inl e \<Rightarrow> (Inl e, pool) | Inr _ \<Rightarrow> (Inr (), pool\<lparr>tp_conn := None\<rparr>)))"

definition tnt_call :: "('c \<Rightarrow> string \<Rightarrow> tnt list \<Rightarrow> ('t, tnt list) prog) \<Rightarrow> 'c tnt_pool \<Rightarrow> string \<Rightarrow> tnt list \<Rightarrow> ('t, tnt list) prog" where
  "tnt_call conn_call pool func args =
     (case tp_conn pool of
        None \<Rightarrow> raiseP (RuntimeError ''TarantoolPool is not started'')
      | Some conn \<Rightarrow> conn_call conn func args)"

section \<open>The repository\<close>

definition tnt_send :: "('c \<Rightarrow> string \<Rightarrow> tnt list \<Rightarrow> ('t, tnt list) prog) \<Rightarrow> 'c tnt_pool \<Rightarrow> uuid \<Rightarrow> uuid \<Rightarrow> string \<Rightarrow> ('t, unit) prog" where
  "tnt_send conn_call pool from_id to_id text =
     bindP (tnt_call conn_call pool ''dialog_send'' [TStr (uuid_str from_id), TStr (uuid_str to_id), TStr text]) (\<lambda>_. returnP ())"

text \<open>\<^verbatim>\<open>row[key]\<close>, \<^verbatim>\<open>UUID(..)\<close>, a text and \<^verbatim>\<open>datetime.fromtimestamp(ms / 1000, tz=utc)\<close> as microseconds.\<close>

definition tnt_item :: "tnt \<Rightarrow> string \<Rightarrow> tnt res" where
  "tnt_item row key = (case row of
       TMap kvs \<Rightarrow> (case map_of kvs key of None \<Rightarrow> Inl (KeyError key) | Some v \<Rightarrow> Inr v)
     | _ \<Rightarrow> Inl (TypeError ''not a mapping''))"

definition tnt_uuid :: "tnt \<Rightarrow> uuid res" where
  "tnt_uuid v = (case v of TStr s \<Rightarrow> UUID s | _ \<Rightarrow> Inl (AttributeError ''replace''))"

definition tnt_text :: "tnt \<Rightarrow> string res" where
  "tnt_text v = (case v of TStr s \<Rightarrow> Inr s | _ \<Rightarrow> Inl (ValueError ''text is no string''))"

definition tnt_time :: "tnt \<Rightarrow> int res" where
  "tnt_time v = (case v of TNum ms \<Rightarrow> Inr (ms * 1000) | _ \<Rightarrow> Inl (TypeError ''unsupported operand''))"

definition tnt_row_to_dto :: "tnt \<Rightarrow> dialog_dto res" where
  "tnt_row_to_dto row =
     bindR (bindR (tnt_item row ''from_user_id'') tnt_uuid) (\<lambda>f.
     bindR (bindR (tnt_item row ''to_user_id'') tnt_uuid) (\<lambda>t.
     bindR (bindR (tnt_item row ''text'') tnt_text) (\<lambda>x.
     bindR (bindR (tnt_item row ''created_at'') tnt_time) (\<lambda>c.
       Inr \<lparr>from_user_id = f, to_user_id = t, dto_text = x, dto_created_at = c\<rparr>))))"

definition tnt_rows :: "tnt list \<Rightarrow> tnt list res" where
  "tnt_rows response = (case response of [] \<Rightarrow> Inr [] | v # _ \<Rightarrow> (case v of TList rows \<Rightarrow> Inr rows | _ \<Rightarrow> Inl (TypeError ''not iterable'')))"

definition tnt_list :: "('c \<Rightarrow> string \<Rightarrow> tnt list \<Rightarrow> ('t, tnt list) prog) \<Rightarrow> 'c tnt_pool \<Rightarrow> uuid \<Rightarrow> uuid \<Rightarrow> int \<Rightarrow> int \<Rightarrow>
    ('t, dialog_dto list) prog" where
  "tnt_list conn_call pool user_a user_b limit offset =
     bindP (tnt_call conn_call pool ''dialog_list'' [TStr (uuid_str user_a), TStr (uuid_str user_b), TNum limit, TNum offset]) (\<lambda>response.
     bindP (liftP (tnt_rows response)) (\<lambda>rows. liftP (map_res tnt_row_to_dto rows)))"

section \<open>The factory\<close>

datatype 'c dialog_backend = PgDialogRepository | TarantoolDialogRepository "'c tnt_pool"

record 'c holder =
  ho_repository :: "'c dialog_backend option"
  ho_tarantool_pool :: "'c tnt_pool option"

definition initial_holder :: "'c holder" where
  "initial_holder = \<lparr>ho_repository = None, ho_tarantool_pool = None\<rparr>"

definition holder_setup :: "settings \<Rightarrow> (string \<Rightarrow> int \<Rightarrow> int \<Rightarrow> 'c res) \<Rightarrow> ('c holder, unit) prog" where
  "holder_setup S connect h =
     (let backend = py_lower (dialogs_backend S) in
      if backend = ''tarantool'' then
        (case tnt_start connect (TarantoolPool (tarantool_host S) (tarantool_port S) (tarantool_reconnect_timeout_ms S)) of
           (Inl e, _) \<Rightarrow> (Inl e, h)
         | (Inr _, pool) \<Rightarrow> (Inr (), h\<lparr>ho_tarantool_pool := Some pool, ho_repository := Some (TarantoolDialogRepository pool)\<rparr>))
      else if backend = ''postgres'' then (Inr (), h\<lparr>ho_repository := Some PgDialogRepository\<rparr>)
      else (Inl (RuntimeError ''unknown DIALOGS_BACKEND''), h))"

definition holder_teardown :: "('c \<Rightarrow> unit res) \<Rightarrow> ('c holder, unit) prog" where
  "holder_teardown disconnect h =
     (case ho_tarantool_pool h of
        None \<Rightarrow> (Inr (), h\<lparr>ho_repository := None\<rparr>)
      | Some pool \<Rightarrow>
          (case tnt_stop disconnect pool of
             (Inl e, _) \<Rightarrow> (Inl e, h)
           | (Inr _, _) \<Rightarrow> (Inr (), h\<lparr>ho_tarantool_pool := None, ho_repository := None\<rparr>)))"

definition holder_get :: "'c holder \<Rightarrow> 'c dialog_backend res" where
  "holder_get h = (case ho_repository h of None \<Rightarrow> Inl (RuntimeError ''DialogRepository is not initialised'') | Some r \<Rightarrow> Inr r)"

section \<open>The handlers\<close>

text \<open>Both storages.  What the environment contributes to a call on PostgreSQL, the reachable servers, the clocks and
  the new identifier, is given with the call.\<close>

record ('p, 't) stores =
  st_pg :: "'p dialogs"
  st_tnt :: 't

record 'p pg_env =
  pe_up :: "'p \<Rightarrow> bool"
  pe_now :: "'p \<Rightarrow> int"
  pe_mid :: uuid

definition repo_send :: "('c \<Rightarrow> string \<Rightarrow> tnt list \<Rightarrow> ('t, tnt list) prog) \<Rightarrow> 'p pg_env \<Rightarrow> 'c dialog_backend \<Rightarrow>
    uuid \<Rightarrow> uuid \<Rightarrow> string \<Rightarrow> (('p, 't) stores, unit) prog" where
  "repo_send conn_call e repo from_id to_id text s =
     (case repo of
        PgDialogRepository \<Rightarrow>
          (case pg_send (pe_up e) (pe_now e) (pe_mid e) from_id to_id text (st_pg s) of (x, d) \<Rightarrow> (x, s\<lparr>st_pg := d\<rparr>))
      | TarantoolDialogRepository pool \<Rightarrow>
          (case tnt_send conn_call pool from_id to_id text (st_tnt s) of (x, t) \<Rightarrow> (x, s\<lparr>st_tnt := t\<rparr>)))"

definition repo_list :: "('c \<Rightarrow> string \<Rightarrow> tnt list \<Rightarrow> ('t, tnt list) prog) \<Rightarrow> ('p \<Rightarrow> bool) \<Rightarrow> 'c dialog_backend \<Rightarrow>
    uuid \<Rightarrow> uuid \<Rightarrow> int \<Rightarrow> int \<Rightarrow> (('p, 't) stores, dialog_dto list) prog" where
  "repo_list conn_call up repo user_a user_b limit offset s =
     (case repo of
        PgDialogRepository \<Rightarrow>
          (case pg_list up user_a user_b limit offset (st_pg s) of (x, d) \<Rightarrow> (x, s\<lparr>st_pg := d\<rparr>))
      | TarantoolDialogRepository pool \<Rightarrow>
          (case tnt_list conn_call pool user_a user_b limit offset (st_tnt s) of (x, t) \<Rightarrow> (x, s\<lparr>st_tnt := t\<rparr>)))"

record dialog_message =
  dm_from_user_id :: uuid
  dm_to_user_id :: uuid
  dm_text :: string
  dm_created_at :: int

definition to_dialog_message :: "dialog_dto \<Rightarrow> dialog_message" where
  "to_dialog_message r = \<lparr>dm_from_user_id = from_user_id r, dm_to_user_id = to_user_id r, dm_text = dto_text r, dm_created_at = dto_created_at r\<rparr>"

text \<open>\<open>send\<close> and \<open>list_of\<close> are the methods of the repository the dependency hands over.\<close>

definition send_message :: "(uuid \<Rightarrow> uuid \<Rightarrow> string \<Rightarrow> ('s, unit) prog) \<Rightarrow> uuid \<Rightarrow> string \<Rightarrow> uuid \<Rightarrow> ('s, string) prog" where
  "send_message send user_id text current_user =
     (if length text < 1 \<or> 10000 < length text then raiseP (HTTPException 422 ''text out of range'')
      else if user_id = current_user then raiseP (HTTPException 400 ''Cannot send a message to yourself'')
      else bindP (send current_user user_id text) (\<lambda>_. returnP ''ok''))"

definition list_messages :: "(uuid \<Rightarrow> uuid \<Rightarrow> int \<Rightarrow> int \<Rightarrow> ('s, dialog_dto list) prog) \<Rightarrow> uuid \<Rightarrow> int \<Rightarrow> int \<Rightarrow> uuid \<Rightarrow>
    ('s, dialog_message list) prog" where
  "list_messages list_of user_id limit offset current_user =
     (if limit < 1 \<or> 500 < limit \<or> offset < 0 then raiseP (HTTPException 422 ''query parameter out of range'')
      else bindP (list_of current_user user_id limit offset) (\<lambda>rows. returnP (map to_dialog_message rows)))"

end
