(* ===== verification/Dialogs_Contract.thy ===== *)
theory Dialogs_Contract
  imports Dialogs_Tarantool
begin

text \<open>
  The protocol \<^verbatim>\<open>DialogRepository\<close> of \<^verbatim>\<open>app/dialogs/repository.py\<close> as an interface: what the handlers of
  \<^verbatim>\<open>app/routes/dialogs.py\<close> may expect of a storage.  Both storages provide it, so the handlers show the same dialogs
  whichever backend the factory picked.
\<close>

section \<open>The protocol\<close>

text \<open>\<open>log\<close> is the dialog of two users, newest first; \<open>ready\<close> says that a call of \<open>send\<close> with this environment reaches the
  storage with a fresh identifier and a clock that is not behind, \<open>stamp\<close> is the time it stores, and \<open>serves\<close> that a list
  reaches the storage.\<close>

locale dialog_repository =
  fixes send :: "'e \<Rightarrow> uuid \<Rightarrow> uuid \<Rightarrow> string \<Rightarrow> ('s, unit) prog"
    and list_of :: "'e \<Rightarrow> uuid \<Rightarrow> uuid \<Rightarrow> int \<Rightarrow> int \<Rightarrow> ('s, dialog_dto list) prog"
    and log :: "'s \<Rightarrow> uuid \<Rightarrow> uuid \<Rightarrow> dialog_dto list"
    and ready :: "'e \<Rightarrow> uuid \<Rightarrow> uuid \<Rightarrow> 's \<Rightarrow> bool"
    and serves :: "'e \<Rightarrow> uuid \<Rightarrow> uuid \<Rightarrow> 's \<Rightarrow> bool"
    and stamp :: "'e \<Rightarrow> uuid \<Rightarrow> uuid \<Rightarrow> 's \<Rightarrow> int"
  assumes log_sym: "log s a b = log s b a"
    and serves_sym: "serves e a b s \<Longrightarrow> serves e b a s"
    and list_page: "serves e a b s \<Longrightarrow> 1 \<le> lim \<Longrightarrow> lim \<le> 500 \<Longrightarrow> 0 \<le> off \<Longrightarrow>
      list_of e a b lim off s = (Inr (take (nat lim) (drop (nat off) (log s a b))), s)"
    and send_logs: "ready e f t s \<Longrightarrow> f \<noteq> t \<Longrightarrow> \<exists>s'. send e f t x s = (Inr (), s') \<and> serves e f t s'
      \<and> log s' f t = \<lparr>from_user_id = f, to_user_id = t, dto_text = x, dto_created_at = stamp e f t s\<rparr> # log s f t"
begin

text \<open>A message that was sent is the first one both users are shown, before the page they were shown already.\<close>

lemma sent_is_shown:
  assumes "ready e f t s" and "f \<noteq> t" and "text \<noteq> []" and "length text \<le> 10000" and "1 \<le> lim" and "lim \<le> 500"
  shows "\<exists>s'. send_message (send e) t text f s = (Inr ''ok'', s')
    \<and> list_messages (list_of e) f lim 0 t s' = (Inr (map to_dialog_message (take (nat lim)
        (\<lparr>from_user_id = f, to_user_id = t, dto_text = text, dto_created_at = stamp e f t s\<rparr> # log s f t))), s')
    \<and> list_messages (list_of e) t lim 0 f s' = list_messages (list_of e) f lim 0 t s'"
proof -
  obtain s' where s': "send e f t text s = (Inr (), s')" "serves e f t s'"
      "log s' f t = \<lparr>from_user_id = f, to_user_id = t, dto_text = text, dto_created_at = stamp e f t s\<rparr> # log s f t"
    using send_logs [OF assms(1,2)] by blast
  have "send_message (send e) t text f s = (Inr ''ok'', s')"
    using s'(1) assms(2-4) by (simp add: send_message_def Suc_le_eq not_less)
  moreover have "list_of e f t lim 0 s' = (Inr (take (nat lim) (log s' f t)), s')"
      "list_of e t f lim 0 s' = (Inr (take (nat lim) (log s' f t)), s')"
    using list_page [OF s'(2) assms(5,6), of 0] list_page [OF serves_sym [OF s'(2)] assms(5,6), of 0] log_sym [of s' t f] by simp_all
  ultimately show ?thesis using s'(3) assms(5,6) by (simp add: list_messages_def)
qed

text \<open>Pages of the handler are slices of the dialog.\<close>

lemma page_is_slice:
  assumes "serves e a b s" and "1 \<le> lim" and "lim \<le> 500" and "0 \<le> off"
  shows "list_messages (list_of e) b lim off a s = (Inr (map to_dialog_message (take (nat lim) (drop (nat off) (log s a b)))), s)"
  using list_page [OF assms] assms by (simp add: list_messages_def)

text \<open>A storage that is a part of a larger state is a storage.\<close>

lemma as_part:
  fixes part :: "'u \<Rightarrow> 's"
  assumes "\<And>x u. part (put x u) = x" and "\<And>u. put (part u) u = u"
  shows "dialog_repository (\<lambda>e f t x u. case send e f t x (part u) of (y, s) \<Rightarrow> (y, put s u))
    (\<lambda>e a b lim off u. case list_of e a b lim off (part u) of (y, s) \<Rightarrow> (y, put s u))
    (\<lambda>u. log (part u)) (\<lambda>e f t u. ready e f t (part u)) (\<lambda>e a b u. serves e a b (part u)) (\<lambda>e f t u. stamp e f t (part u))"
proof
  show "log (part u) a b = log (part u) b a" for u a b by (rule log_sym)
  show "serves e a b (part u) \<Longrightarrow> serves e b a (part u)" for e a b u by (rule serves_sym)
  show "(case list_of e a b lim off (part u) of (y, s) \<Rightarrow> (y, put s u)) = (Inr (take (nat lim) (drop (nat off) (log (part u) a b))), u)"
    if "serves e a b (part u)" "1 \<le> lim" "lim \<le> 500" "0 \<le> off" for e a b lim off u
    using list_page [OF that] assms(2) by simp
  show "\<exists>u'. (case send e f t x (part u) of (y, s) \<Rightarrow> (y, put s u)) = (Inr (), u') \<and> serves e f t (part u')
      \<and> log (part u') f t = \<lparr>from_user_id = f, to_user_id = t, dto_text = x, dto_created_at = stamp e f t (part u)\<rparr> # log (part u) f t"
    if "ready e f t (part u)" "f \<noteq> t" for e f t x u
    using send_logs [OF that, of x] assms(1) by fastforce
qed

end

section \<open>PostgreSQL\<close>

definition pg_ready :: "'p pg_env \<Rightarrow> uuid \<Rightarrow> uuid \<Rightarrow> 'p dialogs \<Rightarrow> bool" where
  "pg_ready e f t d \<longleftrightarrow> dialogs_ok d \<and> distinct (cl_pools (dg_cluster d))
     \<and> (cl_dual_write (dg_cluster d) \<or> cl_read_n (dg_cluster d) = cl_write_n (dg_cluster d))
     \<and> (\<forall>p \<in> set (write_pools d (compute_chat_id f t)). pe_up e p)
     \<and> (\<forall>r \<in> set (sh_rows (dg_shard d (read_pool d (compute_chat_id f t)))).
          message_id r \<noteq> pe_mid e \<and> (chat_id r = compute_chat_id f t \<longrightarrow> created_at r \<le> pe_now e (read_pool d (compute_chat_id f t))))"

definition pg_serves :: "'p pg_env \<Rightarrow> uuid \<Rightarrow> uuid \<Rightarrow> 'p dialogs \<Rightarrow> bool" where
  "pg_serves e a b d \<longleftrightarrow> cluster_ok (dg_cluster d) \<and> pe_up e (read_pool d (compute_chat_id a b))"

interpretation pg: dialog_repository "\<lambda>e. pg_send (pe_up e) (pe_now e) (pe_mid e)" "\<lambda>e. pg_list (pe_up e)"
  "\<lambda>d a b. map row_to_dto (chat_log d a b)" pg_ready pg_serves "\<lambda>e f t d. pe_now e (read_pool d (compute_chat_id f t))"
proof
  show "map row_to_dto (chat_log s a b) = map row_to_dto (chat_log s b a)" for s :: "'p dialogs" and a b
    by (simp add: chat_log_sym)
  show "pg_serves e a b s \<Longrightarrow> pg_serves e b a s" for e :: "'p pg_env" and a b s
    by (simp add: pg_serves_def compute_chat_id_sym)
  show "pg_list (pe_up e) a b lim off s = (Inr (take (nat lim) (drop (nat off) (map row_to_dto (chat_log s a b)))), s)"
    if "pg_serves e a b s" "1 \<le> lim" "lim \<le> 500" "0 \<le> off" for e :: "'p pg_env" and a b s lim off
    using that pg_list_ok [of s "pe_up e" a b lim off] by (simp add: pg_serves_def take_map drop_map)
  show "\<exists>s'. pg_send (pe_up e) (pe_now e) (pe_mid e) f t x s = (Inr (), s') \<and> pg_serves e f t s'
      \<and> map row_to_dto (chat_log s' f t) = \<lparr>from_user_id = f, to_user_id = t, dto_text = x,
          dto_created_at = pe_now e (read_pool s (compute_chat_id f t))\<rparr> # map row_to_dto (chat_log s f t)"
    if "pg_ready e f t s" for e :: "'p pg_env" and f t x s
  proof -
    have r: "dialogs_ok s" "distinct (cl_pools (dg_cluster s))"
        "cl_dual_write (dg_cluster s) \<or> cl_read_n (dg_cluster s) = cl_write_n (dg_cluster s)"
        "\<forall>p \<in> set (write_pools s (compute_chat_id f t)). pe_up e p"
        "\<forall>r \<in> set (sh_rows (dg_shard s (read_pool s (compute_chat_id f t)))).
          message_id r \<noteq> pe_mid e \<and> (chat_id r = compute_chat_id f t \<longrightarrow> created_at r \<le> pe_now e (read_pool s (compute_chat_id f t)))"
      using that by (simp_all add: pg_ready_def)
    note sl = pg_send_log [where up = "pe_up e" and now = "pe_now e" and mid = "pe_mid e", OF r]
    let ?s' = "fold (stored (pe_mid e) f t x (pe_now e)) (write_pools s (compute_chat_id f t)) s"
    have "pg_serves e f t ?s'" using sl(2) r(1) sl(3) [where tx = x] by (simp add: pg_serves_def dialogs_ok_def)
    then show ?thesis using sl(1) [where tx = x] sl(5) [where tx = x] by (auto simp: row_to_dto_def new_message_def)
  qed
qed

section \<open>Tarantool\<close>

text \<open>A message as \<^verbatim>\<open>dialog_list\<close> returns it.\<close>

record tnt_message =
  tm_id :: nat
  tm_from :: string
  tm_to :: string
  tm_text :: string
  tm_created_at :: int

definition tnt_row :: "tnt_message \<Rightarrow> tnt" where
  "tnt_row m = TMap [(''id'', TNum (int (tm_id m))), (''from_user_id'', TStr (tm_from m)), (''to_user_id'', TStr (tm_to m)),
     (''text'', TStr (tm_text m)), (''created_at'', TNum (tm_created_at m))]"

text \<open>The documented contract of the stored functions: \<^verbatim>\<open>dialog_send\<close> stores the message under the server's time, which is
  not behind the messages of the pair, and \<^verbatim>\<open>dialog_list\<close> returns the messages of the pair, newest first, \<^verbatim>\<open>limit\<close> of them
  but at most 500, after skipping \<^verbatim>\<open>offset\<close>.\<close>

locale dialog_udfs =
  fixes conn_call :: "'c \<Rightarrow> string \<Rightarrow> tnt list \<Rightarrow> ('t, tnt list) prog"
    and messages :: "'t \<Rightarrow> string \<Rightarrow> string \<Rightarrow> tnt_message list"
    and clock :: "'t \<Rightarrow> int"
    and answers :: "'t \<Rightarrow> bool"
  assumes messages_sym: "messages s a b = messages s b a"
    and dialog_send: "answers s \<Longrightarrow> a \<noteq> b \<Longrightarrow> \<forall>m \<in> set (messages s a b). tm_created_at m \<le> clock s \<Longrightarrow>
      \<exists>r s' i. conn_call c ''dialog_send'' [TStr a, TStr b, TStr x] s = (Inr r, s') \<and> answers s'
        \<and> messages s' a b = \<lparr>tm_id = i, tm_from = a, tm_to = b, tm_text = x, tm_created_at = clock s\<rparr> # messages s a b"
    and dialog_list: "answers s \<Longrightarrow> 1 \<le> lim \<Longrightarrow> 0 \<le> off \<Longrightarrow> conn_call c ''dialog_list'' [TStr a, TStr b, TNum lim, TNum off] s
      = (Inr [TList (map tnt_row (take (nat (min lim 500)) (drop (nat off) (messages s a b))))], s)"

text \<open>A stored message of two users as the repository hands it on.\<close>

definition tnt_dto :: "tnt_message \<Rightarrow> dialog_dto" where
  "tnt_dto m = \<lparr>from_user_id = (case UUID (tm_from m) of Inr u \<Rightarrow> u | Inl _ \<Rightarrow> 0), to_user_id = (case UUID (tm_to m) of Inr u \<Rightarrow> u | Inl _ \<Rightarrow> 0),
     dto_text = tm_text m, dto_created_at = tm_created_at m * 1000\<rparr>"

definition uuid_message :: "tnt_message \<Rightarrow> bool" where
  "uuid_message m \<longleftrightarrow> tm_from m \<in> range uuid_str \<and> tm_to m \<in> range uuid_str"

lemma tnt_row_dto: "uuid_message m \<Longrightarrow> tnt_row_to_dto (tnt_row m) = Inr (tnt_dto m)"
  by (auto simp: uuid_message_def tnt_row_to_dto_def tnt_row_def tnt_item_def tnt_uuid_def tnt_text_def tnt_time_def tnt_dto_def
      bindR_def UUID_str)

definition tnt_serves :: "('t \<Rightarrow> string \<Rightarrow> string \<Rightarrow> tnt_message list) \<Rightarrow> ('t \<Rightarrow> bool) \<Rightarrow> uuid \<Rightarrow> uuid \<Rightarrow> 't \<Rightarrow> bool" where
  "tnt_serves messages answers a b s \<longleftrightarrow> answers s \<and> (\<forall>m \<in> set (messages s (uuid_str a) (uuid_str b)). uuid_message m)"

definition tnt_ready :: "('t \<Rightarrow> string \<Rightarrow> string \<Rightarrow> tnt_message list) \<Rightarrow> ('t \<Rightarrow> int) \<Rightarrow> ('t \<Rightarrow> bool) \<Rightarrow> uuid \<Rightarrow> uuid \<Rightarrow> 't \<Rightarrow> bool" where
  "tnt_ready messages clock answers f t s \<longleftrightarrow> tnt_serves messages answers f t s
     \<and> (\<forall>m \<in> set (messages s (uuid_str f) (uuid_str t)). tm_created_at m \<le> clock s)"

context dialog_udfs
begin

lemma tarantool_repository:
  assumes "tp_conn pool = Some c"
  shows "dialog_repository (\<lambda>_. tnt_send conn_call pool) (\<lambda>_. tnt_list conn_call pool)
    (\<lambda>s a b. map tnt_dto (messages s (uuid_str a) (uuid_str b)))
    (\<lambda>_. tnt_ready messages clock answers) (\<lambda>_. tnt_serves messages answers) (\<lambda>_ f t s. clock s * 1000)"
proof
  show "map tnt_dto (messages s (uuid_str a) (uuid_str b)) = map tnt_dto (messages s (uuid_str b) (uuid_str a))" for s a b
    using messages_sym by metis
  show "tnt_serves messages answers a b s \<Longrightarrow> tnt_serves messages answers b a s" for a b s
    using messages_sym by (metis tnt_serves_def)
  show "tnt_list conn_call pool a b lim off s = (Inr (take (nat lim) (drop (nat off) (map tnt_dto (messages s (uuid_str a) (uuid_str b))))), s)"
    if "tnt_serves messages answers a b s" "1 \<le> lim" "lim \<le> 500" "0 \<le> off" for a b s lim off
  proof -
    let ?ms = "take (nat lim) (drop (nat off) (messages s (uuid_str a) (uuid_str b)))"
    have "map_res tnt_row_to_dto (map tnt_row ?ms) = Inr (map tnt_dto ?ms)"
      using that(1) tnt_row_dto
      by (intro map_res_map_Inr) (auto simp: tnt_serves_def dest!: in_set_takeD in_set_dropD)
    then show ?thesis using that dialog_list [of s lim off c "uuid_str a" "uuid_str b"] assms
      by (simp add: tnt_list_def tnt_call_def tnt_serves_def tnt_rows_def take_map drop_map min_def)
  qed
  show "\<exists>s'. tnt_send conn_call pool f t x s = (Inr (), s') \<and> tnt_serves messages answers f t s'
      \<and> map tnt_dto (messages s' (uuid_str f) (uuid_str t)) = \<lparr>from_user_id = f, to_user_id = t, dto_text = x, dto_created_at = clock s * 1000\<rparr>
          # map tnt_dto (messages s (uuid_str f) (uuid_str t))"
    if "tnt_ready messages clock answers f t s" "f \<noteq> t" for f t x s
  proof -
    note prem = that
    obtain r s' i where s': "conn_call c ''dialog_send'' [TStr (uuid_str f), TStr (uuid_str t), TStr x] s = (Inr r, s')" "answers s'"
        "messages s' (uuid_str f) (uuid_str t) = \<lparr>tm_id = i, tm_from = uuid_str f, tm_to = uuid_str t, tm_text = x, tm_created_at = clock s\<rparr>
          # messages s (uuid_str f) (uuid_str t)"
      using dialog_send [of s "uuid_str f" "uuid_str t" c x] prem by (auto simp: tnt_ready_def tnt_serves_def uuid_str_inj)
    then show ?thesis using prem(1) assms
      by (auto simp: tnt_send_def tnt_call_def tnt_ready_def tnt_serves_def uuid_message_def tnt_dto_def UUID_str)
  qed
qed

end

section \<open>The documented functions\<close>

text \<open>The contract as functions: the space with its messages, the sequence of identifiers and the clock.\<close>

record tarantool =
  tt_messages :: "tnt_message list"
  tt_next :: nat
  tt_now :: int

definition tt_pair :: "tarantool \<Rightarrow> string \<Rightarrow> string \<Rightarrow> tnt_message list" where
  "tt_pair s a b = filter (\<lambda>m. {tm_from m, tm_to m} = {a, b}) (tt_messages s)"

text \<open>The newest message is kept in front; the clock of the server does not run backwards.\<close>

definition tt_call :: "unit \<Rightarrow> string \<Rightarrow> tnt list \<Rightarrow> (tarantool, tnt list) prog" where
  "tt_call c func args s =
     (case args of
        [TStr a, TStr b, TStr x] \<Rightarrow>
          if func \<noteq> ''dialog_send'' then (Inl (RuntimeError ''no such function''), s)
          else (Inr [TMap [(''id'', TNum (int (tt_next s))), (''created_at'', TNum (tt_now s))]],
            s\<lparr>tt_messages := \<lparr>tm_id = tt_next s, tm_from = a, tm_to = b, tm_text = x, tm_created_at = tt_now s\<rparr> # tt_messages s,
              tt_next := Suc (tt_next s)\<rparr>)
      | [TStr a, TStr b, TNum lim, TNum off] \<Rightarrow>
          if func \<noteq> ''dialog_list'' then (Inl (RuntimeError ''no such function''), s)
          else (Inr [TList (map tnt_row (take (nat (min lim 500)) (drop (nat off) (tt_pair s a b))))], s)
      | _ \<Rightarrow> (Inl (RuntimeError ''bad arguments''), s))"

interpretation tt: dialog_udfs tt_call tt_pair tt_now "\<lambda>_. True"
  by unfold_locales (auto simp: tt_call_def tt_pair_def insert_commute)

section \<open>Both backends\<close>

definition repo_log :: "('t \<Rightarrow> string \<Rightarrow> string \<Rightarrow> tnt_message list) \<Rightarrow> 'c dialog_backend \<Rightarrow> ('p, 't) stores \<Rightarrow> uuid \<Rightarrow> uuid \<Rightarrow> dialog_dto list" where
  "repo_log messages repo s a b = (case repo of
       PgDialogRepository \<Rightarrow> map row_to_dto (chat_log (st_pg s) a b)
     | TarantoolDialogRepository _ \<Rightarrow> map tnt_dto (messages (st_tnt s) (uuid_str a) (uuid_str b)))"

definition repo_ready :: "('t \<Rightarrow> string \<Rightarrow> string \<Rightarrow> tnt_message list) \<Rightarrow> ('t \<Rightarrow> int) \<Rightarrow> ('t \<Rightarrow> bool) \<Rightarrow> 'c dialog_backend \<Rightarrow>
    'p pg_env \<Rightarrow> uuid \<Rightarrow> uuid \<Rightarrow> ('p, 't) stores \<Rightarrow> bool" where
  "repo_ready messages clock answers repo e f t s = (case repo of
       PgDialogRepository \<Rightarrow> pg_ready e f t (st_pg s)
     | TarantoolDialogRepository _ \<Rightarrow> tnt_ready messages clock answers f t (st_tnt s))"

definition repo_stamp :: "('t \<Rightarrow> int) \<Rightarrow> 'c dialog_backend \<Rightarrow> 'p pg_env \<Rightarrow> uuid \<Rightarrow> uuid \<Rightarrow> ('p, 't) stores \<Rightarrow> int" where
  "repo_stamp clock repo e f t s = (case repo of
       PgDialogRepository \<Rightarrow> pe_now e (read_pool (st_pg s) (compute_chat_id f t))
     | TarantoolDialogRepository _ \<Rightarrow> clock (st_tnt s) * 1000)"

lemma setup_connected:
  assumes "holder_setup S connect initial_holder = (Inr (), h)" and "holder_get h = Inr (TarantoolDialogRepository pool)"
  shows "\<exists>c. tp_conn pool = Some c"
  using assms by (auto simp: holder_setup_def initial_holder_def holder_get_def tnt_start_def TarantoolPool_def Let_def split: if_splits sum.splits)

text \<open>C16: Whichever backend the factory set up, a message that a user sends through the handler is the first
  one that both users are shown, before what the dialog showed already, with at most the requested number of messages.\<close>

theorem dialog_backends_agree:
  assumes "dialog_udfs conn_call messages clock answers" and "holder_setup S connect initial_holder = (Inr (), h)"
    and "holder_get h = Inr repo" and "repo_ready messages clock answers repo e f t s" and "f \<noteq> t"
    and "text \<noteq> []" and "length text \<le> 10000" and "1 \<le> lim" and "lim \<le> 500"
  shows "\<exists>s'. send_message (repo_send conn_call e repo) t text f s = (Inr ''ok'', s')
    \<and> list_messages (repo_list conn_call (pe_up e) repo) f lim 0 t s' = (Inr (map to_dialog_message (take (nat lim)
        (\<lparr>from_user_id = f, to_user_id = t, dto_text = text, dto_created_at = repo_stamp clock repo e f t s\<rparr>
          # repo_log messages repo s f t))), s')
    \<and> list_messages (repo_list conn_call (pe_up e) repo) t lim 0 f s' = list_messages (repo_list conn_call (pe_up e) repo) f lim 0 t s'"
proof (cases repo)
  case PgDialogRepository
  note part = pg.as_part [of st_pg "\<lambda>d s. s\<lparr>st_pg := d\<rparr>"]
  show ?thesis
    using dialog_repository.sent_is_shown [OF part, of e f t s "text" lim] assms(4-) PgDialogRepository
    by (simp add: repo_ready_def repo_stamp_def repo_log_def repo_send_def [abs_def] repo_list_def [abs_def])
next
  case (TarantoolDialogRepository pool)
  then obtain c where "tp_conn pool = Some c" using setup_connected [OF assms(2)] assms(3) by blast
  note tnt = dialog_udfs.tarantool_repository [OF assms(1) this]
  note part = dialog_repository.as_part [OF tnt, of st_tnt "\<lambda>x s. s\<lparr>st_tnt := x\<rparr>"]
  show ?thesis
    using dialog_repository.sent_is_shown [OF part, of f t s "text" lim] assms(4-) TarantoolDialogRepository
    by (simp add: repo_ready_def repo_stamp_def repo_log_def repo_send_def [abs_def] repo_list_def [abs_def])
qed

definition demo_stores :: "(unit, tarantool) stores" where
  "demo_stores = \<lparr>st_pg = one_shard empty_shard, st_tnt = \<lparr>tt_messages = [], tt_next = 1, tt_now = 7\<rparr>\<rparr>"

definition demo_env :: "unit pg_env" where
  "demo_env = \<lparr>pe_up = (\<lambda>_. True), pe_now = (\<lambda>_. 7), pe_mid = 9\<rparr>"

definition tarantool_settings :: settings where
  "tarantool_settings = default_settings\<lparr>dialogs_backend := ''Tarantool''\<rparr>"

lemma dialog_backends_agree_witness:
  "\<exists>h repo s'. holder_setup tarantool_settings (\<lambda>_ _ _. Inr ()) initial_holder = (Inr (), h) \<and> holder_get h = Inr repo
    \<and> send_message (repo_send tt_call demo_env repo) 2 ''hi'' 1 demo_stores = (Inr ''ok'', s')
    \<and> list_messages (repo_list tt_call (\<lambda>_. True) repo) 1 10 0 2 s'
      = (Inr [\<lparr>dm_from_user_id = 1, dm_to_user_id = 2, dm_text = ''hi'', dm_created_at = 7000\<rparr>], s')"
proof -
  define pool :: "unit tnt_pool" where "pool = (TarantoolPool ''localhost'' 3301 1000)\<lparr>tp_conn := Some ()\<rparr>"
  have "py_lower ''Tarantool'' = ''tarantool''" by code_simp
  then obtain h where h: "holder_setup tarantool_settings (\<lambda>_ _ _. Inr ()) initial_holder = (Inr (), h)"
      "holder_get h = Inr (TarantoolDialogRepository pool)"
    by (simp add: holder_setup_def tarantool_settings_def default_settings_def tnt_start_def TarantoolPool_def holder_get_def pool_def Let_def)
  have "repo_ready tt_pair tt_now (\<lambda>_. True) (TarantoolDialogRepository pool) demo_env 1 2 demo_stores"
    by (simp add: repo_ready_def tnt_ready_def tnt_serves_def demo_stores_def tt_pair_def)
  from dialog_backends_agree [OF tt.dialog_udfs_axioms h this, of "''hi''" 10] h show ?thesis
    by (auto simp: repo_stamp_def repo_log_def demo_stores_def demo_env_def tt_pair_def to_dialog_message_def)
qed

end
