(* ===== verification/Lifespan.thy ===== *)
theory Lifespan
  imports Dialogs_Tarantool Database Redis_Client Ws_Bridge
begin

text \<open>
  \<^verbatim>\<open>app/main.py\<close>: what a process of the application opens before it serves requests and closes afterwards.  The state
  holds the class attributes of all clients and the attributes of \<^verbatim>\<open>app.state\<close>; every outcome of a library call is in the
  record \<open>externals\<close>.
\<close>

section \<open>State\<close>

record ('p, 'r, 'q, 't, 'c, 'ch, 'x) app =
  ap_database :: "'p database"
  ap_redis :: "'r redis_client"
  ap_cluster :: "'q cluster \<times> 'q pool_event list"
  ap_holder :: "'t holder"
  ap_rabbit :: "('c, 'ch, 'x) rabbit"
  ap_bridge :: "('ch, 'x) bridge option"
  ap_closed :: "'p list"

record ('p, 'r, 'q, 't, 'c, 'ch, 'x) externals =
  ex_create_pool :: "string \<Rightarrow> int \<Rightarrow> 'p res"
  ex_redis_from_url :: "string \<Rightarrow> 'r"
  ex_redis_ping :: "'r \<Rightarrow> unit res"
  ex_redis_close :: "'r \<Rightarrow> unit res"
  ex_shard_pool :: "'q pool_maker"
  ex_tnt_connect :: "string \<Rightarrow> int \<Rightarrow> int \<Rightarrow> 't res"
  ex_tnt_disconnect :: "'t \<Rightarrow> unit res"
  ex_connect_robust :: "string \<Rightarrow> 'c res"
  ex_channel :: "'c \<Rightarrow> 'ch res"
  ex_set_qos :: "'ch \<Rightarrow> int \<Rightarrow> unit res"
  ex_declare_exchange :: "'ch \<Rightarrow> string \<Rightarrow> 'x res"
  ex_declare_queue :: "'ch \<Rightarrow> string \<Rightarrow> string res"
  ex_close_channel :: "'ch \<Rightarrow> unit res"
  ex_close_connection :: "'c \<Rightarrow> unit res"

definition initial_app :: "('p, 'r, 'q, 't, 'c, 'ch, 'x) app" where
  "initial_app = \<lparr>ap_database = initial_database, ap_redis = initial_redis_client, ap_cluster = (initial_cluster, []),
     ap_holder = initial_holder, ap_rabbit = initial_rabbit, ap_bridge = None, ap_closed = []\<rparr>"

text \<open>An operation on one of the clients.\<close>

definition on_database :: "('p database, 'a) prog \<Rightarrow> (('p, 'r, 'q, 't, 'c, 'ch, 'x) app, 'a) prog" where
  "on_database m a = (case m (ap_database a) of (y, d) \<Rightarrow> (y, a\<lparr>ap_database := d\<rparr>))"

definition on_redis_client :: "('r redis_client, 'a) prog \<Rightarrow> (('p, 'r, 'q, 't, 'c, 'ch, 'x) app, 'a) prog" where
  "on_redis_client m a = (case m (ap_redis a) of (y, d) \<Rightarrow> (y, a\<lparr>ap_redis := d\<rparr>))"

definition on_cluster :: "('q cluster \<times> 'q pool_event list, 'a) prog \<Rightarrow> (('p, 'r, 'q, 't, 'c, 'ch, 'x) app, 'a) prog" where
  "on_cluster m a = (case m (ap_cluster a) of (y, d) \<Rightarrow> (y, a\<lparr>ap_cluster := d\<rparr>))"

definition on_holder :: "('t holder, 'a) prog \<Rightarrow> (('p, 'r, 'q, 't, 'c, 'ch, 'x) app, 'a) prog" where
  "on_holder m a = (case m (ap_holder a) of (y, d) \<Rightarrow> (y, a\<lparr>ap_holder := d\<rparr>))"

definition on_rabbit :: "(('c, 'ch, 'x) rabbit, 'a) prog \<Rightarrow> (('p, 'r, 'q, 't, 'c, 'ch, 'x) app, 'a) prog" where
  "on_rabbit m a = (case m (ap_rabbit a) of (y, d) \<Rightarrow> (y, a\<lparr>ap_rabbit := d\<rparr>))"

section \<open>Start and stop\<close>

definition start_bridge :: "settings \<Rightarrow> ('p, 'r, 'q, 't, 'c, 'ch, 'x) externals \<Rightarrow> string \<Rightarrow>
    (('p, 'r, 'q, 't, 'c, 'ch, 'x) app, unit) prog" where
  "start_bridge S X instance_id =
     bindP (on_rabbit (RabbitClient_connect S (ex_connect_robust X) (ex_channel X) (ex_set_qos X) (ex_declare_exchange X))) (\<lambda>_ a.
       case RabbitClient_connection (ap_rabbit a) of
         Inl e \<Rightarrow> (Inl e, a)
       | Inr connection \<Rightarrow>
           (case bridge_start S (ex_channel X connection) (ex_set_qos X) (ex_declare_exchange X) (ex_declare_queue X)
               (RabbitWsBridge instance_id) of
              (Inl e, _) \<Rightarrow> (Inl e, a)
            | (Inr _, br) \<Rightarrow> (Inr (), a\<lparr>ap_bridge := Some br\<rparr>)))"

definition startup :: "settings \<Rightarrow> ('p, 'r, 'q, 't, 'c, 'ch, 'x) externals \<Rightarrow> string \<Rightarrow>
    (('p, 'r, 'q, 't, 'c, 'ch, 'x) app, unit) prog" where
  "startup S X instance_id =
     bindP (on_database (Database_connect S (ex_create_pool X))) (\<lambda>_.
     bindP (on_redis_client (RedisClient_connect S (ex_redis_from_url X) (ex_redis_ping X))) (\<lambda>_.
     bindP (on_cluster (DialogsCluster_connect S (ex_shard_pool X))) (\<lambda>_.
     bindP (on_holder (holder_setup S (ex_tnt_connect X))) (\<lambda>_.
       if feed_transport S = ''rabbitmq'' then start_bridge S X instance_id else returnP ()))))"

definition stop_bridge :: "('p, 'r, 'q, 't, 'c, 'ch, 'x) externals \<Rightarrow> (('p, 'r, 'q, 't, 'c, 'ch, 'x) app, unit) prog" where
  "stop_bridge X a =
     (case ap_bridge a of
        None \<Rightarrow> (Inr (), a)
      | Some br \<Rightarrow>
          (case bridge_stop (ex_close_channel X) br of
             (Inl e, br') \<Rightarrow> (Inl e, a\<lparr>ap_bridge := Some br'\<rparr>)
           | (Inr _, br') \<Rightarrow> on_rabbit (RabbitClient_disconnect (ex_close_connection X)) (a\<lparr>ap_bridge := Some br'\<rparr>)))"

definition close_database :: "(('p, 'r, 'q, 't, 'c, 'ch, 'x) app, unit) prog" where
  "close_database = bindP (on_database Database_disconnect) (\<lambda>ps a. (Inr (), a\<lparr>ap_closed := ap_closed a @ ps\<rparr>))"

definition shutdown :: "('p, 'r, 'q, 't, 'c, 'ch, 'x) externals \<Rightarrow> (('p, 'r, 'q, 't, 'c, 'ch, 'x) app, unit) prog" where
  "shutdown X =
     bindP (stop_bridge X) (\<lambda>_.
     bindP (on_holder (holder_teardown (ex_tnt_disconnect X))) (\<lambda>_.
     bindP (on_cluster DialogsCluster_disconnect) (\<lambda>_.
     bindP (on_redis_client (RedisClient_disconnect (ex_redis_close X))) (\<lambda>_.
       close_database))))"

text \<open>\<open>serve\<close> is what happens between the start and the stop; nothing is closed when the start raises.\<close>

definition lifespan :: "settings \<Rightarrow> ('p, 'r, 'q, 't, 'c, 'ch, 'x) externals \<Rightarrow> string \<Rightarrow>
    (('p, 'r, 'q, 't, 'c, 'ch, 'x) app, unit) prog \<Rightarrow> (('p, 'r, 'q, 't, 'c, 'ch, 'x) app, unit) prog" where
  "lifespan S X instance_id serve = bindP (startup S X instance_id) (\<lambda>_. finallyP serve (shutdown X))"

text \<open>The processes of the workers: \<^verbatim>\<open>main\<close> of \<^verbatim>\<open>app/workers/feed_worker.py\<close> and of \<^verbatim>\<open>app/workers/feed_worker_rmq.py\<close>, around their
  loops.\<close>

definition feed_worker_main :: "settings \<Rightarrow> ('p, 'r, 'q, 't, 'c, 'ch, 'x) externals \<Rightarrow>
    (('p, 'r, 'q, 't, 'c, 'ch, 'x) app, unit) prog \<Rightarrow> (('p, 'r, 'q, 't, 'c, 'ch, 'x) app, unit) prog" where
  "feed_worker_main S X consume =
     bindP (on_database (Database_connect S (ex_create_pool X))) (\<lambda>_.
     bindP (on_redis_client (RedisClient_connect S (ex_redis_from_url X) (ex_redis_ping X))) (\<lambda>_.
       finallyP consume
         (bindP (on_redis_client (RedisClient_disconnect (ex_redis_close X))) (\<lambda>_. close_database))))"

definition rmq_worker_main :: "settings \<Rightarrow> ('p, 'r, 'q, 't, 'c, 'ch, 'x) externals \<Rightarrow>
    (('p, 'r, 'q, 't, 'c, 'ch, 'x) app, unit) prog \<Rightarrow> (('p, 'r, 'q, 't, 'c, 'ch, 'x) app, unit) prog" where
  "rmq_worker_main S X consume =
     bindP (on_database (Database_connect S (ex_create_pool X))) (\<lambda>_.
     bindP (on_redis_client (RedisClient_connect S (ex_redis_from_url X) (ex_redis_ping X))) (\<lambda>_.
     bindP (on_rabbit (RabbitClient_connect S (ex_connect_robust X) (ex_channel X) (ex_set_qos X) (ex_declare_exchange X))) (\<lambda>_.
       finallyP consume
         (bindP (on_rabbit (RabbitClient_disconnect (ex_close_connection X))) (\<lambda>_.
          bindP (on_redis_client (RedisClient_disconnect (ex_redis_close X))) (\<lambda>_. close_database))))))"

section \<open>Nothing stays open\<close>

definition closes :: "('p, 'r, 'q, 't, 'c, 'ch, 'x) externals \<Rightarrow> bool" where
  "closes X \<longleftrightarrow> (\<forall>c. ex_redis_close X c = Inr ()) \<and> (\<forall>c. ex_tnt_disconnect X c = Inr ())
     \<and> (\<forall>c. ex_close_channel X c = Inr ()) \<and> (\<forall>c. ex_close_connection X c = Inr ())"

definition released :: "('p, 'r, 'q, 't, 'c, 'ch, 'x) app \<Rightarrow> bool" where
  "released a \<longleftrightarrow> ap_database a = initial_database \<and> rc_client (ap_redis a) = None \<and> cl_pools (fst (ap_cluster a)) = []
     \<and> ho_repository (ap_holder a) = None \<and> ho_tarantool_pool (ap_holder a) = None
     \<and> (ap_bridge a \<noteq> None \<longrightarrow> rb_connection (ap_rabbit a) = None)"

definition open_pools_of :: "('p, 'r, 'q, 't, 'c, 'ch, 'x) app \<Rightarrow> 'p list" where
  "open_pools_of a = (case db_master_pool (ap_database a) of None \<Rightarrow> [] | Some p \<Rightarrow> [p]) @ db_slave_pools (ap_database a)"

lemma stop_bridge_closes:
  assumes "closes X"
  shows "\<exists>a'. stop_bridge X a = (Inr (), a') \<and> (ap_bridge a' \<noteq> None \<longrightarrow> rb_connection (ap_rabbit a') = None)
    \<and> ap_database a' = ap_database a \<and> ap_redis a' = ap_redis a \<and> ap_cluster a' = ap_cluster a \<and> ap_holder a' = ap_holder a
    \<and> ap_closed a' = ap_closed a"
proof (cases "ap_bridge a")
  case (Some br)
  then show ?thesis using assms
    by (auto simp: stop_bridge_def bridge_stop_def closes_def on_rabbit_def RabbitClient_disconnect_def initial_rabbit_def split: option.splits)
qed (simp add: stop_bridge_def)

lemma teardown_closes: "closes X \<Longrightarrow> \<exists>h'. holder_teardown (ex_tnt_disconnect X) h = (Inr (), h') \<and> ho_repository h' = None \<and> ho_tarantool_pool h' = None"
  by (auto simp: holder_teardown_def tnt_stop_def closes_def split: option.splits)

lemma redis_closes: "closes X \<Longrightarrow> \<exists>c. RedisClient_disconnect (ex_redis_close X) r = (Inr (), c) \<and> rc_client c = None"
  by (auto simp: RedisClient_disconnect_def closes_def split: option.splits)

lemma shutdown_releases:
  assumes "closes X"
  shows "\<exists>a'. shutdown X a = (Inr (), a') \<and> released a' \<and> ap_closed a' = ap_closed a @ open_pools_of a
    \<and> snd (ap_cluster a') = snd (ap_cluster a) @ map Closed (cl_pools (fst (ap_cluster a)))"
proof -
  obtain a1 where a1: "stop_bridge X a = (Inr (), a1)" "ap_bridge a1 \<noteq> None \<longrightarrow> rb_connection (ap_rabbit a1) = None"
      "ap_database a1 = ap_database a" "ap_redis a1 = ap_redis a" "ap_cluster a1 = ap_cluster a" "ap_holder a1 = ap_holder a" "ap_closed a1 = ap_closed a"
    using stop_bridge_closes [OF assms] by blast
  obtain h where h: "holder_teardown (ex_tnt_disconnect X) (ap_holder a) = (Inr (), h)" "ho_repository h = None" "ho_tarantool_pool h = None"
    using teardown_closes [OF assms] by blast
  obtain c where c: "RedisClient_disconnect (ex_redis_close X) (ap_redis a) = (Inr (), c)" "rc_client c = None"
    using redis_closes [OF assms] by blast
  obtain cl ev where cl: "ap_cluster a = (cl, ev)" by fastforce
  show ?thesis using a1 h c cl
    by (simp add: shutdown_def on_holder_def on_cluster_def on_redis_client_def DialogsCluster_disconnect_def close_database_def
        on_database_def Database_disconnect_def released_def open_pools_of_def)
qed


text \<open>The processes of the workers close what they opened in the same way.\<close>

lemma worker_closes:
  assumes "closes X"
  shows "\<exists>a'. bindP (on_redis_client (RedisClient_disconnect (ex_redis_close X))) (\<lambda>_. close_database) a = (Inr (), a')
    \<and> ap_database a' = initial_database \<and> rc_client (ap_redis a') = None \<and> ap_closed a' = ap_closed a @ open_pools_of a \<and> ap_rabbit a' = ap_rabbit a"
proof -
  obtain c where "RedisClient_disconnect (ex_redis_close X) (ap_redis a) = (Inr (), c)" "rc_client c = None"
    using redis_closes [OF assms] by blast
  then show ?thesis
    by (simp add: on_redis_client_def close_database_def on_database_def Database_disconnect_def open_pools_of_def)
qed

lemma rabbit_closes: "closes X \<Longrightarrow> \<exists>c. RabbitClient_disconnect (ex_close_connection X) r = (Inr (), c) \<and> rb_connection c = None"
  by (auto simp: RabbitClient_disconnect_def closes_def initial_rabbit_def split: option.splits)

lemma feed_worker_releases:
  assumes "closes X" and "Database_connect S (ex_create_pool X) (ap_database a) = (Inr (), d)"
    and "RedisClient_connect S (ex_redis_from_url X) (ex_redis_ping X) (ap_redis a) = (Inr (), rc)"
    and "consume (a\<lparr>ap_database := d, ap_redis := rc\<rparr>) = (y, a2)"
  shows "\<exists>a'. feed_worker_main S X consume a = (y, a') \<and> ap_database a' = initial_database \<and> rc_client (ap_redis a') = None
    \<and> ap_closed a' = ap_closed a2 @ open_pools_of a2"
  using worker_closes [OF assms(1), of a2] assms(2-)
  by (auto simp: feed_worker_main_def on_database_def on_redis_client_def finallyP_def bindP_def)

lemma rmq_worker_releases:
  assumes "closes X" and "Database_connect S (ex_create_pool X) (ap_database a) = (Inr (), d)"
    and "RedisClient_connect S (ex_redis_from_url X) (ex_redis_ping X) (ap_redis a) = (Inr (), rc)"
    and "RabbitClient_connect S (ex_connect_robust X) (ex_channel X) (ex_set_qos X) (ex_declare_exchange X) (ap_rabbit a) = (Inr (), rb)"
    and "consume (a\<lparr>ap_database := d, ap_redis := rc, ap_rabbit := rb\<rparr>) = (y, a2)"
  shows "\<exists>a'. rmq_worker_main S X consume a = (y, a') \<and> ap_database a' = initial_database \<and> rc_client (ap_redis a') = None
    \<and> rb_connection (ap_rabbit a') = None \<and> ap_closed a' = ap_closed a2 @ open_pools_of a2"
proof -
  obtain c where c: "RabbitClient_disconnect (ex_close_connection X) (ap_rabbit a2) = (Inr (), c)" "rb_connection c = None"
    using rabbit_closes [OF assms(1)] by blast
  then show ?thesis using worker_closes [OF assms(1), of "a2\<lparr>ap_rabbit := c\<rparr>"] assms(2-)
    by (auto simp: rmq_worker_main_def on_database_def on_redis_client_def on_rabbit_def finallyP_def open_pools_of_def)
qed

text \<open>The start is not part of the \<^verbatim>\<open>try\<close>: when Redis does not answer, the pools of the databases stay open.\<close>

lemma failed_start_keeps_pools:
  assumes "ex_create_pool X (database_host S) (database_port S) = Inr p" and "parse_slave_hosts (database_slave_hosts S) = Inr hosts"
    and "ex_redis_ping X (ex_redis_from_url X (redis_url S)) = Inl e"
  shows "\<exists>a'. lifespan S X instance_id serve initial_app = (Inl e, a') \<and> db_master_pool (ap_database a') = Some p \<and> ap_closed a' = []"
  using assms by (simp add: lifespan_def startup_def on_database_def on_redis_client_def Database_connect_def RedisClient_connect_def
      initial_app_def bindP_def Let_def)

definition demo_externals :: "(nat, nat, nat, nat, nat, nat, nat) externals" where
  "demo_externals = \<lparr>ex_create_pool = (\<lambda>_ _. Inr 1), ex_redis_from_url = (\<lambda>_. 2), ex_redis_ping = (\<lambda>_. Inr ()), ex_redis_close = (\<lambda>_. Inr ()),
     ex_shard_pool = (\<lambda>i _ _ _. Inr i), ex_tnt_connect = (\<lambda>_ _ _. Inr 3), ex_tnt_disconnect = (\<lambda>_. Inr ()), ex_connect_robust = (\<lambda>_. Inr 4),
     ex_channel = (\<lambda>_. Inr 5), ex_set_qos = (\<lambda>_ _. Inr ()), ex_declare_exchange = (\<lambda>_ _. Inr 6), ex_declare_queue = (\<lambda>_ q. Inr q),
     ex_close_channel = (\<lambda>_. Inr ()), ex_close_connection = (\<lambda>_. Inr ())\<rparr>"

definition demo_app_settings :: settings where
  "demo_app_settings = default_settings\<lparr>database_slave_hosts := [], dialogs_shards := ''s'', feed_transport := ''rabbitmq''\<rparr>"


end
