(* ===== verification/Script_Db.thy ===== *)
theory Script_Db
  imports Social_Db
begin

text \<open>
  What the scripts under \<^verbatim>\<open>scripts/\<close> that fill the primary database share: a connection of
  \<^verbatim>\<open>asyncpg\<close>, single statements, \<^verbatim>\<open>executemany\<close> and the loop that inserts rows in batches.  The
  state is the contents of the tables, the number of open connections, and which of the next calls
  of the driver fail: a failed call raises and has no effect on the tables.
\<close>

section \<open>Connections and statements\<close>

record script =
  sc_tables :: social
  sc_faults :: "bool list"
  sc_open :: int

text \<open>A call of the driver uses up one entry of the list of faults; beyond its end nothing fails.\<close>

definition sc_call :: "(script, 'a) prog \<Rightarrow> (script, 'a) prog" where
  "sc_call m s =
     (case sc_faults s of
        [] \<Rightarrow> m s
      | failing # fs \<Rightarrow>
          if failing then (Inl (ConnectionError ''database''), s\<lparr>sc_faults := fs\<rparr>) else m (s\<lparr>sc_faults := fs\<rparr>))"

definition sc_connect :: "(script, unit) prog" where
  "sc_connect = sc_call (\<lambda>s. (Inr (), s\<lparr>sc_open := sc_open s + 1\<rparr>))"

definition sc_close :: "(script, unit) prog" where
  "sc_close s = (Inr (), s\<lparr>sc_open := sc_open s - 1\<rparr>)"

definition sc_fetch :: "(social \<Rightarrow> 'a res) \<Rightarrow> (script, 'a) prog" where
  "sc_fetch q = sc_call (\<lambda>s. (q (sc_tables s), s))"

text \<open>\<^verbatim>\<open>conn.executemany\<close> runs in a transaction of its own: all rows or none.\<close>

fun all_rows :: "('x \<Rightarrow> social \<Rightarrow> social res) \<Rightarrow> 'x list \<Rightarrow> social \<Rightarrow> social res" where
  "all_rows f [] t = Inr t"
| "all_rows f (x # xs) t = bindR (f x t) (all_rows f xs)"

definition sc_executemany :: "('x \<Rightarrow> social \<Rightarrow> social res) \<Rightarrow> 'x list \<Rightarrow> (script, unit) prog" where
  "sc_executemany f rows = sc_call (\<lambda>s.
     case all_rows f rows (sc_tables s) of
       Inl e \<Rightarrow> (Inl e, s)
     | Inr t \<Rightarrow> (Inr (), s\<lparr>sc_tables := t\<rparr>))"

text \<open>\<^verbatim>\<open>[rows[i:i + n] for i in range(0, len(rows), n)]\<close>, and the loop over it that counts the rows.\<close>

definition row_batches :: "nat \<Rightarrow> 'x list \<Rightarrow> 'x list list" where
  "row_batches n rows = map (\<lambda>k. py_slice (k * n) (k * n + n) rows) [0..<(length rows + n - 1) div n]"

fun insert_batches :: "('x \<Rightarrow> social \<Rightarrow> social res) \<Rightarrow> 'x list list \<Rightarrow> int \<Rightarrow> (script, int) prog" where
  "insert_batches f [] inserted = returnP inserted"
| "insert_batches f (batch # bs) inserted =
     bindP (sc_executemany f batch) (\<lambda>_. insert_batches f bs (inserted + int (length batch)))"

section \<open>Batches\<close>

lemma concat_slices: "concat (map (\<lambda>k. py_slice (k * n) (k * n + n) rows) [0..<m]) = take (m * n) rows"
proof (induction m)
  case (Suc m)
  have "take (m * n + n) rows = take (m * n) rows @ take n (drop (m * n) rows)" by (rule take_add)
  then show ?case using Suc by (simp add: py_slice_def add.commute)
qed simp

lemma concat_row_batches [simp]:
  assumes "0 < n"
  shows "concat (row_batches n rows) = rows"
proof -
  have "length rows \<le> (length rows + n - 1) div n * n"
    using assms div_mult_mod_eq [of "length rows + n - 1" n] mod_less_divisor [of n "length rows + n - 1"] by linarith
  then show ?thesis by (simp add: row_batches_def concat_slices)
qed

lemma row_batches_size: "b \<in> set (row_batches n rows) \<Longrightarrow> length b \<le> n"
  by (auto simp: row_batches_def py_slice_def)

lemma all_rows_append: "all_rows f (xs @ ys) t = bindR (all_rows f xs t) (all_rows f ys)"
  by (induction xs arbitrary: t) (auto simp: bindR_def split: sum.splits)

lemma all_rows_fold: "(\<And>x t. x \<in> set xs \<Longrightarrow> P t \<Longrightarrow> f x t = Inr (g x t) \<and> P (g x t)) \<Longrightarrow> P t \<Longrightarrow> all_rows f xs t = Inr (fold g xs t)"
  by (induction xs arbitrary: t) (auto simp: bindR_def)

lemma all_rows_invariant:
  assumes "all_rows f xs t = Inr t'" and "P t" and "\<And>x t t'. x \<in> set xs \<Longrightarrow> P t \<Longrightarrow> f x t = Inr t' \<Longrightarrow> P t'"
  shows "P t'"
  using assms
proof (induction xs arbitrary: t)
  case (Cons x xs)
  then obtain t1 where t1: "f x t = Inr t1" "all_rows f xs t1 = Inr t'" by (auto simp: bindR_def split: sum.splits)
  have "P t1" using Cons.prems(2,3) t1(1) by (meson list.set_intros(1))
  then show ?case using Cons.IH [OF t1(2)] Cons.prems(3) by (meson list.set_intros(2))
qed simp

section \<open>Calls that may fail\<close>

lemma sc_call_ok [simp]: "sc_faults s = [] \<Longrightarrow> sc_call m s = m s"
  by (simp add: sc_call_def)

text \<open>A program of driver calls keeps a property of the tables, whatever fails, and leaves no connection
  open or closed beside its own.\<close>

definition sc_keeps :: "int \<Rightarrow> (social \<Rightarrow> bool) \<Rightarrow> (script, 'a) prog \<Rightarrow> bool" where
  "sc_keeps d P m \<longleftrightarrow> (\<forall>s x s'. P (sc_tables s) \<longrightarrow> m s = (x, s') \<longrightarrow>
     P (sc_tables s') \<and> sc_open s' = sc_open s + (case x of Inl _ \<Rightarrow> 0 | Inr _ \<Rightarrow> d))"

named_theorems sc_keeps_intros \<open>composed programs that keep a property of the tables\<close>

lemma sc_keepsD: "sc_keeps d P m \<Longrightarrow> m s = (x, s') \<Longrightarrow> P (sc_tables s) \<Longrightarrow>
    P (sc_tables s') \<and> sc_open s' = sc_open s + (case x of Inl _ \<Rightarrow> 0 | Inr _ \<Rightarrow> d)"
  unfolding sc_keeps_def by blast

lemma sc_keepsI:
  assumes "\<And>s x s'. P (sc_tables s) \<Longrightarrow> m s = (x, s') \<Longrightarrow>
    P (sc_tables s') \<and> sc_open s' = sc_open s + (case x of Inl _ \<Rightarrow> 0 | Inr _ \<Rightarrow> d)"
  shows "sc_keeps d P m"
  unfolding sc_keeps_def using assms by blast

lemma sc_keeps_call:
  assumes "sc_keeps d P m"
  shows "sc_keeps d P (sc_call m)"
proof (rule sc_keepsI)
  fix s x s'
  assume P: "P (sc_tables s)" and run: "sc_call m s = (x, s')"
  show "P (sc_tables s') \<and> sc_open s' = sc_open s + (case x of Inl _ \<Rightarrow> 0 | Inr _ \<Rightarrow> d)"
  proof (cases "sc_faults s")
    case Nil
    then have "m s = (x, s')" using run by simp
    then show ?thesis using P by (rule sc_keepsD [OF assms])
  next
    case (Cons failing fs)
    show ?thesis
    proof (cases failing)
      case True
      then show ?thesis using P run Cons by (auto simp: sc_call_def)
    next
      case False
      then have "m (s\<lparr>sc_faults := fs\<rparr>) = (x, s')" using run Cons by (simp add: sc_call_def)
      from sc_keepsD [OF assms this] P show ?thesis by simp
    qed
  qed
qed

lemma sc_keeps_connect [sc_keeps_intros]: "sc_keeps 1 P sc_connect"
  unfolding sc_connect_def by (rule sc_keeps_call) (simp add: sc_keeps_def)

lemma sc_keeps_fetch [sc_keeps_intros]: "sc_keeps 0 P (sc_fetch q)"
  unfolding sc_fetch_def by (rule sc_keeps_call) (auto simp: sc_keeps_def split: sum.split)

lemma sc_keeps_executemany [sc_keeps_intros]:
  assumes "\<And>x t t'. x \<in> set rows \<Longrightarrow> P t \<Longrightarrow> f x t = Inr t' \<Longrightarrow> P t'"
  shows "sc_keeps 0 P (sc_executemany f rows)"
  unfolding sc_executemany_def
proof (rule sc_keeps_call)
  have "P t'" if "P t" and "all_rows f rows t = Inr t'" for t t'
    using all_rows_invariant [where P = P, of f rows t t'] that assms by blast
  then show "sc_keeps 0 P (\<lambda>s. case all_rows f rows (sc_tables s) of Inl e \<Rightarrow> (Inl e, s) | Inr t \<Rightarrow> (Inr (), s\<lparr>sc_tables := t\<rparr>))"
    by (auto simp: sc_keeps_def split: sum.splits)
qed

lemma sc_keeps_return [sc_keeps_intros]: "sc_keeps 0 P (returnP x)"
  by (simp add: sc_keeps_def)

lemma sc_keeps_lift [sc_keeps_intros]: "sc_keeps 0 P (liftP x)"
  by (auto simp: sc_keeps_def split: sum.split)

lemma sc_keeps_bind [sc_keeps_intros]:
  assumes "sc_keeps 0 P m" and "\<And>x. sc_keeps 0 P (f x)"
  shows "sc_keeps 0 P (bindP m f)"
proof (rule sc_keepsI)
  fix s x s'
  assume P: "P (sc_tables s)" and run: "bindP m f s = (x, s')"
  obtain y s1 where m: "m s = (y, s1)" by fastforce
  note k = sc_keepsD [OF assms(1) m P]
  show "P (sc_tables s') \<and> sc_open s' = sc_open s + (case x of Inl _ \<Rightarrow> 0 | Inr _ \<Rightarrow> 0)"
  proof (cases y)
    case (Inl e)
    then show ?thesis using run m k by auto
  next
    case (Inr v)
    then have "f v s1 = (x, s')" using run m by simp
    from sc_keepsD [OF assms(2) this] k show ?thesis using Inr by (cases x) auto
  qed
qed

lemma sc_keeps_if [sc_keeps_intros]: "sc_keeps d P m \<Longrightarrow> sc_keeps d P m' \<Longrightarrow> sc_keeps d P (if b then m else m')"
  by simp

lemma sc_keeps_batches [sc_keeps_intros]:
  assumes "\<And>b x t t'. b \<in> set bs \<Longrightarrow> x \<in> set b \<Longrightarrow> P t \<Longrightarrow> f x t = Inr t' \<Longrightarrow> P t'"
  shows "sc_keeps 0 P (insert_batches f bs n)"
  using assms
proof (induction bs arbitrary: n)
  case Nil
  show ?case unfolding insert_batches.simps by (rule sc_keeps_return)
next
  case (Cons b bs)
  have "sc_keeps 0 P (bindP (sc_executemany f b) (\<lambda>_. insert_batches f bs (n + int (length b))))"
  proof (rule sc_keeps_bind)
    show "sc_keeps 0 P (sc_executemany f b)" using Cons.prems by (intro sc_keeps_executemany) (meson list.set_intros(1))
    show "sc_keeps 0 P (insert_batches f bs (n + int (length b)))" for x
      using Cons.prems by (intro Cons.IH) (meson list.set_intros(2))
  qed
  then show ?case by simp
qed

text \<open>\<^verbatim>\<open>conn = await connect(); try: body finally: await conn.close()\<close> leaves no connection open.\<close>

lemma sc_keeps_session:
  assumes "sc_keeps 0 P body"
  shows "sc_keeps 0 P (bindP sc_connect (\<lambda>_. finallyP body sc_close))"
proof (rule sc_keepsI)
  fix s x s'
  assume P: "P (sc_tables s)" and run: "bindP sc_connect (\<lambda>_. finallyP body sc_close) s = (x, s')"
  obtain y s1 where c: "sc_connect s = (y, s1)" by fastforce
  note k = sc_keepsD [OF sc_keeps_connect c, of P, OF P]
  show "P (sc_tables s') \<and> sc_open s' = sc_open s + (case x of Inl _ \<Rightarrow> 0 | Inr _ \<Rightarrow> 0)"
  proof (cases y)
    case (Inl e)
    then show ?thesis using run c k by auto
  next
    case (Inr v)
    obtain z s2 where b: "body s1 = (z, s2)" by fastforce
    from sc_keepsD [OF assms b] k have "P (sc_tables s2)" "sc_open s2 = sc_open s1" by (auto split: sum.splits)
    moreover have "s' = s2\<lparr>sc_open := sc_open s2 - 1\<rparr>" using run c b Inr by (auto simp: finallyP_def sc_close_def)
    ultimately show ?thesis using k Inr by (auto split: sum.splits)
  qed
qed

section \<open>Calls that all succeed\<close>

lemma insert_batches_ok:
  assumes "sc_faults s = []" and "all_rows f (concat bs) (sc_tables s) = Inr t"
  shows "insert_batches f bs n s = (Inr (n + int (length (concat bs))), s\<lparr>sc_tables := t\<rparr>)"
  using assms
proof (induction bs arbitrary: s n)
  case (Cons b bs)
  obtain t1 where t1: "all_rows f b (sc_tables s) = Inr t1" "all_rows f (concat bs) t1 = Inr t"
    using Cons.prems(2) by (auto simp: all_rows_append bindR_def split: sum.splits)
  then have "sc_executemany f b s = (Inr (), s\<lparr>sc_tables := t1\<rparr>)"
    using Cons.prems(1) by (simp add: sc_executemany_def)
  then show ?case using Cons.IH [of "s\<lparr>sc_tables := t1\<rparr>" "n + int (length b)"] Cons.prems(1) t1(2) by simp
qed simp

lemma session_ok:
  assumes "sc_faults s = []" and "body (s\<lparr>sc_open := sc_open s + 1\<rparr>) = (x, s\<lparr>sc_open := sc_open s + 1, sc_tables := t\<rparr>)"
  shows "bindP sc_connect (\<lambda>_. finallyP body sc_close) s = (x, s\<lparr>sc_tables := t\<rparr>)"
  using assms by (cases s) (simp add: sc_connect_def finallyP_def sc_close_def)

lemma sc_fetch_ok [simp]: "sc_faults s = [] \<Longrightarrow> sc_fetch q s = (q (sc_tables s), s)"
  by (simp add: sc_fetch_def)

end
