(* ===== verification/Seed_Friends.thy ===== *)
theory Seed_Friends
  imports Script_Db
begin

text \<open>
  \<^verbatim>\<open>scripts/seed_friends.py\<close>: random friendships between the first users.  What the generator draws is an
  argument: \<open>draw u\<close> is the sample of the iteration for the user \<open>u\<close>.  The script collects the pairs in
  a set; \<open>order\<close> is the order in which \<^verbatim>\<open>list(pairs)\<close> enumerates it.
\<close>

section \<open>The script\<close>

definition FRIENDS_BATCH_SIZE :: nat where
  "FRIENDS_BATCH_SIZE = 5000"

text \<open>\<^verbatim>\<open>rng.sample(population, k)\<close>.\<close>

definition rng_sample :: "'a list \<Rightarrow> 'a list \<Rightarrow> int \<Rightarrow> 'a list res" where
  "rng_sample outcome population k =
     (if 0 \<le> k \<and> k \<le> int (length population) then Inr outcome
      else Inl (ValueError ''Sample larger than population or is negative''))"

text \<open>The loop over the candidates of one user; \<^verbatim>\<open>continue\<close> skips the check that ends it.\<close>

fun add_candidates :: "uuid \<Rightarrow> int \<Rightarrow> uuid list \<Rightarrow> int \<Rightarrow> (uuid \<times> uuid) list \<Rightarrow> (uuid \<times> uuid) list" where
  "add_candidates uid target_per_user [] added pairs = pairs"
| "add_candidates uid target_per_user (fid # candidates) added pairs =
     (if fid = uid then add_candidates uid target_per_user candidates added pairs
      else
        let new = (uid, fid) \<notin> set pairs;
            pairs' = (if new then pairs @ [(uid, fid)] else pairs);
            added' = (if new then added + 1 else added)
        in if added' \<ge> target_per_user then pairs'
           else add_candidates uid target_per_user candidates added' pairs')"

fun make_pairs :: "(uuid \<Rightarrow> uuid list) \<Rightarrow> uuid list \<Rightarrow> int \<Rightarrow> int \<Rightarrow> uuid list \<Rightarrow> (uuid \<times> uuid) list \<Rightarrow> (uuid \<times> uuid) list res" where
  "make_pairs draw user_ids target_per_user sample_size [] pairs = Inr pairs"
| "make_pairs draw user_ids target_per_user sample_size (uid # uids) pairs =
     (case rng_sample (draw uid) user_ids sample_size of
        Inl e \<Rightarrow> Inl e
      | Inr candidates \<Rightarrow>
          make_pairs draw user_ids target_per_user sample_size uids (add_candidates uid target_per_user candidates 0 pairs))"

text \<open>\<^verbatim>\<open>SELECT id FROM users ORDER BY id LIMIT $1\<close>.\<close>

definition stmt_first_users :: "int \<Rightarrow> social \<Rightarrow> uuid list res" where
  "stmt_first_users n t = sql_limit n (sort (map us_id (so_users t)))"

text \<open>\<^verbatim>\<open>INSERT INTO friendships .. ON CONFLICT (user_id, friend_id) DO NOTHING\<close>, with the constraints of the table.\<close>

definition insert_friendship_row :: "uuid \<times> uuid \<Rightarrow> social \<Rightarrow> social res" where
  "insert_friendship_row = (\<lambda>(u, f) t.
     if u = f then Inl (PostgresError ''check violation'')
     else if (u, f) \<in> set (so_friends t) then Inr t
     else if u \<notin> us_id ` set (so_users t) \<or> f \<notin> us_id ` set (so_users t) then Inl (PostgresError ''foreign key violation'')
     else Inr (t\<lparr>so_friends := so_friends t @ [(u, f)]\<rparr>))"

definition seed_friends :: "(uuid \<Rightarrow> uuid list) \<Rightarrow> ((uuid \<times> uuid) list \<Rightarrow> (uuid \<times> uuid) list) \<Rightarrow> int \<Rightarrow> int \<Rightarrow> (script, unit) prog" where
  "seed_friends draw order users_limit friends_per_user =
     bindP sc_connect (\<lambda>_. finallyP
       (bindP (sc_fetch (\<lambda>t. Inr (int (length (so_friends t))))) (\<lambda>existing.
          if existing > users_limit * friends_per_user div 2 then returnP ()
          else
            bindP (sc_fetch (stmt_first_users users_limit)) (\<lambda>user_ids.
              if length user_ids < 2 then returnP ()
              else
                let target_per_user = min friends_per_user (int (length user_ids) - 1);
                    sample_size = target_per_user + 1
                in bindP (liftP (make_pairs draw user_ids target_per_user sample_size user_ids [])) (\<lambda>pairs.
                   bindP (insert_batches insert_friendship_row (row_batches FRIENDS_BATCH_SIZE (order pairs)) 0) (\<lambda>inserted.
                   bindP (sc_fetch (\<lambda>t. Inr (int (length (so_friends t))))) (\<lambda>final_count. returnP ()))))))
       sc_close)"

text \<open>\<^verbatim>\<open>main\<close> with the options of the command line, absent or given.\<close>

definition seed_friends_main :: "(uuid \<Rightarrow> uuid list) \<Rightarrow> ((uuid \<times> uuid) list \<Rightarrow> (uuid \<times> uuid) list) \<Rightarrow> int option \<Rightarrow> int option \<Rightarrow> (script, unit) prog" where
  "seed_friends_main draw order users friends_per_user =
     seed_friends draw order (case users of None \<Rightarrow> 1000 | Some n \<Rightarrow> n) (case friends_per_user of None \<Rightarrow> 30 | Some n \<Rightarrow> n)"

section \<open>The pairs\<close>

text \<open>The friends a user is given: the first of the sample that are not the user.\<close>

definition new_friends :: "(uuid \<Rightarrow> uuid list) \<Rightarrow> int \<Rightarrow> uuid \<Rightarrow> uuid list" where
  "new_friends draw target u = take (nat target) (filter (\<lambda>f. f \<noteq> u) (draw u))"

definition fair_draw :: "(uuid \<Rightarrow> uuid list) \<Rightarrow> uuid list \<Rightarrow> int \<Rightarrow> bool" where
  "fair_draw draw user_ids k \<longleftrightarrow>
     (\<forall>u \<in> set user_ids. distinct (draw u) \<and> set (draw u) \<subseteq> set user_ids \<and> int (length (draw u)) = k)"

lemma add_candidates_eq:
  assumes "added < target" and "distinct cs" and "\<forall>f \<in> set cs. (u, f) \<notin> set pairs"
  shows "add_candidates u target cs added pairs
    = pairs @ map (Pair u) (take (nat (target - added)) (filter (\<lambda>f. f \<noteq> u) cs))"
  using assms
proof (induction cs arbitrary: added pairs)
  case (Cons f cs)
  have n: "nat (target - added) = Suc (nat (target - (added + 1)))" using Cons.prems(1) by simp
  show ?case
  proof (cases "f = u")
    case True
    then show ?thesis using Cons by simp
  next
    case False
    then show ?thesis
    proof (cases "added + 1 < target")
      case True
      have "\<forall>g \<in> set cs. (u, g) \<notin> set (pairs @ [(u, f)])" using Cons.prems(2,3) by auto
      from Cons.IH [OF True _ this] Cons.prems False True n show ?thesis by (simp add: Let_def)
    next
      case small: False
      then show ?thesis using Cons.prems False n by (simp add: Let_def)
    qed
  qed
qed simp

lemma make_pairs_eq:
  assumes "0 < target" and "fair_draw draw users k" and "0 \<le> k" and "k \<le> int (length users)"
    and "distinct us" and "set us \<subseteq> set users" and "\<forall>u \<in> set us. u \<notin> fst ` set pairs"
  shows "make_pairs draw users target k us pairs
    = Inr (pairs @ concat (map (\<lambda>u. map (Pair u) (new_friends draw target u)) us))"
  using assms(5-7)
proof (induction us arbitrary: pairs)
  case (Cons u us)
  have d: "distinct (draw u)" using assms(2) Cons.prems(2) by (simp add: fair_draw_def)
  have "\<forall>f \<in> set (draw u). (u, f) \<notin> set pairs" using Cons.prems(3) by force
  from add_candidates_eq [OF assms(1) d this]
  have "add_candidates u target (draw u) 0 pairs = pairs @ map (Pair u) (new_friends draw target u)"
    by (simp add: new_friends_def)
  moreover have "\<forall>v \<in> set us. v \<notin> fst ` set (pairs @ map (Pair u) (new_friends draw target u))"
    using Cons.prems by auto
  ultimately show ?case using Cons assms(3,4) by (simp add: rng_sample_def)
qed simp

lemma length_filter_one: "distinct xs \<Longrightarrow> length xs \<le> Suc (length (filter (\<lambda>x. x \<noteq> a) xs))"
proof -
  assume "distinct xs"
  then have "length (filter (\<lambda>x. x = a) xs) \<le> 1"
    by (induction xs) (auto simp: filter_empty_conv)
  then show ?thesis using sum_length_filter_compl [of "\<lambda>x. x = a" xs] by simp
qed

lemma new_friends_props:
  assumes "fair_draw draw users (target + 1)" and "u \<in> set users" and "0 \<le> target"
  shows "distinct (new_friends draw target u)" "int (length (new_friends draw target u)) = target"
    "set (new_friends draw target u) \<subseteq> set users - {u}"
proof -
  have d: "distinct (draw u)" "set (draw u) \<subseteq> set users" "int (length (draw u)) = target + 1"
    using assms by (simp_all add: fair_draw_def)
  then show "distinct (new_friends draw target u)" by (simp add: new_friends_def)
  show "int (length (new_friends draw target u)) = target"
    using length_filter_one [OF d(1), of u] d(3) assms(3) by (simp add: new_friends_def)
  show "set (new_friends draw target u) \<subseteq> set users - {u}"
    using d(2) by (auto simp: new_friends_def dest!: in_set_takeD)
qed

lemma set_pairs: "(u, f) \<in> set (concat (map (\<lambda>u. map (Pair u) (g u)) us)) \<longleftrightarrow> u \<in> set us \<and> f \<in> set (g u)"
  by auto

section \<open>The rows\<close>

lemma insert_friendship_row_ok:
  assumes "so_users t = us" and "u \<noteq> f" and "u \<in> us_id ` set us" and "f \<in> us_id ` set us"
  shows "insert_friendship_row (u, f) t = Inr (sql_insert_friendship u f t)"
  using assms by (simp add: insert_friendship_row_def sql_insert_friendship_def)

lemma fold_insert_friendships:
  "so_users (fold (\<lambda>(u, f). sql_insert_friendship u f) ps t) = so_users t"
  "so_posts (fold (\<lambda>(u, f). sql_insert_friendship u f) ps t) = so_posts t"
  "set (so_friends (fold (\<lambda>(u, f). sql_insert_friendship u f) ps t)) = set (so_friends t) \<union> set ps"
  by (induction ps arbitrary: t) (auto simp: sql_insert_friendship_def split: if_splits)

text \<open>Each row the statement accepts keeps the constraints and the friendships that exist.\<close>

definition extends :: "social \<Rightarrow> social \<Rightarrow> bool" where
  "extends t t' \<longleftrightarrow> social_ok t' \<and> so_users t' = so_users t \<and> so_posts t' = so_posts t \<and> set (so_friends t) \<subseteq> set (so_friends t')"

lemma insert_friendship_row_extends:
  assumes "extends t0 t" and "insert_friendship_row p t = Inr t'"
  shows "extends t0 t'"
proof -
  obtain u f where p: "p = (u, f)" by fastforce
  from assms(2) consider "t' = t"
    | "t' = t\<lparr>so_friends := so_friends t @ [(u, f)]\<rparr>" "u \<noteq> f" "(u, f) \<notin> set (so_friends t)"
      "u \<in> us_id ` set (so_users t)" "f \<in> us_id ` set (so_users t)"
    unfolding p by (auto simp only: insert_friendship_row_def split_conv sum.simps split: if_splits)
  then show ?thesis
  proof cases
    case 2
    have "social_ok t" using assms(1) by (simp add: extends_def)
    then have "social_ok t'" using 2(2-5) unfolding 2(1) by (simp add: social_ok_def)
    with assms(1) 2(1) show ?thesis by (auto simp: extends_def)
  qed (use assms(1) in simp)
qed

lemma seed_friends_keeps: "sc_keeps 0 (extends t) (seed_friends draw order users_limit friends_per_user)"
  unfolding seed_friends_def Let_def
  by (rule sc_keeps_session)
     (intro sc_keeps_intros; erule (1) insert_friendship_row_extends)

text \<open>whatever the generator draws, however the set is enumerated and whichever calls of the
  database fail, the script leaves no connection open, keeps the constraints of the tables, and loses
  no user, no post and no friendship.\<close>

theorem seed_friends_safe:
  assumes "social_ok (sc_tables s)" and "seed_friends draw order users_limit friends_per_user s = (x, s')"
  shows "social_ok (sc_tables s') \<and> so_users (sc_tables s') = so_users (sc_tables s) \<and> so_posts (sc_tables s') = so_posts (sc_tables s)
    \<and> set (so_friends (sc_tables s)) \<subseteq> set (so_friends (sc_tables s')) \<and> sc_open s' = sc_open s"
proof -
  have "extends (sc_tables s) (sc_tables s)" using assms(1) by (simp add: extends_def)
  from sc_keepsD [OF seed_friends_keeps assms(2) this] show ?thesis
    by (auto simp: extends_def split: sum.splits)
qed


section \<open>Every user gets the same number of friends\<close>

lemma sql_limit_ok: "0 \<le> n \<Longrightarrow> sql_limit n xs = Inr (take (nat n) xs)"
  by (simp add: sql_limit_def)

text \<open>C24: when no call fails and the script does not find enough friendships already, every one of
  the first users, at least two of them, gets exactly \<^verbatim>\<open>friends_per_user\<close> friends, or all other users
  when there are not that many: they are distinct users of the same selection, never the user, and
  no other friendship appears.\<close>

theorem seed_friends_exact:
  assumes "social_ok (sc_tables s)" and "sc_faults s = []" and "0 \<le> users_limit" and "1 \<le> friends_per_user"
    and "int (length (so_friends (sc_tables s))) \<le> users_limit * friends_per_user div 2"
    and users: "user_ids = take (nat users_limit) (sort (map us_id (so_users (sc_tables s))))" and "2 \<le> length user_ids"
    and target: "target = min friends_per_user (int (length user_ids) - 1)"
    and "fair_draw draw user_ids (target + 1)" and order: "\<And>ps. set (order ps) = set ps"
  shows "\<exists>s'. seed_friends draw order users_limit friends_per_user s = (Inr (), s')
    \<and> sc_open s' = sc_open s \<and> so_users (sc_tables s') = so_users (sc_tables s) \<and> so_posts (sc_tables s') = so_posts (sc_tables s)
    \<and> (\<forall>u f. (u, f) \<in> set (so_friends (sc_tables s')) \<longleftrightarrow>
         (u, f) \<in> set (so_friends (sc_tables s)) \<or> u \<in> set user_ids \<and> f \<in> set (new_friends draw target u))
    \<and> (\<forall>u \<in> set user_ids. distinct (new_friends draw target u) \<and> int (length (new_friends draw target u)) = target
         \<and> set (new_friends draw target u) \<subseteq> set user_ids - {u})"
proof -
  let ?t = "sc_tables s" and ?s1 = "s\<lparr>sc_open := sc_open s + 1\<rparr>"
  let ?pairs = "concat (map (\<lambda>u. map (Pair u) (new_friends draw target u)) user_ids)"
  let ?t' = "fold (\<lambda>(u, f). sql_insert_friendship u f) (order ?pairs) ?t"
  have pos: "0 < target" "target + 1 \<le> int (length user_ids)" using assms(4,7) target by auto
  note friends = new_friends_props [OF assms(9) _ less_imp_le [OF pos(1)]]
  have ids: "set user_ids \<subseteq> us_id ` set (so_users ?t)" unfolding users by (auto dest!: in_set_takeD)
  have dist: "distinct user_ids" using assms(1) unfolding users by (simp add: social_ok_def)
  have made: "make_pairs draw user_ids target (target + 1) user_ids [] = Inr ?pairs"
    using make_pairs_eq [OF pos(1) assms(9) _ pos(2) dist, of "[]"] pos by simp
  have "insert_friendship_row p t = Inr ((\<lambda>(u, f). sql_insert_friendship u f) p t)
      \<and> so_users ((\<lambda>(u, f). sql_insert_friendship u f) p t) = so_users ?t"
    if "p \<in> set (order ?pairs)" and "so_users t = so_users ?t" for p t
  proof -
    obtain u f where p: "p = (u, f)" by fastforce
    from that(1) have "u \<in> set user_ids \<and> f \<in> set (new_friends draw target u)" unfolding p order set_pairs .
    then have uf: "u \<in> set user_ids" "f \<in> set (new_friends draw target u)" by simp_all
    have "insert_friendship_row (u, f) t = Inr (sql_insert_friendship u f t)"
      using friends(3) [OF uf(1)] uf ids by (intro insert_friendship_row_ok [OF that(2)]) blast+
    then show ?thesis using that(2) p by (simp add: sql_insert_friendship_def)
  qed
  from all_rows_fold [where P = "\<lambda>t. so_users t = so_users ?t" and xs = "order ?pairs", OF this]
  have rows: "all_rows insert_friendship_row (order ?pairs) ?t = Inr ?t'" by simp
  have first: "stmt_first_users users_limit ?t = Inr user_ids"
    unfolding users using assms(3) by (simp add: stmt_first_users_def sql_limit_ok)
  have tgt: "min friends_per_user (int (length user_ids) - 1) = target" by (simp add: target)
  have ins: "insert_batches insert_friendship_row (row_batches FRIENDS_BATCH_SIZE (order ?pairs)) 0 ?s1
      = (Inr (int (length (order ?pairs))), ?s1\<lparr>sc_tables := ?t'\<rparr>)"
    using insert_batches_ok [of ?s1 insert_friendship_row "row_batches FRIENDS_BATCH_SIZE (order ?pairs)" ?t' 0] assms(2) rows
    by (simp add: FRIENDS_BATCH_SIZE_def)
  have "seed_friends draw order users_limit friends_per_user s
      = (Inr (), s\<lparr>sc_tables := ?t'\<rparr>)"
    unfolding seed_friends_def
    by (rule session_ok [OF assms(2)]) (use assms(2,5,7) in \<open>simp add: first tgt made ins Let_def\<close>)
  moreover have "(u, f) \<in> set (so_friends ?t') \<longleftrightarrow> (u, f) \<in> set (so_friends ?t) \<or> u \<in> set user_ids \<and> f \<in> set (new_friends draw target u)" for u f
    unfolding fold_insert_friendships order Un_iff set_pairs by (rule refl)
  ultimately show ?thesis using friends by (simp add: fold_insert_friendships)
qed

section \<open>Runs\<close>

definition seed_user :: "uuid \<Rightarrow> string \<Rightarrow> user" where
  "seed_user i email = \<lparr>us_id = i, us_email = email, us_password_hash = ''x'', us_first_name = ''A'', us_last_name = ''B'',
     us_birthdate = ''1990-01-01'', us_gender = ''M'', us_interests = None, us_city = ''Omsk''\<rparr>"

definition demo_script :: "bool list \<Rightarrow> script" where
  "demo_script faults = \<lparr>sc_tables = \<lparr>so_users = [seed_user 3 ''c'', seed_user 1 ''a'', seed_user 2 ''b''], so_posts = [], so_friends = []\<rparr>,
     sc_faults = faults, sc_open = 0\<rparr>"

lemma demo_script_ok: "social_ok (sc_tables (demo_script faults))"
  by (simp add: demo_script_def social_ok_def seed_user_def)

lemma uuid_3_1: "\<not> (3 :: uuid) \<le> 1"
  by code_simp

text \<open>The database answers the count and the selection and then breaks down.\<close>

lemma seed_friends_safe_witness:
  "social_ok (sc_tables (snd (seed_friends (\<lambda>_. [1, 2, 3]) rev 3 2 (demo_script [False, False, False, True]))))
   \<and> sc_open (snd (seed_friends (\<lambda>_. [1, 2, 3]) rev 3 2 (demo_script [False, False, False, True]))) = 0"
  using seed_friends_safe [OF demo_script_ok prod.collapse [symmetric], of "\<lambda>_. [1, 2, 3]" rev 3 2 "[False, False, False, True]"]
  by (simp add: demo_script_def)

lemma seed_friends_exact_witness:
  "\<exists>s'. seed_friends (\<lambda>_. [1, 2, 3]) rev 3 2 (demo_script []) = (Inr (), s') \<and> (\<forall>u f. (u, f) \<in> set (so_friends (sc_tables s')) \<longleftrightarrow>
     u \<in> {1, 2, 3} \<and> f \<in> {1, 2, 3} - {u})"
proof -
  have ids: "[1, 2, 3] = take (nat 3) (sort (map us_id (so_users (sc_tables (demo_script [])))))"
    by (simp add: demo_script_def seed_user_def uuid_3_1)
  have fair: "fair_draw (\<lambda>_. [1, 2, 3]) [1, 2, 3] (2 + 1)" by (simp add: fair_draw_def)
  have "\<exists>s'. seed_friends (\<lambda>_. [1, 2, 3]) rev 3 2 (demo_script []) = (Inr (), s')
    \<and> (\<forall>u f. (u, f) \<in> set (so_friends (sc_tables s')) \<longleftrightarrow> u \<in> set [1, 2, 3] \<and> f \<in> set (new_friends (\<lambda>_. [1, 2, 3]) 2 u))"
    using seed_friends_exact [OF demo_script_ok _ _ _ _ ids _ _ fair, of 2 rev] by (auto simp: demo_script_def)
  then show ?thesis by (auto simp: new_friends_def) 
qed

text \<open>With \<^verbatim>\<open>--friends-per-user 0\<close> the check that ends the loop over the candidates comes after the first pair: every user
  whose sample holds another user gets one friend.\<close>

lemma seed_friends_zero:
  "so_friends (sc_tables (snd (seed_friends (\<lambda>u. if u = 1 then [2] else [1]) (\<lambda>ps. ps) 2 0 (demo_script [])))) = [(1, 2), (2, 1)]"
  by (simp add: seed_friends_def demo_script_def seed_user_def sc_connect_def sc_close_def finallyP_def stmt_first_users_def sql_limit_def
      rng_sample_def Let_def FRIENDS_BATCH_SIZE_def row_batches_def py_slice_def sc_executemany_def insert_friendship_row_def bindR_def uuid_3_1)

end
