(* ===== verification/Csv_Reader.thy ===== *)
theory Csv_Reader
  imports Prelude
begin

text \<open>
  Reading text files and \<^verbatim>\<open>csv.reader\<close>, as the scripts that load \<^verbatim>\<open>people.v2.csv\<close> and \<^verbatim>\<open>posts.txt\<close> use them.
  A file is the text it decodes to.  The reader is the state machine of the standard library (Python 3.10)
  for the default dialect: fields are separated by commas, a field that starts with a quotation mark runs
  to the closing one and may hold commas, line breaks and doubled quotation marks.
\<close>

section \<open>Lines\<close>

text \<open>\<^verbatim>\<open>open(path)\<close> reads every line break as a line feed, and iterating over the file gives the lines with
  their ends.\<close>

fun universal_newlines :: "string \<Rightarrow> string" where
  "universal_newlines [] = []"
| "universal_newlines [c] = [if c = CHR 0x0D then CHR 0x0A else c]"
| "universal_newlines (c # d # s) =
     (if c = CHR 0x0D then CHR 0x0A # (if d = CHR 0x0A then universal_newlines s else universal_newlines (d # s))
      else c # universal_newlines (d # s))"

fun split_lines :: "string \<Rightarrow> string list" where
  "split_lines [] = []"
| "split_lines (c # s) =
     (if c = CHR 0x0A then [c] # split_lines s
      else (case split_lines s of [] \<Rightarrow> [[c]] | l # ls \<Rightarrow> (c # l) # ls))"

definition file_lines :: "string \<Rightarrow> string list" where
  "file_lines contents = split_lines (universal_newlines contents)"

lemma universal_newlines_id: "CHR 0x0D \<notin> set s \<Longrightarrow> universal_newlines s = s"
  by (induction s rule: universal_newlines.induct) auto

lemma split_lines_line: "CHR 0x0A \<notin> set l \<Longrightarrow> split_lines (l @ CHR 0x0A # s) = (l @ [CHR 0x0A]) # split_lines s"
  by (induction l) auto

lemma file_lines_join:
  assumes "\<forall>l \<in> set ls. CHR 0x0A \<notin> set l \<and> CHR 0x0D \<notin> set l"
  shows "file_lines (concat (map (\<lambda>l. l @ [CHR 0x0A]) ls)) = map (\<lambda>l. l @ [CHR 0x0A]) ls"
proof -
  have "split_lines (concat (map (\<lambda>l. l @ [CHR 0x0A]) ls)) = map (\<lambda>l. l @ [CHR 0x0A]) ls"
    using assms by (induction ls) (simp_all add: split_lines_line)
  moreover have "CHR 0x0D \<notin> set (concat (map (\<lambda>l. l @ [CHR 0x0A]) ls))" using assms by auto
  ultimately show ?thesis by (simp add: file_lines_def universal_newlines_id)
qed

section \<open>The reader\<close>

datatype csv_state = START_RECORD | START_FIELD | IN_FIELD | IN_QUOTED_FIELD | QUOTE_IN_QUOTED_FIELD | EAT_CRNL

record csv_parser =
  cp_state :: csv_state
  cp_field :: string
  cp_fields :: "string list"

definition csv_reset :: csv_parser where
  "csv_reset = \<lparr>cp_state = START_RECORD, cp_field = [], cp_fields = []\<rparr>"

definition csv_add_char :: "char \<Rightarrow> csv_state \<Rightarrow> csv_parser \<Rightarrow> csv_parser res" where
  "csv_add_char c st p =
     (if length (cp_field p) \<ge> 131072 then Inl (CsvError ''field larger than field limit (131072)'')
      else Inr (p\<lparr>cp_field := cp_field p @ [c], cp_state := st\<rparr>))"

definition csv_save_field :: "csv_state \<Rightarrow> csv_parser \<Rightarrow> csv_parser res" where
  "csv_save_field st p = Inr (p\<lparr>cp_fields := cp_fields p @ [cp_field p], cp_field := [], cp_state := st\<rparr>)"

text \<open>One character, or \<open>None\<close> at the end of a line.\<close>

definition line_break :: "char option \<Rightarrow> bool" where
  "line_break c \<longleftrightarrow> c = None \<or> c = Some (CHR 0x0A) \<or> c = Some (CHR 0x0D)"

definition after_line :: "char option \<Rightarrow> csv_state" where
  "after_line c = (if c = None then START_RECORD else EAT_CRNL)"

definition csv_start_field :: "char option \<Rightarrow> csv_parser \<Rightarrow> csv_parser res" where
  "csv_start_field c p =
     (if line_break c then csv_save_field (after_line c) p
      else if c = Some (CHR 0x22) then Inr (p\<lparr>cp_state := IN_QUOTED_FIELD\<rparr>)
      else if c = Some (CHR '','') then csv_save_field START_FIELD p
      else csv_add_char (the c) IN_FIELD p)"

definition csv_process_char :: "char option \<Rightarrow> csv_parser \<Rightarrow> csv_parser res" where
  "csv_process_char c p =
     (case cp_state p of
        START_RECORD \<Rightarrow>
          if c = None then Inr p
          else if line_break c then Inr (p\<lparr>cp_state := EAT_CRNL\<rparr>)
          else csv_start_field c p
      | START_FIELD \<Rightarrow> csv_start_field c p
      | IN_FIELD \<Rightarrow>
          if line_break c then csv_save_field (after_line c) p
          else if c = Some (CHR '','') then csv_save_field START_FIELD p
          else csv_add_char (the c) IN_FIELD p
      | IN_QUOTED_FIELD \<Rightarrow>
          if c = None then Inr p
          else if c = Some (CHR 0x22) then Inr (p\<lparr>cp_state := QUOTE_IN_QUOTED_FIELD\<rparr>)
          else csv_add_char (the c) IN_QUOTED_FIELD p
      | QUOTE_IN_QUOTED_FIELD \<Rightarrow>
          if c = Some (CHR 0x22) then csv_add_char (CHR 0x22) IN_QUOTED_FIELD p
          else if c = Some (CHR '','') then csv_save_field START_FIELD p
          else if line_break c then csv_save_field (after_line c) p
          else csv_add_char (the c) IN_FIELD p
      | EAT_CRNL \<Rightarrow>
          if c = None then Inr (p\<lparr>cp_state := START_RECORD\<rparr>)
          else if line_break c then Inr p
          else Inl (CsvError ''new-line character seen in unquoted field''))"

fun csv_process_line :: "string \<Rightarrow> csv_parser \<Rightarrow> csv_parser res" where
  "csv_process_line [] p = csv_process_char None p"
| "csv_process_line (c # s) p =
     (if c = CHR 0x00 then Inl (CsvError ''line contains NUL'')
      else bindR (csv_process_char (Some c) p) (csv_process_line s))"

text \<open>The records up to the end of the lines or up to the first error; a quoted field may stay open at the end.\<close>

fun csv_records :: "csv_parser \<Rightarrow> string list \<Rightarrow> string list list \<times> exn option" where
  "csv_records p [] =
     (if cp_field p \<noteq> [] \<or> cp_state p = IN_QUOTED_FIELD then [cp_fields p @ [cp_field p]] else [], None)"
| "csv_records p (l # ls) =
     (case csv_process_line l p of
        Inl e \<Rightarrow> ([], Some e)
      | Inr p' \<Rightarrow>
          if cp_state p' = START_RECORD then
            (case csv_records csv_reset ls of (records, err) \<Rightarrow> (cp_fields p' # records, err))
          else csv_records p' ls)"

definition csv_reader :: "string list \<Rightarrow> string list list \<times> exn option" where
  "csv_reader ls = csv_records csv_reset ls"

section \<open>Records without quotation\<close>

text \<open>A field that needs no quotation marks.\<close>

definition plain_field :: "string \<Rightarrow> bool" where
  "plain_field f \<longleftrightarrow> take 1 f \<noteq> [CHR 0x22] \<and> length f \<le> 131072
     \<and> (\<forall>c \<in> set f. c \<noteq> CHR '','' \<and> c \<noteq> CHR 0x0A \<and> c \<noteq> CHR 0x0D \<and> c \<noteq> CHR 0x00)"

fun csv_join :: "string list \<Rightarrow> string" where
  "csv_join [] = []"
| "csv_join [f] = f"
| "csv_join (f # fs) = f @ CHR '','' # csv_join fs"

lemma csv_in_field:
  assumes "\<forall>c \<in> set f. c \<noteq> CHR '','' \<and> c \<noteq> CHR 0x0A \<and> c \<noteq> CHR 0x0D \<and> c \<noteq> CHR 0x00"
    and "length g + length f \<le> 131072"
  shows "csv_process_line (f @ s) \<lparr>cp_state = IN_FIELD, cp_field = g, cp_fields = fs\<rparr>
    = csv_process_line s \<lparr>cp_state = IN_FIELD, cp_field = g @ f, cp_fields = fs\<rparr>"
  using assms
proof (induction f arbitrary: g)
  case (Cons c f)
  then have "csv_process_line (f @ s) \<lparr>cp_state = IN_FIELD, cp_field = g @ [c], cp_fields = fs\<rparr>
      = csv_process_line s \<lparr>cp_state = IN_FIELD, cp_field = g @ c # f, cp_fields = fs\<rparr>"
    using Cons.IH [of "g @ [c]"] by simp
  then show ?case
    using Cons.prems by (simp add: csv_process_char_def line_break_def csv_add_char_def bindR_def)
qed simp

lemma csv_field:
  assumes "plain_field f" and "st = START_FIELD \<or> st = START_RECORD \<and> f \<noteq> []"
  shows "csv_process_line (f @ s) \<lparr>cp_state = st, cp_field = [], cp_fields = fs\<rparr>
    = csv_process_line s \<lparr>cp_state = (if f = [] then START_FIELD else IN_FIELD), cp_field = f, cp_fields = fs\<rparr>"
proof (cases f)
  case (Cons c g)
  then have "c \<noteq> CHR 0x22" "c \<noteq> CHR '',''" "c \<noteq> CHR 0x0A" "c \<noteq> CHR 0x0D" "c \<noteq> CHR 0x00"
    using assms(1) by (auto simp: plain_field_def)
  moreover have "csv_process_line (g @ s) \<lparr>cp_state = IN_FIELD, cp_field = [c], cp_fields = fs\<rparr>
      = csv_process_line s \<lparr>cp_state = IN_FIELD, cp_field = [c] @ g, cp_fields = fs\<rparr>"
    using assms(1) Cons by (intro csv_in_field) (auto simp: plain_field_def)
  ultimately show ?thesis using Cons assms(2)
    by (auto simp: csv_process_char_def csv_start_field_def line_break_def csv_add_char_def bindR_def)
qed (use assms in auto)

lemma csv_end_of_field:
  assumes "st = START_FIELD \<or> st = IN_FIELD"
  shows "csv_process_line (CHR '','' # s) \<lparr>cp_state = st, cp_field = f, cp_fields = fs\<rparr>
      = csv_process_line s \<lparr>cp_state = START_FIELD, cp_field = [], cp_fields = fs @ [f]\<rparr>"
    and "csv_process_line [CHR 0x0A] \<lparr>cp_state = st, cp_field = f, cp_fields = fs\<rparr>
      = Inr \<lparr>cp_state = START_RECORD, cp_field = [], cp_fields = fs @ [f]\<rparr>"
  using assms by (auto simp: csv_process_char_def csv_start_field_def line_break_def csv_save_field_def after_line_def bindR_def)

lemma csv_plain_fields:
  assumes "fs \<noteq> []" and "\<forall>f \<in> set fs. plain_field f" and "st = START_FIELD \<or> st = START_RECORD \<and> hd fs \<noteq> []"
  shows "csv_process_line (csv_join fs @ [CHR 0x0A]) \<lparr>cp_state = st, cp_field = [], cp_fields = gs\<rparr>
    = Inr \<lparr>cp_state = START_RECORD, cp_field = [], cp_fields = gs @ fs\<rparr>"
  using assms
proof (induction fs arbitrary: gs st rule: csv_join.induct)
  case (2 f)
  then show ?case using csv_field [of f st "[CHR 0x0A]" gs] csv_end_of_field(2) by auto
next
  case (3 f g fs)
  have "csv_process_line (csv_join (f # g # fs) @ [CHR 0x0A]) \<lparr>cp_state = st, cp_field = [], cp_fields = gs\<rparr>
      = csv_process_line (csv_join (g # fs) @ [CHR 0x0A]) \<lparr>cp_state = START_FIELD, cp_field = [], cp_fields = gs @ [f]\<rparr>"
    using 3 csv_field [of f st "CHR '','' # csv_join (g # fs) @ [CHR 0x0A]" gs] csv_end_of_field(1) by auto
  also have "\<dots> = Inr \<lparr>cp_state = START_RECORD, cp_field = [], cp_fields = (gs @ [f]) @ g # fs\<rparr>"
    using 3 by (intro "3.IH") auto
  finally show ?case by simp
qed simp

text \<open>A file of records whose fields need no quotation is read back record by record.\<close>

lemma csv_reader_plain:
  assumes "\<forall>fs \<in> set rs. fs \<noteq> [] \<and> hd fs \<noteq> [] \<and> (\<forall>f \<in> set fs. plain_field f)"
  shows "csv_reader (map (\<lambda>fs. csv_join fs @ [CHR 0x0A]) rs) = (rs, None)"
  using assms unfolding csv_reader_def
proof (induction rs)
  case (Cons fs rs)
  then have "csv_process_line (csv_join fs @ [CHR 0x0A]) csv_reset = Inr \<lparr>cp_state = START_RECORD, cp_field = [], cp_fields = fs\<rparr>"
    using csv_plain_fields [of fs START_RECORD "[]"] by (simp add: csv_reset_def)
  with Cons show ?case by simp
qed (simp add: csv_reset_def)

lemma csv_join_plain: "\<forall>f \<in> set fs. plain_field f \<Longrightarrow> CHR 0x0A \<notin> set (csv_join fs) \<and> CHR 0x0D \<notin> set (csv_join fs)"
  by (induction fs rule: csv_join.induct) (auto simp: plain_field_def)

end
