(* ===== verification/Datetime_Arith.thy ===== *)
theory Datetime_Arith
  imports Datetime
begin

text \<open>
  \<^verbatim>\<open>datetime + timedelta\<close> and \<^verbatim>\<open>date.fromordinal\<close> as the standard library computes them, and that the
  arithmetic agrees with the one of timestamps.  \<^verbatim>\<open>date.fromisoformat\<close> is the one of Python 3.10, the
  version \<^verbatim>\<open>pyproject.toml\<close> names: it takes the form YYYY-MM-DD only.
\<close>

section \<open>Operations\<close>

definition DAYS_BEFORE_MONTH :: "int list" where
  "DAYS_BEFORE_MONTH = [-1, 0, 31, 59, 90, 120, 151, 181, 212, 243, 273, 304, 334]"

definition DAYS_IN_MONTH :: "int list" where
  "DAYS_IN_MONTH = [-1, 31, 28, 31, 30, 31, 30, 31, 31, 30, 31, 30, 31]"

text \<open>Month and day of the day \<open>n\<close> of a year, counted from zero: an estimate that is at most one too large.\<close>

definition month_day :: "bool \<Rightarrow> int \<Rightarrow> int \<times> int" where
  "month_day leapyear n =
     (let mo = (n + 50) div 32;
          preceding = DAYS_BEFORE_MONTH ! nat mo + (if mo > 2 \<and> leapyear then 1 else 0)
      in if preceding > n then
           let mo' = mo - 1;
               preceding' = preceding - (DAYS_IN_MONTH ! nat mo' + (if mo' = 2 \<and> leapyear then 1 else 0))
           in (mo', n - preceding' + 1)
         else (mo, n - preceding + 1))"

definition ord2ymd :: "int \<Rightarrow> int \<times> int \<times> int" where
  "ord2ymd ordinal =
     (let n = ordinal - 1;
          n400 = n div 146097; r400 = n mod 146097;
          n100 = r400 div 36524; r100 = r400 mod 36524;
          n4 = r100 div 1461; r4 = r100 mod 1461;
          n1 = r4 div 365; r1 = r4 mod 365;
          y = n400 * 400 + 1 + n100 * 100 + n4 * 4 + n1
      in if n1 = 4 \<or> n100 = 4 then (y - 1, 12, 31)
         else (y, month_day (n1 = 3 \<and> (n4 \<noteq> 24 \<or> n100 = 3)) r1))"

definition datetime_add :: "datetime \<Rightarrow> int \<Rightarrow> datetime res" where
  "datetime_add d us =
     (let total = (((toordinal d * 24 + hour d) * 60 + minute d) * 60 + second d) * 1000000 + microsecond d + us;
          days = total div 86400000000; rem = total mod 86400000000; secs = rem div 1000000
      in if 0 < days \<and> days \<le> 3652059 then
           case ord2ymd days of (y, mo, da) \<Rightarrow>
             Inr (Datetime y mo da (secs div 3600) (secs mod 3600 div 60) (secs mod 3600 mod 60) (rem mod 1000000))
         else Inl (OverflowError ''date value out of range''))"

definition date_fromisoformat :: "string \<Rightarrow> string res" where
  "date_fromisoformat s =
     (let bad = Inl (ValueError ''Invalid isoformat string'') in
      if length s \<noteq> 10 \<or> s ! 4 \<noteq> CHR ''-'' \<or> s ! 7 \<noteq> CHR ''-'' then bad
      else case (read_padded (take 4 s), read_padded (py_slice 5 7 s), read_padded (drop 8 s)) of
          (Some y, Some mo, Some d) \<Rightarrow> if dt_ok (Datetime y mo d 0 0 0 0) then Inr s else bad
        | _ \<Rightarrow> bad)"

section \<open>Ordinals\<close>

lemma month_day_table:
  "list_all (\<lambda>leap. list_all (\<lambda>n. case month_day leap n of (mo, da) \<Rightarrow>
     let dim = (\<lambda>m. DAYS_IN_MONTH ! nat m + (if m = 2 \<and> leap then 1 else 0))
     in 1 \<le> mo \<and> mo \<le> 12 \<and> 1 \<le> da \<and> da \<le> dim mo \<and> sum_list (map dim [1..mo - 1]) + da = n + 1)
     [0..364]) [True, False]"
  by code_simp

lemma days_in_month_table: "1 \<le> m \<Longrightarrow> m \<le> 12 \<Longrightarrow> days_in_month y m = DAYS_IN_MONTH ! nat m + (if m = 2 \<and> is_leap y then 1 else 0)"
proof -
  assume "1 \<le> m" "m \<le> 12"
  then have "m \<in> set [1..12]" by simp
  moreover have "list_all (\<lambda>m. DAYS_IN_MONTH ! nat m = (if m = 2 then 28 else if m \<in> {4, 6, 9, 11} then 30 else 31)) [1..12]"
    by code_simp
  ultimately have "DAYS_IN_MONTH ! nat m = (if m = 2 then 28 else if m \<in> {4, 6, 9, 11} then 30 else 31)"
    by (simp only: list_all_iff)
  then show ?thesis by (simp add: days_in_month_def)
qed

lemma month_day_props:
  assumes "month_day (is_leap y) n = (mo, da)" and "0 \<le> n" and "n \<le> 364"
  shows "1 \<le> mo \<and> mo \<le> 12 \<and> 1 \<le> da \<and> da \<le> days_in_month y mo \<and> days_before_month y mo + da = n + 1"
proof -
  let ?dim = "\<lambda>m. DAYS_IN_MONTH ! nat m + (if m = 2 \<and> is_leap y then 1 else 0)"
  have "is_leap y \<in> set [True, False]" and "n \<in> set [0..364]" using assms(2,3) by auto
  from month_day_table [unfolded list_all_iff Let_def, THEN bspec, OF this(1), THEN bspec, OF this(2)]
  have p: "1 \<le> mo" "mo \<le> 12" "1 \<le> da" "da \<le> ?dim mo" "sum_list (map ?dim [1..mo - 1]) + da = n + 1"
    unfolding assms(1) prod.case by blast+
  moreover have "days_before_month y mo = sum_list (map ?dim [1..mo - 1])"
    unfolding days_before_month_def using p(2) by (intro arg_cong [where f = sum_list] map_cong refl days_in_month_table) auto
  ultimately show ?thesis by (simp add: days_in_month_table)
qed

lemma mod_top: "0 < x \<Longrightarrow> x \<le> m \<Longrightarrow> x mod m = 0 \<longleftrightarrow> x = m" for x m :: int
  by (cases "x = m") auto

lemma days_before_cycle:
  assumes "0 \<le> b" "b \<le> 3" "0 \<le> c" "c \<le> 24" "0 \<le> d" "d \<le> (3 :: int)"
  shows "days_before_year (400 * a + 100 * b + 4 * c + d + 1) = 146097 * a + 36524 * b + 1461 * c + 365 * d"
    and "is_leap (400 * a + 100 * b + 4 * c + d + 1) \<longleftrightarrow> d = 3 \<and> (c \<noteq> 24 \<or> b = 3)"
proof -
  let ?z = "400 * a + 100 * b + 4 * c + d"
  have q: "?z div 4 = 100 * a + 25 * b + c" "?z div 100 = 4 * a + b" "?z div 400 = a"
    using assms int_div_pos_eq [of ?z 4 "100 * a + 25 * b + c" d] int_div_pos_eq [of ?z 100 "4 * a + b" "4 * c + d"]
      int_div_pos_eq [of ?z 400 a "100 * b + 4 * c + d"] by simp_all
  then show "days_before_year (?z + 1) = 146097 * a + 36524 * b + 1461 * c + 365 * d"
    by (simp add: days_before_year_def Let_def)
  have z: "?z + 1 = d + 1 + (100 * a + 25 * b + c) * 4" "?z + 1 = 4 * c + d + 1 + (4 * a + b) * 100"
      "?z + 1 = 100 * b + 4 * c + d + 1 + a * 400" by simp_all
  have "(?z + 1) mod 4 = (d + 1) mod 4" unfolding z(1) by (rule mod_mult_self1)
  moreover have "(?z + 1) mod 100 = (4 * c + d + 1) mod 100" unfolding z(2) by (rule mod_mult_self1)
  moreover have "(?z + 1) mod 400 = (100 * b + 4 * c + d + 1) mod 400" unfolding z(3) by (rule mod_mult_self1)
  moreover have "(d + 1) mod 4 = 0 \<longleftrightarrow> d + 1 = 4" using assms by (intro mod_top) auto
  moreover have "(4 * c + d + 1) mod 100 = 0 \<longleftrightarrow> 4 * c + d + 1 = 100" using assms by (intro mod_top) auto
  moreover have "(100 * b + 4 * c + d + 1) mod 400 = 0 \<longleftrightarrow> 100 * b + 4 * c + d + 1 = 400" using assms by (intro mod_top) auto
  ultimately show "is_leap (?z + 1) \<longleftrightarrow> d = 3 \<and> (c \<noteq> 24 \<or> b = 3)"
    unfolding is_leap_def using assms by (cases "d = 3") simp_all
qed

text \<open>The ordinal of the date that \<^verbatim>\<open>ord2ymd\<close> computes is the one it was given.\<close>

lemma ord2ymd_props:
  assumes "1 \<le> n" and "ord2ymd n = (y, mo, da)"
  shows "1 \<le> y \<and> 1 \<le> mo \<and> mo \<le> 12 \<and> 1 \<le> da \<and> da \<le> days_in_month y mo
    \<and> days_before_year y + days_before_month y mo + da = n"
proof -
  define a where "a = (n - 1) div 146097"
  define r400 where "r400 = (n - 1) mod 146097"
  define b where "b = r400 div 36524"
  define r100 where "r100 = r400 mod 36524"
  define c where "c = r100 div 1461"
  define r4 where "r4 = r100 mod 1461"
  define d where "d = r4 div 365"
  define r1 where "r1 = r4 mod 365"
  note defs = a_def r400_def b_def r100_def c_def r4_def d_def r1_def
  have n: "n - 1 = 146097 * a + r400" "r400 = 36524 * b + r100" "r100 = 1461 * c + r4" "r4 = 365 * d + r1"
    unfolding defs by simp_all
  have r: "0 \<le> r400" "r400 < 146097" "0 \<le> r100" "r100 < 36524" "0 \<le> r4" "r4 < 1461" "0 \<le> r1" "r1 < 365"
    unfolding defs by simp_all
  have ge: "0 \<le> a" "0 \<le> b" "0 \<le> c" "0 \<le> d"
    using assms(1) r by (simp_all add: a_def b_def c_def d_def pos_imp_zdiv_nonneg_iff)
  have le: "b \<le> 4" "c \<le> 24" "d \<le> 4" using n r by linarith+
  have res: "(y, mo, da) = (if d = 4 \<or> b = 4 then (400 * a + 100 * b + 4 * c + d, 12, 31)
      else (400 * a + 100 * b + 4 * c + d + 1, month_day (d = 3 \<and> (c \<noteq> 24 \<or> b = 3)) r1))"
    using assms(2) unfolding ord2ymd_def Let_def
    unfolding a_def [symmetric] r400_def [symmetric] b_def [symmetric] r100_def [symmetric] c_def [symmetric]
      r4_def [symmetric] d_def [symmetric] r1_def [symmetric] by (auto simp: algebra_simps split: if_splits)
  have dec: "days_in_month z 12 = 31" "days_before_month z 12 = 334 + (if is_leap z then 1 else 0)" for z
    by (simp_all add: days_in_month_def days_before_month_def upto_rec1)
  consider "b = 4" | "b \<le> 3" "d = 4" | "b \<le> 3" "d \<le> 3" using le by linarith
  then show ?thesis
  proof cases
    case 1
    then have z: "c = 0" "d = 0" "r1 = 0" using n r ge by linarith+
    have "days_before_year (400 * a + 399 + 1) = 146097 * a + 36524 * 3 + 1461 * 24 + 365 * 3" "is_leap (400 * a + 399 + 1)"
      using days_before_cycle [of 3 24 3 a] by simp_all
    then show ?thesis using res 1 z ge n by (simp add: dec add.commute)
  next
    case 2
    then have z: "r1 = 0" and "c \<noteq> 24 \<or> b = 3" using n r ge by linarith+
    then have "days_before_year (400 * a + 100 * b + 4 * c + 3 + 1) = 146097 * a + 36524 * b + 1461 * c + 365 * 3"
        "is_leap (400 * a + 100 * b + 4 * c + 3 + 1)"
      using days_before_cycle [of b c 3 a] 2 ge le by simp_all
    then show ?thesis using res 2 z ge n by (simp add: dec add.commute)
  next
    case 3
    let ?y = "400 * a + 100 * b + 4 * c + d + 1"
    note cyc = days_before_cycle [OF ge(2) 3(1) ge(3) le(2) ge(4) 3(2), of a]
    have y: "y = ?y" and "month_day (is_leap ?y) r1 = (mo, da)" using res 3 cyc(2) by auto
    from month_day_props [OF this(2) r(7)] r(8)
    have "1 \<le> mo \<and> mo \<le> 12 \<and> 1 \<le> da \<and> da \<le> days_in_month ?y mo \<and> days_before_month ?y mo + da = r1 + 1" by simp
    then show ?thesis unfolding y using cyc(1) ge n by simp
  qed
qed

section \<open>Adding a duration\<close>

lemma days_before_year_10000: "days_before_year 10000 = 3652059"
  by (simp add: days_before_year_def)

lemma ord2ymd_year:
  assumes "1 \<le> n" and "n \<le> 3652059" and "ord2ymd n = (y, mo, da)"
  shows "y \<le> 9999"
proof (rule ccontr)
  note p = ord2ymd_props [OF assms(1,3)]
  assume "\<not> y \<le> 9999"
  then have "3652059 \<le> days_before_year y" using days_before_year_mono [of 10000 y] by (simp add: days_before_year_10000)
  moreover have "0 \<le> days_before_month y mo" using days_before_month_mono [of 1 mo y] p by (simp add: days_before_month_def)
  ultimately show False using p assms(2) by linarith
qed

lemma toordinal_Datetime: "toordinal (Datetime y mo da h mi se us) = days_before_year y + days_before_month y mo + da"
  by (simp add: toordinal_def)

lemma datetime_add_props:
  assumes "datetime_add d us = Inr d'"
  shows "dt_ok d' \<and> timestamp d' = timestamp d + us"
proof -
  define total where "total = (((toordinal d * 24 + hour d) * 60 + minute d) * 60 + second d) * 1000000 + microsecond d + us"
  define days where "days = total div 86400000000"
  define rem where "rem = total mod 86400000000"
  define secs where "secs = rem div 1000000"
  obtain y mo da where ymd: "ord2ymd days = (y, mo, da)" by (metis prod_cases3)
  have days: "0 < days" "days \<le> 3652059"
    and d': "d' = Datetime y mo da (secs div 3600) (secs mod 3600 div 60) (secs mod 3600 mod 60) (rem mod 1000000)"
    using assms unfolding datetime_add_def Let_def
    unfolding total_def [symmetric] days_def [symmetric] rem_def [symmetric] secs_def [symmetric] ymd prod.case
    by (simp_all split: if_splits)
  have one: "1 \<le> days" using days(1) by simp
  note p = ord2ymd_props [OF one ymd] and yr = ord2ymd_year [OF one days(2) ymd]
  have rem: "0 \<le> rem" "rem < 86400000000" and split: "total = days * 86400000000 + rem" unfolding rem_def days_def by simp_all
  have secs: "0 \<le> secs" "secs < 86400" "rem = secs * 1000000 + rem mod 1000000"
    using rem unfolding secs_def by (simp_all add: pos_imp_zdiv_nonneg_iff div_less_factor)
  define H where "H = secs div 3600"
  define M where "M = secs mod 3600 div 60"
  define Q where "Q = secs mod 3600 mod 60"
  define U where "U = rem mod 1000000"
  have h: "0 \<le> H" "H < 24" using secs by (simp_all add: H_def pos_imp_zdiv_nonneg_iff div_less_factor)
  have mi: "0 \<le> M" "M < 60" "0 \<le> Q" "Q < 60" "0 \<le> U" "U < 1000000"
    by (simp_all add: M_def Q_def U_def pos_imp_zdiv_nonneg_iff div_less_factor)
  have "secs = H * 3600 + secs mod 3600" "secs mod 3600 = M * 60 + Q" unfolding H_def M_def Q_def by (simp_all only: div_mult_mod_eq)
  then have hms: "secs = H * 3600 + (M * 60 + Q)" by simp
  note d' = d' [folded H_def M_def Q_def U_def] and us = secs(3) [folded U_def]
  have "timestamp d' = ((days - 719163) * 86400 + secs) * 1000000 + U"
    using p unfolding d' timestamp_def toordinal_Datetime datetime.sel hms by simp
  also have "\<dots> = timestamp d + us"
    using us split unfolding timestamp_def total_def by simp
  finally show ?thesis using p yr h mi unfolding d' by (simp add: dt_ok_def)
qed

lemma timestamp_day:
  assumes "dt_ok x"
  shows "(toordinal x - 719163) * 86400000000 \<le> timestamp x" "timestamp x < (toordinal x - 719162) * 86400000000"
  using assms by (auto simp: dt_ok_def timestamp_def)

lemma datetime_add_ok:
  assumes "dt_ok d" and "dt_ok e" and "timestamp e \<le> timestamp d + us" and "timestamp d + us \<le> timestamp f" and "dt_ok f"
  shows "\<exists>d'. datetime_add d us = Inr d'"
proof -
  define total where "total = (((toordinal d * 24 + hour d) * 60 + minute d) * 60 + second d) * 1000000 + microsecond d + us"
  have t: "total = timestamp d + us + 719163 * 86400000000" by (simp add: timestamp_def total_def algebra_simps)

  have lo: "1 \<le> toordinal e"
  proof -
    have "days_before_year 1 \<le> days_before_year (year e)" using assms(2) by (intro days_before_year_mono) (simp add: dt_ok_def)
    moreover have "0 \<le> days_before_month (year e) (month e)" "1 \<le> day e"
      using assms(2) days_before_month_mono [of 1 "month e" "year e"] by (auto simp: dt_ok_def days_before_month_def)
    ultimately show ?thesis by (simp add: toordinal_def days_before_year_def)
  qed
  have hi: "toordinal f \<le> 3652059"
  proof -
    have "days_before_month (year f) (month f + 1) \<le> days_before_month (year f) 13"
      using assms(5) by (intro days_before_month_mono) (auto simp: dt_ok_def)
    moreover have "days_before_year (year f + 1) \<le> days_before_year 10000"
      using assms(5) by (intro days_before_year_mono) (simp add: dt_ok_def)
    ultimately show ?thesis using assms(5)
      by (simp add: toordinal_def dt_ok_def days_before_month_Suc days_before_month_13 days_before_year_Suc days_before_year_10000)
  qed
  have "86400000000 \<le> total" using t assms(3) lo timestamp_day(1) [OF assms(2)] by (simp add: left_diff_distrib)
  then have "0 < total div 86400000000" by (simp add: pos_imp_zdiv_pos_iff)
  moreover have "total < 3652060 * 86400000000" using t assms(4) hi timestamp_day(2) [OF assms(5)] by (simp add: left_diff_distrib)
  then have "total div 86400000000 < 3652060" by (intro div_less_factor) simp_all
  ultimately have c: "0 < total div 86400000000 \<and> total div 86400000000 \<le> 3652059" by linarith
  show ?thesis unfolding datetime_add_def Let_def unfolding total_def [symmetric] if_P [OF c]
    by (cases "ord2ymd (total div 86400000000)") (simp only: prod.case; blast)
qed

end
