(* ===== verification/Load_Posts.thy ===== *)
theory Load_Posts
  imports Script_Db Csv_Reader Datetime_Arith
begin

text \<open>
  \<^verbatim>\<open>scripts/load_posts.py\<close>: the posts of \<^verbatim>\<open>posts.txt\<close>, one per line.  The file, the current time, the identifiers the
  database generates and the numbers the generator draws are arguments.  The column \<^verbatim>\<open>updated_at\<close>, which gets the
  value of \<^verbatim>\<open>created_at\<close>, is not part of the table of the model.
\<close>

section \<open>The script\<close>

definition POSTS_BATCH_SIZE :: nat where
  "POSTS_BATCH_SIZE = 5000"

text \<open>\<^verbatim>\<open>timedelta(days=30)\<close> in microseconds.\<close>

definition MONTH :: int where
  "MONTH = 30 * 86400000000"

record post_row =
  pr_author :: uuid
  pr_text :: string
  pr_created :: datetime

definition post_lines :: "string \<Rightarrow> string list" where
  "post_lines contents = map py_strip (filter (\<lambda>line. py_strip line \<noteq> []) (file_lines contents))"

text \<open>The loop over the numbered lines; \<open>randint i\<close> is what \<^verbatim>\<open>rng.randint(0, span_seconds)\<close> returns in turn \<open>i\<close>.\<close>

fun post_rows :: "uuid list \<Rightarrow> datetime \<Rightarrow> (nat \<Rightarrow> int) \<Rightarrow> nat \<Rightarrow> string list \<Rightarrow> post_row list res" where
  "post_rows user_ids month_ago randint i [] = Inr []"
| "post_rows user_ids month_ago randint i (text # ls) =
     bindR (datetime_add month_ago (randint i * 1000000)) (\<lambda>created_at.
     bindR (post_rows user_ids month_ago randint (i + 1) ls) (\<lambda>rows.
       Inr (\<lparr>pr_author = user_ids ! (i mod length user_ids), pr_text = text, pr_created = created_at\<rparr> # rows)))"

text \<open>\<^verbatim>\<open>INSERT INTO posts\<close> with the constraints of the table.\<close>

definition row_post :: "uuid \<Rightarrow> post_row \<Rightarrow> post" where
  "row_post i row = \<lparr>po_id = i, po_author = pr_author row, po_text = pr_text row, po_created = pr_created row\<rparr>"

definition insert_post_row :: "uuid \<times> post_row \<Rightarrow> social \<Rightarrow> social res" where
  "insert_post_row = (\<lambda>(i, row) t.
     if i \<in> po_id ` set (so_posts t) then Inl (PostgresError ''unique violation'')
     else if pr_author row \<notin> us_id ` set (so_users t) then Inl (PostgresError ''foreign key violation'')
     else Inr (sql_insert_post (row_post i row) t))"

definition count_posts :: "social \<Rightarrow> int res" where
  "count_posts t = Inr (int (length (so_posts t)))"

text \<open>The script reports how many posts it has inserted and how many there are; \<open>None\<close> when it skips the work.
  \<open>span\<close> is what the code passes to \<^verbatim>\<open>randint\<close>.\<close>

definition load_body :: "string \<Rightarrow> datetime \<Rightarrow> (int \<Rightarrow> nat \<Rightarrow> int) \<Rightarrow> (nat \<Rightarrow> uuid) \<Rightarrow> (script, (int \<times> int) option) prog" where
  "load_body contents now randint gen =
     bindP (sc_fetch count_posts) (\<lambda>existing.
       if existing > 10000 then returnP None
       else
         bindP (sc_fetch (\<lambda>t. Inr (sort (map us_id (so_users t))))) (\<lambda>user_ids.
           if user_ids = [] then returnP None
           else
             let ls = post_lines contents in
             bindP (liftP (datetime_add now (- MONTH))) (\<lambda>month_ago.
               let span = (timestamp now - timestamp month_ago) div 1000000 in
               bindP (liftP (post_rows user_ids month_ago (randint span) 0 ls)) (\<lambda>rows.
               bindP (insert_batches insert_post_row
                   (row_batches POSTS_BATCH_SIZE (zip (map gen [0..<length rows]) rows)) 0) (\<lambda>inserted.
               bindP (sc_fetch count_posts) (\<lambda>final_count. returnP (Some (inserted, final_count))))))))"

definition load_posts :: "string option \<Rightarrow> datetime \<Rightarrow> (int \<Rightarrow> nat \<Rightarrow> int) \<Rightarrow> (nat \<Rightarrow> uuid) \<Rightarrow> (script, (int \<times> int) option) prog" where
  "load_posts posts_file now randint gen =
     (case posts_file of
        None \<Rightarrow> raiseP (FileNotFoundError ''posts.txt'')
      | Some contents \<Rightarrow> bindP sc_connect (\<lambda>_. finallyP (load_body contents now randint gen) sc_close))"

section \<open>Round robin\<close>

lemma residue_count:
  "k < m \<Longrightarrow> length (filter (\<lambda>i. i mod m = k) [0..<n]) = n div m + (if k < n mod m then 1 else 0)"
proof (induction n)
  case (Suc n)
  then show ?case by (auto simp: mod_Suc div_Suc)
qed simp

lemma length_filter_map_upt: "length (filter P (map f [0..<n])) = length (filter (\<lambda>i. P (f i)) [0..<n])"
  by (simp add: filter_map comp_def)

text \<open>Dealing out \<open>n\<close> items to \<open>m\<close> distinct owners in turn gives each of them \<open>n div m\<close> or one more.\<close>

lemma round_robin_share:
  assumes "distinct us" and "u \<in> set us" and "\<forall>i < length ps. f (ps ! i) = us ! (i mod length us)"
  shows "length (filter (\<lambda>p. f p = u) ps) \<in> {length ps div length us, length ps div length us + 1}"
proof -
  obtain k where k: "k < length us" "us ! k = u" using assms(2) by (auto simp: in_set_conv_nth)
  have "filter (\<lambda>p. f p = u) ps = filter (\<lambda>p. f p = u) (map (\<lambda>i. ps ! i) [0..<length ps])" by (simp add: map_nth)
  then have "length (filter (\<lambda>p. f p = u) ps) = length (filter (\<lambda>i. f (ps ! i) = u) [0..<length ps])"
    by (simp only: length_filter_map_upt)
  also have "filter (\<lambda>i. f (ps ! i) = u) [0..<length ps] = filter (\<lambda>i. i mod length us = k) [0..<length ps]"
  proof (rule filter_cong [OF refl])
    fix i assume "i \<in> set [0..<length ps]"
    moreover have "i mod length us < length us" using k(1) by (intro mod_less_divisor) linarith
    ultimately show "(f (ps ! i) = u) = (i mod length us = k)"
      using assms(1,3) k by (auto simp: nth_eq_iff_index_eq)
  qed
  finally show ?thesis using residue_count [OF k(1), of "length ps"] by auto
qed

section \<open>The rows\<close>

lemma post_rows_ok:
  assumes "dt_ok now" and "dt_ok month_ago" and "us \<noteq> []"
    and "\<forall>i. 0 \<le> r i \<and> timestamp month_ago + r i * 1000000 \<le> timestamp now"
  shows "\<exists>rows. post_rows us month_ago r i ls = Inr rows \<and> map pr_text rows = ls
    \<and> (\<forall>k < length ls. pr_author (rows ! k) = us ! ((i + k) mod length us) \<and> dt_ok (pr_created (rows ! k))
         \<and> timestamp (pr_created (rows ! k)) = timestamp month_ago + r (i + k) * 1000000)"
proof (induction ls arbitrary: i)
  case (Cons l ls)
  from Cons [of "i + 1"] obtain rows where rows: "post_rows us month_ago r (i + 1) ls = Inr rows" "map pr_text rows = ls"
      "\<And>k. k < length ls \<Longrightarrow> pr_author (rows ! k) = us ! ((i + 1 + k) mod length us) \<and> dt_ok (pr_created (rows ! k))
         \<and> timestamp (pr_created (rows ! k)) = timestamp month_ago + r (i + 1 + k) * 1000000" by blast
  obtain d where d: "datetime_add month_ago (r i * 1000000) = Inr d"
    using datetime_add_ok [OF assms(2) assms(2) _ _ assms(1), of "r i * 1000000"] assms(4) by auto
  from datetime_add_props [OF d] have p: "dt_ok d" "timestamp d = timestamp month_ago + r i * 1000000" by simp_all
  let ?rows = "\<lparr>pr_author = us ! (i mod length us), pr_text = l, pr_created = d\<rparr> # rows"
  have "post_rows us month_ago r i (l # ls) = Inr ?rows" using d rows(1) by (simp add: bindR_def)
  moreover have "pr_author (?rows ! k) = us ! ((i + k) mod length us) \<and> dt_ok (pr_created (?rows ! k))
      \<and> timestamp (pr_created (?rows ! k)) = timestamp month_ago + r (i + k) * 1000000" if "k < length (l # ls)" for k
    using that rows(3) [of "k - 1"] p by (cases k) simp_all
  ultimately show ?case using rows(2) by (intro exI [of _ ?rows]) simp
qed simp

lemma insert_post_rows:
  assumes "distinct (map fst xs)" and "\<forall>i \<in> fst ` set xs. i \<notin> po_id ` set (so_posts t)"
    and "\<forall>x \<in> set xs. pr_author (snd x) \<in> us_id ` set (so_users t)"
  shows "all_rows insert_post_row xs t = Inr (t\<lparr>so_posts := so_posts t @ map (case_prod row_post) xs\<rparr>)"
  using assms
proof (induction xs arbitrary: t)
  case (Cons x xs)
  obtain i row where x: "x = (i, row)" by fastforce
  let ?t = "sql_insert_post (row_post i row) t"
  have "insert_post_row x t = Inr ?t" using Cons.prems x by (simp add: insert_post_row_def)
  moreover have "all_rows insert_post_row xs ?t = Inr (?t\<lparr>so_posts := so_posts ?t @ map (case_prod row_post) xs\<rparr>)"
    using Cons.prems x by (intro Cons.IH) (auto simp: sql_insert_post_def row_post_def)
  ultimately show ?case using x by (simp add: bindR_def sql_insert_post_def)
qed simp

section \<open>All posts are loaded\<close>

text \<open>The posts of a list of rows.\<close>

definition posts_of :: "(nat \<Rightarrow> uuid) \<Rightarrow> post_row list \<Rightarrow> post list" where
  "posts_of gen rows = map (case_prod row_post) (zip (map gen [0..<length rows]) rows)"

lemma length_posts_of [simp]: "length (posts_of gen rows) = length rows"
  by (simp add: posts_of_def)

lemma nth_posts_of: "i < length rows \<Longrightarrow> posts_of gen rows ! i = row_post (gen i) (rows ! i)"
  by (simp add: posts_of_def)

lemma ids_posts_of:
  "map po_id (posts_of gen rows) = map gen [0..<length rows]" "po_id ` set (posts_of gen rows) = gen ` {0..<length rows}"
proof -
  show "map po_id (posts_of gen rows) = map gen [0..<length rows]"
    by (rule nth_equalityI) (simp_all add: nth_posts_of row_post_def)
  from arg_cong [OF this, of set] show "po_id ` set (posts_of gen rows) = gen ` {0..<length rows}" by (simp only: set_map set_upt)
qed

lemma in_posts_of: "p \<in> set (posts_of gen rows) \<longleftrightarrow> (\<exists>i < length rows. p = row_post (gen i) (rows ! i))"
  by (metis in_set_conv_nth length_posts_of nth_posts_of)

lemma insert_posts_of:
  assumes "social_ok t" and "distinct (map gen [0..<length rows])" and "\<forall>i < length rows. gen i \<notin> po_id ` set (so_posts t)"
    and "\<forall>i < length rows. pr_author (rows ! i) \<in> us_id ` set (so_users t) \<and> dt_ok (pr_created (rows ! i))"
  shows "all_rows insert_post_row (zip (map gen [0..<length rows]) rows) t = Inr (t\<lparr>so_posts := so_posts t @ posts_of gen rows\<rparr>)"
    and "social_ok (t\<lparr>so_posts := so_posts t @ posts_of gen rows\<rparr>)"
proof -
  let ?xs = "zip (map gen [0..<length rows]) rows"
  have "map fst ?xs = map gen [0..<length rows]" by simp
  moreover from arg_cong [OF this, of set] have "fst ` set ?xs = gen ` {0..<length rows}" by (simp only: set_map set_upt)
  moreover have "\<forall>x \<in> set ?xs. pr_author (snd x) \<in> us_id ` set (so_users t)" using assms(4) by (auto simp: set_zip)
  ultimately show "all_rows insert_post_row ?xs t = Inr (t\<lparr>so_posts := so_posts t @ posts_of gen rows\<rparr>)"
    unfolding posts_of_def using assms(2,3) by (intro insert_post_rows) simp_all
  have "po_id ` set (so_posts t) \<inter> gen ` {0..<length rows} = {}"
    using assms(3) by (simp only: disjoint_iff) (metis atLeastLessThan_iff imageE)
  then have "distinct (map po_id (so_posts t @ posts_of gen rows))"
    using assms(1,2) ids_posts_of [of gen rows] by (simp add: social_ok_def)
  moreover have "\<forall>p \<in> set (posts_of gen rows). po_author p \<in> us_id ` set (so_users t) \<and> dt_ok (po_created p)"
    using assms(4) by (auto simp: in_posts_of row_post_def)
  ultimately show "social_ok (t\<lparr>so_posts := so_posts t @ posts_of gen rows\<rparr>)" using assms(1) by (auto simp: social_ok_def)
qed

lemma load_body_ok:
  assumes "sc_faults s = []" and "length (so_posts (sc_tables s)) \<le> 10000" and "user_ids = sort (map us_id (so_users (sc_tables s)))"
    and "user_ids \<noteq> []" and "datetime_add now (- MONTH) = Inr month_ago"
    and "post_rows user_ids month_ago (randint ((timestamp now - timestamp month_ago) div 1000000)) 0 (post_lines contents) = Inr rows"
    and "all_rows insert_post_row (zip (map gen [0..<length rows]) rows) (sc_tables s) = Inr t"
  shows "load_body contents now randint gen s = (Inr (Some (int (length rows), int (length (so_posts t)))), s\<lparr>sc_tables := t\<rparr>)"
proof -
  let ?xs = "zip (map gen [0..<length rows]) rows"
  have "insert_batches insert_post_row (row_batches POSTS_BATCH_SIZE ?xs) 0 s = (Inr (int (length rows)), s\<lparr>sc_tables := t\<rparr>)"
    using insert_batches_ok [of s insert_post_row "row_batches POSTS_BATCH_SIZE ?xs" t 0] assms(1,7)
    by (simp add: POSTS_BATCH_SIZE_def)
  then show ?thesis
    using assms(1,2,4) unfolding load_body_def Let_def
    by (simp add: count_posts_def assms(5,6) flip: assms(3))
qed

text \<open>When the script does not find the posts loaded already and no call fails, every line that is not blank
  becomes one post, in the order of the file; the authors take turns in the order of their identifiers, so each of them gets
  the same number of posts or one more; every post is dated within the last thirty days; the constraints of the tables
  hold, and the connection is closed.\<close>

theorem load_posts_round_robin:
  assumes "social_ok (sc_tables s)" and "sc_faults s = []" and "length (so_posts (sc_tables s)) \<le> 10000"
    and "so_users (sc_tables s) \<noteq> []" and "dt_ok now" and month: "datetime_add now (- MONTH) = Inr month_ago"
    and draws: "\<forall>span i. 0 \<le> span \<longrightarrow> 0 \<le> randint span i \<and> randint span i \<le> span"
    and ls: "ls = post_lines contents" and "distinct (map gen [0..<length ls])"
    and "\<forall>i < length ls. gen i \<notin> po_id ` set (so_posts (sc_tables s))"
    and users: "user_ids = sort (map us_id (so_users (sc_tables s)))"
  shows "\<exists>s' posts n. load_posts (Some contents) now randint gen s = (Inr (Some (int (length ls), n)), s') \<and> sc_open s' = sc_open s
    \<and> sc_tables s' = (sc_tables s)\<lparr>so_posts := so_posts (sc_tables s) @ posts\<rparr> \<and> social_ok (sc_tables s')
    \<and> map po_text posts = ls \<and> (\<forall>i < length ls. po_author (posts ! i) = user_ids ! (i mod length user_ids))
    \<and> (\<forall>p \<in> set posts. month_ago \<le> po_created p \<and> po_created p \<le> now)
    \<and> (\<forall>u \<in> us_id ` set (so_users (sc_tables s)).
         length (filter (\<lambda>p. po_author p = u) posts) \<in> {length ls div length user_ids, length ls div length user_ids + 1})"
proof -
  let ?t = "sc_tables s" and ?s1 = "s\<lparr>sc_open := sc_open s + 1\<rparr>"
  have ago: "dt_ok month_ago" "timestamp month_ago = timestamp now - 2592000 * 1000000"
    using datetime_add_props [OF month] by (simp_all add: MONTH_def)
  have span: "(timestamp now - timestamp month_ago) div 1000000 = 2592000" using ago(2) by simp
  have us: "distinct user_ids" "set user_ids = us_id ` set (so_users ?t)"
    using assms(1) unfolding users by (simp_all add: social_ok_def)
  then have ne: "user_ids \<noteq> []" using assms(4) by auto
  have "\<forall>i. 0 \<le> randint 2592000 i \<and> timestamp month_ago + randint 2592000 i * 1000000 \<le> timestamp now"
    using draws ago(2) by simp
  from post_rows_ok [OF assms(5) ago(1) ne this, of 0 ls] this obtain rows where
    rows: "post_rows user_ids month_ago (randint 2592000) 0 ls = Inr rows" "map pr_text rows = ls"
      "\<And>k. k < length ls \<Longrightarrow> pr_author (rows ! k) = user_ids ! (k mod length user_ids) \<and> dt_ok (pr_created (rows ! k))
         \<and> timestamp month_ago \<le> timestamp (pr_created (rows ! k)) \<and> timestamp (pr_created (rows ! k)) \<le> timestamp now" by auto
  have len: "length rows = length ls" using rows(2) by auto
  let ?posts = "posts_of gen rows"
  let ?t' = "?t\<lparr>so_posts := so_posts ?t @ ?posts\<rparr>"
  have "user_ids ! (i mod length user_ids) \<in> us_id ` set (so_users ?t)" for i
    unfolding us(2) [symmetric] using ne by (intro nth_mem mod_less_divisor) simp
  with insert_posts_of [OF assms(1), of gen rows] assms(9,10) rows(3) len
  have ins: "all_rows insert_post_row (zip (map gen [0..<length rows]) rows) ?t = Inr ?t'" and ok: "social_ok ?t'" by simp_all
  from load_body_ok [of ?s1 user_ids now month_ago randint contents rows gen ?t'] assms(2,3) users ne month rows(1) ins
  have body: "load_body contents now randint gen ?s1 = (Inr (Some (int (length ls), int (length (so_posts ?t')))), ?s1\<lparr>sc_tables := ?t'\<rparr>)"
    unfolding span ls [symmetric] len by simp
  have run: "load_posts (Some contents) now randint gen s = (Inr (Some (int (length ls), int (length (so_posts ?t')))), s\<lparr>sc_tables := ?t'\<rparr>)"
    unfolding load_posts_def option.case by (rule session_ok, rule assms(2), rule body)
  have texts: "map po_text ?posts = ls" using rows(2) by (auto simp: list_eq_iff_nth_eq nth_posts_of row_post_def)
  have authors: "po_author (?posts ! i) = user_ids ! (i mod length user_ids)" if "i < length ls" for i
    using that rows(3) len by (simp add: nth_posts_of row_post_def)
  have times: "month_ago \<le> po_created p \<and> po_created p \<le> now" if "p \<in> set ?posts" for p
  proof -
    from that obtain i where i: "i < length ls" "po_created p = pr_created (rows ! i)" by (auto simp: in_posts_of row_post_def len)
    then have "dt_ok (po_created p)" "timestamp month_ago \<le> timestamp (po_created p)" "timestamp (po_created p) \<le> timestamp now"
      using rows(3) [OF i(1)] by simp_all
    then show ?thesis
      using timestamp_less(1) [of "po_created p" month_ago] timestamp_less(1) [of now "po_created p"] ago(1) assms(5) by (simp add: not_less [symmetric])
  qed
  have "length (filter (\<lambda>p. po_author p = u) ?posts) \<in> {length ls div length user_ids, length ls div length user_ids + 1}"
    if "u \<in> us_id ` set (so_users ?t)" for u
    using round_robin_share [OF us(1), of u ?posts po_author] that us(2) authors len by simp
  then show ?thesis using run ok texts authors times by (intro exI [of _ "s\<lparr>sc_tables := ?t'\<rparr>"] exI [of _ ?posts]) auto
qed

section \<open>Runs\<close>

definition one_user_script :: script where
  "one_user_script = \<lparr>sc_tables = \<lparr>so_users = [\<lparr>us_id = 7, us_email = ''a'', us_password_hash = ''x'', us_first_name = ''A'', us_last_name = ''B'',
     us_birthdate = ''1990-01-01'', us_gender = ''M'', us_interests = None, us_city = ''Omsk''\<rparr>], so_posts = [], so_friends = []\<rparr>,
     sc_faults = [], sc_open = 0\<rparr>"

lemma load_posts_round_robin_witness:
  "\<exists>s' posts n. load_posts (Some (''one'' @ [CHR 0x0A, CHR 0x0A] @ '' two '' @ [CHR 0x0A])) (Datetime 2024 3 1 12 0 0 5) (\<lambda>span i. span) (\<lambda>i. of_nat i) one_user_script
      = (Inr (Some (2, n)), s') \<and> so_posts (sc_tables s') = posts \<and> map po_text posts = [''one'', ''two'']
    \<and> (\<forall>p \<in> set posts. po_created p \<le> Datetime 2024 3 1 12 0 0 5 \<and> Datetime 2024 1 31 12 0 0 5 \<le> po_created p)"
proof -
  have ls: "[''one'', ''two''] = post_lines (''one'' @ [CHR 0x0A, CHR 0x0A] @ '' two '' @ [CHR 0x0A])" by code_simp
  have month: "datetime_add (Datetime 2024 3 1 12 0 0 5) (- MONTH) = Inr (Datetime 2024 1 31 12 0 0 5)" by code_simp
  have ok: "social_ok (sc_tables one_user_script)" by (simp add: one_user_script_def social_ok_def)
  have dt: "dt_ok (Datetime 2024 3 1 12 0 0 5)" by code_simp
  from load_posts_round_robin [OF ok _ _ _ dt month _ ls, of "\<lambda>span i. span" "\<lambda>i. of_nat i"]
  show ?thesis by (auto simp: one_user_script_def)
qed

lemma load_posts_missing: "load_posts None now randint gen s = (Inl (FileNotFoundError ''posts.txt''), s)"
  by (simp add: load_posts_def)

end
