(* ===== verification/Seed_Dialogs.thy ===== *)
theory Seed_Dialogs
  imports Dialogs_Contract
begin

text \<open>
  \<^verbatim>\<open>scripts/seed_dialogs_tarantool.py\<close>: the same messages for both storages of dialogs.  The new users, what the
  generator draws, the message identifiers and the clocks are arguments; message \<open>k\<close> is stored with the identifier
  \<open>mid k\<close> at the time \<open>now k p\<close> of the server \<open>p\<close>.
\<close>

section \<open>The script\<close>

type_synonym seed_message = "uuid \<times> uuid \<times> string"

text \<open>\<open>choice sender i\<close> is the recipient drawn in round \<open>i\<close> of \<open>sender\<close>.\<close>

definition build_messages :: "uuid list \<Rightarrow> (uuid \<Rightarrow> nat \<Rightarrow> uuid) \<Rightarrow> int \<Rightarrow> seed_message list" where
  "build_messages users choice msgs_per_user =
     concat (map (\<lambda>sender.
       map (\<lambda>i. (sender, choice sender i, ''seed msg #'' @ nat_str i @ '' from '' @ uuid_str sender))
         (filter (\<lambda>i. choice sender i \<noteq> sender) [0..<nat msgs_per_user])) users)"

text \<open>The loop over the messages, numbered for the arguments above.\<close>

fun for_messages :: "(nat \<Rightarrow> seed_message \<Rightarrow> ('s, unit) prog) \<Rightarrow> nat \<Rightarrow> seed_message list \<Rightarrow> ('s, unit) prog" where
  "for_messages f k [] = returnP ()"
| "for_messages f k (m # ms) = bindP (f k m) (\<lambda>_. for_messages f (Suc k) ms)"

definition tnt_seed_message :: "('c \<Rightarrow> string \<Rightarrow> tnt list \<Rightarrow> ('t, tnt list) prog) \<Rightarrow> 'c \<Rightarrow> nat \<Rightarrow> seed_message \<Rightarrow> ('t, unit) prog" where
  "tnt_seed_message conn_call conn = (\<lambda>_ (from_id, to_id, text).
     bindP (conn_call conn ''dialog_send'' [TStr (uuid_str from_id), TStr (uuid_str to_id), TStr text]) (\<lambda>_. returnP ()))"

definition seed_tarantool :: "settings \<Rightarrow> (string \<Rightarrow> int \<Rightarrow> 'c res) \<Rightarrow> ('c \<Rightarrow> unit res) \<Rightarrow>
    ('c \<Rightarrow> string \<Rightarrow> tnt list \<Rightarrow> ('t, tnt list) prog) \<Rightarrow> seed_message list \<Rightarrow> ('t, unit) prog" where
  "seed_tarantool S connect disconnect conn_call messages =
     bindP (liftP (connect (tarantool_host S) (tarantool_port S))) (\<lambda>conn.
       finallyP (for_messages (tnt_seed_message conn_call conn) 0 messages) (liftP (disconnect conn)))"

definition seed_pg_message :: "('p \<Rightarrow> bool) \<Rightarrow> (nat \<Rightarrow> 'p \<Rightarrow> int) \<Rightarrow> (nat \<Rightarrow> uuid) \<Rightarrow> 'p list \<Rightarrow> nat \<Rightarrow> seed_message \<Rightarrow> ('p dialogs, unit) prog" where
  "seed_pg_message up now mid pools k = (\<lambda>(from_id, to_id, text).
     let cid = compute_chat_id from_id to_id in
     bindP (liftP (shard_for_chat cid (int (length pools)))) (\<lambda>shard.
       let p = pools ! nat shard in
       exec_insert up (new_message (mid k) cid from_id to_id text (now k p)) p))"

definition seed_postgres :: "settings \<Rightarrow> (string \<Rightarrow> 'p res) \<Rightarrow> ('p \<Rightarrow> unit res) \<Rightarrow> ('p \<Rightarrow> bool) \<Rightarrow> (nat \<Rightarrow> 'p \<Rightarrow> int) \<Rightarrow> (nat \<Rightarrow> uuid) \<Rightarrow>
    seed_message list \<Rightarrow> ('p dialogs, unit) prog" where
  "seed_postgres S create_pool close up now mid messages =
     bindP (liftP (map_res create_pool (parse_shard_dsns (dialogs_shards S)))) (\<lambda>pools.
       finallyP (for_messages (seed_pg_message up now mid pools) 0 messages) (forP pools (\<lambda>p. liftP (close p))))"

definition on_pg :: "('p dialogs, 'a) prog \<Rightarrow> (('p, 't) stores, 'a) prog" where
  "on_pg m s = (case m (st_pg s) of (x, d) \<Rightarrow> (x, s\<lparr>st_pg := d\<rparr>))"

definition on_tnt :: "('t, 'a) prog \<Rightarrow> (('p, 't) stores, 'a) prog" where
  "on_tnt m s = (case m (st_tnt s) of (x, t) \<Rightarrow> (x, s\<lparr>st_tnt := t\<rparr>))"

text \<open>What the two drivers contribute.\<close>

record ('c, 'p, 't) seed_env =
  se_connect :: "string \<Rightarrow> int \<Rightarrow> 'c res"
  se_disconnect :: "'c \<Rightarrow> unit res"
  se_call :: "'c \<Rightarrow> string \<Rightarrow> tnt list \<Rightarrow> ('t, tnt list) prog"
  se_create_pool :: "string \<Rightarrow> 'p res"
  se_close :: "'p \<Rightarrow> unit res"
  se_up :: "'p \<Rightarrow> bool"
  se_now :: "nat \<Rightarrow> 'p \<Rightarrow> int"
  se_mid :: "nat \<Rightarrow> uuid"

datatype seed_backend = Both | Postgres | Tarantool

definition seed_dialogs :: "settings \<Rightarrow> ('c, 'p, 't) seed_env \<Rightarrow> (nat \<Rightarrow> uuid) \<Rightarrow> (uuid \<Rightarrow> nat \<Rightarrow> uuid) \<Rightarrow> int \<Rightarrow> int \<Rightarrow> seed_backend \<Rightarrow>
    (('p, 't) stores, unit) prog" where
  "seed_dialogs S E new_user choice users msgs_per_user backend =
     (let messages = build_messages (map new_user [0..<nat users]) choice msgs_per_user in
      bindP (if backend \<in> {Both, Tarantool}
             then on_tnt (seed_tarantool S (se_connect E) (se_disconnect E) (se_call E) messages) else returnP ()) (\<lambda>_.
        if backend \<in> {Both, Postgres}
        then on_pg (seed_postgres S (se_create_pool E) (se_close E) (se_up E) (se_now E) (se_mid E) messages) else returnP ()))"

section \<open>The messages\<close>

lemma build_messages_props:
  assumes "(f, t, x) \<in> set (build_messages users choice n)"
  shows "f \<in> set users" "f \<noteq> t"
  using assms by (auto simp: build_messages_def)

text \<open>A draw of the sender itself is dropped, so the script writes fewer messages than users times messages per user.\<close>

lemma build_messages_count:
  "length (build_messages users choice n) + sum_list (map (\<lambda>u. length (filter (\<lambda>i. choice u i = u) [0..<nat n])) users)
     = length users * nat n"
proof (induction users)
  case (Cons u users)
  have "length (filter (\<lambda>i. choice u i \<noteq> u) [0..<nat n]) + length (filter (\<lambda>i. choice u i = u) [0..<nat n]) = nat n"
    using sum_length_filter_compl [of "\<lambda>i. choice u i = u" "[0..<nat n]"] by simp
  with Cons show ?case by (simp add: build_messages_def)
qed (simp add: build_messages_def)

section \<open>PostgreSQL\<close>

text \<open>A message without its time.\<close>

definition dto_message :: "dialog_dto \<Rightarrow> seed_message" where
  "dto_message d = (from_user_id d, to_user_id d, dto_text d)"

definition row_message :: "message_row \<Rightarrow> seed_message" where
  "row_message r = (sender_id r, recipient_id r, body r)"

lemma dto_row_message: "dto_message (row_to_dto r) = row_message r"
  by (simp add: dto_message_def row_to_dto_def row_message_def)

definition chat_of :: "seed_message \<Rightarrow> byte list" where
  "chat_of m = compute_chat_id (fst m) (fst (snd m))"

text \<open>A cluster outside of resharding, whose servers all answer.\<close>

definition plain_cluster :: "('p \<Rightarrow> bool) \<Rightarrow> 'p cluster \<Rightarrow> bool" where
  "plain_cluster up c \<longleftrightarrow> cl_pools c \<noteq> [] \<and> distinct (cl_pools c) \<and> (\<forall>p \<in> set (cl_pools c). up p)
     \<and> cl_read_n c = int (length (cl_pools c)) \<and> cl_write_n c = int (length (cl_pools c))"

lemma plain_cluster_ok: "plain_cluster up c \<Longrightarrow> cluster_ok c"
  by (simp add: plain_cluster_def cluster_ok_def Suc_le_eq)

lemma plain_write_pools:
  assumes "plain_cluster up (dg_cluster d)" and "8 \<le> length cid"
  shows "write_pools d cid = [read_pool d cid]" "read_pool d cid \<in> set (cl_pools (dg_cluster d))"
    "read_pool d cid = cl_pools (dg_cluster d) ! chat_home cid (int (length (cl_pools (dg_cluster d))))"
  using assms cluster_ok_homes(1) [OF plain_cluster_ok [OF assms(1)] assms(2)]
  by (simp_all add: write_pools_def read_pool_def plain_cluster_def Let_def)

text \<open>The script stores a message where the repository does.\<close>

lemma seed_pg_message_send:
  assumes "plain_cluster up (dg_cluster d)"
  shows "seed_pg_message up now mid (cl_pools (dg_cluster d)) k (f, t, x) d = pg_send up (now k) (mid k) f t x d"
proof -
  let ?cid = "compute_chat_id f t" and ?n = "int (length (cl_pools (dg_cluster d)))"
  have "0 < ?n" using assms by (simp add: plain_cluster_def)
  then have "shard_for_chat ?cid ?n = Inr (int (chat_home ?cid ?n))" by (intro sfc.route_home) simp_all
  moreover have "write_pools_for_chat (dg_cluster d) ?cid = Inr [read_pool d ?cid]"
    using write_pools_for_chat_eq [OF plain_cluster_ok [OF assms]] plain_write_pools(1) [OF assms] by simp
  ultimately show ?thesis
    using plain_write_pools(3) [OF assms, of ?cid]
    by (simp add: seed_pg_message_def pg_send_def Let_def bindP_def split: prod.split sum.split)
qed

definition pg_seeded :: "(nat \<Rightarrow> 'p \<Rightarrow> int) \<Rightarrow> (nat \<Rightarrow> uuid) \<Rightarrow> seed_message list \<Rightarrow> 'p dialogs \<Rightarrow> bool" where
  "pg_seeded now mid ms d \<longleftrightarrow> dialogs_ok d
     \<and> (\<forall>p. \<forall>r \<in> set (sh_rows (dg_shard d p)). (\<exists>j < length ms. message_id r = mid j) \<and> created_at r \<le> now (length ms) p)
     \<and> (\<forall>a b. map row_message (chat_log d a b) = rev (filter (\<lambda>m. chat_of m = compute_chat_id a b) ms))"

lemma pg_seeded_step:
  assumes "pg_seeded now mid ms d" and cl: "plain_cluster up (dg_cluster d)" and "\<forall>j < length ms. mid j \<noteq> mid (length ms)"
    and mono: "\<And>k p. now k p \<le> now (Suc k) p"
  shows "\<exists>d'. pg_send up (now (length ms)) (mid (length ms)) f t x d = (Inr (), d') \<and> dg_cluster d' = dg_cluster d
    \<and> pg_seeded now mid (ms @ [(f, t, x)]) d'"
proof -
  let ?k = "length ms" and ?cid = "compute_chat_id f t"
  let ?p = "read_pool d ?cid" and ?r = "new_message (mid ?k) ?cid f t x (now ?k (read_pool d ?cid))"
  have ok: "dialogs_ok d" and logs: "\<And>a b. map row_message (chat_log d a b) = rev (filter (\<lambda>m. chat_of m = compute_chat_id a b) ms)"
    and rows: "\<And>p r. r \<in> set (sh_rows (dg_shard d p)) \<Longrightarrow> (\<exists>j < ?k. message_id r = mid j) \<and> created_at r \<le> now ?k p"
    using assms(1) by (simp_all add: pg_seeded_def)
  have wp: "write_pools d ?cid = [?p]" "?p \<in> set (cl_pools (dg_cluster d))" using plain_write_pools [OF cl] by simp_all
  have c: "distinct (cl_pools (dg_cluster d))" "cl_dual_write (dg_cluster d) \<or> cl_read_n (dg_cluster d) = cl_write_n (dg_cluster d)"
      "\<forall>p \<in> set (write_pools d ?cid). up p"
    using cl wp by (auto simp: plain_cluster_def)
  have fresh: "\<forall>r \<in> set (sh_rows (dg_shard d ?p)). message_id r \<noteq> mid ?k \<and> (chat_id r = ?cid \<longrightarrow> created_at r \<le> now ?k ?p)"
    using rows assms(3) by metis
  note sl = pg_send_log [where up = up and now = "now ?k" and mid = "mid ?k", OF ok c fresh]
  note send = sl(1) [where tx = x] and same = sl(3) [where tx = x] and log = sl(5) [where tx = x]
  let ?d' = "fold (stored (mid ?k) f t x (now ?k)) (write_pools d ?cid) d"
  have sh: "dg_shard ?d' q = (if q = ?p then insert_message ?r (dg_shard d ?p) else dg_shard d q)" for q using sl(4) [where tx = x and q = q] wp(1) by simp
  have "map row_message (chat_log ?d' a b) = rev (filter (\<lambda>m. chat_of m = compute_chat_id a b) (ms @ [(f, t, x)]))" for a b
  proof (cases "compute_chat_id a b = ?cid")
    case True
    then have "chat_log ?d' a b = chat_log ?d' f t" "chat_log d a b = chat_log d f t" by (simp_all add: chat_log_def)
    then show ?thesis using log logs [of f t] True by (simp add: chat_of_def row_message_def new_message_def)
  next
    case False
    then have "chat_log ?d' a b = chat_log d a b"
      using sh chat_rows_desc_insert_other [of ?r "compute_chat_id a b"] same by (simp add: chat_log_def Let_def new_message_def)
    then show ?thesis using logs [of a b] False by (simp add: chat_of_def)
  qed
  moreover have "(\<exists>j < Suc ?k. message_id r = mid j) \<and> created_at r \<le> now (Suc ?k) q" if "r \<in> set (sh_rows (dg_shard ?d' q))" for q r
    using that rows [of r q] mono [of ?k q]
    by (auto simp: sh insert_message_rows new_message_def split: if_splits intro: less_SucI order_trans)
  moreover have "dialogs_ok ?d'" using pg_send_preserves_ok [OF ok send] .
  ultimately show ?thesis using send by (intro exI [of _ ?d']) (simp add: pg_seeded_def)
qed

lemma seed_pg_messages:
  assumes "pg_seeded now mid ms d" and "plain_cluster up (dg_cluster d)" and "inj_on mid {..<length ms + length ms'}"
    and "\<And>k p. now k p \<le> now (Suc k) p"
  shows "\<exists>d'. for_messages (seed_pg_message up now mid (cl_pools (dg_cluster d))) (length ms) ms' d = (Inr (), d')
    \<and> dg_cluster d' = dg_cluster d \<and> pg_seeded now mid (ms @ ms') d'"
  using assms(1-3)
proof (induction ms' arbitrary: ms d)
  case (Cons m ms')
  obtain f t x where m: "m = (f, t, x)" by (metis prod_cases3)
  have "\<forall>j < length ms. mid j \<noteq> mid (length ms)" using inj_onD [OF Cons.prems(3), of _ "length ms"] by fastforce
  from pg_seeded_step [OF Cons.prems(1,2) this assms(4), of f t x] obtain d1 where
    d1: "pg_send up (now (length ms)) (mid (length ms)) f t x d = (Inr (), d1)" "dg_cluster d1 = dg_cluster d" "pg_seeded now mid (ms @ [m]) d1"
    unfolding m by blast
  from Cons.IH [OF d1(3)] Cons.prems(2,3) d1(2) show ?case
    using seed_pg_message_send [OF Cons.prems(2), of now mid "length ms" f t x] d1(1) by (simp add: m)
qed simp

section \<open>Tarantool\<close>

text \<open>A sequence of sends needs two more facts about the stored functions: a message changes no other dialog, and the
  clock of the server does not run backwards.\<close>

locale dialog_udfs_run = dialog_udfs +
  assumes dialog_send_frame: "conn_call c ''dialog_send'' [TStr a, TStr b, TStr x] s = (Inr r, s') \<Longrightarrow> {y, z} \<noteq> {a, b} \<Longrightarrow>
      messages s' y z = messages s y z"
    and dialog_send_clock: "conn_call c ''dialog_send'' [TStr a, TStr b, TStr x] s = (Inr r, s') \<Longrightarrow> clock s \<le> clock s'"

interpretation tt_run: dialog_udfs_run tt_call tt_pair tt_now "\<lambda>_. True"
  by unfold_locales (auto simp: tt_call_def tt_pair_def)

definition pair_of :: "seed_message \<Rightarrow> uuid set" where
  "pair_of m = {fst m, fst (snd m)}"

definition tnt_seeded :: "('t \<Rightarrow> string \<Rightarrow> string \<Rightarrow> tnt_message list) \<Rightarrow> ('t \<Rightarrow> int) \<Rightarrow> ('t \<Rightarrow> bool) \<Rightarrow> seed_message list \<Rightarrow> 't \<Rightarrow> bool" where
  "tnt_seeded messages clock answers ms s \<longleftrightarrow> answers s
     \<and> (\<forall>a b. map (dto_message \<circ> tnt_dto) (messages s (uuid_str a) (uuid_str b)) = rev (filter (\<lambda>m. pair_of m = {a, b}) ms)
          \<and> (\<forall>m \<in> set (messages s (uuid_str a) (uuid_str b)). uuid_message m \<and> tm_created_at m \<le> clock s))"

context dialog_udfs_run
begin

lemma tnt_seeded_step:
  assumes "tnt_seeded messages clock answers ms s" and "f \<noteq> t"
  shows "\<exists>s'. tnt_seed_message conn_call c k (f, t, x) s = (Inr (), s') \<and> tnt_seeded messages clock answers (ms @ [(f, t, x)]) s'"
proof -
  let ?f = "uuid_str f" and ?t = "uuid_str t"
  have inv: "answers s" "\<And>a b. map (dto_message \<circ> tnt_dto) (messages s (uuid_str a) (uuid_str b)) = rev (filter (\<lambda>m. pair_of m = {a, b}) ms)"
      "\<And>a b m. m \<in> set (messages s (uuid_str a) (uuid_str b)) \<Longrightarrow> uuid_message m \<and> tm_created_at m \<le> clock s"
    using assms(1) by (simp_all add: tnt_seeded_def)
  have "?f \<noteq> ?t" using assms(2) by (simp add: uuid_str_inj)
  from dialog_send [OF inv(1) this, of c x] inv(3) obtain r s' i where
    s': "conn_call c ''dialog_send'' [TStr ?f, TStr ?t, TStr x] s = (Inr r, s')" "answers s'"
      "messages s' ?f ?t = \<lparr>tm_id = i, tm_from = ?f, tm_to = ?t, tm_text = x, tm_created_at = clock s\<rparr> # messages s ?f ?t"
    by blast
  note clk = dialog_send_clock [OF s'(1)]
  have "map (dto_message \<circ> tnt_dto) (messages s' (uuid_str a) (uuid_str b)) = rev (filter (\<lambda>m. pair_of m = {a, b}) (ms @ [(f, t, x)]))
      \<and> (\<forall>m \<in> set (messages s' (uuid_str a) (uuid_str b)). uuid_message m \<and> tm_created_at m \<le> clock s')" for a b
  proof (cases "{a, b} = {f, t}")
    case True
    then have "messages s' (uuid_str a) (uuid_str b) = messages s' ?f ?t" "messages s (uuid_str a) (uuid_str b) = messages s ?f ?t"
      using messages_sym by (auto simp: doubleton_eq_iff)
    moreover have "uuid_message m \<and> tm_created_at m \<le> clock s'" if "m \<in> set (messages s ?f ?t)" for m
      using inv(3) [OF that] clk by simp
    ultimately show ?thesis using s'(3) inv(2) [of a b] clk True
      by (simp add: pair_of_def tnt_dto_def dto_message_def UUID_str uuid_message_def)
  next
    case False
    then have "{uuid_str a, uuid_str b} \<noteq> {?f, ?t}" by (auto simp: doubleton_eq_iff uuid_str_inj)
    from dialog_send_frame [OF s'(1) this] show ?thesis
      using inv(2) [of a b] inv(3) [of _ a b] clk False by (force simp: pair_of_def)
  qed
  then show ?thesis using s'(1,2) by (intro exI [of _ s']) (simp add: tnt_seed_message_def tnt_seeded_def)
qed

lemma tnt_seed_messages:
  assumes "tnt_seeded messages clock answers ms s" and "\<forall>(f, t, x) \<in> set ms'. f \<noteq> t"
  shows "\<exists>s'. for_messages (tnt_seed_message conn_call c) k ms' s = (Inr (), s') \<and> tnt_seeded messages clock answers (ms @ ms') s'"
  using assms
proof (induction ms' arbitrary: ms s k)
  case (Cons m ms')
  obtain f t x where m: "m = (f, t, x)" by (metis prod_cases3)
  from tnt_seeded_step [OF Cons.prems(1), of f t c k x] Cons.prems(2) obtain s1 where
    s1: "tnt_seed_message conn_call c k m s = (Inr (), s1)" "tnt_seeded messages clock answers (ms @ [m]) s1" unfolding m by auto
  from Cons.IH [OF s1(2), of "Suc k"] Cons.prems(2) s1(1) show ?case by simp
qed simp

end

section \<open>Both storages hold the same dialogs\<close>

definition clean_stores :: "('t \<Rightarrow> string \<Rightarrow> string \<Rightarrow> tnt_message list) \<Rightarrow> ('t \<Rightarrow> bool) \<Rightarrow> ('p, 't) stores \<Rightarrow> bool" where
  "clean_stores messages answers s \<longleftrightarrow> (\<forall>p. dg_shard (st_pg s) p = empty_shard) \<and> answers (st_tnt s)
     \<and> (\<forall>x y. messages (st_tnt s) x y = [])"

text \<open>The drivers connect, every call answers and the clocks do not run backwards.\<close>

definition seed_env_ok :: "settings \<Rightarrow> ('c, 'p, 't) seed_env \<Rightarrow> 'p list \<Rightarrow> bool" where
  "seed_env_ok S E pools \<longleftrightarrow> (\<exists>c. se_connect E (tarantool_host S) (tarantool_port S) = Inr c) \<and> (\<forall>c. se_disconnect E c = Inr ())
     \<and> map_res (se_create_pool E) (parse_shard_dsns (dialogs_shards S)) = Inr pools \<and> (\<forall>p. se_close E p = Inr ())
     \<and> (\<forall>k p. se_now E k p \<le> se_now E (Suc k) p)"

lemma seed_postgres_ok:
  assumes "seed_env_ok S E pools" and "plain_cluster (se_up E) (dg_cluster d)" and "cl_pools (dg_cluster d) = pools"
    and "\<forall>p. dg_shard d p = empty_shard" and "inj_on (se_mid E) {..<length ms}"
  shows "\<exists>d'. seed_postgres S (se_create_pool E) (se_close E) (se_up E) (se_now E) (se_mid E) ms d = (Inr (), d')
    \<and> dg_cluster d' = dg_cluster d \<and> pg_seeded (se_now E) (se_mid E) ms d'"
proof -
  have "pg_seeded (se_now E) (se_mid E) [] d"
    using assms(2,4) plain_cluster_ok [OF assms(2)]
    by (simp add: pg_seeded_def dialogs_ok_def chat_log_def Let_def empty_shard_def shard_ok_def chat_rows_desc_def)
  from seed_pg_messages [OF this assms(2), of ms] assms(1,5) obtain d' where
    d': "for_messages (seed_pg_message (se_up E) (se_now E) (se_mid E) pools) 0 ms d = (Inr (), d')" "dg_cluster d' = dg_cluster d"
      "pg_seeded (se_now E) (se_mid E) ms d'"
    unfolding assms(3) by (auto simp: seed_env_ok_def)
  have "forP pools (\<lambda>p. liftP (se_close E p)) d' = (Inr (), d')" 
    using assms(1) forP_total [of pools "\<lambda>p. liftP (se_close E p)" "\<lambda>p d. d" d'] fold_invariant [of "\<lambda>d. d = d'" d' pools "\<lambda>p d. d"]
    by (simp add: seed_env_ok_def)
  then show ?thesis using assms(1) d' by (simp add: seed_postgres_def seed_env_ok_def finallyP_def)
qed

lemma seed_tarantool_ok:
  assumes "dialog_udfs_run (se_call E) messages clock answers" and "seed_env_ok S E pools" and "answers t"
    and "\<forall>x y. messages t x y = []" and "\<forall>(f, u, x) \<in> set ms. f \<noteq> u"
  shows "\<exists>t'. seed_tarantool S (se_connect E) (se_disconnect E) (se_call E) ms t = (Inr (), t') \<and> tnt_seeded messages clock answers ms t'"
proof -
  have "tnt_seeded messages clock answers [] t" using assms(3,4) by (simp add: tnt_seeded_def)
  from dialog_udfs_run.tnt_seed_messages [OF assms(1) this assms(5)] assms(2) show ?thesis
    by (fastforce simp: seed_tarantool_def seed_env_ok_def finallyP_def)
qed

text \<open>C17: from clean volumes, with drivers that answer, the script fills both storages so that they show the same
  dialogs: every page of the dialog of two users, from the PostgreSQL repository with the configured shards and from the Tarantool
  repository, holds the same messages of the data set between these users, newest first, provided that the chat identifier of the two
  users is no other pair's.\<close>

theorem seed_backends_agree:
  assumes "dialog_udfs_run (se_call E) messages clock answers" and "clean_stores messages answers s"
    and "plain_cluster (se_up E) (dg_cluster (st_pg s))" and "seed_env_ok S E (cl_pools (dg_cluster (st_pg s)))"
    and ms: "ms = build_messages (map new_user [0..<nat users]) choice msgs_per_user"
    and "\<forall>m \<in> set ms. chat_of m = compute_chat_id a b \<longrightarrow> pair_of m = {a, b}"
    and "inj_on (se_mid E) {..<length ms}" and "tp_conn pool = Some c" and "1 \<le> lim" and "lim \<le> 500" and "0 \<le> off"
  shows "\<exists>s'. seed_dialogs S E new_user choice users msgs_per_user Both s = (Inr (), s')
    \<and> (\<forall>repo \<in> {PgDialogRepository, TarantoolDialogRepository pool}.
         \<exists>page. repo_list (se_call E) (se_up E) repo a b lim off s' = (Inr page, s')
           \<and> map dto_message page = take (nat lim) (drop (nat off) (rev (filter (\<lambda>m. pair_of m = {a, b}) ms))))"
proof -
  have ne: "\<forall>(f, u, x) \<in> set ms. f \<noteq> u" using build_messages_props(2) unfolding ms by blast
  obtain t' where t': "seed_tarantool S (se_connect E) (se_disconnect E) (se_call E) ms (st_tnt s) = (Inr (), t')"
      "tnt_seeded messages clock answers ms t'"
    using seed_tarantool_ok [OF assms(1,4) _ _ ne, of "st_tnt s"] assms(2) by (auto simp: clean_stores_def)
  obtain d' where d': "seed_postgres S (se_create_pool E) (se_close E) (se_up E) (se_now E) (se_mid E) ms (st_pg s) = (Inr (), d')"
      "dg_cluster d' = dg_cluster (st_pg s)" "pg_seeded (se_now E) (se_mid E) ms d'"
    using seed_postgres_ok [OF assms(4,3) refl _ assms(7)] assms(2) by (auto simp: clean_stores_def)
  let ?s' = "\<lparr>st_pg = d', st_tnt = t'\<rparr>" and ?log = "rev (filter (\<lambda>m. pair_of m = {a, b}) ms)"
  have run: "seed_dialogs S E new_user choice users msgs_per_user Both s = (Inr (), ?s')"
    using t'(1) d'(1) unfolding seed_dialogs_def Let_def ms [symmetric] by (cases s) (simp add: on_tnt_def on_pg_def)
  have "pg_serves \<lparr>pe_up = se_up E, pe_now = se_now E 0, pe_mid = se_mid E 0\<rparr> a b d'"
    using plain_write_pools(2) [of "se_up E" d' "compute_chat_id a b"] assms(3) d'(2) plain_cluster_ok by (auto simp: pg_serves_def plain_cluster_def)
  from pg.list_page [OF this assms(9-11)]
  have pg: "pg_list (se_up E) a b lim off d' = (Inr (take (nat lim) (drop (nat off) (map row_to_dto (chat_log d' a b)))), d')" by simp
  have "chat_of m = compute_chat_id a b \<longleftrightarrow> pair_of m = {a, b}" if "m \<in> set ms" for m
    using assms(6) that compute_chat_id_sym by (auto simp: pair_of_def chat_of_def doubleton_eq_iff)
  then have "filter (\<lambda>m. chat_of m = compute_chat_id a b) ms = filter (\<lambda>m. pair_of m = {a, b}) ms" by (intro filter_cong) auto
  then have plog: "map dto_message (map row_to_dto (chat_log d' a b)) = ?log"
    using d'(3) by (simp add: pg_seeded_def dto_row_message comp_def)
  have "tnt_serves messages answers a b t'" using t'(2) by (simp add: tnt_serves_def tnt_seeded_def)
  from dialog_repository.list_page [OF dialog_udfs.tarantool_repository [OF dialog_udfs_run.axioms(1) [OF assms(1)] assms(8)] this assms(9-11)]
  have tnt: "tnt_list (se_call E) pool a b lim off t'
      = (Inr (take (nat lim) (drop (nat off) (map tnt_dto (messages t' (uuid_str a) (uuid_str b))))), t')" .
  have tlog: "map dto_message (map tnt_dto (messages t' (uuid_str a) (uuid_str b))) = ?log" using t'(2) by (simp add: tnt_seeded_def)
  have page: "map dto_message (take n (drop k xs)) = take n (drop k (map dto_message xs))" for n k xs by (simp add: take_map drop_map)
  show ?thesis using run pg tnt plog tlog page by (intro exI [of _ ?s']) (auto simp: repo_list_def)
qed

definition demo_seed_env :: "(unit, unit, tarantool) seed_env" where
  "demo_seed_env = \<lparr>se_connect = (\<lambda>_ _. Inr ()), se_disconnect = (\<lambda>_. Inr ()), se_call = tt_call, se_create_pool = (\<lambda>_. Inr ()),
     se_close = (\<lambda>_. Inr ()), se_up = (\<lambda>_. True), se_now = (\<lambda>k _. int k), se_mid = (\<lambda>k. of_nat k)\<rparr>"

text \<open>Two users and one message each; the second user draws itself.\<close>

lemma seed_backends_agree_witness:
  "\<exists>s' page page'. seed_dialogs (default_settings\<lparr>dialogs_shards := ''s''\<rparr>) demo_seed_env (\<lambda>i. of_nat (Suc i)) (\<lambda>_ _. 2) 2 1 Both demo_stores
      = (Inr (), s')
    \<and> repo_list tt_call (\<lambda>_. True) (PgDialogRepository :: unit dialog_backend) 1 2 10 0 s' = (Inr page, s')
    \<and> repo_list tt_call (\<lambda>_. True) (TarantoolDialogRepository ((TarantoolPool ''h'' 1 1)\<lparr>tp_conn := Some ()\<rparr>)) 1 2 10 0 s' = (Inr page', s')
    \<and> map dto_message page = map dto_message page' \<and> length page = 1"
proof -
  let ?S = "default_settings\<lparr>dialogs_shards := ''s''\<rparr>" and ?pool = "(TarantoolPool ''h'' 1 1)\<lparr>tp_conn := Some ()\<rparr>"
  let ?ms = "build_messages (map (\<lambda>i. of_nat (Suc i)) [0..<nat 2]) (\<lambda>_ _. 2) 1"
  have ms: "\<exists>x. ?ms = [(1, 2, x)]" by (simp add: build_messages_def eval_nat_numeral)
  have dsn: "parse_shard_dsns ''s'' = [''s'']" by code_simp
  have run: "dialog_udfs_run (se_call demo_seed_env) tt_pair tt_now (\<lambda>_. True)"
    unfolding demo_seed_env_def using tt_run.dialog_udfs_run_axioms by simp
  have clean: "clean_stores tt_pair (\<lambda>_. True) demo_stores" by (simp add: clean_stores_def demo_stores_def one_shard_def tt_pair_def)
  have cl: "plain_cluster (se_up demo_seed_env) (dg_cluster (st_pg demo_stores))"
    by (simp add: plain_cluster_def demo_seed_env_def demo_stores_def one_shard_def)
  have env: "seed_env_ok ?S demo_seed_env (cl_pools (dg_cluster (st_pg demo_stores)))"
    by (simp add: seed_env_ok_def demo_seed_env_def demo_stores_def one_shard_def default_settings_def dsn)
  have "\<forall>m \<in> set ?ms. chat_of m = compute_chat_id 1 2 \<longrightarrow> pair_of m = {1, 2}" "inj_on (se_mid demo_seed_env) {..<length ?ms}"
    using ms by (auto simp: pair_of_def inj_on_def)
  from seed_backends_agree [OF run clean cl env refl this, of ?pool "()" 10 0] ms show ?thesis
    by (auto simp: demo_seed_env_def pair_of_def)
qed

end
