(* ===== verification/Seed_Users.thy ===== *)
theory Seed_Users
  imports Script_Db Csv_Reader Datetime_Arith Routes_Users
begin

text \<open>
  \<^verbatim>\<open>scripts/seed_users.py\<close>: the users of \<^verbatim>\<open>people.v2.csv\<close>.  The file is an argument, absent or with the text it
  decodes to; \<open>gen i\<close> is the identifier the database generates for the \<open>i\<close>-th row.
\<close>

section \<open>The script\<close>

definition USERS_BATCH_SIZE :: nat where
  "USERS_BATCH_SIZE = 5000"

definition FAKE_PASSWORD_HASH :: string where
  "FAKE_PASSWORD_HASH = ''$2b$12$LQv3c1yqBWVHxkd0LHAkCOYz6TtxMQJqhN8/LewdBPj2NjlAhBm6''"

definition GENDERS :: "string list" where
  "GENDERS = [''M'', ''F'']"

record seed_row =
  sr_email :: string
  sr_password_hash :: string
  sr_first_name :: string
  sr_last_name :: string
  sr_birthdate :: string
  sr_gender :: string
  sr_city :: string

text \<open>\<^verbatim>\<open>s.split(c, 1)\<close>: the text before the first separator and, if there is one, the rest after it.\<close>

definition py_split_once :: "char \<Rightarrow> string \<Rightarrow> string list" where
  "py_split_once c s =
     (if c \<in> set s then [takeWhile (\<lambda>x. x \<noteq> c) s, tl (dropWhile (\<lambda>x. x \<noteq> c) s)] else [s])"

definition user_email :: "nat \<Rightarrow> string" where
  "user_email i = ''user_'' @ nat_str i @ ''@example.com''"

text \<open>The body of the loop over the records; \<open>None\<close> for a record that is skipped.\<close>

definition parse_record :: "nat \<Rightarrow> string list \<Rightarrow> seed_row option" where
  "parse_record i line =
     (if length line < 3 then None
      else
        let full_name = py_strip (line ! 0);
            birthdate_str = py_strip (line ! 1);
            city = py_strip (line ! 2);
            parts = py_split_once (CHR '' '') full_name
        in if length parts < 2 then None
           else case date_fromisoformat birthdate_str of
               Inl _ \<Rightarrow> None
             | Inr birthdate \<Rightarrow>
                 Some \<lparr>sr_email = user_email i, sr_password_hash = FAKE_PASSWORD_HASH, sr_first_name = parts ! 1,
                   sr_last_name = parts ! 0, sr_birthdate = birthdate, sr_gender = GENDERS ! (i mod 2), sr_city = city\<rparr>)"

fun collect_rows :: "nat \<Rightarrow> string list list \<Rightarrow> seed_row list \<times> int" where
  "collect_rows i [] = ([], 0)"
| "collect_rows i (line # ls) =
     (case collect_rows (i + 1) ls of (rows, skipped) \<Rightarrow>
        case parse_record i line of None \<Rightarrow> (rows, skipped + 1) | Some row \<Rightarrow> (row # rows, skipped))"

text \<open>\<^verbatim>\<open>INSERT INTO users .. ON CONFLICT (email) DO NOTHING\<close>.\<close>

definition row_user :: "uuid \<Rightarrow> seed_row \<Rightarrow> user" where
  "row_user i row = \<lparr>us_id = i, us_email = sr_email row, us_password_hash = sr_password_hash row, us_first_name = sr_first_name row,
     us_last_name = sr_last_name row, us_birthdate = sr_birthdate row, us_gender = sr_gender row, us_interests = None, us_city = sr_city row\<rparr>"

definition insert_user_row :: "uuid \<times> seed_row \<Rightarrow> social \<Rightarrow> social res" where
  "insert_user_row = (\<lambda>(i, row) t.
     bindR (fit_user (row_user i row)) (\<lambda>u.
       if us_email u \<in> us_email ` set (so_users t) then Inr t
       else if us_id u \<in> us_id ` set (so_users t) then Inl (PostgresError ''unique violation'')
       else Inr (t\<lparr>so_users := so_users t @ [u]\<rparr>)))"

definition open_file :: "string option \<Rightarrow> string res" where
  "open_file contents = (case contents of None \<Rightarrow> Inl (FileNotFoundError ''No such file or directory'') | Some c \<Rightarrow> Inr c)"

definition count_users :: "social \<Rightarrow> int res" where
  "count_users t = Inr (int (length (so_users t)))"

text \<open>The script reports how many rows it has inserted and how many there are; \<open>None\<close> when it skips the work.
  There is no \<^verbatim>\<open>finally\<close>: the connection is closed only where the code says so.\<close>

definition seed_users :: "string option \<Rightarrow> (nat \<Rightarrow> uuid) \<Rightarrow> (script, (int \<times> int) option) prog" where
  "seed_users csv gen =
     bindP sc_connect (\<lambda>_.
     bindP (sc_fetch count_users) (\<lambda>existing.
       if existing > 10000 then bindP sc_close (\<lambda>_. returnP None)
       else
         bindP (liftP (open_file csv)) (\<lambda>contents.
           case csv_reader (file_lines contents) of
             (records, Some e) \<Rightarrow> raiseP e
           | (records, None) \<Rightarrow>
               (case collect_rows 0 records of (rows, skipped) \<Rightarrow>
                 bindP (insert_batches insert_user_row
                     (row_batches USERS_BATCH_SIZE (zip (map gen [0..<length rows]) rows)) 0) (\<lambda>inserted.
                 bindP (sc_fetch count_users) (\<lambda>final_count.
                 bindP sc_close (\<lambda>_. returnP (Some (inserted, final_count)))))))))"

section \<open>A file in the documented format\<close>

record person =
  pe_last :: string
  pe_first :: string
  pe_birthdate :: string
  pe_city :: string

text \<open>A line is the last and the first name, the date of birth and the city.\<close>

definition person_fields :: "person \<Rightarrow> string list" where
  "person_fields p = [pe_last p @ '' '' @ pe_first p, pe_birthdate p, pe_city p]"

definition people_file :: "person list \<Rightarrow> string" where
  "people_file ps = concat (map (\<lambda>p. csv_join (person_fields p) @ [CHR 0x0A]) ps)"

definition trimmed :: "string \<Rightarrow> bool" where
  "trimmed s \<longleftrightarrow> s \<noteq> [] \<and> \<not> py_space (hd s) \<and> \<not> py_space (last s)"

definition person_ok :: "person \<Rightarrow> bool" where
  "person_ok p \<longleftrightarrow> trimmed (pe_last p) \<and> trimmed (pe_first p) \<and> trimmed (pe_city p) \<and> CHR '' '' \<notin> set (pe_last p)
     \<and> date_fromisoformat (pe_birthdate p) = Inr (pe_birthdate p)
     \<and> length (pe_last p) \<le> 100 \<and> length (pe_first p) \<le> 100 \<and> length (pe_city p) \<le> 100
     \<and> (\<forall>f \<in> set (person_fields p). plain_field f)"

definition person_row :: "nat \<Rightarrow> person \<Rightarrow> seed_row" where
  "person_row i p = \<lparr>sr_email = user_email i, sr_password_hash = FAKE_PASSWORD_HASH, sr_first_name = pe_first p,
     sr_last_name = pe_last p, sr_birthdate = pe_birthdate p, sr_gender = GENDERS ! (i mod 2), sr_city = pe_city p\<rparr>"

definition people_users :: "(nat \<Rightarrow> uuid) \<Rightarrow> person list \<Rightarrow> user list" where
  "people_users gen ps = map (\<lambda>(i, p). row_user (gen i) (person_row i p)) (enumerate 0 ps)"

lemma strip_trimmed: "trimmed s \<Longrightarrow> py_strip s = s"
proof -
  assume t: "trimmed s"
  then have "py_lstrip s = s" by (cases s) (auto simp: trimmed_def py_lstrip_def)
  moreover have "py_lstrip (rev s) = rev s" using t by (cases s rule: rev_cases) (auto simp: trimmed_def py_lstrip_def)
  ultimately show ?thesis by (simp add: py_strip_def)
qed

lemma digit_not_space: "digit_value c = Some d \<Longrightarrow> \<not> py_space c"
proof -
  assume "digit_value c = Some d"
  then have "48 \<le> (of_char c :: int)" "(of_char c :: int) \<le> 57" by (auto simp: digit_value_def Let_def split: if_splits)
  moreover have "(of_char c :: int) = int (of_char c)" by (simp only: of_nat_of_char)
  ultimately have "48 \<le> (of_char c :: nat)" "(of_char c :: nat) \<le> 57" by linarith+
  then show ?thesis by (auto simp: py_space_def Let_def)
qed

lemma digits_not_space: "digit_values s = Some ds \<Longrightarrow> c \<in> set s \<Longrightarrow> \<not> py_space c"
  by (induction s arbitrary: ds) (auto split: option.splits simp: digit_not_space)

lemma date_trimmed:
  assumes "date_fromisoformat s = Inr t"
  shows "trimmed s" "t = s"
proof -
  have l: "length s = 10" and d: "read_padded (take 4 s) \<noteq> None" "read_padded (drop 8 s) \<noteq> None" and "t = s"
    using assms by (auto simp: date_fromisoformat_def Let_def split: if_splits option.splits)
  then show "t = s" by simp
  have "hd s \<in> set (take 4 s)" "last s \<in> set (drop 8 s)"
    using l hd_in_set [of "take 4 s"] last_in_set [of "drop 8 s"] by (force simp: last_drop)+
  then show "trimmed s" using d l digits_not_space by (auto simp: trimmed_def read_padded_def)
qed

lemma split_name: "c \<notin> set a \<Longrightarrow> py_split_once c (a @ c # b) = [a, b]"
  by (induction a) (auto simp: py_split_once_def)

lemma parse_person:
  assumes "person_ok p"
  shows "parse_record i (person_fields p) = Some (person_row i p)"
proof -
  have "trimmed (pe_last p @ CHR '' '' # pe_first p)" using assms by (auto simp: person_ok_def trimmed_def)
  moreover have "py_strip (pe_birthdate p) = pe_birthdate p" using assms date_trimmed strip_trimmed by (auto simp: person_ok_def)
  ultimately show ?thesis
    using assms by (simp add: parse_record_def person_fields_def strip_trimmed person_ok_def split_name person_row_def)
qed

lemma collect_people:
  "\<forall>p \<in> set ps. person_ok p \<Longrightarrow> collect_rows i (map person_fields ps) = (map (case_prod person_row) (enumerate i ps), 0)"
  by (induction ps arbitrary: i) (simp_all add: parse_person)

lemma read_people:
  assumes "\<forall>p \<in> set ps. person_ok p"
  shows "csv_reader (file_lines (people_file ps)) = (map person_fields ps, None)"
proof -
  have f: "person_fields p \<noteq> []" "hd (person_fields p) \<noteq> []" for p by (simp_all add: person_fields_def)
  have plain: "\<forall>f \<in> set (person_fields p). plain_field f" if "p \<in> set ps" for p using assms that by (simp add: person_ok_def)
  have "file_lines (people_file ps) = map (\<lambda>l. l @ [CHR 0x0A]) (map (csv_join \<circ> person_fields) ps)"
    using file_lines_join [of "map (csv_join \<circ> person_fields) ps"] csv_join_plain [OF plain] by (simp add: people_file_def o_def)
  then have "file_lines (people_file ps) = map (\<lambda>fs. csv_join fs @ [CHR 0x0A]) (map person_fields ps)" by simp
  moreover have "csv_reader (map (\<lambda>fs. csv_join fs @ [CHR 0x0A]) (map person_fields ps)) = (map person_fields ps, None)"
    using f plain by (intro csv_reader_plain) auto
  ultimately show ?thesis by simp
qed

section \<open>The rows\<close>

lemma length_nat_str: "0 < k \<Longrightarrow> n < 10 ^ k \<Longrightarrow> length (nat_str n) \<le> k"
proof (induction k arbitrary: n)
  case (Suc k)
  show ?case
  proof (cases "n < 10")
    case True
    then show ?thesis by (subst nat_str.simps) simp
  next
    case False
    then have "0 < k" using Suc.prems by (cases k) auto
    moreover have "n div 10 < 10 ^ k" using Suc.prems(2) by (simp add: less_mult_imp_div_less mult.commute)
    ultimately show ?thesis using Suc.IH [of "n div 10"] False by (subst nat_str.simps) simp
  qed
qed simp

lemma user_email_inj: "user_email i = user_email j \<longleftrightarrow> i = j"
proof
  assume "user_email i = user_email j"
  then have "digits_value (nat_str i) = digits_value (nat_str j)" by (simp add: user_email_def)
  then show "i = j" by (simp add: digits_value_nat_str)
qed simp

lemma fit_person:
  assumes "person_ok p" and "i < 10 ^ 200"
  shows "fit_user (row_user u (person_row i p)) = Inr (row_user u (person_row i p))"
proof -
  have "length (user_email i) \<le> 255" using length_nat_str [of 200 i] assms(2) by (simp add: user_email_def)
  moreover have "length FAKE_PASSWORD_HASH \<le> 255" by (simp add: FAKE_PASSWORD_HASH_def)
  moreover have "i mod 2 = 0 \<or> i mod 2 = 1" by linarith
  then have "length (GENDERS ! (i mod 2)) \<le> 20" by (auto simp: GENDERS_def)
  ultimately show ?thesis using assms(1) by (simp add: fit_user_def bindR_def row_user_def person_row_def person_ok_def)
qed

lemma insert_user_rows:
  assumes "\<forall>(i, row) \<in> set xs. fit_user (row_user i row) = Inr (row_user i row)" and "distinct (map (sr_email \<circ> snd) xs)"
    and "distinct (map fst xs)" and "\<forall>i \<in> fst ` set xs. i \<notin> us_id ` set (so_users t)"
  shows "all_rows insert_user_row xs t = Inr (t\<lparr>so_users := so_users t
    @ filter (\<lambda>u. us_email u \<notin> us_email ` set (so_users t)) (map (case_prod row_user) xs)\<rparr>)"
  using assms
proof (induction xs arbitrary: t)
  case (Cons x xs)
  obtain i row where x: "x = (i, row)" by fastforce
  let ?u = "row_user i row"
  have e: "us_email ?u = sr_email row" "us_id ?u = i" by (simp_all add: row_user_def)
  have rest: "us_email u \<noteq> sr_email row" if "u \<in> set (map (case_prod row_user) xs)" for u
    using that Cons.prems(2) x by (force simp: row_user_def)
  show ?case
  proof (cases "sr_email row \<in> us_email ` set (so_users t)")
    case True
    then show ?thesis using Cons x e by (simp add: insert_user_row_def bindR_def)
  next
    case False
    let ?t = "t\<lparr>so_users := so_users t @ [?u]\<rparr>"
    have "insert_user_row x t = Inr ?t" using Cons.prems x e False by (simp add: insert_user_row_def bindR_def)
    moreover have "all_rows insert_user_row xs ?t = Inr (?t\<lparr>so_users := so_users ?t
        @ filter (\<lambda>u. us_email u \<notin> us_email ` set (so_users ?t)) (map (case_prod row_user) xs)\<rparr>)"
      using Cons.prems x e by (intro Cons.IH) auto
    moreover have "filter (\<lambda>u. us_email u \<notin> us_email ` set (so_users ?t)) (map (case_prod row_user) xs)
        = filter (\<lambda>u. us_email u \<notin> us_email ` set (so_users t)) (map (case_prod row_user) xs)"
      using rest e by (intro filter_cong refl) auto
    ultimately show ?thesis using x e False by (simp add: bindR_def)
  qed
qed simp

lemma zip_gen: "zip (map gen [0..<length ps]) (map (case_prod f) (enumerate 0 ps)) = map (\<lambda>(i, p). (gen i, f i p)) (enumerate 0 ps)"
  by (rule nth_equalityI) (simp_all add: nth_enumerate_eq)

lemma enumerate_fst: "map (\<lambda>x. f (fst x)) (enumerate 0 ps) = map f [0..<length ps]"
proof -
  have "map f [0..<length ps] = map f (map fst (enumerate 0 ps))" by simp
  then show ?thesis by (simp only: map_map comp_def)
qed

lemma social_ok_add_users:
  assumes "social_ok t" and "distinct (map us_id us)" and "distinct (map us_email us)" and "us_id ` set us \<inter> us_id ` set (so_users t) = {}"
  shows "social_ok (t\<lparr>so_users := so_users t @ filter (\<lambda>u. us_email u \<notin> us_email ` set (so_users t)) us\<rparr>)"
proof -
  let ?new = "filter (\<lambda>u. us_email u \<notin> us_email ` set (so_users t)) us"
  have "distinct (map us_id (so_users t @ ?new))" using assms by (auto simp: social_ok_def distinct_map_filter)
  moreover have "distinct (map us_email (so_users t @ ?new))"
    using assms by (auto simp: social_ok_def distinct_map_filter image_iff)
  ultimately
  show ?thesis using assms(1) by (auto simp: social_ok_def)
qed

text \<open>C23: a file in the documented format, with trimmed names, valid dates and texts that fit the columns, is
  loaded completely: the table gains exactly one user per line, with the names, the date and the city of the line, except
  for the addresses that are already taken; the constraints of the tables still hold, and the connection is closed.\<close>

theorem seed_users_loads:
  assumes "social_ok (sc_tables s)" and "sc_faults s = []" and "length (so_users (sc_tables s)) \<le> 10000"
    and "\<forall>p \<in> set ps. person_ok p" and "length ps \<le> 10 ^ 200"
    and "distinct (map gen [0..<length ps])" and "\<forall>i < length ps. gen i \<notin> us_id ` set (so_users (sc_tables s))"
  shows "\<exists>s' n. seed_users (Some (people_file ps)) gen s = (Inr (Some (int (length ps), n)), s') \<and> sc_open s' = sc_open s
    \<and> so_users (sc_tables s') = so_users (sc_tables s)
        @ filter (\<lambda>u. us_email u \<notin> us_email ` set (so_users (sc_tables s))) (people_users gen ps)
    \<and> so_posts (sc_tables s') = so_posts (sc_tables s) \<and> so_friends (sc_tables s') = so_friends (sc_tables s)
    \<and> social_ok (sc_tables s') \<and> n = int (length (so_users (sc_tables s')))"
proof -
  let ?t = "sc_tables s" and ?s1 = "s\<lparr>sc_open := sc_open s + 1\<rparr>"
  let ?xs = "map (\<lambda>(i, p). (gen i, person_row i p)) (enumerate 0 ps)"
  let ?new = "filter (\<lambda>u. us_email u \<notin> us_email ` set (so_users ?t)) (people_users gen ps)"
  let ?t' = "?t\<lparr>so_users := so_users ?t @ ?new\<rparr>"
  have us: "map (case_prod row_user) ?xs = people_users gen ps" by (simp add: people_users_def split_def)
  have ids: "map fst ?xs = map gen [0..<length ps]" "map us_id (people_users gen ps) = map gen [0..<length ps]"
    by (simp_all add: people_users_def row_user_def split_def comp_def enumerate_fst)
  have mails: "map (sr_email \<circ> snd) ?xs = map user_email [0..<length ps]" "map us_email (people_users gen ps) = map user_email [0..<length ps]"
    by (simp_all add: people_users_def row_user_def person_row_def split_def comp_def enumerate_fst)
  have dmails: "distinct (map user_email [0..<length ps])" by (simp add: distinct_map inj_on_def user_email_inj)
  have fits: "\<forall>(i, row) \<in> set ?xs. fit_user (row_user i row) = Inr (row_user i row)"
    using assms(4,5) by (force simp: in_set_enumerate_eq intro!: fit_person)
  have rows: "all_rows insert_user_row ?xs ?t = Inr ?t'"
  proof -
    have "fst ` set ?xs = gen ` {0..<length ps}" using arg_cong [OF ids(1), of set] by (simp only: set_map set_upt)
    then have "\<forall>i \<in> fst ` set ?xs. i \<notin> us_id ` set (so_users ?t)" using assms(7) by simp
    from insert_user_rows [OF fits _ _ this] show ?thesis using dmails assms(6) unfolding us mails(1) ids(1) by simp
  qed
  have ok: "social_ok ?t'"
  proof (rule social_ok_add_users)
    have "us_id ` set (people_users gen ps) = gen ` {0..<length ps}" using arg_cong [OF ids(2), of set] by simp
    then show "us_id ` set (people_users gen ps) \<inter> us_id ` set (so_users ?t) = {}" using assms(7) by auto
  qed (use assms(1,6) dmails ids(2) mails(2) in simp_all)
  have "insert_batches insert_user_row (row_batches USERS_BATCH_SIZE ?xs) 0 ?s1
      = (Inr (int (length ps)), ?s1\<lparr>sc_tables := ?t'\<rparr>)"
    using insert_batches_ok [of ?s1 insert_user_row "row_batches USERS_BATCH_SIZE ?xs" ?t' 0] assms(2) rows
    by (simp add: USERS_BATCH_SIZE_def)
  then have "seed_users (Some (people_file ps)) gen s
      = (Inr (Some (int (length ps), int (length (so_users ?t')))), ?s1\<lparr>sc_tables := ?t', sc_open := sc_open s\<rparr>)"
    using assms(2,3) by (simp add: seed_users_def sc_connect_def sc_close_def count_users_def open_file_def
        read_people [OF assms(4)] collect_people [OF assms(4)] zip_gen)
  then show ?thesis using ok by simp
qed

section \<open>Runs\<close>

definition empty_script :: script where
  "empty_script = \<lparr>sc_tables = \<lparr>so_users = [], so_posts = [], so_friends = []\<rparr>, sc_faults = [], sc_open = 0\<rparr>"

definition demo_person :: person where
  "demo_person = \<lparr>pe_last = ''Ivanov'', pe_first = ''Petr'', pe_birthdate = ''1990-02-28'', pe_city = ''Omsk''\<rparr>"

lemma demo_person_ok: "person_ok demo_person"
proof -
  have "date_fromisoformat ''1990-02-28'' = Inr ''1990-02-28''" by code_simp
  then show ?thesis
    by (simp add: person_ok_def demo_person_def person_fields_def plain_field_def trimmed_def py_space_def)
qed

lemma seed_users_loads_witness:
  "\<exists>s'. seed_users (Some (''Ivanov Petr,1990-02-28,Omsk'' @ [CHR 0x0A])) (\<lambda>i. of_nat i) empty_script = (Inr (Some (1, 1)), s')
    \<and> map us_first_name (so_users (sc_tables s')) = [''Petr''] \<and> map us_last_name (so_users (sc_tables s')) = [''Ivanov'']
    \<and> sc_open s' = 0 \<and> social_ok (sc_tables s')"
proof -
  have f: "people_file [demo_person] = ''Ivanov Petr,1990-02-28,Omsk'' @ [CHR 0x0A]"
    by (simp add: people_file_def demo_person_def person_fields_def)
  have "social_ok (sc_tables empty_script)" by (simp add: empty_script_def social_ok_def)
  moreover have "\<forall>p \<in> set [demo_person]. person_ok p" by (simp add: demo_person_ok)
  ultimately show ?thesis
    using seed_users_loads [of empty_script "[demo_person]" "\<lambda>i. of_nat i"] unfolding f
    by (auto simp: empty_script_def people_users_def row_user_def person_row_def demo_person_def)
qed

text \<open>Without the file the script raises and its connection stays open, because the code has no \<^verbatim>\<open>finally\<close>.\<close>

lemma seed_users_leaks:
  assumes "sc_faults s = []" and "length (so_users (sc_tables s)) \<le> 10000"
  shows "seed_users None gen s = (Inl (FileNotFoundError ''No such file or directory''), s\<lparr>sc_open := sc_open s + 1\<rparr>)"
  using assms by (simp add: seed_users_def sc_connect_def count_users_def open_file_def)

text \<open>Every record of the file is either a row or counted as skipped.\<close>

lemma collect_rows_count: "collect_rows i ls = (rows, skipped) \<Longrightarrow> int (length rows) + skipped = int (length ls)"
  by (induction ls arbitrary: i rows skipped) (auto split: prod.splits option.splits)

end
