(* ===== verification/Load_Search.thy ===== *)
theory Load_Search
  imports Seed_Users
begin

text \<open>
  \<^verbatim>\<open>scripts/locust/homework_3_locust.py\<close>: the load test of the user search.  The virtual users are numbered; the list of known
  identifiers is an attribute of the class until an object assigns its own, so appending to it changes the list all objects
  without an own list share.  A random choice is an argument, a number that is reduced to the length of the list.  The two fallback
  lists of the code, Cyrillic literals, are arguments too.
\<close>

section \<open>Search parameters\<close>

text \<open>\<^verbatim>\<open>s.split()\<close>: the maximal parts without whitespace.\<close>

fun split_where :: "(char \<Rightarrow> bool) \<Rightarrow> string \<Rightarrow> string list" where
  "split_where P [] = [[]]"
| "split_where P (c # s) =
     (if P c then [] # split_where P s
      else (case split_where P s of [] \<Rightarrow> [[c]] | w # ws \<Rightarrow> (c # w) # ws))"

definition py_words :: "string \<Rightarrow> string list" where
  "py_words s = filter (\<lambda>w. w \<noteq> []) (split_where py_space s)"

definition row_params :: "string list \<Rightarrow> (string \<times> string) list" where
  "row_params row =
     (if row = [] then []
      else
        let name_parts = py_words (py_strip (row ! 0)) in
        if length name_parts \<ge> 2 then
          let last_name = name_parts ! 0;
              first_name = name_parts ! 1;
              fn_prefix = (if length first_name \<ge> 2 then take 2 first_name else first_name);
              ln_prefix = (if length last_name \<ge> 2 then take 2 last_name else last_name)
          in [(fn_prefix, ln_prefix)]
        else [])"

text \<open>The loop fetches one record more than it uses, so an error behind that one is not met.\<close>

definition load_search_params :: "(string \<times> string) list \<Rightarrow> (string \<times> string) list \<Rightarrow> int \<Rightarrow> string option \<Rightarrow> (string \<times> string) list res" where
  "load_search_params no_file no_names max_entries csv =
     (case csv of
        None \<Rightarrow> Inr no_file
      | Some contents \<Rightarrow>
          (case csv_reader (file_lines contents) of (rows, err) \<Rightarrow>
             case err of
               Some e \<Rightarrow> if int (length rows) \<le> max_entries then Inl e
                 else Inr (let params = concat (map row_params (take (nat max_entries) rows)) in if params = [] then no_names else params)
             | None \<Rightarrow> Inr (let params = concat (map row_params (take (nat max_entries) rows)) in if params = [] then no_names else params)))"

text \<open>The lists \<^verbatim>\<open>random.choice\<close> is applied to are not empty.\<close>

lemma load_search_params_nonempty:
  "load_search_params no_file no_names max_entries csv = Inr params \<Longrightarrow> no_file \<noteq> [] \<Longrightarrow> no_names \<noteq> [] \<Longrightarrow> params \<noteq> []"
  by (auto simp: load_search_params_def Let_def split: option.splits prod.splits if_splits)

section \<open>Virtual users\<close>

record ('p, 'c, 'r, 'b) bench =
  be_world :: "('p, 'c, 'r, 'b) world"
  be_class_ids :: "string list"
  be_own_ids :: "nat \<Rightarrow> string list option"
  be_failures :: "int list"

definition known_user_ids :: "nat \<Rightarrow> ('p, 'c, 'r, 'b) bench \<Rightarrow> string list" where
  "known_user_ids v b = (case be_own_ids b v of None \<Rightarrow> be_class_ids b | Some ids \<Rightarrow> ids)"

text \<open>\<^verbatim>\<open>self.known_user_ids.append(..)\<close> and \<^verbatim>\<open>self.known_user_ids = ..\<close>.\<close>

definition append_known :: "nat \<Rightarrow> string \<Rightarrow> ('p, 'c, 'r, 'b) bench \<Rightarrow> ('p, 'c, 'r, 'b) bench" where
  "append_known v i b =
     (case be_own_ids b v of
        None \<Rightarrow> b\<lparr>be_class_ids := be_class_ids b @ [i]\<rparr>
      | Some ids \<Rightarrow> b\<lparr>be_own_ids := (be_own_ids b)(v := Some (ids @ [i]))\<rparr>)"

definition assign_known :: "nat \<Rightarrow> string list \<Rightarrow> ('p, 'c, 'r, 'b) bench \<Rightarrow> ('p, 'c, 'r, 'b) bench" where
  "assign_known v ids b = b\<lparr>be_own_ids := (be_own_ids b)(v := Some ids)\<rparr>"

definition rand_choice :: "nat \<Rightarrow> 'a list \<Rightarrow> 'a" where
  "rand_choice r xs = xs ! (r mod length xs)"

text \<open>The status of a response and, for 200, its body.\<close>

definition http_status :: "'a res \<Rightarrow> int" where
  "http_status x = (case x of Inr _ \<Rightarrow> 200 | Inl e \<Rightarrow> (case e of HTTPException code _ \<Rightarrow> code | _ \<Rightarrow> 500))"

definition client_search :: "string \<times> string \<Rightarrow> (('p, 'c, 'r, 'b) bench, user_search_result list) prog" where
  "client_search = (\<lambda>(fn, ln) b. case search_users fn ln (be_world b) of (x, w) \<Rightarrow> (x, b\<lparr>be_world := w\<rparr>))"

text \<open>\<^verbatim>\<open>GET /user/get/{user_id}\<close>: the framework answers 422 when the path is no UUID.\<close>

definition client_get_user :: "string \<Rightarrow> (('p, 'c, 'r, 'b) bench, user_response) prog" where
  "client_get_user user_id b =
     (case UUID user_id of
        Inl _ \<Rightarrow> (Inl (HTTPException 422 ''user_id''), b)
      | Inr i \<Rightarrow> (case get_user i (be_world b) of (x, w) \<Rightarrow> (x, b\<lparr>be_world := w\<rparr>)))"

definition start_search :: "(string \<times> string) list \<Rightarrow> nat \<Rightarrow> nat \<Rightarrow> ('p, 'c, 'r, 'b) bench \<Rightarrow> ('p, 'c, 'r, 'b) bench" where
  "start_search params v r b =
     (case client_search (rand_choice r params) b of
        (Inl _, b') \<Rightarrow> b'
      | (Inr users, b') \<Rightarrow> fold (\<lambda>u. append_known v (uuid_str (usr_id u))) (take 5 users) b')"

definition on_start :: "(string \<times> string) list \<Rightarrow> nat \<Rightarrow> nat list \<Rightarrow> ('p, 'c, 'r, 'b) bench \<Rightarrow> ('p, 'c, 'r, 'b) bench" where
  "on_start params v rs b = fold (start_search params v) (take 3 rs) b"

definition remember_new :: "nat \<Rightarrow> user_search_result \<Rightarrow> ('p, 'c, 'r, 'b) bench \<Rightarrow> ('p, 'c, 'r, 'b) bench" where
  "remember_new v u b = (if uuid_str (usr_id u) \<notin> set (known_user_ids v b) then append_known v (uuid_str (usr_id u)) b else b)"

definition task_search_users :: "(string \<times> string) list \<Rightarrow> nat \<Rightarrow> nat \<Rightarrow> ('p, 'c, 'r, 'b) bench \<Rightarrow> ('p, 'c, 'r, 'b) bench" where
  "task_search_users params v r b =
     (case client_search (rand_choice r params) b of
        (Inr users, b1) \<Rightarrow>
          let b2 = fold (remember_new v) (take 3 users) b1;
              ids = known_user_ids v b2
          in if length ids > 200 then assign_known v (drop (length ids - 100) ids) b2 else b2
      | (Inl e, b1) \<Rightarrow> if http_status (Inl e :: unit res) = 404 then b1
          else b1\<lparr>be_failures := be_failures b1 @ [http_status (Inl e :: unit res)]\<rparr>)"

definition task_get_user_by_id :: "nat \<Rightarrow> nat \<Rightarrow> ('p, 'c, 'r, 'b) bench \<Rightarrow> ('p, 'c, 'r, 'b) bench" where
  "task_get_user_by_id v r b =
     (if known_user_ids v b = [] then b
      else
        let user_id = rand_choice r (known_user_ids v b) in
        case client_get_user user_id b of
          (x, b1) \<Rightarrow> if http_status x = 200 \<or> http_status x = 404 then b1 else b1\<lparr>be_failures := be_failures b1 @ [http_status x]\<rparr>)"

datatype bench_event = Start nat "nat list" | Search nat nat | Get nat nat

definition bench_step :: "(string \<times> string) list \<Rightarrow> bench_event \<Rightarrow> ('p, 'c, 'r, 'b) bench \<Rightarrow> ('p, 'c, 'r, 'b) bench" where
  "bench_step params ev = (case ev of
       Start v rs \<Rightarrow> on_start params v rs | Search v r \<Rightarrow> task_search_users params v r | Get v r \<Rightarrow> task_get_user_by_id v r)"

section \<open>The replicas\<close>

text \<open>Every pool a read may be sent to holds the tables \<open>t\<close>.\<close>

definition replicas_hold :: "social \<Rightarrow> ('p, 'c, 'r, 'b) world \<Rightarrow> bool" where
  "replicas_hold t w \<longleftrightarrow> (let db = wo_database w in
     if db_slave_pools db = [] then (case db_master_pool db of None \<Rightarrow> False | Some p \<Rightarrow> wo_tables w p = t)
     else (case db_slave_cycle db of None \<Rightarrow> False | Some (ps, i) \<Rightarrow> i < length ps \<and> (\<forall>p \<in> set ps. wo_tables w p = t)))"

lemma slave_reads:
  assumes "replicas_hold t w"
  shows "\<exists>p d. slave_connection (wo_database w) = (Inr p, d) \<and> wo_tables w p = t \<and> replicas_hold t (w\<lparr>wo_database := d\<rparr>)"
proof (cases "db_slave_pools (wo_database w) = []")
  case True
  then obtain p where "db_master_pool (wo_database w) = Some p" "wo_tables w p = t"
    using assms by (auto simp: replicas_hold_def split: option.splits)
  then show ?thesis using True assms by (simp add: slave_connection_def master_connection_def)
next
  case False
  then obtain ps i where c: "db_slave_cycle (wo_database w) = Some (ps, i)" "i < length ps" "\<forall>p \<in> set ps. wo_tables w p = t"
    using assms by (auto simp: replicas_hold_def Let_def split: option.splits)
  moreover have "Suc i mod length ps < length ps" using c(2) by (intro mod_less_divisor) linarith
  ultimately show ?thesis using False by (simp add: slave_connection_def get_next_slave_pool_def replicas_hold_def Let_def)
qed

lemma sort_key_empty: "sort_key f xs = [] \<longleftrightarrow> xs = []"
  by (metis length_0_conv length_sort)

lemma search_reads:
  assumes "replicas_hold t w"
  shows "\<exists>d. search_users fn ln w = (Inr (map search_result (sort_key us_id
      (filter (\<lambda>u. sql_like (fn @ [CHR 0x25]) (us_first_name u) \<and> sql_like (ln @ [CHR 0x25]) (us_last_name u)) (so_users t)))), w\<lparr>wo_database := d\<rparr>)
    \<and> replicas_hold t (w\<lparr>wo_database := d\<rparr>)"
  using slave_reads [OF assms] by (auto simp: search_users_def on_slave_def stmt_search_def bindP_def)

lemma get_user_reads:
  assumes "replicas_hold t w" and "i \<in> us_id ` set (so_users t)"
  shows "\<exists>d x. get_user i w = (Inr x, w\<lparr>wo_database := d\<rparr>) \<and> replicas_hold t (w\<lparr>wo_database := d\<rparr>)"
proof -
  obtain p d where p: "slave_connection (wo_database w) = (Inr p, d)" "wo_tables w p = t" "replicas_hold t (w\<lparr>wo_database := d\<rparr>)"
    using slave_reads [OF assms(1)] by blast
  have "find (\<lambda>u. us_id u = i) (so_users t) \<noteq> None" using assms(2) by (auto simp: find_None_iff)
  then obtain u where "find (\<lambda>u. us_id u = i) (so_users t) = Some u" by blast
  then show ?thesis using p by (auto simp: get_user_def on_slave_def stmt_user_by_id_def bindP_def)
qed

section \<open>Every search of the load test finds somebody\<close>

text \<open>Names of one word each, without wildcards of \<^verbatim>\<open>LIKE\<close>.\<close>

definition simple_name :: "person \<Rightarrow> bool" where
  "simple_name p \<longleftrightarrow> (\<forall>c \<in> set (pe_last p) \<union> set (pe_first p). \<not> py_space c) \<and> like_literal (pe_last p) \<and> like_literal (pe_first p)"

lemma split_where_none: "\<forall>c \<in> set s. \<not> P c \<Longrightarrow> split_where P s = [s]"
  by (induction s) auto

lemma split_where_sep: "\<forall>c \<in> set s. \<not> P c \<Longrightarrow> P d \<Longrightarrow> split_where P (s @ d # t) = s # split_where P t"
  by (induction s) auto

lemma py_words_name:
  assumes "person_ok p" and "simple_name p"
  shows "py_words (pe_last p @ CHR '' '' # pe_first p) = [pe_last p, pe_first p]"
proof -
  have "py_space (CHR '' '')" by (simp add: py_space_def)
  moreover have "pe_last p \<noteq> []" "pe_first p \<noteq> []" using assms(1) by (auto simp: person_ok_def trimmed_def)
  ultimately show ?thesis using assms(2) by (simp add: py_words_def simple_name_def split_where_sep split_where_none)
qed

lemma row_params_person:
  assumes "person_ok p" and "simple_name p"
  shows "row_params (person_fields p) = [(take 2 (pe_first p), take 2 (pe_last p))]"
proof -
  have "trimmed (pe_last p @ CHR '' '' # pe_first p)" using assms by (auto simp: person_ok_def trimmed_def)
  then show ?thesis using py_words_name [OF assms] by (simp add: row_params_def person_fields_def strip_trimmed Let_def)
qed

lemma like_literal_take: "like_literal s \<Longrightarrow> like_literal (take n s)"
  by (auto simp: like_literal_def dest: in_set_takeD)

lemma params_of_people:
  assumes "\<forall>p \<in> set ps. person_ok p \<and> simple_name p" and "ps \<noteq> []" and "1 \<le> max_entries"
  shows "load_search_params no_file no_names max_entries (Some (people_file ps))
    = Inr (map (\<lambda>p. (take 2 (pe_first p), take 2 (pe_last p))) (take (nat max_entries) ps))"
proof -
  have "concat (map row_params (map person_fields qs)) = map (\<lambda>p. (take 2 (pe_first p), take 2 (pe_last p))) qs"
    if "set qs \<subseteq> set ps" for qs
    using that assms(1) by (induction qs) (simp_all add: row_params_person)
  from this [of "take (nat max_entries) ps"]
  have c: "concat (map row_params (take (nat max_entries) (map person_fields ps)))
      = map (\<lambda>p. (take 2 (pe_first p), take 2 (pe_last p))) (take (nat max_entries) ps)"
    by (simp only: set_take_subset take_map)
  have ne: "map (\<lambda>p. (take 2 (pe_first p), take 2 (pe_last p))) (take (nat max_entries) ps) \<noteq> []" using assms(2,3) by simp
  have ok: "\<forall>p \<in> set ps. person_ok p" using assms(1) by simp
  show ?thesis unfolding load_search_params_def Let_def option.case read_people [OF ok] prod.case c using ne by (simp only: if_False)
qed

text \<open>When the users were seeded from a file of people with simple names into an empty table and the replicas are in
  sync, every pair of prefixes that the load test takes from the same file finds at least one user, however the reads are
  distributed over the replicas.\<close>

theorem load_search_hits:
  assumes "social_ok (sc_tables s)" and "so_users (sc_tables s) = []" and "sc_faults s = []"
    and "\<forall>p \<in> set ps. person_ok p \<and> simple_name p" and "ps \<noteq> []" and "length ps \<le> 10 ^ 200" and "distinct (map gen [0..<length ps])"
    and "1 \<le> max_entries"
  shows "\<exists>s' report params. seed_users (Some (people_file ps)) gen s = (Inr report, s')
    \<and> load_search_params no_file no_names max_entries (Some (people_file ps)) = Inr params \<and> params \<noteq> []
    \<and> (\<forall>(fn, ln) \<in> set params. \<forall>w :: ('p, 'c, 'r, 'b) world. replicas_hold (sc_tables s') w \<longrightarrow>
         (\<exists>rs w'. search_users fn ln w = (Inr rs, w') \<and> rs \<noteq> []))"
proof -
  have ok: "\<forall>p \<in> set ps. person_ok p" using assms(4) by simp
  from seed_users_loads [OF assms(1,3) _ ok assms(6,7)] obtain s' n where
    s': "seed_users (Some (people_file ps)) gen s = (Inr (Some (int (length ps), n)), s')" "so_users (sc_tables s') = people_users gen ps"
    using assms(2) by auto
  have "\<exists>rs w'. search_users fn ln w = (Inr rs, w') \<and> rs \<noteq> []"
    if pair: "(fn, ln) \<in> set (map (\<lambda>p. (take 2 (pe_first p), take 2 (pe_last p))) (take (nat max_entries) ps))"
      and w: "replicas_hold (sc_tables s') w" for fn ln and w :: "('p, 'c, 'r, 'b) world"
  proof -
    obtain p where p: "p \<in> set ps" "fn = take 2 (pe_first p)" "ln = take 2 (pe_last p)" using pair by (auto dest!: in_set_takeD)
    then obtain i where i: "i < length ps" "ps ! i = p" by (auto simp: in_set_conv_nth)
    let ?u = "row_user (gen i) (person_row i p)"
    have "?u \<in> set (people_users gen ps)" using i by (force simp: people_users_def in_set_enumerate_eq)
    moreover have "sql_like (fn @ [CHR 0x25]) (us_first_name ?u)" "sql_like (ln @ [CHR 0x25]) (us_last_name ?u)"
      using assms(4) p like_prefix [OF like_literal_take] by (auto simp: simple_name_def row_user_def person_row_def min_def)
    ultimately show ?thesis using search_reads [OF w, of fn ln] s'(2) by (auto simp: sort_key_empty filter_empty_conv)
  qed
  then show ?thesis using s'(1) params_of_people [OF assms(4,5,8)] assms(5,8) by auto
qed

lemma load_search_hits_witness:
  "\<exists>s' report params. seed_users (Some (people_file [demo_person])) (\<lambda>i. of_nat i) empty_script = (Inr report, s')
    \<and> load_search_params [] [] 5000 (Some (people_file [demo_person])) = Inr params \<and> params \<noteq> []
    \<and> (\<forall>(fn, ln) \<in> set params. \<forall>w :: (nat, unit, redis, broker) world. replicas_hold (sc_tables s') w \<longrightarrow>
         (\<exists>rs w'. search_users fn ln w = (Inr rs, w') \<and> rs \<noteq> []))"
proof -
  have "\<forall>p \<in> set [demo_person]. person_ok p \<and> simple_name p"
    using demo_person_ok by (simp add: simple_name_def demo_person_def like_literal_def py_space_def)
  moreover have "social_ok (sc_tables empty_script)" by (simp add: empty_script_def social_ok_def)
  ultimately show ?thesis using load_search_hits [of empty_script "[demo_person]" "\<lambda>i. of_nat i" 5000 "[]" "[]"] by (simp add: empty_script_def)
qed

text \<open>With a second space between the names the two scripts disagree: the seed splits at the first space and keeps the second one in the first
  name, the load test splits at whitespace, and its prefix does not match.\<close>

lemma two_spaces_miss:
  "map_option sr_first_name (parse_record 0 [''Ivanov  Petr'', ''1990-02-28'', ''Omsk'']) = Some '' Petr''
   \<and> row_params [''Ivanov  Petr'', ''1990-02-28'', ''Omsk''] = [(''Pe'', ''Iv'')] \<and> \<not> sql_like (''Pe'' @ [CHR 0x25]) '' Petr''"
  by code_simp

section \<open>No request of the load test fails\<close>

definition known_ok :: "social \<Rightarrow> string list \<Rightarrow> bool" where
  "known_ok t ids \<longleftrightarrow> set ids \<subseteq> uuid_str ` us_id ` set (so_users t)"

definition bench_ok :: "social \<Rightarrow> ('p, 'c, 'r, 'b) bench \<Rightarrow> bool" where
  "bench_ok t b \<longleftrightarrow> replicas_hold t (be_world b) \<and> known_ok t (be_class_ids b) \<and> (\<forall>v ids. be_own_ids b v = Some ids \<longrightarrow> known_ok t ids)
     \<and> be_failures b = []"

lemma bench_ok_known: "bench_ok t b \<Longrightarrow> known_ok t (known_user_ids v b)"
  by (auto simp: bench_ok_def known_user_ids_def split: option.split)

lemma bench_ok_append: "bench_ok t b \<Longrightarrow> i \<in> uuid_str ` us_id ` set (so_users t) \<Longrightarrow> bench_ok t (append_known v i b)"
  by (auto simp: bench_ok_def append_known_def known_ok_def split: option.splits if_splits)

lemma bench_ok_assign: "bench_ok t b \<Longrightarrow> known_ok t ids \<Longrightarrow> bench_ok t (assign_known v ids b)"
  by (auto simp: bench_ok_def assign_known_def split: if_splits)

lemma client_search_ok:
  assumes "bench_ok t b"
  shows "\<exists>users b'. client_search pair b = (Inr users, b') \<and> bench_ok t b'
    \<and> (\<forall>u \<in> set users. uuid_str (usr_id u) \<in> uuid_str ` us_id ` set (so_users t))"
proof -
  obtain fn ln where pair: "pair = (fn, ln)" by fastforce
  have "replicas_hold t (be_world b)" using assms by (simp add: bench_ok_def)
  from search_reads [OF this, of fn ln] show ?thesis
    using assms by (auto simp: pair client_search_def bench_ok_def search_result_def)
qed

lemma start_search_ok:
  assumes "bench_ok t b"
  shows "bench_ok t (start_search params v r b)"
proof -
  obtain users b' where b': "client_search (rand_choice r params) b = (Inr users, b')" "bench_ok t b'"
      "\<forall>u \<in> set users. uuid_str (usr_id u) \<in> uuid_str ` us_id ` set (so_users t)"
    using client_search_ok [OF assms] by blast
  have "bench_ok t (fold (\<lambda>u. append_known v (uuid_str (usr_id u))) (take 5 users) b')"
    using b'(2,3) by (intro fold_invariant [where P = "bench_ok t"] bench_ok_append) (auto dest: in_set_takeD)
  then show ?thesis using b'(1) by (simp add: start_search_def)
qed

lemma task_search_ok:
  assumes "bench_ok t b"
  shows "bench_ok t (task_search_users params v r b) \<and> length (known_user_ids v (task_search_users params v r b)) \<le> 200"
proof -
  obtain users b' where b': "client_search (rand_choice r params) b = (Inr users, b')" "bench_ok t b'"
      "\<forall>u \<in> set users. uuid_str (usr_id u) \<in> uuid_str ` us_id ` set (so_users t)"
    using client_search_ok [OF assms] by blast
  let ?b2 = "fold (remember_new v) (take 3 users) b'"
  have b2: "bench_ok t ?b2"
    using b'(2,3) by (intro fold_invariant [where P = "bench_ok t"]) (auto simp: remember_new_def intro!: bench_ok_append dest!: in_set_takeD)
  have "known_ok t (drop k (known_user_ids v ?b2))" for k
    using bench_ok_known [OF b2, of v] by (auto simp: known_ok_def dest: in_set_dropD)
  with b2 have "bench_ok t (assign_known v (drop k (known_user_ids v ?b2)) ?b2)" for k by (rule bench_ok_assign)
  then show ?thesis using b'(1) b2 by (simp add: task_search_users_def Let_def known_user_ids_def assign_known_def)
qed

lemma task_get_ok:
  assumes "bench_ok t b"
  shows "bench_ok t (task_get_user_by_id v r b)"
proof (cases "known_user_ids v b = []")
  case False
  let ?i = "rand_choice r (known_user_ids v b)"
  have "?i \<in> set (known_user_ids v b)" unfolding rand_choice_def using False by (intro nth_mem mod_less_divisor) simp
  then obtain u where u: "?i = uuid_str u" "u \<in> us_id ` set (so_users t)"
    using bench_ok_known [OF assms, of v] by (auto simp: known_ok_def)
  have "replicas_hold t (be_world b)" using assms by (simp add: bench_ok_def)
  from get_user_reads [OF this u(2)] show ?thesis
    using False assms u(1) by (auto simp: task_get_user_by_id_def client_get_user_def UUID_str Let_def http_status_def bench_ok_def)
qed (simp add: task_get_user_by_id_def assms)

text \<open>While the replicas hold the same users, no interleaving of starts, searches and reads of any number of virtual users
  reports a failure, although the list of known identifiers is shared until a user assigns its own, and after every search
  task its virtual user knows at most 200 identifiers.\<close>

theorem load_test_never_fails:
  assumes "bench_ok t b"
  shows "be_failures (fold (bench_step params) evs b) = []
    \<and> length (known_user_ids v (fold (bench_step params) (evs @ [Search v r]) b)) \<le> 200"
proof -
  have step: "bench_ok t (bench_step params ev b)" if "bench_ok t b" for ev and b :: "('a, 'b, 'c, 'd) bench"
  proof (cases ev)
    case (Start v rs)
    have "bench_ok t (on_start params v rs b)"
      unfolding on_start_def using that start_search_ok by (intro fold_invariant [where P = "bench_ok t"])
    then show ?thesis by (simp add: bench_step_def Start)
  qed (use that task_search_ok [THEN conjunct1] task_get_ok in \<open>simp_all add: bench_step_def\<close>)
  have ok: "bench_ok t (fold (bench_step params) evs b)" using assms step by (intro fold_invariant [where P = "bench_ok t"])
  then have "be_failures (fold (bench_step params) evs b) = []" by (simp add: bench_ok_def)
  then show ?thesis using task_search_ok [OF ok, of params v r] by (simp add: bench_step_def)
qed

lemma load_test_never_fails_witness:
  "be_failures (fold (bench_step [(''Iv'', ''I'')]) [Start 0 [0, 0, 0], Search 1 0, Get 0 2]
     \<lparr>be_world = demo_world [demo_user 7 ''Ivan''], be_class_ids = [], be_own_ids = (\<lambda>_. None), be_failures = []\<rparr>) = []"
proof -
  have "bench_ok (wo_tables (demo_world [demo_user 7 ''Ivan'']) 1)
    \<lparr>be_world = demo_world [demo_user 7 ''Ivan''], be_class_ids = [], be_own_ids = (\<lambda>_. None), be_failures = []\<rparr>"
    by (simp add: bench_ok_def replicas_hold_def demo_world_def known_ok_def)
  from load_test_never_fails [OF this] show ?thesis by blast
qed

end
