(* ===== verification/Load_Dialogs.thy ===== *)
theory Load_Dialogs
  imports Dialogs_Contract Auth Datetime Complex_Main
begin

text \<open>
  \<^verbatim>\<open>scripts/locust/homework_5_locust.py\<close>, which \<^verbatim>\<open>homework_7_locust.py\<close> uses unchanged: the load test of the dialogs.  The virtual users
  sign their own tokens instead of logging in.  Random numbers, the generated users and the time are arguments; floating-point
  numbers are the rational numbers they denote.
\<close>

section \<open>The load test\<close>

record dialogs_bench =
  db_secret :: string
  db_recipients :: "uuid list"
  db_lady_gaga :: uuid
  db_lady_gaga_ratio :: rat

definition JWT_ALGORITHM :: string where
  "JWT_ALGORITHM = ''HS256''"

definition create_token :: "string \<Rightarrow> jwt_encoder \<Rightarrow> int \<Rightarrow> uuid \<Rightarrow> string" where
  "create_token JWT_SECRET jwt_encode now user_id =
     jwt_encode \<lparr>claim_sub = Some (uuid_str user_id), claim_exp = now + 60 * 60\<rparr> JWT_SECRET JWT_ALGORITHM"

record dialogs_user =
  du_user_id :: uuid
  du_token :: string

definition bench_on_start :: "dialogs_bench \<Rightarrow> jwt_encoder \<Rightarrow> int \<Rightarrow> uuid \<Rightarrow> dialogs_user" where
  "bench_on_start B jwt_encode now new_id = \<lparr>du_user_id = new_id, du_token = create_token (db_secret B) jwt_encode now new_id\<rparr>"

text \<open>The requests: the dependency authenticates the bearer of the token, then the handler runs.\<close>

definition post_send :: "settings \<Rightarrow> jwt_decoder \<Rightarrow> int \<Rightarrow> (uuid \<Rightarrow> uuid \<Rightarrow> string \<Rightarrow> ('s, unit) prog) \<Rightarrow> string \<Rightarrow> uuid \<Rightarrow> string \<Rightarrow> ('s, string) prog" where
  "post_send S jwt_decode now send token user_id text =
     bindP (liftP (get_current_user S jwt_decode now token)) (\<lambda>current_user. send_message send user_id text current_user)"

definition get_list :: "settings \<Rightarrow> jwt_decoder \<Rightarrow> int \<Rightarrow> (uuid \<Rightarrow> uuid \<Rightarrow> int \<Rightarrow> int \<Rightarrow> ('s, dialog_dto list) prog) \<Rightarrow> string \<Rightarrow> uuid \<Rightarrow> int \<Rightarrow>
    ('s, dialog_message list) prog" where
  "get_list S jwt_decode now list_of token user_id limit =
     bindP (liftP (get_current_user S jwt_decode now token)) (\<lambda>current_user. list_messages list_of user_id limit 0 current_user)"

definition is_star :: "dialogs_bench \<Rightarrow> rat \<Rightarrow> bool" where
  "is_star B random \<longleftrightarrow> db_lady_gaga_ratio B > 0 \<and> random < db_lady_gaga_ratio B"

definition bench_sender :: "dialogs_bench \<Rightarrow> dialogs_user \<Rightarrow> rat \<Rightarrow> uuid" where
  "bench_sender B v random = (if is_star B random then db_lady_gaga B else du_user_id v)"

definition bench_text :: "uuid \<Rightarrow> datetime \<Rightarrow> string" where
  "bench_text sender dt = ''hi from '' @ uuid_str sender @ '' at '' @ isoformat dt @ ''+00:00''"

text \<open>\<^verbatim>\<open>random.choice(_RECIPIENTS)\<close>, which raises on an empty pool.\<close>

definition choose_recipient :: "dialogs_bench \<Rightarrow> nat \<Rightarrow> uuid res" where
  "choose_recipient B r = (if db_recipients B = [] then Inl IndexError else Inr (db_recipients B ! (r mod length (db_recipients B))))"

text \<open>The outcome of a task is \<open>None\<close> when it returns without a request; an exception of the task itself is its result too.\<close>

definition bench_send :: "settings \<Rightarrow> dialogs_bench \<Rightarrow> jwt_encoder \<Rightarrow> jwt_decoder \<Rightarrow> (uuid \<Rightarrow> uuid \<Rightarrow> string \<Rightarrow> ('s, unit) prog) \<Rightarrow>
    dialogs_user \<Rightarrow> rat \<Rightarrow> nat \<Rightarrow> int \<Rightarrow> datetime \<Rightarrow> 's \<Rightarrow> string res option \<times> 's" where
  "bench_send S B jwt_encode jwt_decode send v random r now dt s =
     (let sender = bench_sender B v random;
          token = (if is_star B random then create_token (db_secret B) jwt_encode now (db_lady_gaga B) else du_token v)
      in case choose_recipient B r of
           Inl e \<Rightarrow> (Some (Inl e), s)
         | Inr recipient \<Rightarrow>
             if recipient = sender then (None, s)
             else (case post_send S jwt_decode now send token recipient (bench_text sender dt) s of (x, s') \<Rightarrow> (Some x, s')))"

definition bench_list :: "settings \<Rightarrow> dialogs_bench \<Rightarrow> jwt_decoder \<Rightarrow> (uuid \<Rightarrow> uuid \<Rightarrow> int \<Rightarrow> int \<Rightarrow> ('s, dialog_dto list) prog) \<Rightarrow>
    dialogs_user \<Rightarrow> nat \<Rightarrow> int \<Rightarrow> 's \<Rightarrow> dialog_message list res option \<times> 's" where
  "bench_list S B jwt_decode list_of v r now s =
     (case choose_recipient B r of
        Inl e \<Rightarrow> (Some (Inl e), s)
      | Inr recipient \<Rightarrow>
          if recipient = du_user_id v then (None, s)
          else (case get_list S jwt_decode now list_of (du_token v) recipient 50 s of (x, s') \<Rightarrow> (Some x, s')))"

section \<open>Tokens\<close>

text \<open>The constants of the script agree with the settings of the application.\<close>

definition same_keys :: "settings \<Rightarrow> dialogs_bench \<Rightarrow> bool" where
  "same_keys S B \<longleftrightarrow> db_secret B = jwt_secret S \<and> jwt_algorithm S = JWT_ALGORITHM"

lemma bench_token_user:
  assumes "token_library jwt_encode jwt_decode" and "same_keys S B"
  shows "get_current_user S jwt_decode later (create_token (db_secret B) jwt_encode now u)
    = (if later < now + 3600 then Inr u else Inl (HTTPException 401 ''Invalid or expired token''))"
  using token_library.decode_encode [OF assms(1)] assms(2)
  by (simp add: get_current_user_def decode_access_token_def create_token_def same_keys_def UUID_str)

text \<open>A page of fifty lines of the right length: the texts of the load test pass the validation of the handler.\<close>

lemma bench_text_length: "bench_text u dt \<noteq> []" "length (bench_text u dt) \<le> 10000"
  by (auto simp: bench_text_def length_uuid_str isoformat_def iso_micro_def)

section \<open>The requests of the load test\<close>

text \<open>C37: with the secret and the algorithm of the application, the tokens the load test signs itself are accepted: a send task of a
  virtual user stores its message in the dialog of the sender and the recipient, as the newest one; the requests of the star go through at
  any time, because each of them gets a new token, and those of an ordinary user are refused with 401 from one hour after its start on.\<close>

theorem bench_send_accepted:
  assumes "token_library jwt_encode jwt_decode" and "same_keys S B" and "dialog_repository send list_of msgs ready serves stamp"
    and v: "v = bench_on_start B jwt_encode start u" and "sender = bench_sender B v random"
    and "choose_recipient B r = Inr recipient" and "recipient \<noteq> sender"
    and "ready e sender recipient s"
  shows "if is_star B random \<or> now < start + 3600
    then \<exists>s'. bench_send S B jwt_encode jwt_decode (send e) v random r now dt s = (Some (Inr ''ok''), s')
      \<and> msgs s' sender recipient
        = \<lparr>from_user_id = sender, to_user_id = recipient, dto_text = bench_text sender dt, dto_created_at = stamp e sender recipient s\<rparr>
            # msgs s sender recipient
    else bench_send S B jwt_encode jwt_decode (send e) v random r now dt s
      = (Some (Inl (HTTPException 401 ''Invalid or expired token'')), s)"
proof -
  have star: "get_current_user S jwt_decode now (create_token (db_secret B) jwt_encode now (db_lady_gaga B)) = Inr (db_lady_gaga B)"
    using bench_token_user [OF assms(1,2), of now now] by simp
  have own: "get_current_user S jwt_decode now (du_token v)
      = (if now < start + 3600 then Inr (du_user_id v) else Inl (HTTPException 401 ''Invalid or expired token''))"
    using bench_token_user [OF assms(1,2), of now start u] by (simp add: v bench_on_start_def)
  obtain s' where s': "send e sender recipient (bench_text sender dt) s = (Inr (), s')"
      "msgs s' sender recipient
        = \<lparr>from_user_id = sender, to_user_id = recipient, dto_text = bench_text sender dt, dto_created_at = stamp e sender recipient s\<rparr>
            # msgs s sender recipient"
    using dialog_repository.send_logs [OF assms(3,8)] assms(7) by blast
  have "send_message (send e) recipient (bench_text sender dt) sender s = (Inr ''ok'', s')"
    using s'(1) assms(7) bench_text_length [of sender dt] by (simp add: send_message_def Suc_le_eq not_less)
  then show ?thesis
    using s'(2) star own assms(5-7)
    by (auto simp: bench_send_def post_send_def bench_sender_def Let_def split: if_splits)
qed

definition demo_bench :: dialogs_bench where
  "demo_bench = \<lparr>db_secret = jwt_secret default_settings, db_recipients = [2], db_lady_gaga = 9, db_lady_gaga_ratio = 1 / 2\<rparr>"

lemma bench_send_accepted_witness:
  "bench_send default_settings demo_bench signed_encode signed_decode (pg_send (\<lambda>_. True) (\<lambda>_. 7) 9) (bench_on_start demo_bench signed_encode 0 1)
      (3 / 4) 0 3600 (Datetime 2024 3 1 12 0 0 5) (one_shard empty_shard) = (Some (Inl (HTTPException 401 ''Invalid or expired token'')), one_shard empty_shard)
   \<and> (\<exists>s'. bench_send default_settings demo_bench signed_encode signed_decode (pg_send (\<lambda>_. True) (\<lambda>_. 7) 9) (bench_on_start demo_bench signed_encode 0 1)
      (1 / 4) 0 3600 (Datetime 2024 3 1 12 0 0 5) (one_shard empty_shard) = (Some (Inr ''ok''), s'))"
proof -
  let ?e = "\<lparr>pe_up = (\<lambda>_. True), pe_now = (\<lambda>_. 7), pe_mid = 9\<rparr> :: unit pg_env"
  have keys: "same_keys default_settings demo_bench" by (simp add: same_keys_def demo_bench_def JWT_ALGORITHM_def default_settings_def)
  have ready: "pg_ready ?e f 2 (one_shard empty_shard)" for f
    using one_shard_ok by (simp add: pg_ready_def one_shard_def empty_shard_def)
  note acc = bench_send_accepted [OF signed.token_library_axioms keys pg.dialog_repository_axioms refl refl _ _ ready]
  show ?thesis
    using acc [where start = 0 and u = 1 and random = "3 / 4" and r = 0 and now = 3600 and dt = "Datetime 2024 3 1 12 0 0 5"]
      acc [where start = 0 and u = 1 and random = "1 / 4" and r = 0 and now = 3600 and dt = "Datetime 2024 3 1 12 0 0 5"]
    by (auto simp: demo_bench_def choose_recipient_def bench_sender_def is_star_def bench_on_start_def)
qed

end
