(* ===== verification/Charts.thy ===== *)
theory Charts
  imports Prelude Complex_Main
begin

text \<open>
  \<^verbatim>\<open>scripts/generate_charts.py\<close>: the charts of a load test from the CSV reports of Locust.  \<^verbatim>\<open>pandas.read_csv\<close> is an argument,
  and a chart is the data that is drawn.  A cell is a number or a text; \<^verbatim>\<open>float\<close> on a text is an argument too.
\<close>

section \<open>Frames\<close>

text \<open>What the script uses of a data frame: its columns, the selection of a column, the rows whose cell in a column is a given text, and the
  difference of a column to its minimum, which only numbers have.\<close>

datatype cell = Num rat | Text string

record frame =
  fr_columns :: "string list"
  fr_rows :: "(string \<Rightarrow> cell) list"

type_synonym csv = "string \<Rightarrow> frame res"

definition column :: "frame \<Rightarrow> string \<Rightarrow> cell list res" where
  "column df c = (if c \<in> set (fr_columns df) then Inr (map (\<lambda>row. row c) (fr_rows df)) else Inl (KeyError c))"

definition rows_with :: "frame \<Rightarrow> string \<Rightarrow> string \<Rightarrow> frame res" where
  "rows_with df c v = bindR (column df c) (\<lambda>_. Inr (df\<lparr>fr_rows := filter (\<lambda>row. row c = Text v) (fr_rows df)\<rparr>))"

fun number :: "cell \<Rightarrow> rat res" where
  "number (Num x) = Inr x"
| "number (Text s) = Inl (TypeError ''unsupported operand type'')"

definition from_minimum :: "rat list \<Rightarrow> rat list" where
  "from_minimum xs = map (\<lambda>x. x - Min (set xs)) xs"

definition set_column :: "frame \<Rightarrow> string \<Rightarrow> rat list \<Rightarrow> frame" where
  "set_column df c xs = df\<lparr>fr_rows := map (\<lambda>(row, x). row(c := Num x)) (zip (fr_rows df) xs)\<rparr>"

section \<open>Settings of the script\<close>

definition LEVELS :: "nat list" where
  "LEVELS = [1, 10, 100, 1000]"

definition PHASES :: "string list" where
  "PHASES = [''before_index'', ''after_index'']"

definition LEVEL_FILES :: "nat \<Rightarrow> string" where
  "LEVEL_FILES level = (if level = 1 then ''L1'' else if level = 10 then ''L2'' else if level = 100 then ''L3'' else ''L4'')"

definition COLORS :: "(string \<times> string) list" where
  "COLORS = [(''50%'', ''#2196F3''), (''95%'', ''#FF9800''), (''99%'', ''#F44336'')]"

section \<open>The charts of a phase\<close>

definition load_history :: "csv \<Rightarrow> string \<Rightarrow> nat \<Rightarrow> frame res" where
  "load_history read_csv phase level =
     bindR (read_csv (phase @ ''/'' @ LEVEL_FILES level @ ''_stats_history.csv'')) (\<lambda>df.
     bindR (column df ''Timestamp'') (\<lambda>ts.
     bindR (map_res number ts) (\<lambda>xs. Inr (set_column df ''Timestamp'' (from_minimum xs)))))"

text \<open>A line of a panel has a label, a colour and its points; the note is the exception the panel shows instead.\<close>

record line =
  ln_label :: string
  ln_color :: string
  ln_points :: "(cell \<times> cell) list"

record panel =
  pn_level :: nat
  pn_lines :: "line list"
  pn_note :: "exn option"

definition points :: "frame \<Rightarrow> string \<Rightarrow> (cell \<times> cell) list" where
  "points agg c = map (\<lambda>row. (row ''Timestamp'', row c)) (fr_rows agg)"

definition draw_panel :: "csv \<Rightarrow> (string \<times> string \<times> string) list \<Rightarrow> string \<Rightarrow> nat \<Rightarrow> panel" where
  "draw_panel read_csv curves phase level =
     (case bindR (load_history read_csv phase level) (\<lambda>df. rows_with df ''Name'' ''Aggregated'') of
        Inl e \<Rightarrow> \<lparr>pn_level = level, pn_lines = [], pn_note = Some e\<rparr>
      | Inr agg \<Rightarrow> \<lparr>pn_level = level,
          pn_lines = map (\<lambda>(c, label, color). \<lparr>ln_label = label, ln_color = color, ln_points = points agg c\<rparr>)
            (filter (\<lambda>(c, label, color). c \<in> set (fr_columns agg)) curves),
          pn_note = None\<rparr>)"

definition plot_latency_phase :: "csv \<Rightarrow> string \<Rightarrow> string \<times> panel list" where
  "plot_latency_phase read_csv phase =
     (''latency_'' @ phase @ ''.png'',
      map (draw_panel read_csv (map (\<lambda>(pct, color). (pct, ''p'' @ filter (\<lambda>c. c \<noteq> CHR ''%'') pct, color)) COLORS) phase) LEVELS)"

definition plot_throughput_phase :: "csv \<Rightarrow> string \<Rightarrow> string \<times> panel list" where
  "plot_throughput_phase read_csv phase =
     (''throughput_'' @ phase @ ''.png'', map (draw_panel read_csv [(''Requests/s'', ''RPS'', ''#4CAF50'')] phase) LEVELS)"

section \<open>The comparison\<close>

text \<open>\<^verbatim>\<open>float(agg[c].values[0])\<close> on a frame with a row.\<close>

definition first_value :: "(string \<Rightarrow> rat res) \<Rightarrow> frame \<Rightarrow> string \<Rightarrow> rat res" where
  "first_value float agg c =
     bindR (column agg c) (\<lambda>vs. case vs of [] \<Rightarrow> Inl IndexError | Num x # _ \<Rightarrow> Inr x | Text s # _ \<Rightarrow> float s)"

text \<open>What one report appends to the list of the percentiles and to the list of the rates.\<close>

definition compare_entry :: "csv \<Rightarrow> (string \<Rightarrow> rat res) \<Rightarrow> string \<Rightarrow> nat \<Rightarrow> rat list \<times> rat list" where
  "compare_entry read_csv float phase level =
     (case bindR (read_csv (phase @ ''/'' @ LEVEL_FILES level @ ''_stats.csv'')) (\<lambda>df. rows_with df ''Name'' ''Aggregated'') of
        Inl e \<Rightarrow> ([0], [0])
      | Inr agg \<Rightarrow>
          if fr_rows agg = [] then ([0], [0])
          else (case first_value float agg ''95%'' of
                  Inl e \<Rightarrow> ([0], [0])
                | Inr p \<Rightarrow> (case first_value float agg ''Requests/s'' of Inl e \<Rightarrow> ([p, 0], [0]) | Inr r \<Rightarrow> ([p], [r]))))"

definition collected :: "csv \<Rightarrow> (string \<Rightarrow> rat res) \<Rightarrow> string \<Rightarrow> rat list \<times> rat list" where
  "collected read_csv float phase =
     fold (\<lambda>level (ps, rs). case compare_entry read_csv float phase level of (p, r) \<Rightarrow> (ps @ p, rs @ r)) LEVELS ([], [])"

text \<open>\<^verbatim>\<open>ax.bar(x, heights)\<close> needs as many heights as positions (or a single one, for all of them).\<close>

definition bars :: "nat list \<Rightarrow> rat list \<Rightarrow> (nat \<times> rat) list res" where
  "bars x heights =
     (if length heights = length x then Inr (zip x heights)
      else if length heights = 1 then Inr (map (\<lambda>i. (i, hd heights)) x)
      else Inl (ValueError ''shape mismatch''))"

definition plot_comparison :: "csv \<Rightarrow> (string \<Rightarrow> rat res) \<Rightarrow> (nat \<times> rat) list list res" where
  "plot_comparison read_csv float =
     (let (p95_before, rps_before) = collected read_csv float ''before_index'';
          (p95_after, rps_after) = collected read_csv float ''after_index'';
          x = [0..<length LEVELS]
      in map_res (bars x) [p95_before, p95_after, rps_before, rps_after])"

section \<open>Properties\<close>

text \<open>The time axis of a panel starts at zero.\<close>

lemma from_minimum_starts: "xs \<noteq> [] \<Longrightarrow> 0 \<in> set (from_minimum xs) \<and> (\<forall>x \<in> set (from_minimum xs). 0 \<le> x)"
  using Min_in [of "set xs"] by (force simp: from_minimum_def)

text \<open>A report that has the percentile but no rate.\<close>

definition half_report :: "csv \<Rightarrow> (string \<Rightarrow> rat res) \<Rightarrow> string \<Rightarrow> nat \<Rightarrow> bool" where
  "half_report read_csv float phase level \<longleftrightarrow> length (fst (compare_entry read_csv float phase level)) = 2"

definition bar_values :: "csv \<Rightarrow> (string \<Rightarrow> rat res) \<Rightarrow> string \<Rightarrow> nat \<Rightarrow> rat \<times> rat" where
  "bar_values read_csv float phase level = (case compare_entry read_csv float phase level of (p, r) \<Rightarrow> (hd p, hd r))"

lemma compare_entry_shape:
  "compare_entry read_csv float phase level =
     (if half_report read_csv float phase level then ([fst (bar_values read_csv float phase level), 0], [0])
      else ([fst (bar_values read_csv float phase level)], [snd (bar_values read_csv float phase level)]))"
  by (auto simp: half_report_def bar_values_def compare_entry_def split: sum.splits)

lemma bars_percentiles:
  "bars [0..<length LEVELS] (fst (collected read_csv float phase)) =
     (if \<exists>level \<in> set LEVELS. half_report read_csv float phase level then Inl (ValueError ''shape mismatch'')
      else Inr (zip [0..<4] (map (\<lambda>level. fst (bar_values read_csv float phase level)) LEVELS)))"
  by (simp add: bars_def collected_def LEVELS_def compare_entry_shape split del: if_split) (auto simp: upt_rec LEVELS_def)

lemma bars_rates:
  "\<forall>level \<in> set LEVELS. \<not> half_report read_csv float phase level \<Longrightarrow>
   bars [0..<length LEVELS] (snd (collected read_csv float phase)) =
     Inr (zip [0..<4] (map (\<lambda>level. snd (bar_values read_csv float phase level)) LEVELS))"
  by (simp add: bars_def collected_def LEVELS_def compare_entry_shape upt_rec)

text \<open>The comparison of the phases is drawn with one bar for every level and phase, zero for a report that cannot be
  read, unless some report has the percentile but no rate: then nothing is drawn, because the list of the percentiles gets two entries for that report.\<close>

theorem comparison_all_or_nothing:
  "plot_comparison read_csv float =
     (if \<exists>phase \<in> set PHASES. \<exists>level \<in> set LEVELS. half_report read_csv float phase level then Inl (ValueError ''shape mismatch'')
      else Inr (map (\<lambda>(phase, select). zip [0..<4] (map (\<lambda>level. select (bar_values read_csv float phase level)) LEVELS))
        [(''before_index'', fst), (''after_index'', fst), (''before_index'', snd), (''after_index'', snd)]))"
proof -
  have "plot_comparison read_csv float = map_res (bars [0..<length LEVELS])
      [fst (collected read_csv float ''before_index''), fst (collected read_csv float ''after_index''),
       snd (collected read_csv float ''before_index''), snd (collected read_csv float ''after_index'')]"
    by (simp add: plot_comparison_def split_def Let_def)
  then show ?thesis using bars_rates [of read_csv float]
    by (auto simp: bars_percentiles PHASES_def bindR_def)
qed

end
