(* ===== verification/Spec2Isabelle.thy ===== *)
theory Spec2Isabelle
  imports Resharding_Live Ws_Bridge Ws_Session Rabbit_Connect Rmq_Delivery Site_Tests Feed_Faults Feed_Redelivery Key_Types Dialogs_Contract
    Lifespan Seed_Friends Load_Posts Seed_Dialogs Load_Search Load_Dialogs Charts
begin

text \<open>
  Verification of a social network backend: users, posts and friendships in PostgreSQL with replicas, news feeds in
  Redis, notifications over RabbitMQ and websockets, dialogs on sharded PostgreSQL or on Tarantool, and the workers, tools,
  seeding scripts, load tests and acceptance scripts around them (\<^verbatim>\<open>src/app\<close>, \<^verbatim>\<open>src/scripts\<close> and \<^verbatim>\<open>src/reports\<close>).

  \<^bold>\<open>How the program is modelled.\<close>  An asynchronous function is a program \<open>('s, 'a) prog\<close> on the state it touches: it returns a
  result, which is an exception (\<open>Inl\<close>) or a value (\<open>Inr\<close>), and the new state.  A method keeps the name of the Python
  method where that is possible; the class attributes of a singleton are a record.  Servers and libraries are
  parameters.  What the code relies on in them is a locale: \<open>redis_server\<close> (a server that answers every command as
  documented by \<open>redis_step\<close>), \<open>faulty_server\<close> (commands or replies may get lost), \<open>topic_broker\<close> and \<open>live_broker\<close> (a topic
  exchange), \<open>password_library\<close>, \<open>dialog_udfs\<close> (the stored functions of Tarantool), \<open>dialog_repository\<close> (the protocol of the
  dialog storages), \<open>dialog_udfs_run\<close>, \<open>typed_server\<close> (commands keep the kinds of the keys), \<open>fair_progress\<close> (progress by a fair
  action), \<open>requeue_policy\<close> (where a broker puts a message that comes back), \<open>notification_service\<close> (what the acceptance scripts rely on in
  the system they test, interpreted on the whole system) and \<open>shard_router\<close>.  Each is interpreted on executable functions, so no hypothesis is empty.

  \<^bold>\<open>Theories and sources.\<close>
  \<^item> \<open>Prelude\<close>: exceptions, results, programs, loops, Python's string functions, generic lemmas.  \<open>Uuid\<close>, \<open>Datetime\<close>, \<open>Sha256\<close>:
    the parts of the standard library the code uses, with their round trips and orders.
  \<^item> \<open>Config\<close> (\<^verbatim>\<open>config.py\<close>), \<open>Database\<close> (\<^verbatim>\<open>database.py\<close>), \<open>Redis_Client\<close> (\<^verbatim>\<open>redis_client.py\<close>), \<open>Rabbit_Client\<close> (\<^verbatim>\<open>rabbit_client.py\<close>),
    \<open>Auth\<close> (\<^verbatim>\<open>auth.py\<close>), \<open>Lifespan\<close> (\<^verbatim>\<open>main.py\<close>).
  \<^item> \<open>Social_Db\<close>: the tables of users, posts and friendships and the statements on them; \<open>Web_State\<close>: the state of a request.
    \<open>Routes_Posts\<close> (\<^verbatim>\<open>routes/posts.py\<close>, \<^verbatim>\<open>routes/friends.py\<close>), \<open>Routes_Users\<close> (\<^verbatim>\<open>routes/users.py\<close>).
  \<^item> \<open>Redis_Server\<close>, \<open>Redis_Zset\<close>: commands and their documented effect.  \<open>Feed_Cache\<close>: \<^verbatim>\<open>feed_cache.py\<close> and
    \<^verbatim>\<open>services/celebrity.py\<close>.  \<open>Feed_Effects\<close> computes the effect of each function, \<open>Feed_Spec\<close> says what a feed should hold
    (the newest posts of the friends, as many as the limit allows), \<open>Feed_Invariant\<close> and \<open>Feed_System\<close> show that every sequence of
    requests keeps it and that a page is a slice of the tables; \<open>Feed_Props\<close> has the properties of the single
    functions, \<open>Feed_Celebrity\<close> and \<open>Feed_Merged\<close> those of the merged read, \<open>Feed_Faults\<close> those on a failing server.
  \<^item> \<open>Feed_Worker\<close>, \<open>Feed_Async\<close>, \<open>Feed_Recovery\<close>, \<open>Feed_Redelivery\<close> (\<^verbatim>\<open>workers/feed_worker.py\<close>): no event is lost, the asynchronous
    path equals the synchronous one, the recovery ends and works off what a crash left, a redelivery is harmless.
    \<open>Feed_Liveness\<close>: a step relation of publications, rounds of several workers and other requests; under fairness of the rounds every
    published event is handled.  \<open>Key_Types\<close>: the keys of the cache are typed, and every client keeps them so on a failing server.
    \<open>Feed_Worker_Rmq\<close> (\<^verbatim>\<open>workers/feed_worker_rmq.py\<close>): the feeds and the notifications of a created post.  \<open>Rmq_Delivery\<close>: the queue of that
    worker with its prefetch window, acknowledgements that may fail, returned messages and lost connections; no message is lost,
    events are handled under the conditions stated there, and messages the handler refuses can stop the queue.
    \<open>End_To_End\<close> and the theorem below follow a post from the request over the broker and the worker to the sockets,
    \<open>Celebrity_Path\<close> the post of an author with many followers to the feed of a reader.
  \<^item> \<open>Rabbit_Broker\<close>: topic routing.  \<open>Connection_Manager\<close> (\<^verbatim>\<open>ws/connection_manager.py\<close>), \<open>Ws_Bridge\<close> (\<^verbatim>\<open>ws/rabbit_bridge.py\<close>) and
    \<open>Ws_Feed\<close> (\<^verbatim>\<open>routes/ws_feed.py\<close>): an event reaches exactly the sockets of its user, a session cleans up after itself.
    \<open>Ws_Session\<close>: the idle timeout and the heartbeat in time.  \<open>Rabbit_Connect\<close>: tasks that call \<^verbatim>\<open>RabbitClient.connect\<close> at the same time.
  \<^item> \<open>Sharding\<close> (\<^verbatim>\<open>dialogs/sharding.py\<close>), \<open>Cluster\<close> (\<^verbatim>\<open>dialogs/cluster.py\<close>), \<open>Messages\<close> (the table of messages), \<open>Dialogs_Pg\<close>
    (\<^verbatim>\<open>dialogs/pg_repository.py\<close>), \<open>Dialogs_Tarantool\<close> (\<^verbatim>\<open>dialogs/tarantool_client.py\<close>, \<^verbatim>\<open>tarantool_repository.py\<close>, \<^verbatim>\<open>factory.py\<close>,
    \<^verbatim>\<open>routes/dialogs.py\<close>), \<open>Dialogs_Contract\<close>: both storages provide the repository protocol.
  \<^item> \<open>Resharding\<close>, \<open>Resharding_Spec\<close>, \<open>Resharding_Cycle\<close>, \<open>Resharding_Online\<close> (\<^verbatim>\<open>scripts/resharding.py\<close>): a full run keeps every dialog,
    also when messages are sent while the backfill runs (a step relation with its invariant); \<open>Resharding_Live\<close> carries this through to the
    cleanup.
  \<^item> \<open>Script_Db\<close>, \<open>Datetime_Arith\<close>, \<open>Csv_Reader\<close>: a database connection whose calls may fail, dates, and the reader of CSV files.
    \<open>Seed_Users\<close> (\<^verbatim>\<open>scripts/seed_users.py\<close>), \<open>Seed_Friends\<close> (\<^verbatim>\<open>scripts/seed_friends.py\<close>), \<open>Load_Posts\<close> (\<^verbatim>\<open>scripts/load_posts.py\<close>),
    \<open>Seed_Dialogs\<close> (\<^verbatim>\<open>scripts/seed_dialogs_tarantool.py\<close>): what a run leaves in the tables, exactly, and that a failing run leaves them
    well-formed.  \<open>Load_Search\<close>, \<open>Load_Dialogs\<close> (\<^verbatim>\<open>scripts/locust\<close>): the load tests run against the handlers of the application.
    \<open>Charts\<close> (\<^verbatim>\<open>scripts/generate_charts.py\<close>) and \<open>Reports\<close> (\<^verbatim>\<open>reports/homework_6_websocket/scripts\<close>): the data of the charts and the
    conclusions of the acceptance scripts.
  \<^item> \<open>Acceptance\<close>: the five test scripts as programs of a client, and what they report on any system that notifies its listeners.
    \<open>Site\<close>: the deployed system, put together from the handlers, the websocket sessions, the worker, the bridges, the broker, the cache and
    the tables, with its invariant; it is such a system.  \<open>Site_Tests\<close>: the scripts succeed on it.

  \<^bold>\<open>Bounds and fuel.\<close>  \<open>recover_pending\<close> takes fuel; one round more than the consumer has pending entries is enough, on any
    server (\<open>recover_total\<close>, \<open>recovery_acks_all\<close>).  The loops of the backfill and of the cleanup end by measures on the rows.
    Endless loops of the workers are modelled by their rounds.  \<open>await_delivery\<close> counts its rounds down as the script does; one is enough
    (\<open>awaited\<close>).  Scores and timestamps are integers in microseconds.

  \<^bold>\<open>Simplifications.\<close>  Local time is UTC, as in the containers.  Expiry and eviction of keys happen between commands and are states of
    the cache, not commands.  A request handler is atomic except where a theory interleaves its steps (the backfill with live
    sends, a rebuild with a fan-out, a rebuild with failing commands, the deliveries of RabbitMQ, concurrent connects).
    In \<open>Site\<close> a pause of a client is long enough for the worker and the bridges to work off their queues, tokens stay valid while a script
    runs, and no script runs until the first ping (\<open>default_pings\<close>).

  \<^bold>\<open>Not modelled.\<close>  The stored functions of Tarantool (their module is not in the repository), pydantic's reading of the
    environment, the framework's routing and the health check, signal handling, logging and printed progress, the parsing of command lines,
    the layout of the charts, the waiting times and weights of Locust, and \<^verbatim>\<open>metrics_snapshot.py\<close>, which prints what the broker returns.

  \<^bold>\<open>Plan.\<close>  The interleaving of single commands of concurrent requests beyond the rebuild; the redelivery of a created message whose
    acknowledgement was lost, which notifies its followers a second time.
\<close>

section \<open>From a request to the sockets\<close>

text \<open>C2: With the RabbitMQ transport, the creation of a post returns its identifier and puts exactly one
  message into the queue of the worker.  When the worker handles that message, every feed of a follower has the post, and every
  queue of a websocket process receives one notification for each follower it is bound for.  The bridge sends such a
  notification exactly to the sockets of that follower that accept it.\<close>

theorem created_post_reaches_sockets:
  fixes w :: "('p, 'c, 'r, 'b) world"
  assumes "redis_server exec view" and "live_broker bind unbind pub bound inbox up"
    and "feed_transport S = ''rabbitmq''" and "prefix_ok S" and "literal_key (rabbitmq_materialize_routing_key S)"
    and "0 \<le> feed_max_size S" and "0 < celebrity_cache_ttl S"
    and "db_master_pool (wo_database w) = Some mp" and "wo_tables w mp = s" and "social_ok (sql_insert_post p s)"
    and "a \<in> us_id ` set (so_users s)" and "i \<notin> po_id ` set (so_posts s)"
    and "rc_client (wo_redis_client w) \<noteq> None" and "cache_ok (view (wo_redis w))" and "up (wo_broker w)"
    and "p = \<lparr>po_id = i, po_author = a, po_text = x, po_created = t\<rparr>" and "dt_ok t" and "x \<noteq> []"
    and "\<not> flagged S s (view (wo_redis w)) a"
    and "bound (wo_broker w) mq = {rabbitmq_materialize_routing_key S}"
    and "rabbitmq_materialize_routing_key S \<notin> bound (wo_broker w) q" and "\<forall>k \<in> bound (wo_broker w) q. literal_key k"
    and "manager_ok c"
  shows "\<exists>w1 w2. create_post S exec (\<lambda>k j _. pub k (dumps j)) i t x a w = (Inr i, w1)
    \<and> inbox (wo_broker w1) mq = inbox (wo_broker w) mq @ [(rabbitmq_materialize_routing_key S, dumps (created_payload p))]
    \<and> rmq_handle_message S exec (\<lambda>k j _. pub k (dumps j)) (dumps (created_payload p)) w1 = (Inr (), w2)
    \<and> (\<forall>u. zset_at (view (wo_redis w2)) (feed_key u) = pushed_feed S s False p (view (wo_redis w)) u)
    \<and> inbox (wo_broker w2) q = inbox (wo_broker w) q @
        map (\<lambda>u. (user_routing_key S (uuid_str u), dumps (post_new_payload i a x t)))
          (filter (\<lambda>u. user_routing_key S (uuid_str u) \<in> bound (wo_broker w) q) (sql_followers s a))
    \<and> (\<forall>u. fst (bridge_handle cb ok (user_routing_key S (uuid_str u), dumps (post_new_payload i a x t)) (c, e))
        = map (\<lambda>ws. (ws, post_new_payload i a x t)) (filter ok (conns_of c u)))"
proof -
  let ?pub = "\<lambda>k j _. pub k (dumps j)" and ?v = "view_world view w"
  obtain v1 v2 where v: "create_post S redis_step ?pub i t x a ?v = (Inr i, v1)"
      "inbox (wo_broker v1) mq = inbox (wo_broker w) mq @ [(rabbitmq_materialize_routing_key S, dumps (created_payload p))]"
      "rmq_handle_message S redis_step ?pub (dumps (created_payload p)) v1 = (Inr (), v2)"
      "\<forall>u. zset_at (wo_redis v2) (feed_key u) = pushed_feed S s False p (view (wo_redis w)) u"
      "inbox (wo_broker v2) q = inbox (wo_broker w) q @
        map (\<lambda>u. (user_routing_key S (uuid_str u), dumps (post_new_payload i a x t)))
          (filter (\<lambda>u. user_routing_key S (uuid_str u) \<in> bound (wo_broker w) q) (sql_followers s a))"
    using created_post_delivered [OF assms(2,3), of ?v mp s p a i x t mq q] assms(5-22) by auto
  obtain w1 w2 where w: "create_post S exec ?pub i t x a w = (Inr i, w1)" "view_world view w1 = v1"
      "rmq_handle_message S exec ?pub (dumps (created_payload p)) w1 = (Inr (), w2)" "view_world view w2 = v2"
    using redis_server.request_sim [OF assms(1) v(1,3)] by blast
  have "wo_broker v1 = wo_broker w1" "wo_broker v2 = wo_broker w2" "wo_redis v2 = view (wo_redis w2)"
    by (simp_all flip: w(2,4))
  then show ?thesis using w v by - (rule exI [of _ w1], rule exI [of _ w2], simp add: bridge_pushes [OF assms(4,23)])
qed

definition rabbit_settings :: settings where
  "rabbit_settings = default_settings\<lparr>feed_transport := ''rabbitmq''\<rparr>"

definition demo_request_world :: "(nat, unit, redis, broker) world" where
  "demo_request_world = \<lparr>wo_database = \<lparr>db_master_pool = Some 0, db_slave_pools = [], db_slave_cycle = None\<rparr>,
     wo_tables = (\<lambda>_. demo_tables [] [(1, 2)]), wo_redis_client = \<lparr>rc_client = Some ()\<rparr>, wo_redis = Map.empty,
     wo_broker = demo_broker\<lparr>bk_bindings := [(''work'', ''feed.materialize''), (''ws'', user_routing_key rabbit_settings (uuid_str 1))]\<rparr>\<rparr>"

lemma created_post_reaches_sockets_witness:
  "\<exists>w1 w2. create_post rabbit_settings redis_step (\<lambda>k j _. broker_publish k (dumps j)) 5 (po_created demo_post) ''hi'' 2 demo_request_world = (Inr 5, w1)
    \<and> bk_inbox (wo_broker w1) ''work'' = [(''feed.materialize'', dumps (created_payload demo_post))]
    \<and> rmq_handle_message rabbit_settings redis_step (\<lambda>k j _. broker_publish k (dumps j)) (dumps (created_payload demo_post)) w1 = (Inr (), w2)
    \<and> bk_inbox (wo_broker w2) ''ws'' = [(user_routing_key rabbit_settings (uuid_str 1), dumps (post_new_payload 5 2 ''hi'' (po_created demo_post)))]
    \<and> fst (bridge_handle None (\<lambda>_. True) (user_routing_key rabbit_settings (uuid_str 1), dumps (post_new_payload 5 2 ''hi'' (po_created demo_post)))
        (\<lparr>cm_conns = [(1, [9 :: nat])]\<rparr>, ())) = [(9, post_new_payload 5 2 ''hi'' (po_created demo_post))]"
proof -
  let ?S = rabbit_settings and ?w = demo_request_world and ?s = "demo_tables [] [(1, 2)]"
  have S: "feed_transport ?S = ''rabbitmq''" "rabbitmq_materialize_routing_key ?S = ''feed.materialize''" "0 \<le> feed_max_size ?S" "0 < celebrity_cache_ttl ?S"
    by (simp_all add: rabbit_settings_def default_settings_def)
  have pf: "prefix_ok ?S" using prefix_ok_default by (simp add: prefix_ok_def rabbit_settings_def)
  have lit: "literal_key (rabbitmq_materialize_routing_key ?S)" by (simp add: S literal_key_def)
  have key: "user_routing_key ?S (uuid_str 1) \<noteq> ''feed.materialize''" by (simp add: user_routing_key_def rabbit_settings_def default_settings_def)
  have w: "db_master_pool (wo_database ?w) = Some 0" "wo_tables ?w 0 = ?s" "rc_client (wo_redis_client ?w) \<noteq> None" "bk_up (wo_broker ?w)"
      "broker_bound (wo_broker ?w) ''work'' = {rabbitmq_materialize_routing_key ?S}"
      "broker_bound (wo_broker ?w) ''ws'' = {user_routing_key ?S (uuid_str 1)}" "wo_redis ?w = Map.empty"
      "bk_inbox (wo_broker ?w) qq = []" for qq
    by (auto simp: demo_request_world_def demo_broker_def broker_bound_def S)
  have c: "cache_ok (wo_redis ?w)" unfolding w(7) by (rule cache_ok_empty)
  have s: "social_ok (sql_insert_post demo_post ?s)" by (simp add: demo_insert demo_tables_ok)
  have a: "2 \<in> us_id ` set (so_users ?s)" "5 \<notin> po_id ` set (so_posts ?s)" by (simp_all add: demo_tables_def demo_user_def)
  have p: "demo_post = \<lparr>po_id = 5, po_author = 2, po_text = ''hi'', po_created = po_created demo_post\<rparr>" "dt_ok (po_created demo_post)" "''hi'' \<noteq> []"
    by (simp_all add: demo_post_def dt_ok_def days_in_month_def)
  have fs: "sql_followers ?s 2 = [1]" by (simp add: sql_followers_def demo_tables_def)
  have fl: "\<not> flagged ?S ?s (wo_redis ?w) 2"
    by (simp add: flagged_def cached_flag_def w(7) sql_count_followers_def fs rabbit_settings_def default_settings_def)
  have q: "rabbitmq_materialize_routing_key ?S \<notin> broker_bound (wo_broker ?w) ''ws''" "\<forall>k \<in> broker_bound (wo_broker ?w) ''ws''. literal_key k"
    using key literal_user_key [OF pf] by (simp_all add: w S)
  have m: "manager_ok \<lparr>cm_conns = [(1, [9 :: nat])]\<rparr>" by (simp add: manager_ok_def)
  note created_post_reaches_sockets [OF documented.redis_server_axioms live.live_broker_axioms S(1) pf lit S(3,4) w(1,2) s a w(3) c w(4) p fl w(5) q m,
      of None "\<lambda>_. True" "()"]
  then show ?thesis by (simp add: w(6,8) S(2) fs) (auto simp: conns_of_def)
qed

end
